(* ===== verification/Prelude.thy ===== *)
theory Prelude
  imports Main "HOL-Library.Word"
begin

text \<open>
  Shared vocabulary of the development: the machine integer types, the outcome of a
  kernel operation, the sequencing of operations over an explicit state, a weakest
  precondition calculus for them, and the list and word lemmas that several components use.
\<close>

section \<open>Machine integers\<close>

unbundle bit_operations_syntax

type_synonym u8 = "8 word"
type_synonym u16 = "16 word"
type_synonym u32 = "32 word"
type_synonym bytes = "8 word list"

named_theorems kernel_defs "definitions of the sequencing operators"
named_theorems state_order "updates of the lower parts of the state go innermost"
named_theorems word_facts "arithmetic of 32-bit counters that do not wrap"

lemma unat_u32_less [simp]: "unat (w :: u32) < 4294967296"
  using unsigned_less [of w] by simp

lemma unat_inc_u32 [word_facts]:
  assumes "unat (w :: u32) < 4294967295"
  shows "unat (w + 1) = Suc (unat w)"
  using assms by (simp add: unat_word_ariths)

lemma unat_dec_u32 [word_facts]:
  assumes "0 < unat (w :: u32)"
  shows "unat (w - 1) = unat w - 1"
  using assms by (metis One_nat_def unat_eq_zero unat_minus_one less_numeral_extra(3))

lemma unat_add_u32 [word_facts]:
  assumes "unat (a :: u32) + unat b < 4294967296"
  shows "unat (a + b) = unat a + unat b"
  using assms by (simp add: unat_word_ariths)

lemma unat_mult_u32 [word_facts]:
  assumes "unat (a :: u32) * unat b < 4294967296"
  shows "unat (a * b) = unat a * unat b"
  using assms by (simp add: unat_word_ariths)

lemma unat_of_nat_u32 [word_facts]:
  assumes "n < 4294967296"
  shows "unat (of_nat n :: u32) = n"
  using assms by (simp add: unat_of_nat)

lemma of_nat_u32_eq_iff:
  assumes "m < 4294967296" "n < 4294967296"
  shows "(of_nat m :: u32) = of_nat n \<longleftrightarrow> m = n"
  using assms by (metis unat_of_nat_u32)

section \<open>Outcomes of kernel operations\<close>

text \<open>
  An operation of the kernel returns a value in a new state, stops in \<open>panic\<close> (the message
  is on the screen of the state it stops in), never returns (a busy wait whose condition never
  comes), or performs an access the C language gives no meaning to (an index outside an array).
\<close>

datatype ('s, 'a) outcome =
    Ok 'a 's
  | Panicked string 's
  | Hang
  | Undefined

type_synonym ('s, 'a) kM = "'s \<Rightarrow> ('s, 'a) outcome"

definition kret :: "'a \<Rightarrow> ('s, 'a) kM" where
  [kernel_defs]: "kret a = (\<lambda>s. Ok a s)"

definition kbind :: "('s, 'a) kM \<Rightarrow> ('a \<Rightarrow> ('s, 'b) kM) \<Rightarrow> ('s, 'b) kM" where
  [kernel_defs]: "kbind f g = (\<lambda>s. case f s of
      Ok a s' \<Rightarrow> g a s'
    | Panicked m s' \<Rightarrow> Panicked m s'
    | Hang \<Rightarrow> Hang
    | Undefined \<Rightarrow> Undefined)"

definition kseq :: "('s, unit) kM \<Rightarrow> ('s, 'b) kM \<Rightarrow> ('s, 'b) kM" where
  [kernel_defs]: "kseq f g = kbind f (\<lambda>_. g)"

definition kget :: "('s \<Rightarrow> 'a) \<Rightarrow> ('s, 'a) kM" where
  [kernel_defs]: "kget f = (\<lambda>s. Ok (f s) s)"

definition kmod :: "('s \<Rightarrow> 's) \<Rightarrow> ('s, unit) kM" where
  [kernel_defs]: "kmod f = (\<lambda>s. Ok () (f s))"

definition khang :: "('s, 'a) kM" where
  [kernel_defs]: "khang = (\<lambda>s. Hang)"

definition kguard :: "bool \<Rightarrow> ('s, unit) kM" where
  [kernel_defs]: "kguard b = (\<lambda>s. if b then Ok () s else Undefined)"

text \<open>A counting \<open>for\<close> loop visits the given indices in order.\<close>

primrec kfor :: "nat list \<Rightarrow> (nat \<Rightarrow> ('s, unit) kM) \<Rightarrow> ('s, unit) kM" where
  "kfor [] body = kret ()"
| "kfor (i # is) body = kseq (body i) (kfor is body)"

lemma kbind_kret [simp]: "kbind (kret a) g = g a"
  by (simp add: kernel_defs)

lemma kbind_assoc: "kbind (kbind f g) h = kbind f (\<lambda>a. kbind (g a) h)"
  by (auto simp: kernel_defs fun_eq_iff split: outcome.splits)

lemma kbind_Ok: "f s = Ok a s' \<Longrightarrow> kbind f g s = g a s'"
  by (simp add: kernel_defs)

lemma kbind_Panicked: "f s = Panicked m s' \<Longrightarrow> kbind f g s = Panicked m s'"
  by (simp add: kernel_defs)

lemma kseq_Ok: "f s = Ok () s' \<Longrightarrow> kseq f g s = g s'"
  by (simp add: kernel_defs)

lemma kseq_kmod [simp]: "kseq (kmod f) g s = g (f s)"
  by (simp add: kernel_defs)

lemma kbind_kget [simp]: "kbind (kget f) g s = g (f s) s"
  by (simp add: kernel_defs)

lemma kfor_append: "kfor (xs @ ys) body s = kseq (kfor xs body) (kfor ys body) s"
  by (induction xs arbitrary: s) (auto simp: kernel_defs split: outcome.splits)

section \<open>Weakest preconditions\<close>

text \<open>
  \<open>wp f Q s\<close> is total correctness: \<open>f\<close> started in \<open>s\<close> returns (no panic, no hang, no
  undefined access) a value and a state that satisfy \<open>Q\<close>.
\<close>

definition wp :: "('s, 'a) kM \<Rightarrow> ('a \<Rightarrow> 's \<Rightarrow> bool) \<Rightarrow> 's \<Rightarrow> bool" where
  "wp f Q s = (case f s of Ok a s' \<Rightarrow> Q a s' | _ \<Rightarrow> False)"

lemma wp_kret [simp]: "wp (kret a) Q = Q a"
  by (simp add: wp_def kernel_defs fun_eq_iff)

lemma wp_kbind [simp]: "wp (kbind f g) Q = wp f (\<lambda>a. wp (g a) Q)"
  by (simp add: wp_def kernel_defs fun_eq_iff split: outcome.splits)

lemma wp_kseq [simp]: "wp (kseq f g) Q = wp f (\<lambda>_. wp g Q)"
  by (simp add: kseq_def)

lemma wp_kget [simp]: "wp (kget f) Q s = Q (f s) s"
  by (simp add: wp_def kernel_defs)

lemma wp_kmod [simp]: "wp (kmod f) Q s = Q () (f s)"
  by (simp add: wp_def kernel_defs)

lemma wp_khang [simp]: "\<not> wp khang Q s"
  by (simp add: wp_def kernel_defs)

lemma wp_kguard [simp]: "wp (kguard b) Q s = (b \<and> Q () s)"
  by (simp add: wp_def kernel_defs)

lemma wp_if [simp]: "wp (if b then f else g) Q s = (if b then wp f Q s else wp g Q s)"
  by simp

lemma wp_mono:
  assumes "wp f P s" and "\<And>a s'. P a s' \<Longrightarrow> Q a s'"
  shows "wp f Q s"
  using assms by (auto simp: wp_def split: outcome.splits)

lemma wp_conj:
  assumes "wp f P s" and "wp f Q s"
  shows "wp f (\<lambda>a s'. P a s' \<and> Q a s') s"
  using assms by (auto simp: wp_def split: outcome.splits)

lemma wpI: "f s = Ok a s' \<Longrightarrow> Q a s' \<Longrightarrow> wp f Q s"
  by (simp add: wp_def)

lemma wpE:
  assumes "wp f Q s"
  obtains a s' where "f s = Ok a s'" and "Q a s'"
  using assms by (auto simp: wp_def split: outcome.splits)

lemma wp_Ok_iff: "wp f Q s \<longleftrightarrow> (\<exists>a s'. f s = Ok a s' \<and> Q a s')"
  by (auto simp: wp_def split: outcome.splits)

lemma wp_kfor_upt:
  assumes "a \<le> b" and "I a s"
    and "\<And>i s. a \<le> i \<Longrightarrow> i < b \<Longrightarrow> I i s \<Longrightarrow> wp (body i) (\<lambda>_. I (Suc i)) s"
  shows "wp (kfor [a..<b] body) (\<lambda>_. I b) s"
  using assms
proof (induction "b - a" arbitrary: a s)
  case 0
  then show ?case by simp
next
  case (Suc d)
  then have "a < b" by simp
  then have "wp (body a) (\<lambda>_. I (Suc a)) s"
    using Suc.prems by simp
  moreover have "wp (kfor [Suc a..<b] body) (\<lambda>_. I b) s'" if "I (Suc a) s'" for s'
    using Suc.prems Suc.hyps(2) \<open>a < b\<close> that by (intro Suc.hyps(1)) auto
  ultimately have "wp (body a) (\<lambda>_. wp (kfor [Suc a..<b] body) (\<lambda>_. I b)) s"
    by (rule wp_mono)
  with \<open>a < b\<close> show ?case by (simp add: upt_conv_Cons)
qed

section \<open>Lists\<close>

lemma nth_list_update_iff:
  "i < length xs \<Longrightarrow> xs[i := v] ! j = (if i = j then v else xs ! j)"
  by (auto simp: nth_list_update)

lemma fold_upt_Suc: "fold f [0..<Suc n] v = f n (fold f [0..<n] v)"
  by simp

lemma length_filter_update:
  assumes "i < length xs"
  shows "length (filter P (xs[i := v])) + of_bool (P (xs ! i))
    = length (filter P xs) + of_bool (P v)"
  using assms
proof (induction xs arbitrary: i)
  case Nil
  then show ?case by simp
next
  case (Cons x xs)
  then show ?case by (cases i) (auto simp: of_bool_def)
qed

end
