(* ===== verification/Machine.thy ===== *)
theory Machine
  imports Prelude
begin

text \<open>
  The machine under the kernel: the physical memory the kernel reaches through pointers, the
  text-mode video memory (indexed by the offset from \<open>0xb8000\<close>), the I/O ports (\<open>drivers/io/basic_io.c\<close>) and the
  interrupt flag. The hardware behind the ports is not part of the program: \<open>hw_byte\<close> and
  \<open>hw_word\<close> are arbitrary functions that give the value an \<open>in\<close> instruction reads from a
  port, from the whole history of port accesses, newest first. No operation changes them.
\<close>

section \<open>State\<close>

datatype io_event = In_b u16 u8 | In_w u16 u16 | Out_b u16 u8 | Out_w u16 u16

type_synonym memory = "u32 \<Rightarrow> u8"

record machine =
  mem :: memory
  vidmem :: "u16 \<Rightarrow> u8"
  io_log :: "io_event list"
  hw_byte :: "io_event list \<Rightarrow> u16 \<Rightarrow> u8"
  hw_word :: "io_event list \<Rightarrow> u16 \<Rightarrow> u16"
  int_enabled :: bool

lemma machine_state_order [state_order]:
  "(s\<lparr>mem := x_mem\<rparr>)\<lparr>vidmem := y_vidmem\<rparr> = (s\<lparr>vidmem := y_vidmem\<rparr>)\<lparr>mem := x_mem\<rparr>"
  "(s\<lparr>mem := x_mem\<rparr>)\<lparr>io_log := y_io_log\<rparr> = (s\<lparr>io_log := y_io_log\<rparr>)\<lparr>mem := x_mem\<rparr>"
  "(s\<lparr>io_log := x_io_log\<rparr>)\<lparr>vidmem := y_vidmem\<rparr> = (s\<lparr>vidmem := y_vidmem\<rparr>)\<lparr>io_log := x_io_log\<rparr>"
  by simp_all

section \<open>Port I/O (basic\_io.c)\<close>

definition io_byte_in :: "u16 \<Rightarrow> ('z machine_scheme, u8) kM" where
  "io_byte_in port = (\<lambda>s. let result = hw_byte s (io_log s) port
     in Ok result (s\<lparr>io_log := In_b port result # io_log s\<rparr>))"

definition io_word_in :: "u16 \<Rightarrow> ('z machine_scheme, u16) kM" where
  "io_word_in port = (\<lambda>s. let result = hw_word s (io_log s) port
     in Ok result (s\<lparr>io_log := In_w port result # io_log s\<rparr>))"

definition io_byte_out :: "u16 \<Rightarrow> u8 \<Rightarrow> ('z machine_scheme, unit) kM" where
  "io_byte_out port data = kmod (\<lambda>s. s\<lparr>io_log := Out_b port data # io_log s\<rparr>)"

definition io_word_out :: "u16 \<Rightarrow> u16 \<Rightarrow> ('z machine_scheme, unit) kM" where
  "io_word_out port data = kmod (\<lambda>s. s\<lparr>io_log := Out_w port data # io_log s\<rparr>)"

definition io_wait :: "('z machine_scheme, unit) kM" where
  "io_wait = kmod (\<lambda>s. s\<lparr>io_log := Out_b 0x80 0 # io_log s\<rparr>)"

lemma wp_io_byte_in [simp]:
  "wp (io_byte_in port) Q s =
     (let v = hw_byte s (io_log s) port in Q v (s\<lparr>io_log := In_b port v # io_log s\<rparr>))"
  by (simp add: io_byte_in_def wp_def Let_def)

lemma wp_io_byte_out [simp]:
  "wp (io_byte_out port v) Q s = Q () (s\<lparr>io_log := Out_b port v # io_log s\<rparr>)"
  by (simp add: io_byte_out_def)

lemma wp_io_wait [simp]:
  "wp io_wait Q s = Q () (s\<lparr>io_log := Out_b 0x80 0 # io_log s\<rparr>)"
  by (simp add: io_wait_def)

text \<open>The bytes sent to a port, oldest first.\<close>

definition sent_to :: "u16 \<Rightarrow> io_event list \<Rightarrow> bytes" where
  "sent_to port l = rev (List.map_filter (\<lambda>e. case e of Out_b p v \<Rightarrow> if p = port then Some v else None
      | _ \<Rightarrow> None) l)"

lemma sent_to_simps [simp]:
  "sent_to port (Out_b p v # l) = sent_to port l @ (if p = port then [v] else [])"
  "sent_to port (In_b p v # l) = sent_to port l"
  "sent_to port [] = []"
  by (simp_all add: sent_to_def map_filter_simps)

section \<open>Bytes and little-endian words in memory\<close>

definition load_bytes :: "memory \<Rightarrow> u32 \<Rightarrow> nat \<Rightarrow> bytes" where
  "load_bytes m a n = map (\<lambda>i. m (a + of_nat i)) [0..<n]"

primrec store_bytes :: "memory \<Rightarrow> u32 \<Rightarrow> bytes \<Rightarrow> memory" where
  "store_bytes m a [] = m"
| "store_bytes m a (b # bs) = store_bytes (m(a := b)) (a + 1) bs"

definition le16_bytes :: "u16 \<Rightarrow> bytes" where
  "le16_bytes v = [ucast v, ucast (drop_bit 8 v)]"

definition le16_of :: "bytes \<Rightarrow> u16" where
  "le16_of bs = ucast (bs ! 0) OR push_bit 8 (ucast (bs ! 1))"

definition le32_bytes :: "u32 \<Rightarrow> bytes" where
  "le32_bytes v = [ucast v, ucast (drop_bit 8 v), ucast (drop_bit 16 v), ucast (drop_bit 24 v)]"

definition le32_of :: "bytes \<Rightarrow> u32" where
  "le32_of bs = ucast (bs ! 0) OR push_bit 8 (ucast (bs ! 1))
     OR push_bit 16 (ucast (bs ! 2)) OR push_bit 24 (ucast (bs ! 3))"

definition load32 :: "memory \<Rightarrow> u32 \<Rightarrow> u32" where
  "load32 m a = le32_of [m a, m (a + 1), m (a + 2), m (a + 3)]"

definition store32 :: "memory \<Rightarrow> u32 \<Rightarrow> u32 \<Rightarrow> memory" where
  "store32 m a v = m(a := ucast v, a + 1 := ucast (drop_bit 8 v),
     a + 2 := ucast (drop_bit 16 v), a + 3 := ucast (drop_bit 24 v))"

lemma length_le16_bytes [simp]: "length (le16_bytes v) = 2"
  by (simp add: le16_bytes_def)

lemma length_le32_bytes [simp]: "length (le32_bytes v) = 4"
  by (simp add: le32_bytes_def)

lemma le16_roundtrip [simp]: "le16_of (le16_bytes v) = v"
  by (rule bit_word_eqI) (auto simp: le16_of_def le16_bytes_def bit_simps)

lemma le32_roundtrip [simp]: "le32_of (le32_bytes v) = v"
proof (rule bit_word_eqI)
  fix n
  assume "n < LENGTH(32)"
  then consider "n < 8" | "8 \<le> n" "n < 16" | "16 \<le> n" "n < 24" | "24 \<le> n" "n < 32"
    by fastforce
  then show "bit (le32_of (le32_bytes v)) n = bit v n"
    by cases (auto simp: le32_of_def le32_bytes_def bit_simps)
qed

lemma load32_store32_same [simp]: "load32 (store32 m a v) a = v"
proof -
  have "load32 (store32 m a v) a = le32_of (le32_bytes v)"
    by (simp add: load32_def store32_def le32_bytes_def)
  then show ?thesis by simp
qed

lemma store32_other:
  assumes "b \<notin> {a, a + 1, a + 2, a + 3}"
  shows "store32 m a v b = m b"
  using assms by (auto simp: store32_def)

section \<open>Pages\<close>

definition page_of :: "u32 \<Rightarrow> u32" where
  "page_of a = a AND NOT 0xFFF"

lemma page_of_alt: "page_of a = push_bit 12 (drop_bit 12 a)"
proof -
  have "(0xFFF :: u32) = mask 12"
    by (simp add: mask_eq_exp_minus_1)
  then have "page_of a = a AND NOT (mask 12)"
    by (simp only: page_of_def)
  also have "\<dots> = push_bit 12 (drop_bit 12 a)"
    by (rule bit_word_eqI) (auto simp: bit_simps)
  finally show ?thesis .
qed

lemma unat_page_of: "unat (page_of a) = unat a div 4096 * 4096"
proof -
  have "unat a div 4096 * 4096 \<le> unat a"
    by (metis mult.commute times_div_less_eq_dividend)
  then have "unat a div 4096 * 4096 < 4294967296"
    using unat_u32_less [of a] by linarith
  then show ?thesis
    by (simp add: page_of_alt unsigned_push_bit_eq unat_drop_bit_eq take_bit_nat_eq_self
        push_bit_nat_def drop_bit_nat_def)
qed

lemma page_of_eq_iff: "page_of a = page_of b \<longleftrightarrow> unat a div 4096 = unat b div 4096"
  by (simp add: word_unat_eq_iff unat_page_of)

lemma unat_and_FFF: "unat (p AND 0xFFF :: u32) = unat p mod 4096"
proof -
  have "(0xFFF :: u32) = mask 12"
    by (simp add: mask_eq_exp_minus_1)
  then have "p AND 0xFFF = take_bit 12 p"
    by (simp only: take_bit_eq_mask)
  then show ?thesis
    by (simp add: unsigned_take_bit_eq take_bit_nat_def)
qed

lemma page_aligned_iff: "(p :: u32) AND 0xFFF = 0 \<longleftrightarrow> 4096 dvd unat p"
  using unat_and_FFF [of p] by (metis unat_eq_zero dvd_eq_mod_eq_0)

lemma page_aligned_room:
  assumes "4096 dvd unat (p :: u32)"
  shows "unat p + 4096 \<le> 4294967296"
proof -
  obtain k where k: "unat p = 4096 * k"
    using assms by (rule dvdE)
  then have "4096 * k < 4096 * 1048576"
    using unat_u32_less [of p] by simp
  with k show ?thesis by simp
qed

lemma page_offset:
  assumes "4096 dvd unat p" and "i < 4096"
  shows "unat (p + of_nat i) = unat p + i" and "page_of (p + of_nat i) = p"
proof -
  have "unat p + i < 4294967296"
    using assms page_aligned_room [of p] by linarith
  with assms(2) show *: "unat (p + of_nat i) = unat p + i"
    by (simp add: word_facts)
  obtain k where "unat p = 4096 * k"
    using assms(1) by (rule dvdE)
  then have "unat (page_of (p + of_nat i)) = unat p"
    unfolding unat_page_of * using assms(2) by simp
  then show "page_of (p + of_nat i) = p"
    by (simp add: word_unat_eq_iff)
qed

end
