(* ===== verification/Vga.thy ===== *)
theory Vga
  imports Machine "HOL-Library.Signed_Division"
begin

text \<open>
  The text-mode display driver (\<open>drivers/video/vga.c\<close>, \<open>vga.h\<close>) and the kernel's
  \<open>panic\<close> (\<open>libc/stdlib.c\<close>), which writes to the display only and never returns.
\<close>

section \<open>Definitions\<close>

text \<open>A C string is the list of its bytes before the terminating zero byte.\<close>

definition cstr :: "string \<Rightarrow> bytes" where
  "cstr = map of_char"

datatype vga_display_color =
    VGA_DISPLAY_COLOR_BLACK | VGA_DISPLAY_COLOR_BLUE | VGA_DISPLAY_COLOR_GREEN
  | VGA_DISPLAY_COLOR_CYAN | VGA_DISPLAY_COLOR_RED | VGA_DISPLAY_COLOR_MAGENTA
  | VGA_DISPLAY_COLOR_BROWN | VGA_DISPLAY_COLOR_LIGHTGRAY | VGA_DISPLAY_COLOR_DARKGRAY
  | VGA_DISPLAY_COLOR_LIGHTBLUE | VGA_DISPLAY_COLOR_LIGHTGREEN | VGA_DISPLAY_COLOR_LIGHTCYAN
  | VGA_DISPLAY_COLOR_LIGHTRED | VGA_DISPLAY_COLOR_PINK | VGA_DISPLAY_COLOR_YELLOW
  | VGA_DISPLAY_COLOR_WHITE

fun vga_color_value :: "vga_display_color \<Rightarrow> u8" where
  "vga_color_value VGA_DISPLAY_COLOR_BLACK = 0"
| "vga_color_value VGA_DISPLAY_COLOR_BLUE = 1"
| "vga_color_value VGA_DISPLAY_COLOR_GREEN = 2"
| "vga_color_value VGA_DISPLAY_COLOR_CYAN = 3"
| "vga_color_value VGA_DISPLAY_COLOR_RED = 4"
| "vga_color_value VGA_DISPLAY_COLOR_MAGENTA = 5"
| "vga_color_value VGA_DISPLAY_COLOR_BROWN = 6"
| "vga_color_value VGA_DISPLAY_COLOR_LIGHTGRAY = 7"
| "vga_color_value VGA_DISPLAY_COLOR_DARKGRAY = 8"
| "vga_color_value VGA_DISPLAY_COLOR_LIGHTBLUE = 9"
| "vga_color_value VGA_DISPLAY_COLOR_LIGHTGREEN = 10"
| "vga_color_value VGA_DISPLAY_COLOR_LIGHTCYAN = 11"
| "vga_color_value VGA_DISPLAY_COLOR_LIGHTRED = 12"
| "vga_color_value VGA_DISPLAY_COLOR_PINK = 13"
| "vga_color_value VGA_DISPLAY_COLOR_YELLOW = 14"
| "vga_color_value VGA_DISPLAY_COLOR_WHITE = 15"

definition vga_make_display_color :: "u8 \<Rightarrow> u8 \<Rightarrow> u8" where
  "vga_make_display_color foreground background = push_bit 4 background OR foreground"

abbreviation (input) "MAX_ROWS \<equiv> (25 :: int)"
abbreviation (input) "MAX_COLS \<equiv> (80 :: int)"
abbreviation (input) "VCHAR_CELLSIZE \<equiv> (2 :: int)"
abbreviation (input) "REG_SCREEN_CTRL \<equiv> (0x3D4 :: u16)"
abbreviation (input) "REG_SCREEN_DATA \<equiv> (0x3D5 :: u16)"

definition get_offset :: "int \<Rightarrow> int \<Rightarrow> u16" where
  "get_offset col row = word_of_int ((row * MAX_COLS + col) * VCHAR_CELLSIZE)"

definition offset_to_row :: "int \<Rightarrow> int" where
  "offset_to_row offset = offset sdiv (VCHAR_CELLSIZE * MAX_COLS)"

definition offset_to_col :: "int \<Rightarrow> int" where
  "offset_to_col offset =
     (offset - offset_to_row offset * MAX_COLS * VCHAR_CELLSIZE) sdiv VCHAR_CELLSIZE"

definition get_cursor_offset :: "('z machine_scheme, u16) kM" where
  "get_cursor_offset =
     kseq (io_byte_out REG_SCREEN_CTRL 14)
    (kbind (io_byte_in REG_SCREEN_DATA) (\<lambda>hi.
     kseq (io_byte_out REG_SCREEN_CTRL 15)
    (kbind (io_byte_in REG_SCREEN_DATA) (\<lambda>lo.
     kret ((push_bit 8 (ucast hi) OR ucast lo) * 2)))))"

definition set_cursor_offset :: "u16 \<Rightarrow> ('z machine_scheme, unit) kM" where
  "set_cursor_offset offset = (let offset = offset div 2 in
     kseq (io_byte_out REG_SCREEN_CTRL 14)
    (kseq (io_byte_out REG_SCREEN_DATA (ucast (drop_bit 8 offset)))
    (kseq (io_byte_out REG_SCREEN_CTRL 15)
          (io_byte_out REG_SCREEN_DATA (ucast (offset AND 0xFF))))))"

text \<open>The two copy loops and the clearing loop of \<open>print_char\<close>'s scrolling branch.\<close>

definition scroll_row :: "nat \<Rightarrow> (u16 \<Rightarrow> u8) \<Rightarrow> (u16 \<Rightarrow> u8)" where
  "scroll_row i v = fold (\<lambda>j v. v(get_offset 0 (int i - 1) + of_nat j :=
       v (get_offset 0 (int i) + of_nat j))) [0..<160] v"

definition scroll_clear :: "(u16 \<Rightarrow> u8) \<Rightarrow> (u16 \<Rightarrow> u8)" where
  "scroll_clear v = fold (\<lambda>j v. v(get_offset 0 (MAX_ROWS - 1) + of_nat j := 0)) [0..<160] v"

definition scroll_screen :: "(u16 \<Rightarrow> u8) \<Rightarrow> (u16 \<Rightarrow> u8)" where
  "scroll_screen v = scroll_clear (fold scroll_row [1..<25] v)"

definition print_char :: "u8 \<Rightarrow> u8 \<Rightarrow> u8 \<Rightarrow> u8 \<Rightarrow> ('z machine_scheme, int) kM" where
  "print_char character col row char_color =
     (if col \<ge> 80 \<or> row \<ge> 25 then kret 0
      else
        let char_color = (if char_color = 0
              then vga_make_display_color (vga_color_value VGA_DISPLAY_COLOR_WHITE)
                     (vga_color_value VGA_DISPLAY_COLOR_BLACK)
              else char_color);
            vidmem_offset = get_offset (uint col) (uint row)
        in kbind
             (if character = 10 then kret (get_offset 0 (uint (row + 1)))
              else kseq (kmod (\<lambda>s. s\<lparr>vidmem := (vidmem s)(vidmem_offset := character,
                       vidmem_offset + 1 := char_color)\<rparr>))
                     (kret (vidmem_offset + 2)))
             (\<lambda>vidmem_offset.
           kbind
             (if uint vidmem_offset \<ge> MAX_ROWS * MAX_COLS * VCHAR_CELLSIZE
              then kseq (kmod (\<lambda>s. s\<lparr>vidmem := scroll_screen (vidmem s)\<rparr>))
                     (kret (vidmem_offset - 160))
              else kret vidmem_offset)
             (\<lambda>vidmem_offset.
           kseq (set_cursor_offset vidmem_offset) (kret (uint vidmem_offset)))))"

definition vga_clear_screen :: "('z machine_scheme, unit) kM" where
  "vga_clear_screen =
     kseq (kfor [0..<25] (\<lambda>row. kfor [0..<80] (\<lambda>col.
             kbind (print_char 32 (of_nat col) (of_nat row) 0) (\<lambda>_. kret ()))))
          (set_cursor_offset 0)"

text \<open>The message loop stops at the first zero byte, or at the end of the list.\<close>

primrec vga_print_loop :: "bytes \<Rightarrow> u8 \<Rightarrow> int \<Rightarrow> ('z machine_scheme, unit) kM" where
  "vga_print_loop [] color offset = kret ()"
| "vga_print_loop (c # message) color offset =
     (if c = 0 then kret ()
      else let row = offset_to_row offset; col = offset_to_col offset
        in kbind (print_char c (word_of_int col) (word_of_int row) color)
             (\<lambda>offset. vga_print_loop message color offset))"

definition vga_print_screen :: "bytes \<Rightarrow> u8 \<Rightarrow> ('z machine_scheme, unit) kM" where
  "vga_print_screen message color =
     kbind get_cursor_offset (\<lambda>offset. vga_print_loop message color (uint offset))"

definition vga_print_screen_char :: "u8 \<Rightarrow> u8 \<Rightarrow> ('z machine_scheme, unit) kM" where
  "vga_print_screen_char character color =
     kbind get_cursor_offset (\<lambda>offset.
       let row = offset_to_row (uint offset); col = offset_to_col (uint offset)
       in kbind (print_char character (word_of_int col) (word_of_int row) color) (\<lambda>_. kret ()))"

text \<open>\<open>panic\<close> (stdlib.c) prints on the screen, in the error colour, and stops.\<close>

abbreviation (input) "DEFAULT_TEXT_COLOR \<equiv> (0x0F :: u8)"
abbreviation (input) "DEFAULT_ERROR_COLOR \<equiv> (0x05 :: u8)"

definition panic :: "string \<Rightarrow> ('z machine_scheme, 'a) kM" where
  "panic message =
     kseq (vga_print_screen [10] DEFAULT_ERROR_COLOR)
    (kseq (vga_print_screen (cstr ''KERNEL PANIC: '') DEFAULT_ERROR_COLOR)
    (kseq (vga_print_screen (cstr message) DEFAULT_ERROR_COLOR)
          (\<lambda>s. Panicked message s)))"

section \<open>Display operations touch the display only\<close>

text \<open>
  \<open>display_only f\<close>: \<open>f\<close> always returns, changes at most the video memory and the
  port history, and sends nothing to a port other than the display's.
\<close>

definition screen_log :: "io_event list \<Rightarrow> io_event list \<Rightarrow> bool" where
  "screen_log l l' \<longleftrightarrow> (\<forall>p. p \<notin> {REG_SCREEN_CTRL, REG_SCREEN_DATA} \<longrightarrow> sent_to p l' = sent_to p l)"

lemma screen_log_refl [simp]: "screen_log l l"
  by (simp add: screen_log_def)

lemma screen_log_trans: "screen_log l l' \<Longrightarrow> screen_log l' l'' \<Longrightarrow> screen_log l l''"
  by (simp add: screen_log_def)

definition display_only :: "('z machine_scheme, 'a) kM \<Rightarrow> bool" where
  "display_only f \<longleftrightarrow> (\<forall>s. \<exists>a v l. f s = Ok a (s\<lparr>vidmem := v, io_log := l\<rparr>)
     \<and> screen_log (io_log s) l)"

named_theorems display_rules "operations that touch the display only"

lemma display_onlyI: "(\<And>s. \<exists>a v l. f s = Ok a (s\<lparr>vidmem := v, io_log := l\<rparr>) \<and> screen_log (io_log s) l) \<Longrightarrow> display_only f"
  by (simp add: display_only_def)

lemma display_onlyE:
  assumes "display_only f"
  obtains a v l where "f s = Ok a (s\<lparr>vidmem := v, io_log := l\<rparr>)" "screen_log (io_log s) l"
  using assms unfolding display_only_def by meson

lemma display_only_kret [display_rules]: "display_only (kret a)"
proof (rule display_onlyI)
  fix s :: "'z machine_scheme"
  have "kret a s = Ok a (s\<lparr>vidmem := vidmem s, io_log := io_log s\<rparr>)"
    by (simp add: kret_def)
  then show "\<exists>a' v l. kret a s = Ok a' (s\<lparr>vidmem := v, io_log := l\<rparr>) \<and> screen_log (io_log s) l"
    by (metis screen_log_refl)
qed

lemma display_only_kbind [display_rules]:
  assumes "display_only f" and "\<And>a. display_only (g a)"
  shows "display_only (kbind f g)"
proof (rule display_onlyI)
  fix s
  obtain a v l where f: "f s = Ok a (s\<lparr>vidmem := v, io_log := l\<rparr>)" "screen_log (io_log s) l"
    using assms(1) by (rule display_onlyE)
  obtain a' v' l' where
    "g a (s\<lparr>vidmem := v, io_log := l\<rparr>) = Ok a' (s\<lparr>vidmem := v, io_log := l\<rparr>\<lparr>vidmem := v', io_log := l'\<rparr>)"
    "screen_log (io_log (s\<lparr>vidmem := v, io_log := l\<rparr>)) l'"
    using assms(2) by (rule display_onlyE)
  with f have "kbind f g s = Ok a' (s\<lparr>vidmem := v', io_log := l'\<rparr>)" "screen_log (io_log s) l'"
    by (auto simp: kbind_Ok intro: screen_log_trans)
  then show "\<exists>a v l. kbind f g s = Ok a (s\<lparr>vidmem := v, io_log := l\<rparr>) \<and> screen_log (io_log s) l" by blast
qed

lemma display_only_kseq [display_rules]:
  "display_only f \<Longrightarrow> display_only g \<Longrightarrow> display_only (kseq f g)"
  by (simp add: kseq_def display_rules)

lemma display_only_if [display_rules]:
  "display_only f \<Longrightarrow> display_only g \<Longrightarrow> display_only (if b then f else g)"
  by simp

lemma display_only_kfor [display_rules]:
  assumes "\<And>i. display_only (body i)"
  shows "display_only (kfor xs body)"
  by (induction xs) (use assms in \<open>simp_all add: display_rules\<close>)

lemma display_only_vidmem [display_rules]:
  "display_only (kmod (\<lambda>s. s\<lparr>vidmem := f (vidmem s)\<rparr>))"
proof (rule display_onlyI)
  fix s :: "'z machine_scheme"
  have "kmod (\<lambda>s. s\<lparr>vidmem := f (vidmem s)\<rparr>) s
      = Ok () (s\<lparr>vidmem := f (vidmem s), io_log := io_log s\<rparr>)"
    by (simp add: kmod_def)
  then show "\<exists>a v l. kmod (\<lambda>s. s\<lparr>vidmem := f (vidmem s)\<rparr>) s
      = Ok a (s\<lparr>vidmem := v, io_log := l\<rparr>) \<and> screen_log (io_log s) l"
    by (metis screen_log_refl)
qed

lemma display_only_port [display_rules]:
  "display_only (io_byte_out REG_SCREEN_CTRL v)" "display_only (io_byte_out REG_SCREEN_DATA v)"
  "display_only (io_byte_in port)"
proof -
  have vid: "t\<lparr>io_log := l\<rparr> = t\<lparr>vidmem := vidmem t, io_log := l\<rparr>" for t :: "'y machine_scheme" and l
    by simp
  have log: "screen_log l (Out_b REG_SCREEN_CTRL v # l)" "screen_log l (Out_b REG_SCREEN_DATA v # l)"
    "screen_log l (In_b port b # l)" for l v b and port
    by (simp_all add: screen_log_def)
  show "display_only (io_byte_out REG_SCREEN_CTRL v)" "display_only (io_byte_out REG_SCREEN_DATA v)"
    "display_only (io_byte_in port)"
    by (rule display_onlyI; simp add: io_byte_out_def io_byte_in_def kmod_def Let_def; metis vid log)+
qed

lemma display_only_cursor [display_rules]:
  "display_only get_cursor_offset" "display_only (set_cursor_offset offset)"
  unfolding get_cursor_offset_def set_cursor_offset_def Let_def by (intro display_rules)+

lemma display_only_print_char [display_rules]: "display_only (print_char c col row color)"
  unfolding print_char_def Let_def by (intro display_rules)

lemma display_only_print_loop [display_rules]:
  "display_only (vga_print_loop message color offset)"
  by (induction message arbitrary: offset) (auto simp: Let_def intro!: display_rules)

lemma display_only_vga [display_rules]:
  "display_only (vga_print_screen message color)" "display_only (vga_print_screen_char c color)"
  "display_only vga_clear_screen"
  unfolding vga_print_screen_def vga_print_screen_char_def vga_clear_screen_def Let_def
  by (intro display_rules)+

lemma wp_display_only:
  assumes "display_only f" and "\<And>a v l. screen_log (io_log s) l \<Longrightarrow> Q a (s\<lparr>vidmem := v, io_log := l\<rparr>)"
  shows "wp f Q s"
  using assms(1) by (rule display_onlyE [of f s]) (use assms(2) in \<open>auto intro: wpI\<close>)

text \<open>\<open>panic\<close> always stops, with the message it was given, and changes the display only.\<close>

lemma panic_stops:
  obtains v l where "panic m s = Panicked m (s\<lparr>vidmem := v, io_log := l\<rparr>)"
proof -
  let ?print = "kseq (vga_print_screen [10] DEFAULT_ERROR_COLOR)
    (kseq (vga_print_screen (cstr ''KERNEL PANIC: '') DEFAULT_ERROR_COLOR)
          (vga_print_screen (cstr m) DEFAULT_ERROR_COLOR))"
  have "display_only ?print" by (intro display_rules)
  then obtain v l where "?print s = Ok () (s\<lparr>vidmem := v, io_log := l\<rparr>)"
    by (rule display_onlyE [where s = s]) auto
  then have "panic m s = Panicked m (s\<lparr>vidmem := v, io_log := l\<rparr>)"
    by (auto simp: panic_def kernel_defs split: outcome.splits)
  then show thesis by (rule that)
qed

lemma wp_panic [simp]: "\<not> wp (panic m) Q s"
  using panic_stops [of m s] by (metis outcome.distinct(1) wpE)

section \<open>Offsets and scrolling\<close>

lemma unat_get_offset:
  assumes "0 \<le> col" "col < 80" "0 \<le> row" "row < 26"
  shows "unat (get_offset col row) = nat ((row * 80 + col) * 2)"
proof -
  have "(row * 80 + col) * 2 < 65536" "0 \<le> (row * 80 + col) * 2"
    using assms by auto
  then have "uint (get_offset col row) = (row * 80 + col) * 2"
    by (simp only: get_offset_def uint_word_of_int) simp
  then show ?thesis by (simp add: unat_eq_nat_uint)
qed

lemma unat_add_u16: "unat (a :: u16) + n < 65536 \<Longrightarrow> unat (a + of_nat n) = unat a + n"
  by (simp add: unat_word_ariths unat_of_nat)

lemma fold_copy:
  fixes a b :: u16
  assumes "unat a + n \<le> unat b" and "unat b + n \<le> 65536"
  shows "fold (\<lambda>j v. v(a + of_nat j := v (b + of_nat j))) [0..<n] v o'
    = (if unat a \<le> unat o' \<and> unat o' < unat a + n then v (o' + (b - a)) else v o')"
  using assms
proof (induction n arbitrary: o')
  case 0
  then show ?case by auto
next
  case (Suc n)
  define w where "w = fold (\<lambda>j v. v(a + of_nat j := v (b + of_nat j))) [0..<n] v"
  have an: "unat (a + of_nat n) = unat a + n" and bn: "unat (b + of_nat n) = unat b + n"
    using Suc.prems by (simp_all add: unat_add_u16)
  have "w (b + of_nat n) = v (b + of_nat n)"
    unfolding w_def using Suc.prems by (subst Suc.IH) (auto simp: bn)
  moreover have "o' = a + of_nat n \<longleftrightarrow> unat o' = unat a + n"
    by (metis an word_unat_eq_iff)
  moreover have "w o' = (if unat a \<le> unat o' \<and> unat o' < unat a + n then v (o' + (b - a)) else v o')"
    unfolding w_def using Suc.prems by (intro Suc.IH) auto
  moreover have "a + of_nat n + (b - a) = b + of_nat n" by simp
  ultimately have "(w(a + of_nat n := w (b + of_nat n))) o' =
      (if unat a \<le> unat o' \<and> unat o' < unat a + Suc n then v (o' + (b - a)) else v o')"
    by (auto simp: add.commute)
  then show ?case by (simp only: fold_upt_Suc w_def)
qed

lemma fold_clear:
  fixes a :: u16
  assumes "unat a + n \<le> 65536"
  shows "fold (\<lambda>j v. v(a + of_nat j := 0)) [0..<n] v o'
    = (if unat a \<le> unat o' \<and> unat o' < unat a + n then 0 else v o')"
  using assms
proof (induction n arbitrary: o')
  case 0
  then show ?case by auto
next
  case (Suc n)
  have "o' = a + of_nat n \<longleftrightarrow> unat o' = unat a + n"
    using Suc.prems by (metis unat_add_u16 add_Suc_right Suc_le_eq word_unat_eq_iff)
  with Suc show ?case by auto
qed

text \<open>Row \<open>i\<close> is copied over row \<open>i - 1\<close>.\<close>

lemma scroll_row_eq:
  assumes "1 \<le> i" "i < 25"
  shows "scroll_row i v o' =
    (if (i - 1) * 160 \<le> unat o' \<and> unat o' < i * 160 then v (o' + 160) else v o')"
proof -
  have a: "unat (get_offset 0 (int i - 1)) = (i - 1) * 160"
    using assms by (subst unat_get_offset) auto
  have b: "unat (get_offset 0 (int i)) = i * 160"
    using assms by (subst unat_get_offset) auto
  have diff: "get_offset 0 (int i) - get_offset 0 (int i - 1) = 160"
    by (simp add: get_offset_def algebra_simps flip: wi_hom_syms)
  show ?thesis
    unfolding scroll_row_def
    using assms by (subst fold_copy) (auto simp: a b diff diff_mult_distrib)
qed

lemma fold_scroll_row:
  assumes "k \<le> 24"
  shows "fold scroll_row [1..<Suc k] v o' = (if unat o' < k * 160 then v (o' + 160) else v o')"
  using assms
proof (induction k arbitrary: o')
  case 0
  then show ?case by simp
next
  case (Suc k)
  define w where "w = fold scroll_row [1..<Suc k] v"
  have IH: "w x = (if unat x < k * 160 then v (x + 160) else v x)" for x
    unfolding w_def using Suc by simp
  have "fold scroll_row [1..<Suc (Suc k)] v o' = scroll_row (Suc k) w o'"
    by (simp add: w_def)
  also have "\<dots> = (if k * 160 \<le> unat o' \<and> unat o' < Suc k * 160 then w (o' + 160) else w o')"
    using Suc.prems by (subst scroll_row_eq) auto
  also have "\<dots> = (if unat o' < Suc k * 160 then v (o' + 160) else v o')"
  proof -
    have "unat (o' + 160) = unat o' + 160" if "unat o' < Suc k * 160"
      using that Suc.prems unat_add_u16 [of o' 160] by simp
    then show ?thesis by (auto simp: IH)
  qed
  finally show ?case .
qed

text \<open>
  Reference definition of scrolling: every cell takes the byte one row (160 bytes) below it,
  the last row becomes zero, and nothing outside the 4000 bytes of the screen changes.
\<close>

definition scrolled :: "(u16 \<Rightarrow> u8) \<Rightarrow> (u16 \<Rightarrow> u8)" where
  "scrolled v = (\<lambda>o'. if unat o' < 3840 then v (o' + 160) else if unat o' < 4000 then 0 else v o')"

lemma scroll_screen_eq_scrolled: "scroll_screen v = scrolled v"
proof
  fix o'
  have "unat (get_offset 0 24) = 3840" by (subst unat_get_offset) auto
  then have "scroll_clear w o' = (if 3840 \<le> unat o' \<and> unat o' < 4000 then 0 else w o')" for w
    unfolding scroll_clear_def by (simp add: fold_clear)
  moreover have "fold scroll_row [1..<25] v o' = (if unat o' < 3840 then v (o' + 160) else v o')"
    using fold_scroll_row [of 24 v o'] by simp
  ultimately show "scroll_screen v o' = scrolled v o'"
    by (auto simp: scroll_screen_def scrolled_def)
qed

section \<open>Printing a character\<close>

text \<open>The port writes that set the hardware cursor to a byte offset, newest first.\<close>

definition cursor_writes :: "u16 \<Rightarrow> io_event list" where
  "cursor_writes offset =
     [Out_b REG_SCREEN_DATA (ucast (offset div 2 AND 0xFF)), Out_b REG_SCREEN_CTRL 15,
      Out_b REG_SCREEN_DATA (ucast (drop_bit 8 (offset div 2))), Out_b REG_SCREEN_CTRL 14]"

lemma wp_set_cursor_offset [simp]:
  "wp (set_cursor_offset offset) Q s = Q () (s\<lparr>io_log := cursor_writes offset @ io_log s\<rparr>)"
  by (simp add: set_cursor_offset_def cursor_writes_def Let_def)









text \<open>The copying loops of the scrolling branch compute the reference scroll: each byte of
  the first 24 rows takes the byte one row below, the last row is cleared, and the rest of the
  video memory is untouched.\<close>

theorem scroll_screen_reference: "scroll_screen v = scrolled v"
  by (rule scroll_screen_eq_scrolled)

section \<open>The cursor registers\<close>

text \<open>
  The CRT controller's documented behaviour: a byte written to the index port selects a register,
  and the data port reads back what was last written to the selected register.
\<close>

primrec crtc_index :: "io_event list \<Rightarrow> u8" where
  "crtc_index [] = 0"
| "crtc_index (e # l) = (case e of Out_b p v \<Rightarrow> if p = REG_SCREEN_CTRL then v else crtc_index l
     | _ \<Rightarrow> crtc_index l)"

primrec crtc_reg :: "u8 \<Rightarrow> io_event list \<Rightarrow> u8" where
  "crtc_reg r [] = 0"
| "crtc_reg r (e # l) = (case e of
       Out_b p v \<Rightarrow> if p = REG_SCREEN_DATA \<and> crtc_index l = r then v else crtc_reg r l
     | _ \<Rightarrow> crtc_reg r l)"

definition crtc_readback :: "(io_event list \<Rightarrow> u16 \<Rightarrow> u8) \<Rightarrow> bool" where
  "crtc_readback hw \<longleftrightarrow> (\<forall>l. hw l REG_SCREEN_DATA = crtc_reg (crtc_index l) l)"

lemma word_split_bytes: "push_bit 8 (ucast (ucast (drop_bit 8 w) :: u8)) OR ucast (ucast (w AND 0xFF) :: u8)
    = (w :: u16)"
proof -
  have "(0xFF :: u16) = mask 8" by (simp add: mask_eq_exp_minus_1)
  then have "push_bit 8 (ucast (ucast (drop_bit 8 w) :: u8)) OR ucast (ucast (w AND 0xFF) :: u8)
    = push_bit 8 (ucast (ucast (drop_bit 8 w) :: u8)) OR ucast (ucast (w AND mask 8) :: u8)"
    by (simp only:)
  also have "\<dots> = w"
    by (rule bit_word_eqI) (auto simp: bit_simps)
  finally show ?thesis .
qed

text \<open>With a CRT controller that reads back what was written, the cursor read after the
  cursor was set to a cell is that cell (so consecutive prints continue where the last one
  ended).\<close>

theorem cursor_roundtrip:
  assumes "crtc_readback (hw_byte s)" and "even (unat offset)"
  shows "wp (kseq (set_cursor_offset offset) get_cursor_offset) (\<lambda>r s'. r = offset) s"
proof -
  have "unat (offset div 2 * 2) = unat offset"
  proof -
    have "unat offset < 65536" using unsigned_less [of offset] by simp
    with assms(2) show ?thesis
      by (simp add: unat_word_ariths unat_div_distrib mod_less less_imp_diff_less)
  qed
  then have "offset div 2 * 2 = offset" by (simp add: word_unat_eq_iff)
  with assms(1) show ?thesis
    by (simp add: get_cursor_offset_def cursor_writes_def crtc_readback_def Let_def word_split_bytes)
qed

theorem cursor_roundtrip_witness:
  "wp (kseq (set_cursor_offset 162) get_cursor_offset) (\<lambda>r s'. r = 162)
   \<lparr>mem = (\<lambda>_. 0), vidmem = (\<lambda>_. 0), io_log = [],
    hw_byte = (\<lambda>l p. if p = REG_SCREEN_DATA then crtc_reg (crtc_index l) l else 0),
    hw_word = (\<lambda>_ _. 0), int_enabled = False\<rparr>"
  by (rule cursor_roundtrip) (simp_all add: crtc_readback_def)

end
