(* ===== verification/Serial.thy ===== *)
theory Serial
  imports Vga "HOL-Library.While_Combinator"
begin

text \<open>
  The serial port driver (\<open>drivers/serial/serial.c\<close>), used by the standard library for
  logging. \<open>serial_write\<close> polls the line status register until the transmitter is empty: with
  hardware that never reports it, the loop never ends, and the model returns \<open>Hang\<close>.
\<close>

section \<open>Definitions\<close>

record serial_state = machine +
  is_serial_connected :: u8

abbreviation (input) "PORT_COM1 \<equiv> (0x3F8 :: u16)"
abbreviation (input) "PORT_COM2 \<equiv> (0x2F8 :: u16)"
abbreviation (input) "SERIAL_SUCCESS \<equiv> (0 :: u8)"
abbreviation (input) "SERIAL_ERROR_CONNECTION_FAILED \<equiv> (1 :: u8)"
abbreviation (input) "SERIAL_ERROR_NO_CONNECTION \<equiv> (2 :: u8)"
abbreviation (input) "SERIAL_ERROR_ALREADY_CONNECTED \<equiv> (3 :: u8)"

definition serial_init :: "u16 \<Rightarrow> ('z serial_state_scheme, u8) kM" where
  "serial_init port = kbind (kget is_serial_connected) (\<lambda>connected.
     if connected \<noteq> 0 then kret SERIAL_ERROR_ALREADY_CONNECTED
     else
       kseq (io_byte_out (port + 1) 0x00)
      (kseq (io_byte_out (port + 3) 0x80)
      (kseq (io_byte_out (port + 0) 0x3)
      (kseq (io_byte_out (port + 1) 0x00)
      (kseq (io_byte_out (port + 3) 0x03)
      (kseq (io_byte_out (port + 2) 0xC7)
      (kseq (io_byte_out (port + 4) 0x0B)
      (kseq (io_byte_out (port + 4) 0x1E)
      (kseq (io_byte_out port 0xAE)
      (kbind (io_byte_in port) (\<lambda>echo.
       if echo \<noteq> 0xAE then kret SERIAL_ERROR_CONNECTION_FAILED
       else
         kseq (io_byte_out (port + 4) 0x0F)
        (kseq (kmod (\<lambda>s. s\<lparr>is_serial_connected := 1\<rparr>))
              (kret SERIAL_SUCCESS)))))))))))))"

definition serial_is_connected :: "('z serial_state_scheme, u8) kM" where
  "serial_is_connected = kget is_serial_connected"

definition serial_is_transmit_empty :: "u16 \<Rightarrow> ('z machine_scheme, u8) kM" where
  "serial_is_transmit_empty port = kbind (io_byte_in (port + 5)) (\<lambda>v. kret (v AND 0x20))"

text \<open>
  The loop \<open>while (serial_is_transmit_empty(port) == 0);\<close>. Its state is the value of the last
  poll and the machine after it; a poll always returns.
\<close>

definition serial_poll :: "u16 \<Rightarrow> 'z machine_scheme \<Rightarrow> u8 \<times> 'z machine_scheme" where
  "serial_poll port s = (case serial_is_transmit_empty port s of Ok v s' \<Rightarrow> (v, s') | _ \<Rightarrow> (0, s))"

definition serial_wait :: "u16 \<Rightarrow> ('z machine_scheme, unit) kM" where
  "serial_wait port s =
     (case while_option (\<lambda>(v, s). v = 0) (\<lambda>(v, s). serial_poll port s) (serial_poll port s) of
        None \<Rightarrow> Hang
      | Some (v, s') \<Rightarrow> Ok () s')"

definition serial_write :: "u16 \<Rightarrow> u8 \<Rightarrow> ('z machine_scheme, unit) kM" where
  "serial_write port data = kseq (serial_wait port) (io_byte_out port data)"

primrec serial_write_string :: "u16 \<Rightarrow> bytes \<Rightarrow> ('z machine_scheme, unit) kM" where
  "serial_write_string port [] = kret ()"
| "serial_write_string port (c # data) =
     (if c = 0 then kret ()
      else kseq (serial_write port c) (serial_write_string port data))"

definition serial_write_noblock :: "u16 \<Rightarrow> u8 \<Rightarrow> ('z machine_scheme, unit) kM" where
  "serial_write_noblock port data = io_byte_out port data"

definition serial_received :: "u16 \<Rightarrow> ('z machine_scheme, u8) kM" where
  "serial_received port = kbind (io_byte_in (port + 5)) (\<lambda>v. kret (v AND 1))"

definition serial_read :: "u16 \<Rightarrow> ('z machine_scheme, u8) kM" where
  "serial_read port = kbind (serial_received port) (\<lambda>r.
     if r = 0 then kret 0 else io_byte_in port)"

section \<open>Waiting for the transmitter\<close>

text \<open>The port history after \<open>n\<close> polls of the line status register.\<close>

primrec poll_log :: "(io_event list \<Rightarrow> u16 \<Rightarrow> u8) \<Rightarrow> u16 \<Rightarrow> nat \<Rightarrow> io_event list \<Rightarrow> io_event list" where
  "poll_log hw port 0 l = l"
| "poll_log hw port (Suc n) l =
     In_b (port + 5) (hw (poll_log hw port n l) (port + 5)) # poll_log hw port n l"

text \<open>
  The transmitter of a working port: whatever happened before, after finitely many polls it
  reports that it is empty (bit 5 of the line status register).
\<close>

definition serial_responsive :: "(io_event list \<Rightarrow> u16 \<Rightarrow> u8) \<Rightarrow> u16 \<Rightarrow> bool" where
  "serial_responsive hw port \<longleftrightarrow>
     (\<forall>l. \<exists>n. hw (poll_log hw port n l) (port + 5) AND 0x20 \<noteq> 0)"

lemma serial_poll_eq:
  "serial_poll port s = (hw_byte s (io_log s) (port + 5) AND 0x20,
     s\<lparr>io_log := poll_log (hw_byte s) port 1 (io_log s)\<rparr>)"
  by (simp add: serial_poll_def serial_is_transmit_empty_def io_byte_in_def kernel_defs Let_def)

lemma serial_poll_iterate:
  "((\<lambda>(v, s). serial_poll port s) ^^ n) (serial_poll port s) =
     (hw_byte s (poll_log (hw_byte s) port n (io_log s)) (port + 5) AND 0x20,
      s\<lparr>io_log := poll_log (hw_byte s) port (Suc n) (io_log s)\<rparr>)"
  by (induction n) (simp_all add: serial_poll_eq)

lemma serial_wait_returns:
  assumes "serial_responsive (hw_byte s) port"
  obtains n where "serial_wait port s = Ok () (s\<lparr>io_log := poll_log (hw_byte s) port n (io_log s)\<rparr>)"
proof -
  let ?b = "\<lambda>(v, s). v = (0 :: u8)" and ?c = "\<lambda>(v, s). serial_poll port s"
  obtain k where "hw_byte s (poll_log (hw_byte s) port k (io_log s)) (port + 5) AND 0x20 \<noteq> 0"
    using assms by (auto simp: serial_responsive_def)
  then have stop: "\<exists>k. \<not> ?b ((?c ^^ k) (serial_poll port s))"
    by (auto simp: serial_poll_iterate intro!: exI [of _ k])
  then obtain n where "while_option ?b ?c (serial_poll port s) = Some ((?c ^^ n) (serial_poll port s))"
    unfolding while_option_def by auto
  then show thesis
    by (intro that [of "Suc n"]) (simp add: serial_wait_def serial_poll_iterate)
qed

lemma sent_to_poll_log [simp]: "sent_to p (poll_log hw port n l) = sent_to p l"
  by (induction n) simp_all

lemma wp_serial_write:
  assumes "serial_responsive (hw_byte s) port"
    and "\<And>l. (\<And>p. sent_to p l = sent_to p (io_log s) @ (if port = p then [data] else []))
      \<Longrightarrow> Q () (s\<lparr>io_log := l\<rparr>)"
  shows "wp (serial_write port data) Q s"
proof -
  obtain n where "serial_wait port s = Ok () (s\<lparr>io_log := poll_log (hw_byte s) port n (io_log s)\<rparr>)"
    using assms(1) by (rule serial_wait_returns)
  then have "serial_write port data s
      = Ok () (s\<lparr>io_log := Out_b port data # poll_log (hw_byte s) port n (io_log s)\<rparr>)"
    by (simp add: serial_write_def io_byte_out_def kseq_Ok kmod_def)
  then show ?thesis
    by (rule wpI) (rule assms(2), simp)
qed

lemma wp_serial_write_string:
  assumes "serial_responsive (hw_byte s) port"
    and "\<And>l. (\<And>p. sent_to p l = sent_to p (io_log s) @
        (if port = p then takeWhile (\<lambda>c. c \<noteq> 0) data else [])) \<Longrightarrow> Q () (s\<lparr>io_log := l\<rparr>)"
  shows "wp (serial_write_string port data) Q s"
  using assms
proof (induction data arbitrary: s)
  case Nil
  have "Q () (s\<lparr>io_log := io_log s\<rparr>)" by (rule Nil.prems(2)) simp
  then show ?case by simp
next
  case (Cons c data)
  show ?case
  proof (cases "c = 0")
    case True
    have "Q () (s\<lparr>io_log := io_log s\<rparr>)" by (rule Cons.prems(2)) (simp add: True)
    then show ?thesis by (simp add: True)
  next
    case False
    have "wp (serial_write port c) (\<lambda>_. wp (serial_write_string port data) Q) s"
    proof (rule wp_serial_write [OF Cons.prems(1)])
      fix l
      assume l: "\<And>p. sent_to p l = sent_to p (io_log s) @ (if port = p then [c] else [])"
      show "wp (serial_write_string port data) Q (s\<lparr>io_log := l\<rparr>)"
      proof (rule Cons.IH)
        fix l'
        assume "\<And>p. sent_to p l' = sent_to p (io_log (s\<lparr>io_log := l\<rparr>)) @
            (if port = p then takeWhile (\<lambda>c. c \<noteq> 0) data else [])"
        then have "Q () (s\<lparr>io_log := l'\<rparr>)" by (intro Cons.prems(2)) (simp add: l False)
        then show "Q () (s\<lparr>io_log := l\<rparr>\<lparr>io_log := l'\<rparr>)" by simp
      qed (simp add: Cons.prems(1))
    qed
    with False show ?thesis by simp
  qed
qed

section \<open>Properties\<close>

text \<open>On a responsive port, \<open>serial_write_string\<close> returns and puts on the data port exactly
  the bytes of the string before its terminator, in order, and nothing else on any port's output;
  memory and the connection flag are untouched.\<close>

theorem serial_write_string_sends:
  assumes "serial_responsive (hw_byte s) port"
  shows "wp (serial_write_string port data) (\<lambda>_ s'.
      (\<forall>p. sent_to p (io_log s') = sent_to p (io_log s) @
         (if p = port then takeWhile (\<lambda>c. c \<noteq> 0) data else []))
    \<and> s' = s\<lparr>io_log := io_log s'\<rparr>) (s :: 'z serial_state_scheme)"
  by (rule wp_serial_write_string [OF assms]) auto

theorem serial_write_string_sends_witness:
  "wp (serial_write_string PORT_COM1 (cstr ''ok'')) (\<lambda>_ s'.
      (\<forall>p. sent_to p (io_log s') = [] @ (if p = PORT_COM1 then takeWhile (\<lambda>c. c \<noteq> 0) (cstr ''ok'') else []))
    \<and> s' = \<lparr>mem = (\<lambda>_. 0), vidmem = (\<lambda>_. 0), io_log = [], hw_byte = (\<lambda>_ _. 0x20),
      hw_word = (\<lambda>_ _. 0), int_enabled = False, is_serial_connected = 1\<rparr>\<lparr>io_log := io_log s'\<rparr>)
   \<lparr>mem = (\<lambda>_. 0), vidmem = (\<lambda>_. 0), io_log = [], hw_byte = (\<lambda>_ _. 0x20), hw_word = (\<lambda>_ _. 0),
    int_enabled = False, is_serial_connected = 1\<rparr>"
proof -
  have "serial_responsive (\<lambda>_ _. 0x20) PORT_COM1" by (simp add: serial_responsive_def)
  then show ?thesis
    using serial_write_string_sends [of "\<lparr>mem = (\<lambda>_. 0), vidmem = (\<lambda>_. 0), io_log = [],
      hw_byte = (\<lambda>_ _. 0x20), hw_word = (\<lambda>_ _. 0), int_enabled = False, is_serial_connected = 1\<rparr>"
      PORT_COM1 "cstr ''ok''"] by simp
qed

text \<open>\<open>serial_init\<close> on every branch: a connected port is reported as such with no port
  access; otherwise the connection flag becomes set exactly when the chip echoes the test byte
  \<open>0xAE\<close>, and the result says which.\<close>

theorem serial_init_outcome:
  "wp (serial_init port) (\<lambda>r s'.
     if is_serial_connected s \<noteq> 0 then r = SERIAL_ERROR_ALREADY_CONNECTED \<and> s' = s
     else is_serial_connected s' = (if r = SERIAL_SUCCESS then 1 else 0)
        \<and> r \<in> {SERIAL_SUCCESS, SERIAL_ERROR_CONNECTION_FAILED}
        \<and> (r = SERIAL_SUCCESS \<longleftrightarrow> In_b port 0xAE \<in> set (take 2 (io_log s')))
        \<and> s' = s\<lparr>io_log := io_log s', is_serial_connected := is_serial_connected s'\<rparr>) s"
  by (simp add: serial_init_def Let_def)

end
