(* ===== verification/Page_Spec.thy ===== *)
theory Page_Spec
  imports Machine
begin

text \<open>
  The interface between the physical page allocator and its clients (the stream buffers, the
  slab allocator, the ramdisk, the page tables, the processes): what allocation and release do
  to the set of pages in use, and that a client's bytes are its own. The client lemmas, proved
  here once, are about a table of page addresses that is itself kept in a page.
\<close>

section \<open>Tables of addresses in a page\<close>

text \<open>The slot \<open>i\<close> of an array of 32-bit words that starts at \<open>tbl\<close>.\<close>

definition slot :: "u32 \<Rightarrow> nat \<Rightarrow> u32" where
  "slot tbl i = tbl + of_nat (4 * i)"

definition table :: "memory \<Rightarrow> u32 \<Rightarrow> nat \<Rightarrow> u32 list" where
  "table m tbl n = map (\<lambda>i. load32 m (slot tbl i)) [0..<n]"

lemma length_table [simp]: "length (table m tbl n) = n"
  by (simp add: table_def)

lemma table_Suc: "table m tbl (Suc n) = table m tbl n @ [load32 m (slot tbl n)]"
  by (simp add: table_def)

lemma nth_table: "i < n \<Longrightarrow> table m tbl n ! i = load32 m (slot tbl i)"
  by (simp add: table_def)

lemma slot_page:
  assumes "4096 dvd unat tbl" "i < 1024" "j < 4"
  shows "page_of (slot tbl i + of_nat j) = tbl" and "unat (slot tbl i + of_nat j) = unat tbl + 4 * i + j"
proof -
  have "slot tbl i + of_nat j = tbl + of_nat (4 * i + j)"
    by (simp add: slot_def)
  moreover have "4 * i + j < 4096" using assms by simp
  ultimately show "page_of (slot tbl i + of_nat j) = tbl"
    and "unat (slot tbl i + of_nat j) = unat tbl + 4 * i + j"
    using page_offset [OF assms(1), of "4 * i + j"] by (simp_all only: add.assoc)
qed

lemma slot_bytes:
  assumes "4096 dvd unat tbl" "i < 1024" "a \<in> {slot tbl i, slot tbl i + 1, slot tbl i + 2, slot tbl i + 3}"
  shows "page_of a = tbl" and "unat tbl + 4 * i \<le> unat a" and "unat a < unat tbl + 4 * i + 4"
proof -
  obtain j where "j < 4" "a = slot tbl i + of_nat j"
  proof -
    have "a = slot tbl i + of_nat 0 \<or> a = slot tbl i + of_nat 1 \<or> a = slot tbl i + of_nat 2
        \<or> a = slot tbl i + of_nat 3"
      using assms(3) by auto
    then show thesis using that [of 0] that [of 1] that [of 2] that [of 3] by auto
  qed
  with slot_page [OF assms(1,2), of j]
  show "page_of a = tbl" "unat tbl + 4 * i \<le> unat a" "unat a < unat tbl + 4 * i + 4"
    by simp_all
qed

lemma store32_slot_other_page:
  assumes "4096 dvd unat tbl" "i < 1024" "page_of a \<noteq> tbl"
  shows "store32 m (slot tbl i) v a = m a"
  using slot_bytes(1) [OF assms(1,2), of a] assms(3) by (intro store32_other) auto

lemma load32_slot_cong:
  assumes "4096 dvd unat tbl" "i < 1024" "\<And>a. page_of a = tbl \<Longrightarrow> m a = m' a"
  shows "load32 m (slot tbl i) = load32 m' (slot tbl i)"
  unfolding load32_def using slot_bytes(1) [OF assms(1,2)] assms(3) by simp

lemma load32_store32_slot:
  assumes "4096 dvd unat tbl" "i < 1024" "j < 1024"
  shows "load32 (store32 m (slot tbl i) v) (slot tbl j) = (if i = j then v else load32 m (slot tbl j))"
proof (cases "i = j")
  case False
  have "store32 m (slot tbl i) v a = m a"
    if "a \<in> {slot tbl j, slot tbl j + 1, slot tbl j + 2, slot tbl j + 3}" for a
  proof (rule store32_other)
    have "unat tbl + 4 * j \<le> unat a" "unat a < unat tbl + 4 * j + 4"
      using slot_bytes(2,3) [OF assms(1,3) that] .
    moreover have "i < j \<or> j < i" using False by linarith
    ultimately show "a \<notin> {slot tbl i, slot tbl i + 1, slot tbl i + 2, slot tbl i + 3}"
      using slot_bytes(2,3) [OF assms(1,2), of a] by linarith
  qed
  then show ?thesis using False by (simp add: load32_def)
qed simp

lemma table_cong:
  assumes "4096 dvd unat tbl" "n \<le> 1024" "\<And>a. page_of a = tbl \<Longrightarrow> m a = m' a"
  shows "table m tbl n = table m' tbl n"
  using load32_slot_cong [OF assms(1) _ assms(3)] assms(2) by (simp add: table_def)

lemma table_store32_slot:
  assumes "4096 dvd unat tbl" "i < 1024" "n \<le> i"
  shows "table (store32 m (slot tbl i) v) tbl n = table m tbl n"
  using load32_store32_slot [OF assms(1,2)] assms(2,3) by (simp add: table_def)

section \<open>Allocation\<close>

locale page_source =
  fixes alloc :: "('s, u32) kM"
    and memory :: "'s \<Rightarrow> memory"
    and set_memory :: "memory \<Rightarrow> 's \<Rightarrow> 's"
    and inv :: "'s \<Rightarrow> bool"
    and pages :: "'s \<Rightarrow> u32 set"
    and used :: "'s \<Rightarrow> u32 set"
    and same :: "'s \<Rightarrow> 's \<Rightarrow> bool"
  assumes memory_set [simp]: "memory (set_memory m s) = m"
    and pages_finite: "inv s \<Longrightarrow> finite (pages s)"
    and pages_aligned: "inv s \<Longrightarrow> p \<in> pages s \<Longrightarrow> 4096 dvd unat p"
    and used_pages: "inv s \<Longrightarrow> used s \<subseteq> pages s"
    and same_refl: "same s s"
    and same_trans: "same s t \<Longrightarrow> same t u \<Longrightarrow> same s u"
    and same_write: "same s (set_memory m s)"
    and write_inv: "inv s \<Longrightarrow> (\<And>a. page_of a \<notin> pages s \<Longrightarrow> m a = memory s a) \<Longrightarrow>
      inv (set_memory m s) \<and> pages (set_memory m s) = pages s \<and> used (set_memory m s) = used s"
    and alloc_ok: "inv s \<Longrightarrow> 2 \<le> card (pages s - used s) \<Longrightarrow>
      wp alloc (\<lambda>p s'. inv s' \<and> p \<in> pages s - used s \<and> pages s' = pages s
        \<and> used s' = insert p (used s) \<and> same s s'
        \<and> (\<forall>a. page_of a \<in> pages s \<longrightarrow> memory s' a = memory s a)) s"
begin


lemma card_free_insert:
  assumes "inv s" "p \<in> pages s - used s"
  shows "card (pages s - insert p (used s)) = card (pages s - used s) - 1"
proof -
  have "pages s - insert p (used s) = (pages s - used s) - {p}" by blast
  then show ?thesis using assms pages_finite [of s] by simp
qed

text \<open>
  Filling a table with fresh pages: the loop returns, the entries are distinct pages that were
  free, they are now in use, and no byte of another page that was in use has changed.
\<close>

lemma fill_table_ok:
  assumes "inv s" "tbl \<in> used s" "n \<le> 1024" "n < card (pages s - used s)"
  shows "wp (kfor [0..<n] (\<lambda>i. kbind alloc (\<lambda>p.
        kmod (\<lambda>s. set_memory (store32 (memory s) (slot tbl i) p) s))))
    (\<lambda>_ s'. inv s' \<and> pages s' = pages s \<and> same s s'
      \<and> distinct (table (memory s') tbl n)
      \<and> set (table (memory s') tbl n) \<subseteq> pages s - used s
      \<and> used s' = used s \<union> set (table (memory s') tbl n)
      \<and> (\<forall>a. page_of a \<in> pages s - {tbl} \<longrightarrow> memory s' a = memory s a)) s"
proof -
  define I where "I i s' \<longleftrightarrow> inv s' \<and> pages s' = pages s \<and> same s s'
      \<and> distinct (table (memory s') tbl i) \<and> set (table (memory s') tbl i) \<subseteq> pages s - used s
      \<and> used s' = used s \<union> set (table (memory s') tbl i)
      \<and> (\<forall>a. page_of a \<in> pages s - {tbl} \<longrightarrow> memory s' a = memory s a)" for i s'
  have tbl: "4096 dvd unat tbl" "tbl \<in> pages s"
    using assms(1,2) pages_aligned used_pages by blast+
  show ?thesis
    unfolding I_def [symmetric]
  proof (rule wp_kfor_upt)
    show "I 0 s" using assms(1) by (simp add: I_def same_refl table_def)
  next
    fix i t
    assume i: "i < n" and I: "I i t"
    let ?w = "\<lambda>p s. set_memory (store32 (memory s) (slot tbl i) p) s"
    have i': "i < 1024" using i assms(3) by simp
    have free: "pages t - used t = (pages s - used s) - set (table (memory t) tbl i)"
      using I by (auto simp: I_def)
    have "card (pages s - used s) - i \<le> card (pages t - used t)"
      unfolding free using card_length [of "table (memory t) tbl i"]
        diff_card_le_card_Diff [of "set (table (memory t) tbl i)" "pages s - used s"]
      by simp
    then have "2 \<le> card (pages t - used t)" using assms(4) i by simp
    then have "wp alloc (\<lambda>p t'. inv t' \<and> p \<in> pages t - used t \<and> pages t' = pages t
        \<and> used t' = insert p (used t) \<and> same t t'
        \<and> (\<forall>a. page_of a \<in> pages t \<longrightarrow> memory t' a = memory t a)) t"
      using I by (intro alloc_ok) (simp_all add: I_def)
    then show "wp (kbind alloc (\<lambda>p. kmod (?w p))) (\<lambda>_. I (Suc i)) t"
      unfolding wp_kbind wp_kmod
    proof (rule wp_mono)
      fix p t'
      assume A: "inv t' \<and> p \<in> pages t - used t \<and> pages t' = pages t \<and> used t' = insert p (used t)
        \<and> same t t' \<and> (\<forall>a. page_of a \<in> pages t \<longrightarrow> memory t' a = memory t a)"
      have tab: "table (memory (?w p t')) tbl (Suc i) = table (memory t) tbl i @ [p]"
        using tbl i' I A by (simp add: table_Suc table_store32_slot I_def cong: table_cong)
      have W: "inv (?w p t') \<and> pages (?w p t') = pages t' \<and> used (?w p t') = used t'"
      proof (rule write_inv)
        fix a
        assume "page_of a \<notin> pages t'"
        then have "page_of a \<noteq> tbl" using A I tbl by (auto simp: I_def)
        then show "store32 (memory t') (slot tbl i) p a = memory t' a"
          using tbl i' by (intro store32_slot_other_page)
      qed (use A in simp)
      show "I (Suc i) (?w p t')"
        using I A W tbl i' same_trans [of s t t'] same_trans [of s t' "?w p t'"] same_write
        unfolding I_def tab by (auto simp: store32_slot_other_page)
    qed
  qed simp
qed

end

section \<open>Allocation and release\<close>

locale page_allocator = page_source +
  fixes release :: "u32 \<Rightarrow> ('s, 'r) kM"
  assumes release_ok: "inv s \<Longrightarrow> p \<in> used s \<Longrightarrow>
      wp (release p) (\<lambda>_ s'. inv s' \<and> pages s' = pages s \<and> used s' = used s - {p} \<and> same s s'
        \<and> (\<forall>a. page_of a \<in> pages s \<longrightarrow> memory s' a = memory s a)) s"
begin

text \<open>Releasing the pages of a table: exactly these pages become free, no byte changes.\<close>

lemma release_table_ok:
  assumes "inv s" "tbl \<in> pages s" "n \<le> 1024"
    and "distinct (table (memory s) tbl n)" "set (table (memory s) tbl n) \<subseteq> used s"
  shows "wp (kfor [0..<n] (\<lambda>i. kbind (kget (\<lambda>s. load32 (memory s) (slot tbl i))) (\<lambda>p.
        kbind (release p) (\<lambda>_. kret ()))))
    (\<lambda>_ s'. inv s' \<and> pages s' = pages s \<and> same s s'
      \<and> used s' = used s - set (table (memory s) tbl n)
      \<and> (\<forall>a. page_of a \<in> pages s \<longrightarrow> memory s' a = memory s a)) s"
proof -
  define I where "I i s' \<longleftrightarrow> inv s' \<and> pages s' = pages s \<and> same s s'
      \<and> used s' = used s - set (table (memory s) tbl i)
      \<and> (\<forall>a. page_of a \<in> pages s \<longrightarrow> memory s' a = memory s a)" for i s'
  have tbl: "4096 dvd unat tbl" using assms(1,2) pages_aligned by blast
  show ?thesis
    unfolding I_def [symmetric]
  proof (rule wp_kfor_upt)
    show "I 0 s" using assms(1) by (simp add: I_def same_refl table_def)
  next
    fix i t
    assume i: "i < n" and I: "I i t"
    let ?p = "load32 (memory t) (slot tbl i)"
    have p: "?p = table (memory s) tbl n ! i"
      using i I assms(2,3) tbl by (simp add: nth_table I_def cong: load32_slot_cong)
    have "take i (table (memory s) tbl n) = table (memory s) tbl i"
      using i by (simp add: table_def take_map)
    moreover have "?p \<notin> set (take i (table (memory s) tbl n))"
      using i assms(4) by (auto simp: p in_set_conv_nth nth_eq_iff_index_eq)
    ultimately have "?p \<notin> set (table (memory s) tbl i)" by simp
    moreover have "?p \<in> used s" using i assms(5) by (simp add: p subset_iff)
    ultimately have "?p \<in> used t" using I by (simp add: I_def)
    then have "wp (release ?p) (\<lambda>_ t'. inv t' \<and> pages t' = pages t \<and> used t' = used t - {?p}
        \<and> same t t' \<and> (\<forall>a. page_of a \<in> pages t \<longrightarrow> memory t' a = memory t a)) t"
      using I by (intro release_ok) (simp_all add: I_def)
    then have "wp (release ?p) (\<lambda>_. I (Suc i)) t"
    proof (rule wp_mono)
      fix r t'
      assume A: "inv t' \<and> pages t' = pages t \<and> used t' = used t - {?p}
        \<and> same t t' \<and> (\<forall>a. page_of a \<in> pages t \<longrightarrow> memory t' a = memory t a)"
      have "table (memory s) tbl (Suc i) = table (memory s) tbl i @ [?p]"
        using i by (simp add: table_Suc p nth_table)
      with I A same_trans [of s t t'] show "I (Suc i) t'" by (auto simp: I_def)
    qed
    then show "wp (kbind (kget (\<lambda>s. load32 (memory s) (slot tbl i)))
        (\<lambda>p. kbind (release p) (\<lambda>_. kret ()))) (\<lambda>_. I (Suc i)) t"
      by simp
  qed simp
qed

end

end
