(* ===== verification/Pmem.thy ===== *)
theory Pmem
  imports Serial Page_Spec
begin

text \<open>
  The physical page allocator (\<open>drivers/memory/pmem.c\<close>): its state, the conversions between
  page addresses and record numbers, and \<open>pmem_alloc\<close>. The operations that print
  (\<open>pmem_initialize\<close>, \<open>pmem_free\<close>, \<open>pmem_list_info\<close>) are in \<open>Pmem_Mgr\<close>, after the
  standard library. One byte per page, at \<open>pmem_main_memory_start\<close>, records whether the page
  is in use.
\<close>

section \<open>State\<close>

text \<open>The boot loader's information (\<open>libc/multiboot.h\<close>); the unused union words are a list.\<close>

record multiboot_info =
  mbi_flags :: u32
  mbi_mem_lower :: u32
  mbi_mem_upper :: u32
  mbi_boot_device :: u32
  mbi_cmdline :: u32
  mbi_mods_count :: u32
  mbi_mods_addr :: u32
  mbi_u :: "u32 list"
  mbi_mmap_length :: u32
  mbi_mmap_addr :: u32

record multiboot_mmap_entry =
  mmap_size :: u32
  mmap_addr_low :: u32
  mmap_addr_high :: u32
  mmap_len_low :: u32
  mmap_len_high :: u32
  mmap_type :: u32

record pmem_state = serial_state +
  pmem_initialized :: bool
  pmem_main_memory_start :: u32
  pmem_main_memory_length :: u32
  pmem_alloc_start :: u32
  pmem_mgr_reserved_size :: u32
  pmem_curr_alloc_record :: u32
  pmem_mbd :: "multiboot_info option"
  pmem_kernel_reserved_end_addr :: u32

text \<open>Updates of the machine commute with updates of the allocator.\<close>

lemma pmem_state_order [state_order]:
  "(s\<lparr>pmem_initialized := x_pmem_initialized\<rparr>)\<lparr>vidmem := y_vidmem\<rparr> = (s\<lparr>vidmem := y_vidmem\<rparr>)\<lparr>pmem_initialized := x_pmem_initialized\<rparr>"
  "(s\<lparr>pmem_initialized := x_pmem_initialized\<rparr>)\<lparr>io_log := y_io_log\<rparr> = (s\<lparr>io_log := y_io_log\<rparr>)\<lparr>pmem_initialized := x_pmem_initialized\<rparr>"
  "(s\<lparr>pmem_initialized := x_pmem_initialized\<rparr>)\<lparr>mem := y_mem\<rparr> = (s\<lparr>mem := y_mem\<rparr>)\<lparr>pmem_initialized := x_pmem_initialized\<rparr>"
  "(s\<lparr>pmem_main_memory_start := x_pmem_main_memory_start\<rparr>)\<lparr>vidmem := y_vidmem\<rparr> = (s\<lparr>vidmem := y_vidmem\<rparr>)\<lparr>pmem_main_memory_start := x_pmem_main_memory_start\<rparr>"
  "(s\<lparr>pmem_main_memory_start := x_pmem_main_memory_start\<rparr>)\<lparr>io_log := y_io_log\<rparr> = (s\<lparr>io_log := y_io_log\<rparr>)\<lparr>pmem_main_memory_start := x_pmem_main_memory_start\<rparr>"
  "(s\<lparr>pmem_main_memory_start := x_pmem_main_memory_start\<rparr>)\<lparr>mem := y_mem\<rparr> = (s\<lparr>mem := y_mem\<rparr>)\<lparr>pmem_main_memory_start := x_pmem_main_memory_start\<rparr>"
  "(s\<lparr>pmem_main_memory_length := x_pmem_main_memory_length\<rparr>)\<lparr>vidmem := y_vidmem\<rparr> = (s\<lparr>vidmem := y_vidmem\<rparr>)\<lparr>pmem_main_memory_length := x_pmem_main_memory_length\<rparr>"
  "(s\<lparr>pmem_main_memory_length := x_pmem_main_memory_length\<rparr>)\<lparr>io_log := y_io_log\<rparr> = (s\<lparr>io_log := y_io_log\<rparr>)\<lparr>pmem_main_memory_length := x_pmem_main_memory_length\<rparr>"
  "(s\<lparr>pmem_main_memory_length := x_pmem_main_memory_length\<rparr>)\<lparr>mem := y_mem\<rparr> = (s\<lparr>mem := y_mem\<rparr>)\<lparr>pmem_main_memory_length := x_pmem_main_memory_length\<rparr>"
  "(s\<lparr>pmem_alloc_start := x_pmem_alloc_start\<rparr>)\<lparr>vidmem := y_vidmem\<rparr> = (s\<lparr>vidmem := y_vidmem\<rparr>)\<lparr>pmem_alloc_start := x_pmem_alloc_start\<rparr>"
  "(s\<lparr>pmem_alloc_start := x_pmem_alloc_start\<rparr>)\<lparr>io_log := y_io_log\<rparr> = (s\<lparr>io_log := y_io_log\<rparr>)\<lparr>pmem_alloc_start := x_pmem_alloc_start\<rparr>"
  "(s\<lparr>pmem_alloc_start := x_pmem_alloc_start\<rparr>)\<lparr>mem := y_mem\<rparr> = (s\<lparr>mem := y_mem\<rparr>)\<lparr>pmem_alloc_start := x_pmem_alloc_start\<rparr>"
  "(s\<lparr>pmem_mgr_reserved_size := x_pmem_mgr_reserved_size\<rparr>)\<lparr>vidmem := y_vidmem\<rparr> = (s\<lparr>vidmem := y_vidmem\<rparr>)\<lparr>pmem_mgr_reserved_size := x_pmem_mgr_reserved_size\<rparr>"
  "(s\<lparr>pmem_mgr_reserved_size := x_pmem_mgr_reserved_size\<rparr>)\<lparr>io_log := y_io_log\<rparr> = (s\<lparr>io_log := y_io_log\<rparr>)\<lparr>pmem_mgr_reserved_size := x_pmem_mgr_reserved_size\<rparr>"
  "(s\<lparr>pmem_mgr_reserved_size := x_pmem_mgr_reserved_size\<rparr>)\<lparr>mem := y_mem\<rparr> = (s\<lparr>mem := y_mem\<rparr>)\<lparr>pmem_mgr_reserved_size := x_pmem_mgr_reserved_size\<rparr>"
  "(s\<lparr>pmem_curr_alloc_record := x_pmem_curr_alloc_record\<rparr>)\<lparr>vidmem := y_vidmem\<rparr> = (s\<lparr>vidmem := y_vidmem\<rparr>)\<lparr>pmem_curr_alloc_record := x_pmem_curr_alloc_record\<rparr>"
  "(s\<lparr>pmem_curr_alloc_record := x_pmem_curr_alloc_record\<rparr>)\<lparr>io_log := y_io_log\<rparr> = (s\<lparr>io_log := y_io_log\<rparr>)\<lparr>pmem_curr_alloc_record := x_pmem_curr_alloc_record\<rparr>"
  "(s\<lparr>pmem_curr_alloc_record := x_pmem_curr_alloc_record\<rparr>)\<lparr>mem := y_mem\<rparr> = (s\<lparr>mem := y_mem\<rparr>)\<lparr>pmem_curr_alloc_record := x_pmem_curr_alloc_record\<rparr>"
  "(s\<lparr>pmem_mbd := x_pmem_mbd\<rparr>)\<lparr>vidmem := y_vidmem\<rparr> = (s\<lparr>vidmem := y_vidmem\<rparr>)\<lparr>pmem_mbd := x_pmem_mbd\<rparr>"
  "(s\<lparr>pmem_mbd := x_pmem_mbd\<rparr>)\<lparr>io_log := y_io_log\<rparr> = (s\<lparr>io_log := y_io_log\<rparr>)\<lparr>pmem_mbd := x_pmem_mbd\<rparr>"
  "(s\<lparr>pmem_mbd := x_pmem_mbd\<rparr>)\<lparr>mem := y_mem\<rparr> = (s\<lparr>mem := y_mem\<rparr>)\<lparr>pmem_mbd := x_pmem_mbd\<rparr>"
  "(s\<lparr>pmem_kernel_reserved_end_addr := x_pmem_kernel_reserved_end_addr\<rparr>)\<lparr>vidmem := y_vidmem\<rparr> = (s\<lparr>vidmem := y_vidmem\<rparr>)\<lparr>pmem_kernel_reserved_end_addr := x_pmem_kernel_reserved_end_addr\<rparr>"
  "(s\<lparr>pmem_kernel_reserved_end_addr := x_pmem_kernel_reserved_end_addr\<rparr>)\<lparr>io_log := y_io_log\<rparr> = (s\<lparr>io_log := y_io_log\<rparr>)\<lparr>pmem_kernel_reserved_end_addr := x_pmem_kernel_reserved_end_addr\<rparr>"
  "(s\<lparr>pmem_kernel_reserved_end_addr := x_pmem_kernel_reserved_end_addr\<rparr>)\<lparr>mem := y_mem\<rparr> = (s\<lparr>mem := y_mem\<rparr>)\<lparr>pmem_kernel_reserved_end_addr := x_pmem_kernel_reserved_end_addr\<rparr>"
  by simp_all

abbreviation (input) "PHYS_BLOCK_SIZE \<equiv> (4096 :: u32)"

section \<open>Operations\<close>

definition pmem_set_mbd :: "multiboot_info option \<Rightarrow> u32 \<Rightarrow> ('z pmem_state_scheme, unit) kM" where
  "pmem_set_mbd mbd kernel_reserved_end_addr = kmod (\<lambda>s. s\<lparr>pmem_mbd := mbd,
     pmem_kernel_reserved_end_addr := kernel_reserved_end_addr\<rparr>)"

definition pmem_isinit :: "('z pmem_state_scheme, bool) kM" where
  "pmem_isinit = kget pmem_initialized"

definition pmem_ptr_to_entry :: "u32 \<Rightarrow> ('z pmem_state_scheme, u32) kM" where
  "pmem_ptr_to_entry ptr =
     kbind (kget pmem_alloc_start) (\<lambda>alloc_start.
     kbind (kget pmem_main_memory_length) (\<lambda>len.
     if alloc_start > ptr then panic ''pmem_ptr_to_entry: underflow error!''
     else if alloc_start + len < ptr then panic ''pmem_ptr_to_entry: overflow error!''
     else kret ((ptr - alloc_start) div PHYS_BLOCK_SIZE)))"

definition pmem_entry_to_ptr :: "u32 \<Rightarrow> ('z pmem_state_scheme, u32) kM" where
  "pmem_entry_to_ptr entry =
     kbind (kget pmem_mgr_reserved_size) (\<lambda>size.
     if entry > size then panic ''pmem_entry_to_ptr: entry out of bounds!''
     else kbind (kget pmem_alloc_start) (\<lambda>alloc_start.
       kret (PHYS_BLOCK_SIZE * entry + alloc_start)))"

text \<open>\<open>++pmem_curr_alloc_record\<close> with its wrap to the start of the list.\<close>

definition pmem_advance :: "('z pmem_state_scheme, unit) kM" where
  "pmem_advance =
     kseq (kmod (\<lambda>s. s\<lparr>pmem_curr_alloc_record := pmem_curr_alloc_record s + 1\<rparr>))
          (kmod (\<lambda>s. if pmem_curr_alloc_record s \<ge> pmem_mgr_reserved_size s
             then s\<lparr>pmem_curr_alloc_record := 0\<rparr> else s))"

text \<open>
  The search loop. It visits each record at most once before it repeats itself, so when it has
  not stopped after one iteration per record it never stops.
\<close>

primrec pmem_alloc_loop :: "nat \<Rightarrow> u32 \<Rightarrow> ('z pmem_state_scheme, u32) kM" where
  "pmem_alloc_loop 0 start_record = khang"
| "pmem_alloc_loop (Suc fuel) start_record =
     kbind (kget pmem_curr_alloc_record) (\<lambda>curr.
     if start_record = curr then panic ''out of memory!''
     else
       kbind (kget (\<lambda>s. pmem_main_memory_start s + curr)) (\<lambda>record_ptr.
       kbind (kget (\<lambda>s. mem s record_ptr)) (\<lambda>r.
       if r = 0x00
       then kseq (kmod (\<lambda>s. s\<lparr>mem := (mem s)(record_ptr := 0x1)\<rparr>))
                 (pmem_entry_to_ptr curr)
       else kseq pmem_advance (pmem_alloc_loop fuel start_record))))"

definition pmem_alloc :: "('z pmem_state_scheme, u32) kM" where
  "pmem_alloc =
     kbind (kget pmem_initialized) (\<lambda>initialized.
     if \<not> initialized then panic ''Call to pmem_alloc before initialized!''
     else
       kbind (kget pmem_curr_alloc_record) (\<lambda>start_record.
       kseq pmem_advance
         (kbind (kget pmem_mgr_reserved_size) (\<lambda>size.
          pmem_alloc_loop (Suc (unat size)) start_record))))"

section \<open>Records, pages and the allocator's invariant\<close>

definition pmem_blocks :: "'z pmem_state_scheme \<Rightarrow> nat" where
  "pmem_blocks s = unat (pmem_mgr_reserved_size s)"

definition record_addr :: "'z pmem_state_scheme \<Rightarrow> nat \<Rightarrow> u32" where
  "record_addr s e = pmem_main_memory_start s + of_nat e"

definition entry_addr :: "'z pmem_state_scheme \<Rightarrow> nat \<Rightarrow> u32" where
  "entry_addr s e = pmem_alloc_start s + of_nat (4096 * e)"

definition entry_used :: "'z pmem_state_scheme \<Rightarrow> nat \<Rightarrow> bool" where
  "entry_used s e \<longleftrightarrow> mem s (record_addr s e) \<noteq> 0"

definition pmem_used :: "'z pmem_state_scheme \<Rightarrow> nat set" where
  "pmem_used s = {e. e < pmem_blocks s \<and> entry_used s e}"

text \<open>
  The layout \<open>pmem_initialize\<close> sets up: the records lie below the page-aligned first page, the
  pages fit in the address space, and the search position is one of the records.
\<close>

definition pmem_ok :: "'z pmem_state_scheme \<Rightarrow> bool" where
  "pmem_ok s \<longleftrightarrow> pmem_initialized s
     \<and> 4096 dvd unat (pmem_alloc_start s)
     \<and> unat (pmem_main_memory_start s) + pmem_blocks s \<le> unat (pmem_alloc_start s)
     \<and> pmem_blocks s = unat (pmem_main_memory_length s) div 4096
     \<and> unat (pmem_alloc_start s) + unat (pmem_main_memory_length s) < 4294967296
     \<and> unat (pmem_curr_alloc_record s) < pmem_blocks s"

lemma pmem_okD:
  assumes "pmem_ok s"
  shows "pmem_initialized s"
    and "4096 dvd unat (pmem_alloc_start s)"
    and "unat (pmem_main_memory_start s) + pmem_blocks s \<le> unat (pmem_alloc_start s)"
    and "pmem_blocks s = unat (pmem_main_memory_length s) div 4096"
    and "unat (pmem_alloc_start s) + unat (pmem_main_memory_length s) < 4294967296"
    and "unat (pmem_curr_alloc_record s) < pmem_blocks s"
    and "unat (pmem_alloc_start s) + 4096 * pmem_blocks s < 4294967296"
  using assms by (auto simp: pmem_ok_def)

lemma unat_record_addr:
  assumes "pmem_ok s" "e < pmem_blocks s"
  shows "unat (record_addr s e) = unat (pmem_main_memory_start s) + e"
proof -
  have "unat (pmem_main_memory_start s) + e < 4294967296"
    using pmem_okD(3,5) [OF assms(1)] assms(2) by linarith
  then show ?thesis
    by (simp add: record_addr_def word_facts)
qed

lemma unat_entry_addr:
  assumes "pmem_ok s" "e \<le> pmem_blocks s"
  shows "unat (entry_addr s e) = unat (pmem_alloc_start s) + 4096 * e"
proof -
  have "unat (pmem_alloc_start s) + 4096 * e < 4294967296"
    using pmem_okD(7) [OF assms(1)] assms(2) by linarith
  then show ?thesis
    by (simp add: entry_addr_def word_facts del: of_nat_mult)
qed

lemma record_addr_inj:
  assumes "pmem_ok s" "e < pmem_blocks s" "e' < pmem_blocks s"
  shows "record_addr s e = record_addr s e' \<longleftrightarrow> e = e'"
  by (metis assms unat_record_addr add_left_cancel)

lemma entry_addr_inj:
  assumes "pmem_ok s" "e \<le> pmem_blocks s" "e' \<le> pmem_blocks s"
  shows "entry_addr s e = entry_addr s e' \<longleftrightarrow> e = e'"
  by (metis assms unat_entry_addr add_left_cancel mult_cancel1 zero_neq_numeral)

lemma entry_addr_aligned:
  assumes "pmem_ok s" "e \<le> pmem_blocks s"
  shows "4096 dvd unat (entry_addr s e)"
  using pmem_okD(2) [OF assms(1)] by (simp add: unat_entry_addr [OF assms])

lemma pmem_entry_to_ptr_Ok:
  assumes "unat entry \<le> pmem_blocks s"
  shows "pmem_entry_to_ptr entry s = Ok (entry_addr s (unat entry)) s"
proof -
  have "\<not> entry > pmem_mgr_reserved_size s"
    using assms by (simp add: pmem_blocks_def word_le_nat_alt not_less)
  then show ?thesis
    by (simp add: pmem_entry_to_ptr_def kernel_defs entry_addr_def add.commute)
qed

section \<open>Allocation\<close>

text \<open>
  Reference definition of the search: the first free record after the search position, in cyclic
  order; the record at the search position itself is never tried.
\<close>

definition search_order :: "nat \<Rightarrow> nat \<Rightarrow> nat \<Rightarrow> nat list" where
  "search_order c n k = map (\<lambda>j. (c + j) mod n) [k..<n]"

definition pmem_next_free :: "'z pmem_state_scheme \<Rightarrow> nat option" where
  "pmem_next_free s = find (\<lambda>e. \<not> entry_used s e)
     (search_order (unat (pmem_curr_alloc_record s)) (pmem_blocks s) 1)"

definition mark_used :: "nat \<Rightarrow> 'z pmem_state_scheme \<Rightarrow> 'z pmem_state_scheme" where
  "mark_used e s = s\<lparr>pmem_curr_alloc_record := of_nat e, mem := (mem s)(record_addr s e := 1)\<rparr>"

lemma pmem_advance_step:
  assumes "unat (pmem_curr_alloc_record s) = (c + k) mod pmem_blocks s" "0 < pmem_blocks s"
  shows "kseq pmem_advance g s = g (s\<lparr>pmem_curr_alloc_record := of_nat ((c + Suc k) mod pmem_blocks s)\<rparr>)"
proof -
  let ?n = "pmem_blocks s" and ?r = "pmem_curr_alloc_record s"
  have n: "?n < 4294967296" by (simp add: pmem_blocks_def)
  have r: "unat ?r < ?n" using assms by simp
  then have inc: "unat (?r + 1) = Suc (unat ?r)"
    using n by (simp add: word_facts)
  have ge: "?r + 1 \<ge> pmem_mgr_reserved_size s \<longleftrightarrow> ?n \<le> Suc (unat ?r)"
    using inc by (simp add: word_le_nat_alt pmem_blocks_def)
  have "(c + Suc k) mod ?n = (if ?n \<le> Suc (unat ?r) then 0 else Suc (unat ?r))"
    using r assms(1) by (simp add: mod_Suc)
  then have "of_nat ((c + Suc k) mod ?n) = (if ?r + 1 \<ge> pmem_mgr_reserved_size s then 0 else ?r + 1)"
    unfolding ge by (simp add: inc [symmetric])
  then show ?thesis
    by (simp add: pmem_advance_def kernel_defs)
qed

lemma pmem_alloc_loop_eq:
  assumes "pmem_ok s" and "c = unat (pmem_curr_alloc_record s)" and "n = pmem_blocks s"
    and "1 \<le> k" "k \<le> n" "n - k < fuel"
  shows "pmem_alloc_loop fuel (pmem_curr_alloc_record s)
      (s\<lparr>pmem_curr_alloc_record := of_nat ((c + k) mod n)\<rparr>) =
    (case find (\<lambda>e. \<not> entry_used s e) (search_order c n k) of
       None \<Rightarrow> panic ''out of memory!'' s
     | Some e \<Rightarrow> Ok (entry_addr s e) (mark_used e s))"
  using assms(4,5,6)
proof (induction fuel arbitrary: k)
  case 0
  then show ?case by simp
next
  case (Suc fuel)
  let ?s = "s\<lparr>pmem_curr_alloc_record := of_nat ((c + k) mod n)\<rparr>"
  have c: "c < n" and n: "n < 4294967296"
    using assms(2,3) pmem_okD(6) [OF assms(1)] by (simp_all add: pmem_blocks_def)
  let ?e = "(c + k) mod n"
  have e: "?e < n" using c by simp
  have curr: "unat (of_nat ?e :: u32) = ?e" using e n by (simp add: word_facts)
  show ?case
  proof (cases "k = n")
    case True
    then have "?s = s"
      using c assms(2) by simp
    with True c assms(2) show ?thesis
      by (simp add: search_order_def kernel_defs)
  next
    case False
    then have k: "k < n" using Suc.prems by simp
    have "?e \<noteq> c"
      using k c Suc.prems(1) by (cases "c + k < n") (auto simp: le_mod_geq mod_if)
    then have ne: "pmem_curr_alloc_record s \<noteq> of_nat ?e"
      using curr assms(2) by auto
    have order: "search_order c n k = ?e # search_order c n (Suc k)"
      using k by (simp add: search_order_def upt_conv_Cons)
    have rec: "pmem_main_memory_start s + of_nat ?e = record_addr s ?e"
      by (simp add: record_addr_def)
    show ?thesis
    proof (cases "entry_used s ?e")
      case True
      have "pmem_alloc_loop (Suc fuel) (pmem_curr_alloc_record s) ?s
          = kseq pmem_advance (pmem_alloc_loop fuel (pmem_curr_alloc_record s)) ?s"
        using ne True by (simp add: rec entry_used_def)
      also have "\<dots> = pmem_alloc_loop fuel (pmem_curr_alloc_record s)
          (s\<lparr>pmem_curr_alloc_record := of_nat ((c + Suc k) mod n)\<rparr>)"
        using c curr assms(3) by (subst pmem_advance_step [of _ c k]) (simp_all add: pmem_blocks_def)
      also have "\<dots> = (case find (\<lambda>e. \<not> entry_used s e) (search_order c n (Suc k)) of
          None \<Rightarrow> panic ''out of memory!'' s | Some e \<Rightarrow> Ok (entry_addr s e) (mark_used e s))"
        using k Suc.prems by (intro Suc.IH) auto
      finally show ?thesis using order True by simp
    next
      case False
      let ?t = "mark_used ?e s"
      have "pmem_alloc_loop (Suc fuel) (pmem_curr_alloc_record s) ?s = pmem_entry_to_ptr (of_nat ?e) ?t"
        using ne False by (simp add: rec entry_used_def mark_used_def)
      also have "\<dots> = Ok (entry_addr ?t ?e) ?t"
        using e curr assms(3)
        by (subst pmem_entry_to_ptr_Ok) (simp_all add: mark_used_def pmem_blocks_def)
      finally show ?thesis
        using order False by (simp add: mark_used_def entry_addr_def)
    qed
  qed
qed

lemma pmem_alloc_eq:
  assumes "pmem_ok s"
  shows "pmem_alloc s = (case pmem_next_free s of
      None \<Rightarrow> panic ''out of memory!'' s
    | Some e \<Rightarrow> Ok (entry_addr s e) (mark_used e s))"
proof -
  let ?c = "unat (pmem_curr_alloc_record s)" and ?n = "pmem_blocks s"
  have c: "?c < ?n" using pmem_okD(6) [OF assms] .
  have "pmem_alloc s = kseq pmem_advance (\<lambda>t. pmem_alloc_loop (Suc ?n) (pmem_curr_alloc_record s) t) s"
    using pmem_okD(1) [OF assms]
    by (simp add: pmem_alloc_def pmem_blocks_def pmem_advance_def kernel_defs)
  also have "\<dots> = pmem_alloc_loop (Suc ?n) (pmem_curr_alloc_record s)
      (s\<lparr>pmem_curr_alloc_record := of_nat ((?c + 1) mod ?n)\<rparr>)"
    using c by (subst pmem_advance_step [of _ ?c 0]) simp_all
  also have "\<dots> = (case pmem_next_free s of
      None \<Rightarrow> panic ''out of memory!'' s
    | Some e \<Rightarrow> Ok (entry_addr s e) (mark_used e s))"
    unfolding pmem_next_free_def using c
    by (intro pmem_alloc_loop_eq [OF assms]) auto
  finally show ?thesis .
qed

lemma set_search_order:
  assumes "c < n"
  shows "set (search_order c n 1) = {e. e < n \<and> e \<noteq> c}"
proof (intro equalityI subsetI)
  fix e
  assume "e \<in> set (search_order c n 1)"
  then obtain j where "1 \<le> j" "j < n" "e = (c + j) mod n"
    by (auto simp: search_order_def)
  with assms show "e \<in> {e. e < n \<and> e \<noteq> c}"
    by (cases "c + j < n") (auto simp: le_mod_geq mod_if)
next
  fix e
  assume e: "e \<in> {e. e < n \<and> e \<noteq> c}"
  define j where "j = (if c < e then e - c else n + e - c)"
  have "1 \<le> j" "j < n" "(c + j) mod n = e"
    using e assms by (auto simp: j_def)
  then show "e \<in> set (search_order c n 1)"
    unfolding search_order_def by (auto intro!: image_eqI [of _ _ j])
qed

lemma pmem_next_free_Some:
  assumes "pmem_ok s" "pmem_next_free s = Some e"
  shows "e < pmem_blocks s" "e \<noteq> unat (pmem_curr_alloc_record s)" "\<not> entry_used s e"
proof -
  let ?xs = "search_order (unat (pmem_curr_alloc_record s)) (pmem_blocks s) 1"
  have "e \<in> set ?xs" "\<not> entry_used s e"
    using assms(2) by (auto simp: pmem_next_free_def find_Some_iff in_set_conv_nth)
  with set_search_order [OF pmem_okD(6) [OF assms(1)]]
  show "e < pmem_blocks s" "e \<noteq> unat (pmem_curr_alloc_record s)" "\<not> entry_used s e"
    by auto
qed

lemma pmem_next_free_None:
  assumes "pmem_ok s"
  shows "pmem_next_free s = None \<longleftrightarrow>
    (\<forall>e < pmem_blocks s. e \<noteq> unat (pmem_curr_alloc_record s) \<longrightarrow> entry_used s e)"
  using set_search_order [OF pmem_okD(6) [OF assms]]
  by (auto simp: pmem_next_free_def find_None_iff)

lemma mark_used_fields [simp]:
  "pmem_initialized (mark_used e s) = pmem_initialized s"
  "pmem_main_memory_start (mark_used e s) = pmem_main_memory_start s"
  "pmem_main_memory_length (mark_used e s) = pmem_main_memory_length s"
  "pmem_alloc_start (mark_used e s) = pmem_alloc_start s"
  "pmem_mgr_reserved_size (mark_used e s) = pmem_mgr_reserved_size s"
  "pmem_curr_alloc_record (mark_used e s) = of_nat e"
  "mem (mark_used e s) = (mem s)(record_addr s e := 1)"
  "pmem_blocks (mark_used e s) = pmem_blocks s"
  "record_addr (mark_used e s) = record_addr s"
  "entry_addr (mark_used e s) = entry_addr s"
  by (simp_all add: mark_used_def pmem_blocks_def record_addr_def entry_addr_def fun_eq_iff)

lemma pmem_ok_mark_used:
  assumes "pmem_ok s" "e < pmem_blocks s"
  shows "pmem_ok (mark_used e s)"
proof -
  have "e < 4294967296" using assms(2) by (simp add: pmem_blocks_def less_trans [OF _ unat_u32_less])
  with assms show ?thesis by (simp add: pmem_ok_def word_facts)
qed

lemma pmem_used_mark_used:
  assumes "pmem_ok s" "e < pmem_blocks s"
  shows "pmem_used (mark_used e s) = insert e (pmem_used s)"
  using assms by (auto simp: pmem_used_def entry_used_def record_addr_inj)

section \<open>Pages and the allocation interface\<close>

definition pmem_pages :: "'z pmem_state_scheme \<Rightarrow> u32 set" where
  "pmem_pages s = entry_addr s ` {..< pmem_blocks s}"

definition used_pages :: "'z pmem_state_scheme \<Rightarrow> u32 set" where
  "used_pages s = entry_addr s ` pmem_used s"

text \<open>The state outside the allocator's own search position and the memory.\<close>

definition pmem_same :: "'z pmem_state_scheme \<Rightarrow> 'z pmem_state_scheme \<Rightarrow> bool" where
  "pmem_same s s' \<longleftrightarrow> (\<exists>c m. s' = s\<lparr>pmem_curr_alloc_record := c, mem := m\<rparr>)"

lemma pmem_same_refl: "pmem_same s s"
proof -
  have "s = s\<lparr>pmem_curr_alloc_record := pmem_curr_alloc_record s, mem := mem s\<rparr>" by simp
  then show ?thesis unfolding pmem_same_def by blast
qed

lemma pmem_same_trans:
  assumes "pmem_same s t" "pmem_same t u"
  shows "pmem_same s u"
proof -
  obtain c m c' m' where "t = s\<lparr>pmem_curr_alloc_record := c, mem := m\<rparr>"
    "u = t\<lparr>pmem_curr_alloc_record := c', mem := m'\<rparr>"
    using assms unfolding pmem_same_def by blast
  then have "u = s\<lparr>pmem_curr_alloc_record := c', mem := m'\<rparr>" by simp
  then show ?thesis unfolding pmem_same_def by blast
qed

lemma pmem_same_write: "pmem_same s (s\<lparr>mem := m\<rparr>)"
proof -
  have "s\<lparr>mem := m\<rparr> = s\<lparr>pmem_curr_alloc_record := pmem_curr_alloc_record s, mem := m\<rparr>" by simp
  then show ?thesis unfolding pmem_same_def by blast
qed

lemma pmem_same_mark_used: "pmem_same s (mark_used e s)"
  unfolding pmem_same_def mark_used_def by blast

lemma record_not_in_page:
  assumes "pmem_ok s" "e < pmem_blocks s"
  shows "page_of (record_addr s e) \<notin> pmem_pages s"
proof
  assume "page_of (record_addr s e) \<in> pmem_pages s"
  then obtain e' where e': "e' < pmem_blocks s" "page_of (record_addr s e) = entry_addr s e'"
    by (auto simp: pmem_pages_def)
  then have "unat (record_addr s e) \<ge> unat (pmem_alloc_start s)"
    using unat_entry_addr [OF assms(1), of e'] unat_page_of [of "record_addr s e"]
    by (metis div_times_less_eq_dividend le_add1 le_trans less_imp_le)
  moreover have "unat (record_addr s e) < unat (pmem_alloc_start s)"
    using unat_record_addr [OF assms] pmem_okD(3) [OF assms(1)] assms(2) by simp
  ultimately show False by simp
qed

lemma pmem_write_frame:
  assumes "pmem_ok s" "\<And>a. page_of a \<notin> pmem_pages s \<Longrightarrow> m a = mem s a"
  shows "pmem_ok (s\<lparr>mem := m\<rparr>) \<and> pmem_pages (s\<lparr>mem := m\<rparr>) = pmem_pages s
    \<and> pmem_used (s\<lparr>mem := m\<rparr>) = pmem_used s \<and> used_pages (s\<lparr>mem := m\<rparr>) = used_pages s"
proof -
  have addr: "entry_addr (s\<lparr>mem := m\<rparr>) = entry_addr s" "record_addr (s\<lparr>mem := m\<rparr>) = record_addr s"
    "pmem_blocks (s\<lparr>mem := m\<rparr>) = pmem_blocks s"
    by (simp_all add: fun_eq_iff entry_addr_def record_addr_def pmem_blocks_def)
  have "m (record_addr s e) = mem s (record_addr s e)" if "e < pmem_blocks s" for e
    using assms(2) record_not_in_page [OF assms(1) that] .
  then have "pmem_used (s\<lparr>mem := m\<rparr>) = pmem_used s"
    by (auto simp: pmem_used_def entry_used_def addr)
  then show ?thesis
    using assms(1) by (simp add: used_pages_def pmem_pages_def pmem_ok_def addr)
qed

lemma card_free_pages:
  assumes "pmem_ok s"
  shows "card (pmem_pages s - used_pages s) = pmem_blocks s - card (pmem_used s)"
proof -
  have inj: "inj_on (entry_addr s) {..<pmem_blocks s}"
    by (simp add: inj_on_def entry_addr_inj [OF assms])
  have sub: "pmem_used s \<subseteq> {..<pmem_blocks s}" by (auto simp: pmem_used_def)
  have "pmem_pages s - used_pages s = entry_addr s ` ({..<pmem_blocks s} - pmem_used s)"
    unfolding pmem_pages_def used_pages_def
    by (rule inj_on_image_set_diff [OF inj _ sub, symmetric]) auto
  also have "card \<dots> = card ({..<pmem_blocks s} - pmem_used s)"
    using inj by (intro card_image) (auto simp: inj_on_def)
  also have "\<dots> = pmem_blocks s - card (pmem_used s)"
    using sub by (simp add: card_Diff_subset finite_subset)
  finally show ?thesis .
qed

lemma wp_pmem_alloc:
  assumes "pmem_ok s" "2 \<le> card (pmem_pages s - used_pages s)"
  shows "wp pmem_alloc (\<lambda>p s'. pmem_ok s' \<and> p \<in> pmem_pages s - used_pages s
    \<and> pmem_pages s' = pmem_pages s \<and> used_pages s' = insert p (used_pages s) \<and> pmem_same s s'
    \<and> (\<forall>a. page_of a \<in> pmem_pages s \<longrightarrow> mem s' a = mem s a)) s"
proof -
  let ?c = "unat (pmem_curr_alloc_record s)"
  have "\<not> pmem_pages s - used_pages s \<subseteq> {entry_addr s ?c}"
  proof
    assume "pmem_pages s - used_pages s \<subseteq> {entry_addr s ?c}"
    then have "card (pmem_pages s - used_pages s) \<le> 1"
      by (metis card_mono finite.emptyI finite_insert is_singletonI is_singleton_altdef)
    with assms(2) show False by simp
  qed
  then have "pmem_next_free s \<noteq> None"
    unfolding pmem_next_free_None [OF assms(1)]
    by (auto simp: pmem_pages_def used_pages_def pmem_used_def)
  then obtain e where e: "pmem_next_free s = Some e" by blast
  note free = pmem_next_free_Some [OF assms(1) e]
  have "pmem_alloc s = Ok (entry_addr s e) (mark_used e s)"
    by (simp add: pmem_alloc_eq [OF assms(1)] e)
  then show ?thesis
  proof (rule wpI, intro conjI allI impI)
    show "pmem_ok (mark_used e s)" by (rule pmem_ok_mark_used [OF assms(1) free(1)])
    show "entry_addr s e \<in> pmem_pages s - used_pages s"
      using free(1,3) by (auto simp: pmem_pages_def used_pages_def pmem_used_def
          entry_addr_inj [OF assms(1)])
    show "pmem_pages (mark_used e s) = pmem_pages s" by (simp add: pmem_pages_def)
    show "used_pages (mark_used e s) = insert (entry_addr s e) (used_pages s)"
      by (simp add: used_pages_def pmem_used_mark_used [OF assms(1) free(1)])
    show "pmem_same s (mark_used e s)" by (rule pmem_same_mark_used)
    show "mem (mark_used e s) a = mem s a" if "page_of a \<in> pmem_pages s" for a
      using that record_not_in_page [OF assms(1) free(1)] by auto
  qed
qed

interpretation pm: page_source pmem_alloc mem "\<lambda>m s. s\<lparr>mem := m\<rparr>" pmem_ok pmem_pages used_pages pmem_same
proof unfold_locales
  fix s t u :: "'z pmem_state_scheme" and m p
  show "mem (s\<lparr>mem := m\<rparr>) = m" by simp
  show "pmem_ok s \<Longrightarrow> finite (pmem_pages s)" by (simp add: pmem_pages_def)
  show "pmem_ok s \<Longrightarrow> p \<in> pmem_pages s \<Longrightarrow> 4096 dvd unat p"
    by (auto simp: pmem_pages_def entry_addr_aligned)
  show "pmem_ok s \<Longrightarrow> used_pages s \<subseteq> pmem_pages s"
    by (auto simp: used_pages_def pmem_pages_def pmem_used_def)
  show "pmem_same s s" by (rule pmem_same_refl)
  show "pmem_same s t \<Longrightarrow> pmem_same t u \<Longrightarrow> pmem_same s u"
    by (rule pmem_same_trans)
  show "pmem_same s (s\<lparr>mem := m\<rparr>)" by (rule pmem_same_write)
  show "pmem_ok s \<Longrightarrow> (\<And>a. page_of a \<notin> pmem_pages s \<Longrightarrow> m a = mem s a) \<Longrightarrow>
      pmem_ok (s\<lparr>mem := m\<rparr>) \<and> pmem_pages (s\<lparr>mem := m\<rparr>) = pmem_pages s
      \<and> used_pages (s\<lparr>mem := m\<rparr>) = used_pages s"
    using pmem_write_frame [of s m] by blast
qed (rule wp_pmem_alloc)

section \<open>Properties\<close>

text \<open>A small initialised allocator, for concrete instances: eight pages, none in use.\<close>

definition small_pmem :: pmem_state where
  "small_pmem = \<lparr>mem = (\<lambda>_. 0), vidmem = (\<lambda>_. 0), io_log = [], hw_byte = (\<lambda>_ _. 0x20),
     hw_word = (\<lambda>_ _. 0), int_enabled = False, is_serial_connected = 1,
     pmem_initialized = True, pmem_main_memory_start = 0x200000, pmem_main_memory_length = 0x8000,
     pmem_alloc_start = 0x201000, pmem_mgr_reserved_size = 8, pmem_curr_alloc_record = 0,
     pmem_mbd = None, pmem_kernel_reserved_end_addr = 0x200000\<rparr>"

lemma small_pmem_ok: "pmem_ok small_pmem"
  by (simp add: pmem_ok_def small_pmem_def pmem_blocks_def)

lemma small_pmem_used: "pmem_used small_pmem = {}"
  by (simp add: pmem_used_def entry_used_def small_pmem_def)

lemma small_pmem_blocks: "pmem_blocks small_pmem = 8"
  by (simp add: pmem_blocks_def small_pmem_def)

lemma small_pmem_free: "card (pmem_pages small_pmem - used_pages small_pmem) = 8"
  by (simp add: card_free_pages [OF small_pmem_ok] small_pmem_used small_pmem_blocks)

text \<open>C14: on an initialised allocator, \<open>pmem_alloc\<close> computes the reference search: it returns
  the page of the first free record after the search position in cyclic order, having marked that
  record and moved the search position to it, and it panics with "out of memory!" exactly when
  every record other than the one at the search position is in use. In particular the search loop
  always ends.\<close>

theorem pmem_alloc_reference:
  assumes "pmem_ok s"
  shows "pmem_alloc s = (case pmem_next_free s of
      None \<Rightarrow> panic ''out of memory!'' s
    | Some e \<Rightarrow> Ok (entry_addr s e) (mark_used e s))"
  using assms by (rule pmem_alloc_eq)

theorem pmem_alloc_reference_witness:
  "pmem_alloc small_pmem = Ok 0x202000 (mark_used 1 small_pmem)"
proof -
  have "pmem_next_free small_pmem = Some 1"
    by (simp add: pmem_next_free_def search_order_def upt_rec entry_used_def small_pmem_def
        pmem_blocks_def)
  then show ?thesis
    using pmem_alloc_reference [OF small_pmem_ok] by (simp add: entry_addr_def small_pmem_def)
qed

text \<open>C15: with two free pages left, \<open>pmem_alloc\<close> succeeds; the page it returns was not in use
  and is in use afterwards, no other page changes status, the invariant is kept, no byte of any
  page changes, and nothing else in the state changes but the search position.\<close>

theorem pmem_alloc_fresh_page:
  assumes "pmem_ok s" "2 \<le> card (pmem_pages s - used_pages s)"
  shows "wp pmem_alloc (\<lambda>p s'. pmem_ok s' \<and> p \<in> pmem_pages s - used_pages s
    \<and> pmem_pages s' = pmem_pages s \<and> used_pages s' = insert p (used_pages s) \<and> pmem_same s s'
    \<and> (\<forall>a. page_of a \<in> pmem_pages s \<longrightarrow> mem s' a = mem s a)) s"
  using assms by (rule pm.alloc_ok)

theorem pmem_alloc_fresh_page_witness:
  "wp pmem_alloc (\<lambda>p s'. pmem_ok s' \<and> p \<in> pmem_pages small_pmem - used_pages small_pmem
    \<and> pmem_pages s' = pmem_pages small_pmem \<and> used_pages s' = insert p (used_pages small_pmem)
    \<and> pmem_same small_pmem s'
    \<and> (\<forall>a. page_of a \<in> pmem_pages small_pmem \<longrightarrow> mem s' a = mem small_pmem a)) small_pmem"
  by (rule pmem_alloc_fresh_page) (simp_all add: small_pmem_ok small_pmem_free)

lemma pmem_ptr_to_entry_Ok:
  assumes "pmem_ok s" "e \<le> pmem_blocks s" "d < 4096" "4096 * e + d \<le> unat (pmem_main_memory_length s)"
  shows "pmem_ptr_to_entry (entry_addr s e + of_nat d) s = Ok (of_nat e) s"
proof -
  let ?p = "entry_addr s e + of_nat d" and ?a = "pmem_alloc_start s"
  have len: "unat (?a + pmem_main_memory_length s) = unat ?a + unat (pmem_main_memory_length s)"
    using pmem_okD(5) [OF assms(1)] by (simp add: word_facts)
  have p: "unat ?p = unat ?a + (4096 * e + d)"
    using page_offset(1) [OF entry_addr_aligned [OF assms(1,2)] assms(3)] unat_entry_addr [OF assms(1,2)]
    by simp
  have "?p - ?a = of_nat (4096 * e + d)"
    by (simp add: entry_addr_def)
  moreover have small: "4096 * e + d < 4294967296"
    using p unat_u32_less [of ?p] by linarith
  ultimately have "unat ((?p - ?a) div 4096) = e"
    using assms(3) by (simp add: unat_div_distrib word_facts del: of_nat_add of_nat_mult)
  then have "(?p - ?a) div 4096 = of_nat e"
    using small by (simp add: word_unat_eq_iff word_facts del: of_nat_add of_nat_mult)
  moreover have "\<not> ?a > ?p" "\<not> ?a + pmem_main_memory_length s < ?p"
    using p len assms(4) by (simp_all add: word_less_nat_alt)
  ultimately show ?thesis
    by (simp add: pmem_ptr_to_entry_def kernel_defs)
qed

text \<open>Converting a record number to its page address and any address inside that page back
  to a record number gives the record number again, without a panic.\<close>

theorem pmem_entry_ptr_roundtrip:
  assumes "pmem_ok s" "unat e < pmem_blocks s" "d < 4096"
  shows "kbind (pmem_entry_to_ptr e) (\<lambda>p. pmem_ptr_to_entry (p + of_nat d)) s = Ok e s"
proof -
  have "4096 * pmem_blocks s \<le> unat (pmem_main_memory_length s)"
    using pmem_okD(4) [OF assms(1)] by simp
  moreover have "4096 * Suc (unat e) \<le> 4096 * pmem_blocks s"
    using assms(2) by (intro mult_le_mono2) simp
  ultimately have "4096 * unat e + d \<le> unat (pmem_main_memory_length s)"
    using assms(3) by simp
  then show ?thesis
    using assms pmem_ptr_to_entry_Ok [OF assms(1), of "unat e" d]
    by (simp add: kbind_Ok [OF pmem_entry_to_ptr_Ok])
qed

theorem pmem_entry_ptr_roundtrip_witness:
  "kbind (pmem_entry_to_ptr 5) (\<lambda>p. pmem_ptr_to_entry (p + of_nat 17)) small_pmem = Ok 5 small_pmem"
  by (rule pmem_entry_ptr_roundtrip [OF small_pmem_ok]) (simp_all add: pmem_blocks_def small_pmem_def)

end
