(* ===== verification/Stdio.thy ===== *)
theory Stdio
  imports Pmem
begin

text \<open>
  The standard stream buffers (\<open>libc/stdio.c\<close>): two ring buffers, each kept in one page that is
  allocated when the first byte is placed. The output buffer flushes itself to the screen when it
  is full; the input buffer does not.
\<close>

section \<open>Definitions\<close>

record stdio_buffer =
  is_initializing :: bool
  is_init :: bool
  b_addr :: u32
  head_ptr :: nat
  tail_ptr :: nat
  b_size :: nat
  autoflush_to_screen :: bool

text \<open>The two global buffers of \<open>stdlib.c\<close>; a pointer to a buffer is the name of one of them.\<close>

datatype stdio_id = StdInput | StdOutput

record stdio_state = pmem_state +
  std_input_buf :: stdio_buffer
  std_output_buf :: stdio_buffer

lemma stdio_state_order [state_order]:
  "(s\<lparr>std_input_buf := x_std_input_buf\<rparr>)\<lparr>vidmem := y_vidmem\<rparr> = (s\<lparr>vidmem := y_vidmem\<rparr>)\<lparr>std_input_buf := x_std_input_buf\<rparr>"
  "(s\<lparr>std_input_buf := x_std_input_buf\<rparr>)\<lparr>io_log := y_io_log\<rparr> = (s\<lparr>io_log := y_io_log\<rparr>)\<lparr>std_input_buf := x_std_input_buf\<rparr>"
  "(s\<lparr>std_input_buf := x_std_input_buf\<rparr>)\<lparr>mem := y_mem\<rparr> = (s\<lparr>mem := y_mem\<rparr>)\<lparr>std_input_buf := x_std_input_buf\<rparr>"
  "(s\<lparr>std_input_buf := x_std_input_buf\<rparr>)\<lparr>pmem_initialized := y_pmem_initialized\<rparr> = (s\<lparr>pmem_initialized := y_pmem_initialized\<rparr>)\<lparr>std_input_buf := x_std_input_buf\<rparr>"
  "(s\<lparr>std_input_buf := x_std_input_buf\<rparr>)\<lparr>pmem_main_memory_start := y_pmem_main_memory_start\<rparr> = (s\<lparr>pmem_main_memory_start := y_pmem_main_memory_start\<rparr>)\<lparr>std_input_buf := x_std_input_buf\<rparr>"
  "(s\<lparr>std_input_buf := x_std_input_buf\<rparr>)\<lparr>pmem_main_memory_length := y_pmem_main_memory_length\<rparr> = (s\<lparr>pmem_main_memory_length := y_pmem_main_memory_length\<rparr>)\<lparr>std_input_buf := x_std_input_buf\<rparr>"
  "(s\<lparr>std_input_buf := x_std_input_buf\<rparr>)\<lparr>pmem_alloc_start := y_pmem_alloc_start\<rparr> = (s\<lparr>pmem_alloc_start := y_pmem_alloc_start\<rparr>)\<lparr>std_input_buf := x_std_input_buf\<rparr>"
  "(s\<lparr>std_input_buf := x_std_input_buf\<rparr>)\<lparr>pmem_mgr_reserved_size := y_pmem_mgr_reserved_size\<rparr> = (s\<lparr>pmem_mgr_reserved_size := y_pmem_mgr_reserved_size\<rparr>)\<lparr>std_input_buf := x_std_input_buf\<rparr>"
  "(s\<lparr>std_input_buf := x_std_input_buf\<rparr>)\<lparr>pmem_curr_alloc_record := y_pmem_curr_alloc_record\<rparr> = (s\<lparr>pmem_curr_alloc_record := y_pmem_curr_alloc_record\<rparr>)\<lparr>std_input_buf := x_std_input_buf\<rparr>"
  "(s\<lparr>std_input_buf := x_std_input_buf\<rparr>)\<lparr>pmem_mbd := y_pmem_mbd\<rparr> = (s\<lparr>pmem_mbd := y_pmem_mbd\<rparr>)\<lparr>std_input_buf := x_std_input_buf\<rparr>"
  "(s\<lparr>std_input_buf := x_std_input_buf\<rparr>)\<lparr>pmem_kernel_reserved_end_addr := y_pmem_kernel_reserved_end_addr\<rparr> = (s\<lparr>pmem_kernel_reserved_end_addr := y_pmem_kernel_reserved_end_addr\<rparr>)\<lparr>std_input_buf := x_std_input_buf\<rparr>"
  "(s\<lparr>std_output_buf := x_std_output_buf\<rparr>)\<lparr>vidmem := y_vidmem\<rparr> = (s\<lparr>vidmem := y_vidmem\<rparr>)\<lparr>std_output_buf := x_std_output_buf\<rparr>"
  "(s\<lparr>std_output_buf := x_std_output_buf\<rparr>)\<lparr>io_log := y_io_log\<rparr> = (s\<lparr>io_log := y_io_log\<rparr>)\<lparr>std_output_buf := x_std_output_buf\<rparr>"
  "(s\<lparr>std_output_buf := x_std_output_buf\<rparr>)\<lparr>mem := y_mem\<rparr> = (s\<lparr>mem := y_mem\<rparr>)\<lparr>std_output_buf := x_std_output_buf\<rparr>"
  "(s\<lparr>std_output_buf := x_std_output_buf\<rparr>)\<lparr>pmem_initialized := y_pmem_initialized\<rparr> = (s\<lparr>pmem_initialized := y_pmem_initialized\<rparr>)\<lparr>std_output_buf := x_std_output_buf\<rparr>"
  "(s\<lparr>std_output_buf := x_std_output_buf\<rparr>)\<lparr>pmem_main_memory_start := y_pmem_main_memory_start\<rparr> = (s\<lparr>pmem_main_memory_start := y_pmem_main_memory_start\<rparr>)\<lparr>std_output_buf := x_std_output_buf\<rparr>"
  "(s\<lparr>std_output_buf := x_std_output_buf\<rparr>)\<lparr>pmem_main_memory_length := y_pmem_main_memory_length\<rparr> = (s\<lparr>pmem_main_memory_length := y_pmem_main_memory_length\<rparr>)\<lparr>std_output_buf := x_std_output_buf\<rparr>"
  "(s\<lparr>std_output_buf := x_std_output_buf\<rparr>)\<lparr>pmem_alloc_start := y_pmem_alloc_start\<rparr> = (s\<lparr>pmem_alloc_start := y_pmem_alloc_start\<rparr>)\<lparr>std_output_buf := x_std_output_buf\<rparr>"
  "(s\<lparr>std_output_buf := x_std_output_buf\<rparr>)\<lparr>pmem_mgr_reserved_size := y_pmem_mgr_reserved_size\<rparr> = (s\<lparr>pmem_mgr_reserved_size := y_pmem_mgr_reserved_size\<rparr>)\<lparr>std_output_buf := x_std_output_buf\<rparr>"
  "(s\<lparr>std_output_buf := x_std_output_buf\<rparr>)\<lparr>pmem_curr_alloc_record := y_pmem_curr_alloc_record\<rparr> = (s\<lparr>pmem_curr_alloc_record := y_pmem_curr_alloc_record\<rparr>)\<lparr>std_output_buf := x_std_output_buf\<rparr>"
  "(s\<lparr>std_output_buf := x_std_output_buf\<rparr>)\<lparr>pmem_mbd := y_pmem_mbd\<rparr> = (s\<lparr>pmem_mbd := y_pmem_mbd\<rparr>)\<lparr>std_output_buf := x_std_output_buf\<rparr>"
  "(s\<lparr>std_output_buf := x_std_output_buf\<rparr>)\<lparr>pmem_kernel_reserved_end_addr := y_pmem_kernel_reserved_end_addr\<rparr> = (s\<lparr>pmem_kernel_reserved_end_addr := y_pmem_kernel_reserved_end_addr\<rparr>)\<lparr>std_output_buf := x_std_output_buf\<rparr>"
  by simp_all

fun std_buf :: "stdio_id \<Rightarrow> 'z stdio_state_scheme \<Rightarrow> stdio_buffer" where
  "std_buf StdInput s = std_input_buf s"
| "std_buf StdOutput s = std_output_buf s"

fun upd_buf :: "stdio_id \<Rightarrow> (stdio_buffer \<Rightarrow> stdio_buffer) \<Rightarrow> 'z stdio_state_scheme \<Rightarrow> 'z stdio_state_scheme" where
  "upd_buf StdInput f s = s\<lparr>std_input_buf := f (std_input_buf s)\<rparr>"
| "upd_buf StdOutput f s = s\<lparr>std_output_buf := f (std_output_buf s)\<rparr>"

definition io_buffer_empty :: "stdio_id \<Rightarrow> ('z stdio_state_scheme, bool) kM" where
  "io_buffer_empty in_buff = kget (\<lambda>s. head_ptr (std_buf in_buff s) = tail_ptr (std_buf in_buff s))"

definition io_buffer_pop :: "stdio_id \<Rightarrow> ('z stdio_state_scheme, u8) kM" where
  "io_buffer_pop in_buff =
     kbind (kget (std_buf in_buff)) (\<lambda>b.
     if \<not> is_init b then kret 0
     else kbind (io_buffer_empty in_buff) (\<lambda>empty.
       if empty then kret 0
       else kbind (kget (\<lambda>s. mem s (b_addr b + of_nat (tail_ptr b)))) (\<lambda>popped_char.
         kseq (kmod (upd_buf in_buff (\<lambda>b. b\<lparr>tail_ptr := (tail_ptr b + 1) mod b_size b\<rparr>)))
              (kret popped_char))))"

text \<open>
  The loop of \<open>io_buffer_flush_to_screen\<close> pops until it reads a zero byte. A buffer of \<open>b_size\<close>
  bytes is empty after at most \<open>b_size\<close> pops, when its pointers are inside it.
\<close>

primrec io_buffer_flush_loop :: "stdio_id \<Rightarrow> nat \<Rightarrow> ('z stdio_state_scheme, unit) kM" where
  "io_buffer_flush_loop in_buff 0 = khang"
| "io_buffer_flush_loop in_buff (Suc fuel) =
     kbind (io_buffer_pop in_buff) (\<lambda>next_char.
     if next_char = 0 then kret ()
     else kseq (vga_print_screen_char next_char DEFAULT_TEXT_COLOR)
               (io_buffer_flush_loop in_buff fuel))"

definition io_buffer_flush_to_screen :: "stdio_id \<Rightarrow> ('z stdio_state_scheme, unit) kM" where
  "io_buffer_flush_to_screen in_buff =
     kbind (kget (\<lambda>s. b_size (std_buf in_buff s))) (\<lambda>n. io_buffer_flush_loop in_buff (Suc n))"

text \<open>The lazy initialisation at the start of \<open>io_buffer_place\<close>.\<close>

definition io_buffer_init :: "stdio_id \<Rightarrow> ('z stdio_state_scheme, unit) kM" where
  "io_buffer_init in_buff =
     kbind (kget (std_buf in_buff)) (\<lambda>b.
     if is_init b then kret ()
     else if is_initializing b then panic ''io_buffer_place infinite loop detected!''
     else
       kseq (kmod (upd_buf in_buff (\<lambda>b. b\<lparr>is_initializing := True\<rparr>)))
      (kbind pmem_alloc (\<lambda>p.
       kseq (kmod (upd_buf in_buff (\<lambda>b. b\<lparr>b_addr := p\<rparr>)))
      (kseq (kmod (upd_buf in_buff (\<lambda>b. b\<lparr>b_size := 4096\<rparr>)))
      (kseq (kmod (upd_buf in_buff (\<lambda>b. b\<lparr>is_init := True\<rparr>)))
            (kmod (upd_buf in_buff (\<lambda>b. b\<lparr>is_initializing := False\<rparr>))))))))"

text \<open>One iteration of the loop of \<open>io_buffer_place\<close>, then the loop over the message.\<close>

definition io_buffer_place_char :: "stdio_id \<Rightarrow> u8 \<Rightarrow> ('z stdio_state_scheme, unit) kM" where
  "io_buffer_place_char in_buff c =
     kbind (kget (\<lambda>s. (head_ptr (std_buf in_buff s) + 1) mod b_size (std_buf in_buff s))) (\<lambda>next_head_ptr.
     kbind (kget (std_buf in_buff)) (\<lambda>b.
     kseq (if next_head_ptr = tail_ptr b \<and> autoflush_to_screen b
           then io_buffer_flush_to_screen in_buff else kret ())
    (kbind (kget (std_buf in_buff)) (\<lambda>b.
     if next_head_ptr \<noteq> (head_ptr b + 1) mod b_size b then panic ''next_head_ptr mutated unexpectedly''
     else
       kseq (kmod (\<lambda>s. s\<lparr>mem := (mem s)(b_addr b + of_nat (head_ptr b) := c)\<rparr>))
      (kseq (kmod (upd_buf in_buff (\<lambda>b. b\<lparr>head_ptr := next_head_ptr\<rparr>)))
      (if next_head_ptr = tail_ptr b
       then panic ''StdLib IO Buffer overflow! TODO: Flush what we have at this point automatically! Log to overflows! ''
       else kret ()))))))"

primrec io_buffer_place_loop :: "stdio_id \<Rightarrow> bytes \<Rightarrow> ('z stdio_state_scheme, unit) kM" where
  "io_buffer_place_loop in_buff [] = kret ()"
| "io_buffer_place_loop in_buff (c # message) =
     (if c = 0 then kret ()
      else kseq (io_buffer_place_char in_buff c) (io_buffer_place_loop in_buff message))"

definition io_buffer_place :: "stdio_id \<Rightarrow> bytes \<Rightarrow> ('z stdio_state_scheme, unit) kM" where
  "io_buffer_place in_buff message =
     kseq (io_buffer_init in_buff) (io_buffer_place_loop in_buff message)"

section \<open>Ring arithmetic\<close>

definition ring_len :: "nat \<Rightarrow> nat \<Rightarrow> nat \<Rightarrow> nat" where
  "ring_len n h t = (if t \<le> h then h - t else h + n - t)"

lemma ring_len_less: "h < n \<Longrightarrow> t < n \<Longrightarrow> ring_len n h t < n"
  by (auto simp: ring_len_def)

lemma ring_len_zero: "h < n \<Longrightarrow> t < n \<Longrightarrow> ring_len n h t = 0 \<longleftrightarrow> h = t"
  by (auto simp: ring_len_def)

lemma ring_len_place:
  assumes "h < n" "t < n" "(h + 1) mod n \<noteq> t"
  shows "ring_len n ((h + 1) mod n) t = Suc (ring_len n h t)"
  using assms by (cases "h + 1 = n") (auto simp: ring_len_def)

lemma ring_len_full: "h < n \<Longrightarrow> t < n \<Longrightarrow> (h + 1) mod n = t \<longleftrightarrow> ring_len n h t = n - 1"
  by (cases "h + 1 = n") (auto simp: ring_len_def)

lemma ring_len_pop:
  assumes "h < n" "t < n" "h \<noteq> t"
  shows "ring_len n h t = Suc (ring_len n h ((t + 1) mod n))"
  using assms by (cases "t + 1 = n") (auto simp: ring_len_def)

lemma ring_position:
  assumes "h < n" "t < n" "i \<le> ring_len n h t"
  shows "(t + i) mod n = h \<longleftrightarrow> i = ring_len n h t"
  using assms by (cases "t + i < n") (auto simp: ring_len_def le_mod_geq split: if_splits)

section \<open>Contents of a buffer\<close>

definition buf_contents :: "memory \<Rightarrow> stdio_buffer \<Rightarrow> bytes" where
  "buf_contents m b = map (\<lambda>i. m (b_addr b + of_nat ((tail_ptr b + i) mod b_size b)))
     [0..<ring_len (b_size b) (head_ptr b) (tail_ptr b)]"

text \<open>An initialised buffer: a page of 4096 bytes and two pointers inside it.\<close>

definition buf_ready :: "stdio_buffer \<Rightarrow> bool" where
  "buf_ready b \<longleftrightarrow> is_init b \<and> \<not> is_initializing b \<and> b_size b = 4096 \<and> 4096 dvd unat (b_addr b)
     \<and> head_ptr b < 4096 \<and> tail_ptr b < 4096"

lemma buf_readyD:
  assumes "buf_ready b"
  shows "is_init b" "\<not> is_initializing b" "b_size b = 4096" "4096 dvd unat (b_addr b)"
    "head_ptr b < 4096" "tail_ptr b < 4096"
  using assms by (simp_all add: buf_ready_def)

lemma buf_contents_cong:
  assumes "buf_ready b" "\<And>a. page_of a = b_addr b \<Longrightarrow> m a = m' a"
  shows "buf_contents m b = buf_contents m' b"
  using assms by (simp add: buf_contents_def buf_ready_def page_offset(2))

lemma buf_contents_length: "length (buf_contents m b) = ring_len (b_size b) (head_ptr b) (tail_ptr b)"
  by (simp add: buf_contents_def)

lemma buf_contents_empty: "buf_ready b \<Longrightarrow> buf_contents m b = [] \<longleftrightarrow> head_ptr b = tail_ptr b"
  by (simp add: buf_contents_def buf_ready_def ring_len_zero)

text \<open>Placing a byte appends it; popping removes the first.\<close>

lemma buf_contents_place:
  assumes "buf_ready b" "(head_ptr b + 1) mod 4096 \<noteq> tail_ptr b"
  shows "buf_contents (m(b_addr b + of_nat (head_ptr b) := c)) (b\<lparr>head_ptr := (head_ptr b + 1) mod 4096\<rparr>)
    = buf_contents m b @ [c]"
proof -
  note b = buf_readyD [OF assms(1)]
  let ?l = "ring_len 4096 (head_ptr b) (tail_ptr b)"
  have len: "ring_len 4096 ((head_ptr b + 1) mod 4096) (tail_ptr b) = Suc ?l"
    using b assms(2) by (intro ring_len_place) simp_all
  have addr: "b_addr b + of_nat ((tail_ptr b + i) mod 4096) = b_addr b + of_nat (head_ptr b) \<longleftrightarrow> i = ?l"
    if "i \<le> ?l" for i
  proof -
    have "b_addr b + of_nat ((tail_ptr b + i) mod 4096) = b_addr b + of_nat (head_ptr b)
        \<longleftrightarrow> (tail_ptr b + i) mod 4096 = head_ptr b"
      using b by (simp add: of_nat_u32_eq_iff)
    also have "\<dots> \<longleftrightarrow> i = ?l" using b that by (intro ring_position) simp_all
    finally show ?thesis .
  qed
  have "(m(b_addr b + of_nat (head_ptr b) := c)) (b_addr b + of_nat ((tail_ptr b + i) mod 4096))
      = (if i = ?l then c else m (b_addr b + of_nat ((tail_ptr b + i) mod 4096)))" if "i \<le> ?l" for i
    using addr [OF that] by (simp only: fun_upd_apply)
  then show ?thesis
    using len by (simp add: buf_contents_def b(3))
qed

lemma buf_contents_pop:
  assumes "buf_ready b" "head_ptr b \<noteq> tail_ptr b"
  shows "buf_contents m b = m (b_addr b + of_nat (tail_ptr b)) #
    buf_contents m (b\<lparr>tail_ptr := (tail_ptr b + 1) mod 4096\<rparr>)"
proof -
  note b = buf_readyD [OF assms(1)]
  have "ring_len 4096 (head_ptr b) (tail_ptr b)
      = Suc (ring_len 4096 (head_ptr b) ((tail_ptr b + 1) mod 4096))"
    using b assms(2) by (intro ring_len_pop) simp_all
  then show ?thesis
    by (simp add: buf_contents_def b upt_conv_Cons map_Suc_upt [symmetric] mod_simps del: upt_Suc)
qed

section \<open>Operations on a ready buffer\<close>

lemma std_buf_upd_buf [simp]:
  "std_buf i (upd_buf j f s) = (if i = j then f (std_buf i s) else std_buf i s)"
  by (cases i; cases j) simp_all

lemma upd_buf_fields [simp]:
  "mem (upd_buf i f s) = mem s" "hw_byte (upd_buf i f s) = hw_byte s"
  "vidmem (upd_buf i f s) = vidmem s" "io_log (upd_buf i f s) = io_log s"
  "pmem_ok (upd_buf i f s) = pmem_ok s" "pmem_pages (upd_buf i f s) = pmem_pages s"
  "used_pages (upd_buf i f s) = used_pages s" "pmem_used (upd_buf i f s) = pmem_used s"
  "pmem_initialized (upd_buf i f s) = pmem_initialized s"
  by (cases i; simp add: pmem_ok_def pmem_pages_def used_pages_def pmem_used_def entry_addr_def [abs_def]
      entry_used_def record_addr_def pmem_blocks_def)+

lemma std_buf_machine [simp]:
  "std_buf i (s\<lparr>mem := m\<rparr>) = std_buf i s" "std_buf i (s\<lparr>io_log := l\<rparr>) = std_buf i s"
  "std_buf i (s\<lparr>vidmem := v\<rparr>) = std_buf i s"
  by (cases i; simp)+

lemma upd_buf_upd_buf [simp]: "upd_buf i f (upd_buf i g s) = upd_buf i (f \<circ> g) s"
  by (cases i) simp_all

text \<open>Popping: zero when the buffer is empty or not initialised, else the first byte.\<close>

lemma io_buffer_pop_eq:
  "io_buffer_pop i s =
    (if is_init (std_buf i s) \<and> head_ptr (std_buf i s) \<noteq> tail_ptr (std_buf i s)
     then Ok (mem s (b_addr (std_buf i s) + of_nat (tail_ptr (std_buf i s))))
        (upd_buf i (\<lambda>b. b\<lparr>tail_ptr := (tail_ptr b + 1) mod b_size b\<rparr>) s)
     else Ok 0 s)"
  by (simp add: io_buffer_pop_def io_buffer_empty_def kernel_defs)

text \<open>
  Flushing a ready buffer that holds no zero byte empties it, with its head where it was, and
  otherwise changes the display only.
\<close>

lemma wp_flush_loop:
  assumes "buf_ready (std_buf i s)" "0 \<notin> set (buf_contents (mem s) (std_buf i s))"
    and "length (buf_contents (mem s) (std_buf i s)) < fuel"
    and "\<And>v l. screen_log (io_log s) l \<Longrightarrow> Q () (upd_buf i (\<lambda>b. b\<lparr>tail_ptr := head_ptr b\<rparr>) (s\<lparr>vidmem := v, io_log := l\<rparr>))"
  shows "wp (io_buffer_flush_loop i fuel) Q s"
  using assms
proof (induction fuel arbitrary: s)
  case 0
  then show ?case by simp
next
  case (Suc fuel)
  let ?b = "std_buf i s"
  note b = buf_readyD [OF Suc.prems(1)]
  show ?case
  proof (cases "head_ptr ?b = tail_ptr ?b")
    case True
    then have "upd_buf i (\<lambda>b. b\<lparr>tail_ptr := head_ptr b\<rparr>) s = s" by (cases i) simp_all
    then have "Q () s" using Suc.prems(4) [of "io_log s" "vidmem s"] by simp
    with True show ?thesis by (simp add: wp_def kbind_def kret_def io_buffer_pop_eq)
  next
    case False
    let ?c = "mem s (b_addr ?b + of_nat (tail_ptr ?b))"
    let ?t = "upd_buf i (\<lambda>b. b\<lparr>tail_ptr := (tail_ptr b + 1) mod b_size b\<rparr>) s"
    have split: "buf_contents (mem s) ?b = ?c # buf_contents (mem s) (std_buf i ?t)"
      using buf_contents_pop [OF Suc.prems(1) False, of "mem s"] b(3) by simp
    then have c: "?c \<noteq> 0" using Suc.prems(2) by auto
    obtain v l a where print: "vga_print_screen_char ?c DEFAULT_TEXT_COLOR ?t
        = Ok a (?t\<lparr>vidmem := v, io_log := l\<rparr>)" and log: "screen_log (io_log ?t) l"
      using display_only_vga(2) by (rule display_onlyE)
    have step: "wp (io_buffer_flush_loop i (Suc fuel)) Q s
        = wp (io_buffer_flush_loop i fuel) Q (?t\<lparr>vidmem := v, io_log := l\<rparr>)"
      using False b(1) c print by (simp add: wp_def kbind_def kseq_def io_buffer_pop_eq)
    show ?thesis
      unfolding step
    proof (rule Suc.IH)
      show "buf_ready (std_buf i (?t\<lparr>vidmem := v, io_log := l\<rparr>))"
        using b by (simp add: buf_ready_def)
      show "0 \<notin> set (buf_contents (mem (?t\<lparr>vidmem := v, io_log := l\<rparr>)) (std_buf i (?t\<lparr>vidmem := v, io_log := l\<rparr>)))"
        "length (buf_contents (mem (?t\<lparr>vidmem := v, io_log := l\<rparr>)) (std_buf i (?t\<lparr>vidmem := v, io_log := l\<rparr>))) < fuel"
        using split Suc.prems(2,3) by simp_all
      fix v' l'
      assume log': "screen_log (io_log (?t\<lparr>vidmem := v, io_log := l\<rparr>)) l'"
      have "upd_buf i (\<lambda>b. b\<lparr>tail_ptr := head_ptr b\<rparr>) (?t\<lparr>vidmem := v, io_log := l\<rparr>\<lparr>vidmem := v', io_log := l'\<rparr>)
          = upd_buf i (\<lambda>b. b\<lparr>tail_ptr := head_ptr b\<rparr>) (s\<lparr>vidmem := v', io_log := l'\<rparr>)"
        by (cases i) simp_all
      then show "Q () (upd_buf i (\<lambda>b. b\<lparr>tail_ptr := head_ptr b\<rparr>)
          (?t\<lparr>vidmem := v, io_log := l\<rparr>\<lparr>vidmem := v', io_log := l'\<rparr>))"
        using Suc.prems(4) [of l' v'] log log' screen_log_trans [of "io_log s" l l'] by simp
    qed
  qed
qed

lemma io_buffer_flush_Ok:
  assumes "buf_ready (std_buf i s)" "0 \<notin> set (buf_contents (mem s) (std_buf i s))"
    and "\<And>v l. screen_log (io_log s) l \<Longrightarrow> Q () (upd_buf i (\<lambda>b. b\<lparr>tail_ptr := head_ptr b\<rparr>) (s\<lparr>vidmem := v, io_log := l\<rparr>))"
  shows "wp (io_buffer_flush_to_screen i) Q s"
proof -
  have "length (buf_contents (mem s) (std_buf i s)) < Suc (b_size (std_buf i s))"
    using assms(1) ring_len_less [of "head_ptr (std_buf i s)" 4096 "tail_ptr (std_buf i s)"]
    by (simp add: buf_contents_length buf_ready_def)
  with assms show ?thesis
    by (simp add: io_buffer_flush_to_screen_def wp_flush_loop del: io_buffer_flush_loop.simps)
qed

text \<open>Placing a byte in a ready buffer that has room, or that flushes itself.\<close>

definition place_byte :: "stdio_id \<Rightarrow> u8 \<Rightarrow> 'z stdio_state_scheme \<Rightarrow> 'z stdio_state_scheme" where
  "place_byte i c s = upd_buf i (\<lambda>b. b\<lparr>head_ptr := (head_ptr (std_buf i s) + 1) mod 4096\<rparr>)
     (s\<lparr>mem := (mem s)(b_addr (std_buf i s) + of_nat (head_ptr (std_buf i s)) := c)\<rparr>)"

lemma wp_place_char_room:
  assumes "buf_ready (std_buf i s)" "(head_ptr (std_buf i s) + 1) mod 4096 \<noteq> tail_ptr (std_buf i s)"
    and "Q () (place_byte i c s)"
  shows "wp (io_buffer_place_char i c) Q s"
  using assms buf_readyD(3) [OF assms(1)]
  by (simp add: io_buffer_place_char_def place_byte_def)

lemma wp_place_char_flush:
  assumes "buf_ready (std_buf i s)" "(head_ptr (std_buf i s) + 1) mod 4096 = tail_ptr (std_buf i s)"
    and "autoflush_to_screen (std_buf i s)" "0 \<notin> set (buf_contents (mem s) (std_buf i s))"
    and "\<And>v l. screen_log (io_log s) l \<Longrightarrow> Q () (place_byte i c (upd_buf i (\<lambda>b. b\<lparr>tail_ptr := head_ptr b\<rparr>) (s\<lparr>vidmem := v, io_log := l\<rparr>)))"
  shows "wp (io_buffer_place_char i c) Q s"
proof -
  note b = buf_readyD [OF assms(1)]
  have ne: "(head_ptr (std_buf i s) + 1) mod 4096 \<noteq> head_ptr (std_buf i s)"
    using b(5) by (cases "head_ptr (std_buf i s) + 1 = 4096") auto
  show ?thesis
    unfolding io_buffer_place_char_def wp_kbind wp_kget wp_kseq
    using assms b ne
    by (simp, intro io_buffer_flush_Ok) (simp_all add: place_byte_def)
qed

text \<open>A full buffer that does not flush itself panics.\<close>

lemma place_char_overflow:
  assumes "buf_ready (std_buf i s)" "(head_ptr (std_buf i s) + 1) mod 4096 = tail_ptr (std_buf i s)"
    and "\<not> autoflush_to_screen (std_buf i s)"
  obtains s' where "io_buffer_place_char i c s = Panicked
    ''StdLib IO Buffer overflow! TODO: Flush what we have at this point automatically! Log to overflows! '' s'"
proof -
  let ?m = "''StdLib IO Buffer overflow! TODO: Flush what we have at this point automatically! Log to overflows! ''"
  have "io_buffer_place_char i c s = panic ?m (place_byte i c s)"
    using assms buf_readyD(3) [OF assms(1)]
    by (simp add: io_buffer_place_char_def place_byte_def kernel_defs)
  then show thesis using panic_stops [of ?m "place_byte i c s"] that by metis
qed

section \<open>The invariant of the two streams\<close>

definition buf_ok :: "stdio_id \<Rightarrow> 'z stdio_state_scheme \<Rightarrow> bool" where
  "buf_ok i s \<longleftrightarrow> (let b = std_buf i s in \<not> is_initializing b \<and>
     (if is_init b then buf_ready b \<and> b_addr b \<in> used_pages s \<and> 0 \<notin> set (buf_contents (mem s) b)
      else head_ptr b = 0 \<and> tail_ptr b = 0))"

definition stdio_ok :: "'z stdio_state_scheme \<Rightarrow> bool" where
  "stdio_ok s \<longleftrightarrow> pmem_ok s \<and> buf_ok StdInput s \<and> buf_ok StdOutput s
     \<and> \<not> autoflush_to_screen (std_input_buf s) \<and> autoflush_to_screen (std_output_buf s)
     \<and> (is_init (std_input_buf s) \<and> is_init (std_output_buf s) \<longrightarrow>
        b_addr (std_input_buf s) \<noteq> b_addr (std_output_buf s))"

text \<open>The bytes waiting in a stream, oldest first.\<close>

definition stream :: "stdio_id \<Rightarrow> 'z stdio_state_scheme \<Rightarrow> bytes" where
  "stream i s = (if is_init (std_buf i s) then buf_contents (mem s) (std_buf i s) else [])"

lemma stdio_okD:
  assumes "stdio_ok s"
  shows "pmem_ok s" "buf_ok i s" "autoflush_to_screen (std_buf i s) \<longleftrightarrow> i = StdOutput"
    "is_init (std_buf i s) \<Longrightarrow> is_init (std_buf j s) \<Longrightarrow> i \<noteq> j \<Longrightarrow> b_addr (std_buf i s) \<noteq> b_addr (std_buf j s)"
  using assms by (cases i; cases j; auto simp: stdio_ok_def)+

lemma stdio_okI:
  assumes "pmem_ok s" "\<And>i. buf_ok i s" "\<And>i. autoflush_to_screen (std_buf i s) \<longleftrightarrow> i = StdOutput"
    "\<And>i j. is_init (std_buf i s) \<Longrightarrow> is_init (std_buf j s) \<Longrightarrow> i \<noteq> j \<Longrightarrow> b_addr (std_buf i s) \<noteq> b_addr (std_buf j s)"
  shows "stdio_ok s"
  using assms(1) assms(2) [of StdInput] assms(2) [of StdOutput] assms(3) [of StdInput]
    assms(3) [of StdOutput] assms(4) [of StdInput StdOutput]
  by (auto simp: stdio_ok_def)

lemma buf_ok_ready:
  assumes "stdio_ok s" "is_init (std_buf i s)"
  shows "buf_ready (std_buf i s)" "b_addr (std_buf i s) \<in> used_pages s"
    "0 \<notin> set (buf_contents (mem s) (std_buf i s))"
  using stdio_okD(2) [OF assms(1), of i] assms(2) by (simp_all add: buf_ok_def Let_def)

text \<open>The display does not matter.\<close>

lemma pmem_display [simp]:
  "pmem_ok (s\<lparr>vidmem := v\<rparr>) = pmem_ok s" "pmem_pages (s\<lparr>vidmem := v\<rparr>) = pmem_pages s"
  "used_pages (s\<lparr>vidmem := v\<rparr>) = used_pages s"
  "pmem_ok (s\<lparr>io_log := l\<rparr>) = pmem_ok s" "pmem_pages (s\<lparr>io_log := l\<rparr>) = pmem_pages s"
  "used_pages (s\<lparr>io_log := l\<rparr>) = used_pages s"
  by (simp_all add: pmem_ok_def pmem_pages_def used_pages_def pmem_used_def entry_addr_def [abs_def]
      entry_used_def record_addr_def pmem_blocks_def)

lemma stdio_ok_display [simp]:
  "stdio_ok (s\<lparr>vidmem := v\<rparr>) = stdio_ok s" "stdio_ok (s\<lparr>io_log := l\<rparr>) = stdio_ok s"
  "stream i (s\<lparr>vidmem := v\<rparr>) = stream i s" "stream i (s\<lparr>io_log := l\<rparr>) = stream i s"
  by (simp_all add: stdio_ok_def buf_ok_def stream_def)

text \<open>Writing in pages that belong to no stream keeps the invariant and the streams.\<close>

lemma stdio_write_frame:
  assumes "stdio_ok s" "\<And>a. page_of a \<notin> pmem_pages s \<Longrightarrow> m a = mem s a"
    and "\<And>i a. is_init (std_buf i s) \<Longrightarrow> page_of a = b_addr (std_buf i s) \<Longrightarrow> m a = mem s a"
  shows "stdio_ok (s\<lparr>mem := m\<rparr>)" and "stream i (s\<lparr>mem := m\<rparr>) = stream i s"
proof -
  have W: "pmem_ok (s\<lparr>mem := m\<rparr>)" "used_pages (s\<lparr>mem := m\<rparr>) = used_pages s"
    using pmem_write_frame [OF stdio_okD(1) [OF assms(1)] assms(2)] by blast+
  have C: "buf_contents m (std_buf i s) = buf_contents (mem s) (std_buf i s)"
    if "is_init (std_buf i s)" for i
    using buf_ok_ready(1) [OF assms(1) that] assms(3) [OF that] by (intro buf_contents_cong)
  have ok: "buf_ok i (s\<lparr>mem := m\<rparr>)" for i
    using stdio_okD(2) [OF assms(1), of i] C [of i] by (auto simp: buf_ok_def Let_def W(2))
  show "stdio_ok (s\<lparr>mem := m\<rparr>)"
    using stdio_okD(3,4) [OF assms(1)] W(1) ok by (intro stdio_okI) auto
  show "stream i (s\<lparr>mem := m\<rparr>) = stream i s"
    using C by (simp add: stream_def)
qed

lemma buf_page_in_pages:
  assumes "stdio_ok s" "is_init (std_buf i s)" "k < 4096"
  shows "page_of (b_addr (std_buf i s) + of_nat k) = b_addr (std_buf i s)"
    and "b_addr (std_buf i s) \<in> pmem_pages s"
  using buf_ok_ready [OF assms(1,2)] assms(3) pm.used_pages [OF stdio_okD(1) [OF assms(1)]]
  by (auto simp: page_offset(2) buf_ready_def)

lemma place_byte_fields [simp]:
  "mem (place_byte i c s) = (mem s)(b_addr (std_buf i s) + of_nat (head_ptr (std_buf i s)) := c)"
  "std_buf j (place_byte i c s) = (if i = j then (std_buf j s)\<lparr>head_ptr := (head_ptr (std_buf i s) + 1) mod 4096\<rparr>
     else std_buf j s)"
  by (auto simp: place_byte_def)

lemma place_byte_stream:
  assumes "stdio_ok s" "is_init (std_buf i s)" "c \<noteq> 0"
    and "(head_ptr (std_buf i s) + 1) mod 4096 \<noteq> tail_ptr (std_buf i s)"
  shows "stdio_ok (place_byte i c s)"
    and "stream j (place_byte i c s) = (if i = j then stream j s @ [c] else stream j s)"
    and "used_pages (place_byte i c s) = used_pages s" and "pmem_pages (place_byte i c s) = pmem_pages s"
proof -
  let ?b = "std_buf i s"
  let ?m = "(mem s)(b_addr ?b + of_nat (head_ptr ?b) := c)"
  note r = buf_ok_ready [OF assms(1,2)]
  have page: "page_of (b_addr ?b + of_nat (head_ptr ?b)) = b_addr ?b" "b_addr ?b \<in> pmem_pages s"
    using buf_page_in_pages [OF assms(1,2)] buf_readyD(5) [OF r(1)] by auto
  have W: "pmem_ok (s\<lparr>mem := ?m\<rparr>)" "used_pages (s\<lparr>mem := ?m\<rparr>) = used_pages s"
    "pmem_pages (s\<lparr>mem := ?m\<rparr>) = pmem_pages s"
  proof -
    have "?m a = mem s a" if "page_of a \<notin> pmem_pages s" for a using that page by auto
    from pmem_write_frame [OF stdio_okD(1) [OF assms(1)] this]
    show "pmem_ok (s\<lparr>mem := ?m\<rparr>)" "used_pages (s\<lparr>mem := ?m\<rparr>) = used_pages s"
      "pmem_pages (s\<lparr>mem := ?m\<rparr>) = pmem_pages s" by blast+
  qed
  have U: "pmem_ok (place_byte i c s)" "used_pages (place_byte i c s) = used_pages s"
    "pmem_pages (place_byte i c s) = pmem_pages s"
    using W by (simp_all add: place_byte_def)
  have here: "buf_contents ?m (?b\<lparr>head_ptr := (head_ptr ?b + 1) mod 4096\<rparr>) = buf_contents (mem s) ?b @ [c]"
    using r(1) assms(4) by (rule buf_contents_place)
  have other: "buf_contents ?m (std_buf j s) = buf_contents (mem s) (std_buf j s)"
    if "is_init (std_buf j s)" "i \<noteq> j" for j
    using buf_ok_ready(1) [OF assms(1) that(1)] stdio_okD(4) [OF assms(1,2) that] page
    by (intro buf_contents_cong) auto
  have ok: "buf_ok j (place_byte i c s)" for j
  proof (cases "i = j")
    case True
    have "buf_ok i (place_byte i c s)"
      using r here assms(2,3) by (auto simp: buf_ok_def Let_def U(2) buf_ready_def)
    with True show ?thesis by simp
  next
    case False
    with stdio_okD(2) [OF assms(1), of j] other [of j] show ?thesis
      by (auto simp: buf_ok_def Let_def U(2))
  qed
  show "stdio_ok (place_byte i c s)"
    using stdio_okD(3,4) [OF assms(1)] U(1) ok by (intro stdio_okI) (auto split: if_splits)
  show "stream j (place_byte i c s) = (if i = j then stream j s @ [c] else stream j s)"
    using here other [of j] assms(2) by (auto simp: stream_def)
  show "used_pages (place_byte i c s) = used_pages s" "pmem_pages (place_byte i c s) = pmem_pages s"
    using U by simp_all
qed

lemma flush_stream:
  assumes "stdio_ok s" "is_init (std_buf i s)"
  shows "stdio_ok (upd_buf i (\<lambda>b. b\<lparr>tail_ptr := head_ptr b\<rparr>) s)"
    and "stream j (upd_buf i (\<lambda>b. b\<lparr>tail_ptr := head_ptr b\<rparr>) s) = (if i = j then [] else stream j s)"
proof -
  let ?s = "upd_buf i (\<lambda>b. b\<lparr>tail_ptr := head_ptr b\<rparr>) s"
  have ready: "buf_ready ((std_buf i s)\<lparr>tail_ptr := head_ptr (std_buf i s)\<rparr>)"
    using buf_ok_ready(1) [OF assms] by (simp add: buf_ready_def)
  then have empty: "buf_contents m ((std_buf i s)\<lparr>tail_ptr := head_ptr (std_buf i s)\<rparr>) = []" for m
    by (simp add: buf_contents_empty)
  have ok: "buf_ok j ?s" for j
    using stdio_okD(2) [OF assms(1), of j] assms(2) ready empty by (auto simp: buf_ok_def Let_def)
  show "stdio_ok ?s"
    using stdio_okD(1,3,4) [OF assms(1)] ok by (intro stdio_okI) (auto split: if_splits)
  show "stream j ?s = (if i = j then [] else stream j s)"
    using empty by (auto simp: stream_def)
qed

lemma pop_stream:
  assumes "stdio_ok s"
  shows "wp (io_buffer_pop i) (\<lambda>c s'. stdio_ok s' \<and> used_pages s' = used_pages s
    \<and> c = (case stream i s of [] \<Rightarrow> 0 | x # _ \<Rightarrow> x) \<and> stream i s' = tl (stream i s)
    \<and> (\<forall>j. j \<noteq> i \<longrightarrow> stream j s' = stream j s) \<and> is_init (std_buf i s') = is_init (std_buf i s)) s"
proof (cases "is_init (std_buf i s) \<and> head_ptr (std_buf i s) \<noteq> tail_ptr (std_buf i s)")
  case False
  then have "stream i s = []"
    using buf_ok_ready(1) [OF assms] by (auto simp: stream_def buf_contents_empty)
  with False assms show ?thesis by (auto simp: wp_def io_buffer_pop_eq)
next
  case True
  let ?b = "std_buf i s"
  let ?s = "upd_buf i (\<lambda>b. b\<lparr>tail_ptr := (tail_ptr b + 1) mod b_size b\<rparr>) s"
  note r = buf_ok_ready [OF assms conjunct1 [OF True]]
  note b = buf_readyD [OF r(1)]
  have split: "buf_contents (mem s) ?b = mem s (b_addr ?b + of_nat (tail_ptr ?b)) #
      buf_contents (mem s) (?b\<lparr>tail_ptr := (tail_ptr ?b + 1) mod 4096\<rparr>)"
    using r(1) True by (intro buf_contents_pop) simp_all
  have ok: "buf_ok j ?s" for j
    using stdio_okD(2) [OF assms, of j] True b r split by (auto simp: buf_ok_def Let_def buf_ready_def)
  have "stdio_ok ?s"
    using stdio_okD(1,3,4) [OF assms] ok by (intro stdio_okI) (auto split: if_splits)
  with True split b(3) show ?thesis
    by (auto simp: wp_def io_buffer_pop_eq stream_def)
qed

text \<open>
  Lazy initialisation: with a free page to spare (or on an initialised buffer) it returns, the
  buffer is ready, and no stream has changed its contents.
\<close>

definition can_init :: "stdio_id \<Rightarrow> 'z stdio_state_scheme \<Rightarrow> bool" where
  "can_init i s \<longleftrightarrow> is_init (std_buf i s) \<or> 2 \<le> card (pmem_pages s - used_pages s)"

lemma init_stream:
  assumes "stdio_ok s" "can_init i s"
  shows "wp (io_buffer_init i) (\<lambda>_ s'. stdio_ok s' \<and> is_init (std_buf i s')
    \<and> (\<forall>j. stream j s' = stream j s) \<and> hw_byte s' = hw_byte s \<and> io_log s' = io_log s
    \<and> (is_init (std_buf i s) \<longrightarrow> s' = s)) s"
proof (cases "is_init (std_buf i s)")
  case True
  with assms show ?thesis by (simp add: io_buffer_init_def)
next
  case False
  note unset = stdio_okD(2) [OF assms(1), of i, unfolded buf_ok_def Let_def]
  define s1 where "s1 = upd_buf i (\<lambda>b. b\<lparr>is_initializing := True\<rparr>) s"
  have s1: "pmem_ok s1" "pmem_pages s1 = pmem_pages s" "used_pages s1 = used_pages s" "mem s1 = mem s"
    using stdio_okD(1) [OF assms(1)] by (simp_all add: s1_def)
  have "wp pmem_alloc (\<lambda>p s'. pmem_ok s' \<and> p \<in> pmem_pages s1 - used_pages s1
    \<and> pmem_pages s' = pmem_pages s1 \<and> used_pages s' = insert p (used_pages s1) \<and> pmem_same s1 s'
    \<and> (\<forall>a. page_of a \<in> pmem_pages s1 \<longrightarrow> mem s' a = mem s1 a)) s1"
    using False assms(2) s1 by (intro pm.alloc_ok) (simp_all add: can_init_def)
  then obtain p s2 where alloc: "pmem_alloc s1 = Ok p s2" and p: "p \<in> pmem_pages s - used_pages s"
    and s2: "pmem_ok s2" "pmem_pages s2 = pmem_pages s" "used_pages s2 = insert p (used_pages s)"
      "pmem_same s1 s2" "\<And>a. page_of a \<in> pmem_pages s \<Longrightarrow> mem s2 a = mem s a"
    by (rule wpE) (use s1 in auto)
  have buf2: "std_buf j s2 = std_buf j s1" "hw_byte s2 = hw_byte s1" "io_log s2 = io_log s1" for j
    using s2(4) by (cases j; auto simp: pmem_same_def)+
  define t where "t = upd_buf i (\<lambda>b. b\<lparr>b_addr := p, b_size := 4096, is_init := True, is_initializing := False\<rparr>) s2"
  have run: "io_buffer_init i s = Ok () t"
    using False unset alloc by (simp add: io_buffer_init_def kernel_defs s1_def t_def comp_def)
  have tb: "std_buf j t = (if j = i then (std_buf i s)\<lparr>b_addr := p, b_size := 4096, is_init := True,
      is_initializing := False\<rparr> else std_buf j s)" for j
    by (simp add: t_def buf2 s1_def)
  have ready: "buf_ready (std_buf i t)" "head_ptr (std_buf i t) = tail_ptr (std_buf i t)"
    using unset False p pm.pages_aligned [OF stdio_okD(1) [OF assms(1)], of p]
    by (simp_all add: tb buf_ready_def)
  have other: "buf_contents (mem t) (std_buf j s) = buf_contents (mem s) (std_buf j s)"
    if "is_init (std_buf j s)" for j
    using buf_ok_ready(1) [OF assms(1) that] buf_page_in_pages(2) [OF assms(1) that, of 0] s2(5)
    by (intro buf_contents_cong) (auto simp: t_def)
  have ok: "buf_ok j t" for j
  proof (cases "j = i")
    case True
    have "buf_contents (mem t) (std_buf i t) = []" using ready by (simp add: buf_contents_empty)
    moreover have "b_addr (std_buf i t) \<in> used_pages t" by (simp add: t_def s2(3))
    ultimately show ?thesis
      using True ready(1) buf_readyD [OF ready(1)] by (simp add: buf_ok_def Let_def)
  next
    case False
    with stdio_okD(2) [OF assms(1), of j] other [of j] show ?thesis
      by (auto simp: buf_ok_def Let_def tb) (auto simp: t_def s2(3))
  qed
  have fresh: "b_addr (std_buf j s) \<noteq> p" if "is_init (std_buf j s)" for j
    using buf_ok_ready(2) [OF assms(1) that] p by auto
  have "stdio_ok t"
  proof (rule stdio_okI)
    show "pmem_ok t" using s2(1) by (simp add: t_def)
    show "autoflush_to_screen (std_buf j t) \<longleftrightarrow> j = StdOutput" for j
      using stdio_okD(3) [OF assms(1)] by (simp add: tb)
    show "b_addr (std_buf k t) \<noteq> b_addr (std_buf j t)"
      if "is_init (std_buf k t)" "is_init (std_buf j t)" "k \<noteq> j" for k j
      using that stdio_okD(4) [OF assms(1)] fresh [of j] fresh [of k]
      by (auto simp: tb split: if_splits)
  qed (rule ok)
  moreover have "stream j t = stream j s" for j
  proof (cases "j = i")
    case True
    with ready False show ?thesis by (simp add: stream_def buf_contents_empty)
  next
    case False
    with other [of j] show ?thesis by (simp add: stream_def tb)
  qed
  ultimately show ?thesis
    using False run by (auto simp: wp_def tb t_def buf2 s1_def)
qed

end
