(* ===== verification/Fifo_Spec.thy ===== *)
theory Fifo_Spec
  imports Prelude
begin

text \<open>
  The interface between a character stream and its users: bytes come out in the order they went
  in, and a zero byte means that the stream is empty.
\<close>

primrec put_all :: "(u8 \<Rightarrow> ('s, unit) kM) \<Rightarrow> bytes \<Rightarrow> ('s, unit) kM" where
  "put_all put [] = kret ()"
| "put_all put (c # cs) = kseq (put c) (put_all put cs)"

primrec get_n :: "('s, u8) kM \<Rightarrow> nat \<Rightarrow> ('s, bytes) kM" where
  "get_n get 0 = kret []"
| "get_n get (Suc n) = kbind get (\<lambda>c. kbind (get_n get n) (\<lambda>cs. kret (c # cs)))"

locale fifo =
  fixes put :: "u8 \<Rightarrow> ('s, unit) kM"
    and get :: "('s, u8) kM"
    and contents :: "'s \<Rightarrow> bytes"
    and inv :: "'s \<Rightarrow> bool"
    and capacity :: nat
  assumes put_ok: "inv s \<Longrightarrow> c \<noteq> 0 \<Longrightarrow> length (contents s) < capacity \<Longrightarrow>
      wp (put c) (\<lambda>_ s'. inv s' \<and> contents s' = contents s @ [c]) s"
    and get_ok: "inv s \<Longrightarrow> wp get (\<lambda>c s'. inv s' \<and> contents s' = tl (contents s)
        \<and> c = (case contents s of [] \<Rightarrow> 0 | x # _ \<Rightarrow> x)) s"
begin

lemma put_all_ok:
  assumes "inv s" "0 \<notin> set cs" "length (contents s) + length cs \<le> capacity"
  shows "wp (put_all put cs) (\<lambda>_ s'. inv s' \<and> contents s' = contents s @ cs) s"
  using assms
proof (induction cs arbitrary: s)
  case Nil
  then show ?case by simp
next
  case (Cons c cs)
  have "wp (put c) (\<lambda>_ s'. inv s' \<and> contents s' = contents s @ [c]) s"
    using Cons.prems by (intro put_ok) auto
  then have "wp (put c) (\<lambda>_. wp (put_all put cs) (\<lambda>_ s'. inv s' \<and> contents s' = contents s @ c # cs)) s"
  proof (rule wp_mono)
    fix a s'
    assume "inv s' \<and> contents s' = contents s @ [c]"
    then show "wp (put_all put cs) (\<lambda>_ s'. inv s' \<and> contents s' = contents s @ c # cs) s'"
      using Cons.IH [of s'] Cons.prems by auto
  qed
  then show ?case by simp
qed

lemma get_n_ok:
  assumes "inv s" "contents s = cs @ ds" "length cs = n"
  shows "wp (get_n get n) (\<lambda>r s'. inv s' \<and> r = cs \<and> contents s' = ds) s"
  using assms
proof (induction n arbitrary: s cs)
  case 0
  then show ?case by simp
next
  case (Suc n)
  then obtain c cs' where cs: "cs = c # cs'" by (cases cs) auto
  have "wp get (\<lambda>x s'. inv s' \<and> contents s' = tl (contents s)
      \<and> x = (case contents s of [] \<Rightarrow> 0 | x # _ \<Rightarrow> x)) s"
    using Suc.prems by (intro get_ok)
  then have "wp get (\<lambda>x. wp (get_n get n) (\<lambda>r s'. inv s' \<and> x # r = cs \<and> contents s' = ds)) s"
  proof (rule wp_mono)
    fix x s'
    assume "inv s' \<and> contents s' = tl (contents s) \<and> x = (case contents s of [] \<Rightarrow> 0 | x # _ \<Rightarrow> x)"
    then have "inv s'" "contents s' = cs' @ ds" "x = c" using Suc.prems cs by auto
    then show "wp (get_n get n) (\<lambda>r s'. inv s' \<and> x # r = cs \<and> contents s' = ds) s'"
      using Suc.IH [of s' cs'] Suc.prems(3) cs by auto
  qed
  then show ?case by simp
qed

text \<open>What is put into an empty stream comes out again, in order, and then the stream is empty.\<close>

lemma put_get:
  assumes "inv s" "contents s = []" "0 \<notin> set cs" "length cs \<le> capacity"
  shows "wp (kseq (put_all put cs) (get_n get (length cs)))
    (\<lambda>r s'. inv s' \<and> r = cs \<and> contents s' = []) s"
proof -
  have "wp (put_all put cs) (\<lambda>_ s'. inv s' \<and> contents s' = contents s @ cs) s"
    using assms by (intro put_all_ok) simp_all
  then have "wp (put_all put cs)
      (\<lambda>_. wp (get_n get (length cs)) (\<lambda>r s'. inv s' \<and> r = cs \<and> contents s' = [])) s"
    by (rule wp_mono) (use assms(2) in \<open>auto intro: get_n_ok\<close>)
  then show ?thesis by simp
qed

end

end
