(* ===== verification/Stdlib.thy ===== *)
theory Stdlib
  imports Stdio Fifo_Spec
begin

text \<open>
  The kernel's standard library (\<open>libc/stdlib.c\<close>): the standard streams, \<open>printf\<close>, byte
  swapping and the pseudo-random generator. Every message also goes to the serial port, since
  \<open>LOG_ALL_MESSAGES_TO_SERIAL\<close> is defined.
\<close>

section \<open>Standard streams\<close>

record stdlib_state = stdio_state +
  random_seed :: u32

definition stdlib_put_stdio_input_char :: "u8 \<Rightarrow> ('z stdio_state_scheme, unit) kM" where
  "stdlib_put_stdio_input_char character =
     kbind pmem_isinit (\<lambda>init.
     kbind (kget (\<lambda>s. is_initializing (std_output_buf s))) (\<lambda>initializing.
     if init \<and> \<not> initializing then io_buffer_place StdInput [character, 0x0] else kret ()))"

definition stdlib_pop_stdio_input_char :: "('z stdio_state_scheme, u8) kM" where
  "stdlib_pop_stdio_input_char =
     kbind pmem_isinit (\<lambda>init.
     kbind (kget (\<lambda>s. is_init (std_input_buf s))) (\<lambda>ready.
     if init \<and> ready then io_buffer_pop StdInput else kret 0))"

definition stdlib_flushstdio :: "('z stdio_state_scheme, unit) kM" where
  "stdlib_flushstdio = io_buffer_flush_to_screen StdOutput"

definition stdlib_update :: "('z stdio_state_scheme, unit) kM" where
  "stdlib_update = stdlib_flushstdio"

definition std_print :: "bytes \<Rightarrow> ('z stdio_state_scheme, unit) kM" where
  "std_print message =
     kseq (serial_write_string PORT_COM1 message)
    (kbind pmem_isinit (\<lambda>init.
     kbind (kget (\<lambda>s. is_initializing (std_output_buf s))) (\<lambda>initializing.
     if init \<and> \<not> initializing then io_buffer_place StdOutput message
     else vga_print_screen message DEFAULT_TEXT_COLOR)))"

definition std_print_char :: "u8 \<Rightarrow> ('z stdio_state_scheme, unit) kM" where
  "std_print_char message =
     kseq (serial_write PORT_COM1 message)
    (kbind pmem_isinit (\<lambda>init.
     kbind (kget (\<lambda>s. is_initializing (std_output_buf s))) (\<lambda>initializing.
     if init \<and> \<not> initializing then io_buffer_place StdOutput [message, 0x0]
     else vga_print_screen_char message DEFAULT_TEXT_COLOR)))"

definition std_error :: "bytes \<Rightarrow> ('z stdio_state_scheme, unit) kM" where
  "std_error message =
     kseq (serial_write_string PORT_COM1 message)
          (vga_print_screen message DEFAULT_ERROR_COLOR)"

section \<open>Numbers and \<open>printf\<close>\<close>

abbreviation (input) "PRINTF_BUFFER_SIZE \<equiv> (32 :: nat)"

definition numtochar :: bytes where
  "numtochar = cstr ''0123456789ABCDEF''"

text \<open>
  The digit buffer filled by the \<open>do\<close> loop, least significant digit first; the first argument is
  the room left in the buffer.
\<close>

primrec uint_digits :: "nat \<Rightarrow> u32 \<Rightarrow> u32 \<Rightarrow> bytes" where
  "uint_digits 0 number base = []"
| "uint_digits (Suc room) number base =
     numtochar ! unat (number mod base) #
     (if number div base = 0 then [] else uint_digits room (number div base) base)"

primrec print_chars :: "bytes \<Rightarrow> ('z stdio_state_scheme, unit) kM" where
  "print_chars [] = kret ()"
| "print_chars (c # cs) = kseq (std_print_char c) (print_chars cs)"

definition print_uint_to_string :: "u32 \<Rightarrow> u32 \<Rightarrow> ('z stdio_state_scheme, unit) kM" where
  "print_uint_to_string number base =
     (if base > 16 then std_error (cstr ''printf base cannot be greater than 16!'')
      else
        kseq (if base = 2 then std_print (cstr ''0b'') else kret ())
       (kseq (if base = 16 then std_print (cstr ''0x'') else kret ())
       (if number = 0 then std_print_char 48
        else kseq (kguard (base \<noteq> 0))
          (print_chars (rev (uint_digits PRINTF_BUFFER_SIZE number base))))))"

text \<open>
  The variable arguments. Reading an argument that was not passed, or that has another type than
  the conversion asks for, has no meaning in C.
\<close>

datatype printf_arg = ArgStr bytes | ArgInt u32

fun printf :: "bytes \<Rightarrow> printf_arg list \<Rightarrow> ('z stdio_state_scheme, unit) kM" where
  "printf [] args = kret ()"
| "printf (c # format) args =
     (if c = 0 then kret ()
      else if c = 37 then
        (case format of
           [] \<Rightarrow> std_error (cstr ''printf error: next character is null'')
         | d # format' \<Rightarrow>
             if d = 37 then kseq (std_print_char 37) (printf format' args)
             else if d = 115 then
               (case args of ArgStr str # args' \<Rightarrow> kseq (std_print str) (printf format' args')
                | _ \<Rightarrow> (\<lambda>s. Undefined))
             else if d = 99 then
               (case args of ArgInt n # args' \<Rightarrow> kseq (std_print_char (ucast n)) (printf format' args')
                | _ \<Rightarrow> (\<lambda>s. Undefined))
             else if d = 100 then
               (case args of ArgInt n # args' \<Rightarrow> kseq (print_uint_to_string n 10) (printf format' args')
                | _ \<Rightarrow> (\<lambda>s. Undefined))
             else if d = 120 then
               (case args of ArgInt n # args' \<Rightarrow> kseq (print_uint_to_string n 16) (printf format' args')
                | _ \<Rightarrow> (\<lambda>s. Undefined))
             else if d = 98 then
               (case args of ArgInt n # args' \<Rightarrow> kseq (print_uint_to_string n 2) (printf format' args')
                | _ \<Rightarrow> (\<lambda>s. Undefined))
             else if d = 0 then std_error (cstr ''printf error: next character is null'')
             else kseq (std_error (cstr ''printf error: Unknown escape sequence %''))
                       (std_print_char d))
      else kseq (std_print_char c) (printf format args))"

section \<open>Byte order and pseudo-random numbers\<close>

definition eswap_uint16 :: "u16 \<Rightarrow> u16" where
  "eswap_uint16 value = push_bit 8 value OR drop_bit 8 value"

definition eswap_uint32 :: "u32 \<Rightarrow> u32" where
  "eswap_uint32 value =
     (push_bit 24 value AND 0xff000000) OR
     (push_bit 8 value AND 0xff0000) OR
     (drop_bit 8 value AND 0xff00) OR
     (drop_bit 24 value AND 0xff)"

definition maxrand :: "u32 \<Rightarrow> u32 \<Rightarrow> ('z stdlib_state_scheme, u32) kM" where
  "maxrand seed max_val =
     kseq (kmod (\<lambda>s. s\<lparr>random_seed := random_seed s + seed * 1103515245 + 12345\<rparr>))
    (kbind (kget random_seed) (\<lambda>r.
     kseq (kguard (max_val + 1 \<noteq> 0)) (kret ((r div 65536) mod (max_val + 1)))))"


section \<open>What printing does\<close>

text \<open>
  The console works: the serial port answers, and either the allocator is not set up yet (text
  goes straight to the screen) or the streams are in order and the output buffer has its page.
\<close>

definition console_ok :: "'z stdio_state_scheme \<Rightarrow> bool" where
  "console_ok s \<longleftrightarrow> serial_responsive (hw_byte s) PORT_COM1
     \<and> (pmem_initialized s \<and> \<not> is_initializing (std_output_buf s) \<longrightarrow> stdio_ok s \<and> is_init (std_output_buf s))"

text \<open>
  The part of the state that printing may touch: the screen, the port history, and the output
  buffer with its page.
\<close>

definition console_frame :: "'z stdio_state_scheme \<Rightarrow> 'z stdio_state_scheme \<Rightarrow> bool" where
  "console_frame s s' \<longleftrightarrow>
     (\<exists>v l m b. s' = s\<lparr>vidmem := v, io_log := l, mem := m, std_output_buf := b\<rparr>)
     \<and> (\<forall>a. page_of a \<noteq> b_addr (std_output_buf s) \<longrightarrow> mem s' a = mem s a)
     \<and> (\<not> pmem_initialized s \<longrightarrow> mem s' = mem s \<and> std_output_buf s' = std_output_buf s)
     \<and> b_addr (std_output_buf s') = b_addr (std_output_buf s)
     \<and> is_init (std_output_buf s') = is_init (std_output_buf s)
     \<and> is_initializing (std_output_buf s') = is_initializing (std_output_buf s)
     \<and> pmem_pages s' = pmem_pages s \<and> used_pages s' = used_pages s
     \<and> stream StdInput s' = stream StdInput s \<and> (stdio_ok s \<longrightarrow> stdio_ok s')"

lemma console_frame_refl [simp]: "console_frame s s"
proof -
  have "s = s\<lparr>vidmem := vidmem s, io_log := io_log s, mem := mem s, std_output_buf := std_output_buf s\<rparr>"
    by simp
  then have "\<exists>v l m b. s = s\<lparr>vidmem := v, io_log := l, mem := m, std_output_buf := b\<rparr>" by blast
  then show ?thesis by (simp add: console_frame_def)
qed

lemma console_frame_trans:
  assumes "console_frame s t" "console_frame t u"
  shows "console_frame s u"
proof -
  obtain v l m b where t: "t = s\<lparr>vidmem := v, io_log := l, mem := m, std_output_buf := b\<rparr>"
    using assms(1) by (auto simp: console_frame_def)
  obtain v' l' m' b' where "u = t\<lparr>vidmem := v', io_log := l', mem := m', std_output_buf := b'\<rparr>"
    using assms(2) unfolding console_frame_def by blast
  then have "u = s\<lparr>vidmem := v', io_log := l', mem := m', std_output_buf := b'\<rparr>"
    by (simp add: t)
  then have "\<exists>v l m b. u = s\<lparr>vidmem := v, io_log := l, mem := m, std_output_buf := b\<rparr>" by blast
  moreover have "pmem_initialized t = pmem_initialized s" by (simp add: t)
  ultimately show ?thesis
    using assms unfolding console_frame_def by metis
qed

lemma console_frame_hw: "console_frame s s' \<Longrightarrow> hw_byte s' = hw_byte s"
  "console_frame s s' \<Longrightarrow> pmem_initialized s' = pmem_initialized s"
  unfolding console_frame_def by force+

lemma console_frameD:
  assumes "console_frame s s'"
  shows "\<And>a. page_of a \<noteq> b_addr (std_output_buf s) \<Longrightarrow> mem s' a = mem s a"
    "\<not> pmem_initialized s \<Longrightarrow> mem s' = mem s \<and> std_output_buf s' = std_output_buf s"
    "b_addr (std_output_buf s') = b_addr (std_output_buf s)"
    "is_init (std_output_buf s') = is_init (std_output_buf s)"
    "is_initializing (std_output_buf s') = is_initializing (std_output_buf s)"
    "pmem_pages s' = pmem_pages s" "used_pages s' = used_pages s"
    "stream StdInput s' = stream StdInput s" "stdio_ok s \<Longrightarrow> stdio_ok s'"
  using assms unfolding console_frame_def by blast+

lemma console_ok_frame: "console_ok s \<Longrightarrow> console_frame s s' \<Longrightarrow> console_ok s'"
  using console_frame_hw [of s s'] console_frameD [of s s'] by (simp add: console_ok_def)

text \<open>\<open>printed t s s'\<close>: only the console changed, and the text \<open>t\<close> went out on the serial port.\<close>

definition printed :: "bytes \<Rightarrow> 'z stdio_state_scheme \<Rightarrow> 'z stdio_state_scheme \<Rightarrow> bool" where
  "printed t s s' \<longleftrightarrow> console_frame s s'
     \<and> sent_to PORT_COM1 (io_log s') = sent_to PORT_COM1 (io_log s) @ t"

lemma printed_refl [simp]: "printed [] s s"
  by (simp add: printed_def)

lemma printed_trans: "printed t s s' \<Longrightarrow> printed u s' s'' \<Longrightarrow> printed (t @ u) s s''"
  by (auto simp: printed_def intro: console_frame_trans)

lemma wp_printed_seq:
  assumes "console_ok s" "wp f (\<lambda>_. printed t s) s"
    and "\<And>s'. console_ok s' \<Longrightarrow> wp g (\<lambda>_. printed u s') s'"
  shows "wp (kseq f g) (\<lambda>_. printed (t @ u) s) s"
  unfolding wp_kseq
proof (rule wp_mono [OF assms(2)])
  fix a s'
  assume s': "printed t s s'"
  then have "wp g (\<lambda>_. printed u s') s'"
    using assms(1) by (intro assms(3)) (auto simp: printed_def intro: console_ok_frame)
  then show "wp g (\<lambda>_. printed (t @ u) s) s'"
    by (rule wp_mono) (rule printed_trans [OF s'])
qed

lemma display_frame [simp]: "console_frame s (s\<lparr>vidmem := v, io_log := l\<rparr>)"
proof -
  have "s\<lparr>vidmem := v, io_log := l\<rparr>
      = s\<lparr>vidmem := v, io_log := l, mem := mem s, std_output_buf := std_output_buf s\<rparr>"
    by simp
  then have "\<exists>v' l' m b. s\<lparr>vidmem := v, io_log := l\<rparr>
      = s\<lparr>vidmem := v', io_log := l', mem := m, std_output_buf := b\<rparr>" by blast
  then show ?thesis by (simp add: console_frame_def)
qed

lemma wp_display_printed:
  "display_only f \<Longrightarrow> wp f (\<lambda>_. printed [] s) s"
  by (rule wp_display_only) (auto simp: printed_def screen_log_def)

text \<open>Placing a byte in the output buffer, with a flush when the buffer is full.\<close>

lemma place_out_frame:
  assumes "stdio_ok s" "is_init (std_output_buf s)" "c \<noteq> 0"
    and "(head_ptr (std_output_buf s) + 1) mod 4096 \<noteq> tail_ptr (std_output_buf s)"
  shows "console_frame s (place_byte StdOutput c s)"
proof -
  let ?b = "std_output_buf s"
  let ?m = "(mem s)(b_addr ?b + of_nat (head_ptr ?b) := c)"
  have eq: "place_byte StdOutput c s = s\<lparr>vidmem := vidmem s, io_log := io_log s, mem := ?m,
      std_output_buf := ?b\<lparr>head_ptr := (head_ptr ?b + 1) mod 4096\<rparr>\<rparr>"
    by (simp add: place_byte_def)
  have head: "head_ptr ?b < 4096"
    using buf_readyD(5) [OF buf_ok_ready(1) [OF assms(1), of StdOutput]] assms(2) by simp
  have page: "page_of (b_addr ?b + of_nat (head_ptr ?b)) = b_addr ?b"
    using buf_page_in_pages(1) [OF assms(1), of StdOutput] assms(2) head by simp
  have frame: "mem (place_byte StdOutput c s) a = mem s a" if "page_of a \<noteq> b_addr ?b" for a
    using page that by auto
  have "stdio_ok (place_byte StdOutput c s)" "stream StdInput (place_byte StdOutput c s) = stream StdInput s"
    "used_pages (place_byte StdOutput c s) = used_pages s" "pmem_pages (place_byte StdOutput c s) = pmem_pages s"
    using assms by (simp_all add: place_byte_stream)
  moreover have "pmem_initialized s" using pmem_okD(1) [OF stdio_okD(1) [OF assms(1)]] .
  moreover have "\<exists>v l m b. place_byte StdOutput c s = s\<lparr>vidmem := v, io_log := l, mem := m, std_output_buf := b\<rparr>"
    using eq by blast
  moreover have "b_addr (std_output_buf (place_byte StdOutput c s)) = b_addr ?b"
    "is_init (std_output_buf (place_byte StdOutput c s)) = is_init ?b"
    "is_initializing (std_output_buf (place_byte StdOutput c s)) = is_initializing ?b"
    by (simp_all add: eq)
  ultimately show ?thesis
    using frame unfolding console_frame_def by blast
qed

lemma flush_out_frame:
  assumes "stdio_ok s" "is_init (std_output_buf s)"
  shows "console_frame s (upd_buf StdOutput (\<lambda>b. b\<lparr>tail_ptr := head_ptr b\<rparr>) s)"
proof -
  let ?s = "upd_buf StdOutput (\<lambda>b. b\<lparr>tail_ptr := head_ptr b\<rparr>) s"
  have "?s = s\<lparr>vidmem := vidmem s, io_log := io_log s, mem := mem s,
      std_output_buf := (std_output_buf s)\<lparr>tail_ptr := head_ptr (std_output_buf s)\<rparr>\<rparr>" by simp
  then have "\<exists>v l m b. ?s = s\<lparr>vidmem := v, io_log := l, mem := m, std_output_buf := b\<rparr>" by blast
  moreover have "stdio_ok ?s" "stream StdInput ?s = stream StdInput s"
    using flush_stream [OF assms(1), of StdOutput] assms(2) by simp_all
  moreover have "used_pages ?s = used_pages s" "pmem_pages ?s = pmem_pages s"
    by (simp_all only: upd_buf_fields)
  moreover have "pmem_initialized s" using pmem_okD(1) [OF stdio_okD(1) [OF assms(1)]] .
  ultimately show ?thesis unfolding console_frame_def by simp
qed

lemma wp_place_out_char:
  assumes "stdio_ok s" "is_init (std_output_buf s)" "c \<noteq> 0"
  shows "wp (io_buffer_place_char StdOutput c) (\<lambda>_. printed [] s) s"
proof -
  note r = buf_ok_ready [OF assms(1), of StdOutput, simplified, OF assms(2)]
  show ?thesis
  proof (cases "(head_ptr (std_output_buf s) + 1) mod 4096 = tail_ptr (std_output_buf s)")
    case False
    have "printed [] s (place_byte StdOutput c s)"
      using place_out_frame [OF assms False] by (simp add: printed_def) (simp add: place_byte_def)
    with r(1) False show ?thesis by (intro wp_place_char_room) simp_all
  next
    case True
    show ?thesis
    proof (rule wp_place_char_flush)
      fix v l
      assume l: "screen_log (io_log s) l"
      let ?t = "s\<lparr>vidmem := v, io_log := l\<rparr>"
      define u where "u = upd_buf StdOutput (\<lambda>b. b\<lparr>tail_ptr := head_ptr b\<rparr>) ?t"
      have u: "console_frame ?t u" unfolding u_def using assms by (intro flush_out_frame) simp_all
      have "(head_ptr (std_output_buf s) + 1) mod 4096 \<noteq> head_ptr (std_output_buf s)"
        using buf_readyD(5) [OF r(1)] by (cases "head_ptr (std_output_buf s) + 1 = 4096") auto
      then have room: "(head_ptr (std_output_buf u) + 1) mod 4096 \<noteq> tail_ptr (std_output_buf u)"
        by (simp add: u_def)
      have "stdio_ok u" "is_init (std_output_buf u)"
        using assms console_frameD(9) [OF u] by (simp_all add: u_def)
      then have "console_frame u (place_byte StdOutput c u)"
        using assms(3) room by (intro place_out_frame)
      then have "console_frame s (place_byte StdOutput c u)"
        by (rule console_frame_trans [OF console_frame_trans [OF display_frame u]])
      moreover have "io_log (place_byte StdOutput c u) = l" by (simp add: u_def place_byte_def)
      ultimately have "printed [] s (place_byte StdOutput c u)"
        using l by (simp add: printed_def screen_log_def)
      then show "printed [] s (place_byte StdOutput c (upd_buf StdOutput (\<lambda>b. b\<lparr>tail_ptr := head_ptr b\<rparr>) ?t))"
        by (simp only: u_def)
    qed (use assms True r stdio_okD(3) [OF assms(1), of StdOutput] in simp_all)
  qed
qed

lemma wp_place_out_loop:
  assumes "stdio_ok s" "is_init (std_output_buf s)"
  shows "wp (io_buffer_place_loop StdOutput message) (\<lambda>_. printed [] s) s"
  using assms
proof (induction message arbitrary: s)
  case (Cons c message)
  show ?case
  proof (cases "c = 0")
    case False
    have "wp (io_buffer_place_char StdOutput c)
        (\<lambda>_. wp (io_buffer_place_loop StdOutput message) (\<lambda>_. printed [] s)) s"
    proof (rule wp_mono [OF wp_place_out_char [OF Cons.prems False]])
      fix a s'
      assume s': "printed [] s s'"
      then have "wp (io_buffer_place_loop StdOutput message) (\<lambda>_. printed [] s') s'"
        using Cons.prems by (intro Cons.IH) (auto simp: printed_def dest: console_frameD)
      then show "wp (io_buffer_place_loop StdOutput message) (\<lambda>_. printed [] s) s'"
        by (rule wp_mono) (use printed_trans [OF s'] in simp)
    qed
    with False show ?thesis by simp
  qed simp
qed simp


lemma wp_std_print:
  assumes "console_ok s"
  shows "wp (std_print message) (\<lambda>_. printed (takeWhile (\<lambda>c. c \<noteq> 0) message) s) s"
proof -
  let ?t = "takeWhile (\<lambda>c. c \<noteq> 0) message"
  let ?rest = "kbind pmem_isinit (\<lambda>init.
     kbind (kget (\<lambda>s. is_initializing (std_output_buf s))) (\<lambda>initializing.
     if init \<and> \<not> initializing then io_buffer_place StdOutput message
     else vga_print_screen message DEFAULT_TEXT_COLOR))"
  have serial: "wp (serial_write_string PORT_COM1 message) (\<lambda>_. printed ?t s) s"
  proof (rule wp_serial_write_string)
    fix l
    assume "\<And>p. sent_to p l = sent_to p (io_log s) @ (if PORT_COM1 = p then ?t else [])"
    then show "printed ?t s (s\<lparr>io_log := l\<rparr>)"
      using display_frame [of s l "vidmem s"] by (simp add: printed_def)
  qed (use assms in \<open>simp add: console_ok_def\<close>)
  have "wp ?rest (\<lambda>_. printed [] s') s'" if "console_ok s'" for s'
  proof (cases "pmem_initialized s' \<and> \<not> is_initializing (std_output_buf s')")
    case True
    with that have "stdio_ok s'" "is_init (std_output_buf s')" by (auto simp: console_ok_def)
    with True show ?thesis
      by (simp add: pmem_isinit_def io_buffer_place_def io_buffer_init_def wp_place_out_loop)
  next
    case False
    then show ?thesis
      by (auto simp: pmem_isinit_def intro!: wp_display_printed display_rules)
  qed
  from wp_printed_seq [OF assms serial this] show ?thesis
    by (simp only: std_print_def append_Nil2)
qed

lemma wp_std_print_char:
  assumes "console_ok s"
  shows "wp (std_print_char c) (\<lambda>_. printed [c] s) s"
proof -
  let ?rest = "kbind pmem_isinit (\<lambda>init.
     kbind (kget (\<lambda>s. is_initializing (std_output_buf s))) (\<lambda>initializing.
     if init \<and> \<not> initializing then io_buffer_place StdOutput [c, 0x0]
     else vga_print_screen_char c DEFAULT_TEXT_COLOR))"
  have serial: "wp (serial_write PORT_COM1 c) (\<lambda>_. printed [c] s) s"
  proof (rule wp_serial_write)
    fix l
    assume "\<And>p. sent_to p l = sent_to p (io_log s) @ (if PORT_COM1 = p then [c] else [])"
    then show "printed [c] s (s\<lparr>io_log := l\<rparr>)"
      using display_frame [of s l "vidmem s"] by (simp add: printed_def)
  qed (use assms in \<open>simp add: console_ok_def\<close>)
  have "wp ?rest (\<lambda>_. printed [] s') s'" if "console_ok s'" for s'
  proof (cases "pmem_initialized s' \<and> \<not> is_initializing (std_output_buf s')")
    case True
    with that have "stdio_ok s'" "is_init (std_output_buf s')" by (auto simp: console_ok_def)
    with True show ?thesis
      by (simp add: pmem_isinit_def io_buffer_place_def io_buffer_init_def wp_place_out_loop
          del: io_buffer_place_loop.simps)
  next
    case False
    then show ?thesis
      by (auto simp: pmem_isinit_def intro!: wp_display_printed display_rules)
  qed
  from wp_printed_seq [OF assms serial this] show ?thesis
    by (simp only: std_print_char_def append_Nil2)
qed

lemma wp_print_chars:
  assumes "console_ok s"
  shows "wp (print_chars cs) (\<lambda>_. printed cs s) s"
  using assms
proof (induction cs arbitrary: s)
  case (Cons c cs)
  have "wp (kseq (std_print_char c) (print_chars cs)) (\<lambda>_. printed ([c] @ cs) s) s"
    by (intro wp_printed_seq [OF Cons.prems] wp_std_print_char Cons)
  then show ?case by simp
qed simp

text \<open>The text of a number: prefix and digits, most significant first.\<close>

definition uint_text :: "u32 \<Rightarrow> u32 \<Rightarrow> bytes" where
  "uint_text number base =
     (if base = 2 then cstr ''0b'' else if base = 16 then cstr ''0x'' else []) @
     (if number = 0 then cstr ''0'' else rev (uint_digits PRINTF_BUFFER_SIZE number base))"

lemma wp_print_uint:
  assumes "console_ok s" "base \<noteq> 0" "base \<le> 16"
  shows "wp (print_uint_to_string number base) (\<lambda>_. printed (uint_text number base) s) s"
proof -
  have prefix: "wp (if b then std_print (cstr p) else kret ()) (\<lambda>_. printed (if b then cstr p else []) s') s'"
    if "console_ok s'" "p \<in> {''0b'', ''0x''}" for s' :: "'a stdio_state_scheme" and b p
    using that wp_std_print [OF that(1), of "cstr p"] by (auto simp: cstr_def)
  have digits: "wp (if number = 0 then std_print_char 48 else kseq (kguard (base \<noteq> 0))
      (print_chars (rev (uint_digits PRINTF_BUFFER_SIZE number base))))
      (\<lambda>_. printed (if number = 0 then cstr ''0'' else rev (uint_digits PRINTF_BUFFER_SIZE number base)) s') s'"
    if "console_ok s'" for s' :: "'a stdio_state_scheme"
    using that wp_std_print_char [OF that, of 48] assms(2) by (simp add: wp_print_chars cstr_def)
  have split: "uint_text number base = (if base = 2 then cstr ''0b'' else []) @
      (if base = 16 then cstr ''0x'' else []) @
      (if number = 0 then cstr ''0'' else rev (uint_digits PRINTF_BUFFER_SIZE number base))"
    by (auto simp: uint_text_def)
  have "\<not> base > 16" using assms(3) by simp
  then show ?thesis
    unfolding split print_uint_to_string_def
    by (simp only: if_False)
      (intro wp_printed_seq assms(1) prefix digits; simp)
qed

text \<open>The text that \<open>printf\<close> prints for a format it accepts.\<close>

fun arg_text :: "char \<Rightarrow> printf_arg \<Rightarrow> bytes option" where
  "arg_text d (ArgStr str) = (if d = CHR ''s'' then Some (takeWhile (\<lambda>c. c \<noteq> 0) str) else None)"
| "arg_text d (ArgInt n) =
     (if d = CHR ''c'' then Some [ucast n]
      else if d = CHR ''d'' then Some (uint_text n 10)
      else if d = CHR ''x'' then Some (uint_text n 16)
      else if d = CHR ''b'' then Some (uint_text n 2)
      else None)"

fun render :: "string \<Rightarrow> printf_arg list \<Rightarrow> bytes option" where
  "render [] args = Some []"
| "render [c] args = (if c = CHR ''%'' then None else if c = CHR 0x00 then Some [] else Some [of_char c])"
| "render (c # d # format) args =
     (if c = CHR 0x00 then Some []
      else if c \<noteq> CHR ''%'' then map_option ((#) (of_char c)) (render (d # format) args)
      else if d = CHR ''%'' then map_option ((#) (of_char d)) (render format args)
      else (case args of [] \<Rightarrow> None
        | a # args' \<Rightarrow> (case arg_text d a of None \<Rightarrow> None
            | Some t \<Rightarrow> map_option ((@) t) (render format args'))))"


lemma of_char_u8_eq_iff: "(of_char c :: u8) = of_char d \<longleftrightarrow> c = d"
proof
  have unat: "unat (of_char x :: u8) = of_char x" for x
  proof -
    have "(of_char x :: u8) = of_nat (of_char x)" by (simp only: of_nat_of_char)
    moreover have "(of_char x :: nat) < 256" by (metis of_char_mod_256 mod_less_divisor zero_less_numeral)
    ultimately show ?thesis by (simp add: unat_of_nat)
  qed
  assume "(of_char c :: u8) = of_char d"
  then have "(of_char c :: nat) = of_char d" using unat by metis
  then show "c = d" by simp
qed simp

lemma of_char_u8_special:
  "(of_char c :: u8) = 0 \<longleftrightarrow> c = CHR 0x00" "(of_char c :: u8) = 37 \<longleftrightarrow> c = CHR ''%''"
  "(of_char c :: u8) = 115 \<longleftrightarrow> c = CHR ''s''" "(of_char c :: u8) = 99 \<longleftrightarrow> c = CHR ''c''"
  "(of_char c :: u8) = 100 \<longleftrightarrow> c = CHR ''d''" "(of_char c :: u8) = 120 \<longleftrightarrow> c = CHR ''x''"
  "(of_char c :: u8) = 98 \<longleftrightarrow> c = CHR ''b''"
  using of_char_u8_eq_iff [of c "CHR 0x00"] of_char_u8_eq_iff [of c "CHR ''%''"]
    of_char_u8_eq_iff [of c "CHR ''s''"] of_char_u8_eq_iff [of c "CHR ''c''"]
    of_char_u8_eq_iff [of c "CHR ''d''"] of_char_u8_eq_iff [of c "CHR ''x''"]
    of_char_u8_eq_iff [of c "CHR ''b''"]
  by simp_all

lemma wp_printf:
  assumes "console_ok s" "render format args = Some t"
  shows "wp (printf (cstr format) args) (\<lambda>_. printed t s) s"
  using assms
proof (induction format args arbitrary: s t rule: render.induct)
  case (1 args)
  then show ?case by (simp add: cstr_def)
next
  case (2 c args)
  then show ?case
    using wp_std_print_char [OF 2(1), of "of_char c"]
    by (auto simp: cstr_def of_char_u8_special split: if_splits)
next
  case (3 c d format args)
  note special = of_char_u8_special of_char_u8_eq_iff
  have one: "wp (kseq (std_print_char x) (printf (cstr f) as)) (\<lambda>_. printed (x # u) s) s"
    if "\<And>s' :: 'a stdio_state_scheme. console_ok s' \<Longrightarrow> wp (printf (cstr f) as) (\<lambda>_. printed u s') s'" for x f as u
    using wp_printed_seq [OF 3(4) wp_std_print_char [OF 3(4), of x], of "printf (cstr f) as" u] that by simp
  consider "c = CHR 0x00" | "c \<noteq> CHR 0x00" "c \<noteq> CHR ''%''" | "c = CHR ''%''" "d = CHR ''%''"
    | "c = CHR ''%''" "d \<noteq> CHR ''%''" by blast
  then show ?case
  proof cases
    case 1
    with 3(5) show ?thesis by (simp add: cstr_def)
  next
    case 2
    then obtain u where u: "render (d # format) args = Some u" "t = of_char c # u"
      using 3(5) by auto
    have "(printf (cstr (c # d # format)) args :: ('a stdio_state_scheme, unit) kM)
        = kseq (std_print_char (of_char c)) (printf (cstr (d # format)) args)"
      using 2 by (simp add: cstr_def special)
    then show ?thesis
      unfolding u(2) using one [OF 3(1) [OF 2(1) _ _ u(1)]] 2 by simp
  next
    case case3: 3
    then obtain u where u: "render format args = Some u" "t = of_char d # u"
      using 3(5) by auto
    have "(printf (cstr (c # d # format)) args :: ('a stdio_state_scheme, unit) kM)
        = kseq (std_print_char (of_char d)) (printf (cstr format) args)"
      using case3 by (simp add: cstr_def special)
    then show ?thesis
      unfolding u(2) using one [OF 3(2) [OF _ _ case3(2) _ u(1)]] case3 by simp
  next
    case 4
    then obtain a args' v u where u: "args = a # args'" "arg_text d a = Some v" "render format args' = Some u" "t = v @ u"
      using 3(5) by (auto split: list.splits option.splits)
    have rest: "wp (printf (cstr format) args') (\<lambda>_. printed u s') s'" if "console_ok s'" for s' :: "'a stdio_state_scheme"
      using 3(3) [OF _ _ 4(2) u(1,2) that u(3)] 4 by simp
    obtain f where f: "printf (cstr (c # d # format)) args = kseq f (printf (cstr format) args')"
      and wp: "wp f (\<lambda>_. printed v s) s"
    proof (cases a)
      case (ArgStr str)
      with u(2) have "d = CHR ''s''" "v = takeWhile (\<lambda>c. c \<noteq> 0) str" by (auto split: if_splits)
      with ArgStr 4 u(1) show thesis
        using that [of "std_print str"] wp_std_print [OF 3(4), of str] by (simp add: cstr_def)
    next
      case (ArgInt n)
      with u(2) consider "d = CHR ''c''" "v = [ucast n]" | "d = CHR ''d''" "v = uint_text n 10"
        | "d = CHR ''x''" "v = uint_text n 16" | "d = CHR ''b''" "v = uint_text n 2"
        by (auto split: if_splits)
      then show thesis
        using 4 u(1) ArgInt that [of "std_print_char (ucast n)"] wp_std_print_char [OF 3(4), of "ucast n"]
          that [of "print_uint_to_string n 10"] wp_print_uint [OF 3(4), of 10 n]
          that [of "print_uint_to_string n 16"] wp_print_uint [OF 3(4), of 16 n]
          that [of "print_uint_to_string n 2"] wp_print_uint [OF 3(4), of 2 n]
        by cases (simp_all add: cstr_def)
    qed
    show ?thesis
      unfolding f u(4) by (rule wp_printed_seq [OF 3(4) wp rest])
  qed
qed


lemma wp_printf_frame:
  assumes "console_ok s" "render format args \<noteq> None" "\<And>s'. console_frame s s' \<Longrightarrow> Q () s'"
  shows "wp (printf (cstr format) args) Q s"
proof -
  obtain t where "render format args = Some t" using assms(2) by blast
  from wp_printf [OF assms(1) this] show ?thesis
    by (rule wp_mono) (auto simp: printed_def assms(3))
qed

text \<open>Before the allocator is set up, printing changes the screen and the port history only.\<close>

lemma wp_printf_early:
  assumes "serial_responsive (hw_byte s) PORT_COM1" "\<not> pmem_initialized s" "render format args \<noteq> None"
    and "\<And>v l. Q () (s\<lparr>vidmem := v, io_log := l\<rparr>)"
  shows "wp (printf (cstr format) args) Q s"
proof -
  obtain t where "render format args = Some t" using assms(3) by blast
  then have "wp (printf (cstr format) args) (\<lambda>_. printed t s) s"
    using assms by (intro wp_printf) (simp_all add: console_ok_def)
  then show ?thesis
  proof (rule wp_mono)
    fix a s'
    assume "printed t s s'"
    then have frame: "console_frame s s'" by (simp add: printed_def)
    then obtain v l m b where "s' = s\<lparr>vidmem := v, io_log := l, mem := m, std_output_buf := b\<rparr>"
      unfolding console_frame_def by blast
    moreover have "mem s' = mem s" "std_output_buf s' = std_output_buf s"
      using console_frameD(2) [OF frame] assms(2) by simp_all
    ultimately have "s' = s\<lparr>vidmem := v, io_log := l\<rparr>" by simp
    then show "Q a s'" using assms(4) by simp
  qed
qed

section \<open>The input stream is a queue\<close>

definition stdin_ok :: "'z stdio_state_scheme \<Rightarrow> bool" where
  "stdin_ok s \<longleftrightarrow> stdio_ok s \<and> can_init StdInput s"

lemma stdin_room:
  assumes "stdio_ok s" "is_init (std_input_buf s)"
  shows "(head_ptr (std_input_buf s) + 1) mod 4096 \<noteq> tail_ptr (std_input_buf s)
    \<longleftrightarrow> length (stream StdInput s) < 4095"
proof -
  let ?b = "std_input_buf s"
  have b: "b_size ?b = 4096" "head_ptr ?b < 4096" "tail_ptr ?b < 4096"
    using buf_readyD [OF buf_ok_ready(1) [OF assms(1), of StdInput]] assms(2) by simp_all
  have "(head_ptr ?b + 1) mod 4096 = tail_ptr ?b \<longleftrightarrow> ring_len 4096 (head_ptr ?b) (tail_ptr ?b) = 4096 - 1"
    using b by (intro ring_len_full)
  moreover have "ring_len 4096 (head_ptr ?b) (tail_ptr ?b) < 4096"
    using b by (intro ring_len_less)
  ultimately show ?thesis
    using assms(2) b(1) by (auto simp: stream_def buf_contents_length)
qed

lemma stdin_put_eq:
  assumes "stdio_ok s"
  shows "stdlib_put_stdio_input_char c s = io_buffer_place StdInput [c, 0] s"
proof -
  have "\<not> is_initializing (std_output_buf s)"
    using stdio_okD(2) [OF assms, of StdOutput] by (simp add: buf_ok_def Let_def)
  then show ?thesis
    using pmem_okD(1) [OF stdio_okD(1) [OF assms]]
    by (simp add: stdlib_put_stdio_input_char_def pmem_isinit_def)
qed

lemma wp_stdin_put_io:
  assumes "stdin_ok s" "c \<noteq> 0" "length (stream StdInput s) < 4095"
  shows "wp (stdlib_put_stdio_input_char c)
    (\<lambda>_ s'. stdin_ok s' \<and> stream StdInput s' = stream StdInput s @ [c] \<and> hw_byte s' = hw_byte s \<and> io_log s' = io_log s) s"
proof -
  have place: "wp (io_buffer_place_loop StdInput [c, 0])
      (\<lambda>_ s'. stdin_ok s' \<and> stream StdInput s' = stream StdInput s @ [c] \<and> hw_byte s' = hw_byte s \<and> io_log s' = io_log s) t"
    if t: "stdio_ok t" "is_init (std_input_buf t)" "stream StdInput t = stream StdInput s" "hw_byte t = hw_byte s" "io_log t = io_log s" for t
  proof -
    have room: "(head_ptr (std_input_buf t) + 1) mod 4096 \<noteq> tail_ptr (std_input_buf t)"
      using stdin_room [OF t(1,2)] t(3) assms(3) by simp
    have "buf_ready (std_input_buf t)"
      using buf_ok_ready(1) [OF t(1), of StdInput] t(2) by simp
    moreover have "stdin_ok (place_byte StdInput c t)"
      "stream StdInput (place_byte StdInput c t) = stream StdInput s @ [c]"
      "hw_byte (place_byte StdInput c t) = hw_byte s" "io_log (place_byte StdInput c t) = io_log s"
      using t(4,5) place_byte_stream [OF t(1), of StdInput c] t(2,3) assms(2) room
      by (simp_all add: stdin_ok_def can_init_def place_byte_def)
    ultimately show ?thesis
      using assms(2) room by (simp, intro wp_place_char_room) simp_all
  qed
  have "wp (io_buffer_init StdInput) (\<lambda>_ s'. stdio_ok s' \<and> is_init (std_buf StdInput s')
    \<and> (\<forall>j. stream j s' = stream j s) \<and> hw_byte s' = hw_byte s \<and> io_log s' = io_log s
    \<and> (is_init (std_buf StdInput s) \<longrightarrow> s' = s)) s"
    using assms(1) by (intro init_stream) (simp_all add: stdin_ok_def)
  then have "wp (io_buffer_place StdInput [c, 0])
      (\<lambda>_ s'. stdin_ok s' \<and> stream StdInput s' = stream StdInput s @ [c] \<and> hw_byte s' = hw_byte s \<and> io_log s' = io_log s) s"
    unfolding io_buffer_place_def wp_kseq
    by (rule wp_mono) (auto simp del: io_buffer_place_loop.simps intro: place)
  then show ?thesis
    using stdin_put_eq [of s c] assms(1) by (simp add: wp_def stdin_ok_def)
qed

lemma wp_stdin_put:
  assumes "stdin_ok s" "c \<noteq> 0" "length (stream StdInput s) < 4095"
  shows "wp (stdlib_put_stdio_input_char c)
    (\<lambda>_ s'. stdin_ok s' \<and> stream StdInput s' = stream StdInput s @ [c]) s"
  by (rule wp_mono [OF wp_stdin_put_io [OF assms]]) simp

lemma wp_stdin_get:
  assumes "stdin_ok s"
  shows "wp stdlib_pop_stdio_input_char (\<lambda>c s'. stdin_ok s' \<and> stream StdInput s' = tl (stream StdInput s)
    \<and> c = (case stream StdInput s of [] \<Rightarrow> 0 | x # _ \<Rightarrow> x)) s"
proof (cases "is_init (std_input_buf s)")
  case True
  with assms have ok: "stdio_ok s" by (simp add: stdin_ok_def)
  have "stdlib_pop_stdio_input_char s = io_buffer_pop StdInput s"
    using pmem_okD(1) [OF stdio_okD(1) [OF ok]] True
    by (simp add: stdlib_pop_stdio_input_char_def pmem_isinit_def)
  moreover have "wp (io_buffer_pop StdInput) (\<lambda>c s'. stdin_ok s' \<and> stream StdInput s' = tl (stream StdInput s)
    \<and> c = (case stream StdInput s of [] \<Rightarrow> 0 | x # _ \<Rightarrow> x)) s"
    by (rule wp_mono [OF pop_stream [OF ok]]) (use True in \<open>auto simp: stdin_ok_def can_init_def\<close>)
  ultimately show ?thesis by (simp add: wp_def)
next
  case False
  then show ?thesis
    using assms by (simp add: stdlib_pop_stdio_input_char_def pmem_isinit_def stream_def)
qed

interpretation stdin: fifo stdlib_put_stdio_input_char stdlib_pop_stdio_input_char "stream StdInput" stdin_ok 4095
  by unfold_locales (rule wp_stdin_put wp_stdin_get; assumption)+

section \<open>States that agree on the console\<close>

text \<open>What the console and the page allocator promise depends on their own part of the state only.\<close>

lemma stdio_truncate:
  "pmem_ok (stdio_state.truncate s) = pmem_ok s" "pmem_pages (stdio_state.truncate s) = pmem_pages s"
  "used_pages (stdio_state.truncate s) = used_pages s" "std_buf i (stdio_state.truncate s) = std_buf i s"
  "stdio_ok (stdio_state.truncate s) = stdio_ok s" "console_ok (stdio_state.truncate s) = console_ok s"
  "stream i (stdio_state.truncate s) = stream i s"
proof -
  note t = stdio_state.truncate_def
  show pm: "pmem_ok (stdio_state.truncate s) = pmem_ok s" and pp: "pmem_pages (stdio_state.truncate s) = pmem_pages s"
    and up: "used_pages (stdio_state.truncate s) = used_pages s"
    by (simp_all add: t pmem_ok_def pmem_pages_def used_pages_def pmem_used_def entry_used_def record_addr_def
        entry_addr_def [abs_def] pmem_blocks_def)
  show b: "std_buf i (stdio_state.truncate s) = std_buf i s" for i by (cases i) (simp_all add: t)
  have "buf_ok i (stdio_state.truncate s) = buf_ok i s" for i by (simp add: buf_ok_def Let_def b up) (simp add: t)
  then show st: "stdio_ok (stdio_state.truncate s) = stdio_ok s"
    using b [of StdInput] b [of StdOutput] by (simp add: stdio_ok_def pm)
  show "console_ok (stdio_state.truncate s) = console_ok s"
    unfolding console_ok_def st by (simp add: t)
  show "stream i (stdio_state.truncate s) = stream i s" by (simp add: stream_def b) (simp add: t)
qed

lemma stdio_cong:
  assumes "stdio_state.truncate s = stdio_state.truncate s'"
  shows "pmem_ok s = pmem_ok s'" "pmem_pages s = pmem_pages s'" "used_pages s = used_pages s'"
    "stdio_ok s = stdio_ok s'" "console_ok s = console_ok s'" "stream i s = stream i s'" "std_buf i s = std_buf i s'"
  by (simp_all only: stdio_truncate [where s = s, symmetric] assms,
      simp_all only: stdio_truncate)

section \<open>Digits and byte order\<close>

text \<open>The number that a list of digit characters, most significant first, denotes.\<close>

definition digit_value :: "u8 \<Rightarrow> nat" where
  "digit_value c = (if c \<ge> 65 then unat c - 55 else unat c - 48)"

definition digits_value :: "nat \<Rightarrow> bytes \<Rightarrow> nat" where
  "digits_value base ds = foldl (\<lambda>v d. v * base + digit_value d) 0 ds"

lemma digit_value_numtochar:
  assumes "d < 16"
  shows "digit_value (numtochar ! d) = d"
proof -
  have "d \<in> set [0..<16]" using assms by simp
  moreover have "list_all (\<lambda>d. digit_value (numtochar ! d) = d) [0..<16]" by code_simp
  ultimately show ?thesis by (simp add: list_all_iff)
qed

lemma digits_value_snoc: "digits_value b (ds @ [d]) = digits_value b ds * b + digit_value d"
  by (simp add: digits_value_def)

lemma uint_digits_value:
  assumes "1 < unat base" "unat base \<le> 16" "unat number < unat base ^ room" "0 < room"
  shows "digits_value (unat base) (rev (uint_digits room number base)) = unat number"
  using assms(3,4)
proof (induction room arbitrary: number)
  case (Suc room)
  have digit: "digit_value (numtochar ! unat (number mod base)) = unat number mod unat base"
    using assms(1,2) by (subst digit_value_numtochar) (simp_all add: unat_mod_distrib less_le_trans [OF mod_less_divisor])
  have div: "unat (number div base) = unat number div unat base"
    by (simp add: unat_div_distrib)
  show ?case
  proof (cases "number div base = 0")
    case True
    then have "unat number div unat base = 0" using div by simp
    then have "unat number mod unat base = unat number" using assms(1) by (simp add: div_eq_0_iff)
    with True digit show ?thesis by (simp add: digits_value_def)
  next
    case False
    then have "0 < unat number div unat base" using div by (metis unat_eq_zero gr0I)
    have "unat (number div base) < unat base ^ room"
      using Suc.prems(1) assms(1) by (simp add: div less_mult_imp_div_less mult.commute)
    moreover have "0 < room"
      using Suc.prems(1) \<open>0 < unat number div unat base\<close> assms(1) by (cases room) auto
    ultimately have "digits_value (unat base) (rev (uint_digits room (number div base) base)) = unat number div unat base"
      using Suc.IH div by simp
    with False digit show ?thesis by (simp add: digits_value_snoc)
  qed
qed simp

lemma eswap_bytes16: "le16_bytes (eswap_uint16 v) = rev (le16_bytes v)"
  by (auto simp: le16_bytes_def eswap_uint16_def intro!: bit_word_eqI simp: bit_simps)

lemma eswap_uint32_masks: "eswap_uint32 v =
    (push_bit 24 v AND push_bit 24 (mask 8)) OR (push_bit 8 v AND push_bit 16 (mask 8)) OR
    (drop_bit 8 v AND push_bit 8 (mask 8)) OR (drop_bit 24 v AND mask 8)"
proof -
  have "(0xff000000 :: u32) = push_bit 24 (mask 8)" "(0xff0000 :: u32) = push_bit 16 (mask 8)"
    "(0xff00 :: u32) = push_bit 8 (mask 8)" "(0xff :: u32) = mask 8"
    by (simp_all add: mask_eq_exp_minus_1 push_bit_eq_mult)
  then show ?thesis by (simp only: eswap_uint32_def)
qed

lemma eswap_bytes32: "le32_bytes (eswap_uint32 v) = rev (le32_bytes v)"
proof -
  have b: "bit (eswap_uint32 v) n \<longleftrightarrow>
      (if n < 8 then bit v (24 + n) else if n < 16 then bit v (8 + n)
       else if n < 24 then bit v (n - 8) else n < 32 \<and> bit v (n - 24))" for n
    unfolding eswap_uint32_masks
    by (auto simp: bit_and_iff bit_or_iff bit_push_bit_iff bit_drop_bit_eq bit_mask_iff possible_bit_def)
  show ?thesis
    by (simp add: le32_bytes_def, intro conjI; rule bit_word_eqI)
      (simp_all add: bit_ucast_iff bit_drop_bit_eq b)
qed


section \<open>Properties\<close>

text \<open>
  A small concrete console: eight pages, the first holds the output buffer, the input buffer has
  no page yet.
\<close>

definition small_console :: stdio_state where
  "small_console = \<lparr>mem = (\<lambda>a. if a = 0x200000 then 1 else 0), vidmem = (\<lambda>_. 0), io_log = [],
     hw_byte = (\<lambda>_ _. 0x20), hw_word = (\<lambda>_ _. 0), int_enabled = False, is_serial_connected = 1,
     pmem_initialized = True, pmem_main_memory_start = 0x200000, pmem_main_memory_length = 0x8000,
     pmem_alloc_start = 0x201000, pmem_mgr_reserved_size = 8, pmem_curr_alloc_record = 0,
     pmem_mbd = None, pmem_kernel_reserved_end_addr = 0x200000,
     std_input_buf = \<lparr>is_initializing = False, is_init = False, b_addr = 0, head_ptr = 0,
       tail_ptr = 0, b_size = 0, autoflush_to_screen = False\<rparr>,
     std_output_buf = \<lparr>is_initializing = False, is_init = True, b_addr = 0x201000, head_ptr = 0,
       tail_ptr = 0, b_size = 4096, autoflush_to_screen = True\<rparr>\<rparr>"

lemma small_console_used: "pmem_used small_console = {0}"
proof
  have "(0x200000 :: u32) + of_nat e = 0x200000 \<longleftrightarrow> e = 0" if "e < 8" for e
    using that of_nat_u32_eq_iff [of e 0] by simp
  then show "pmem_used small_console \<subseteq> {0}"
    by (auto simp: pmem_used_def entry_used_def record_addr_def pmem_blocks_def small_console_def split: if_splits)
  show "{0} \<subseteq> pmem_used small_console"
    by (simp add: pmem_used_def entry_used_def record_addr_def pmem_blocks_def small_console_def)
qed

lemma small_console_ok: "stdio_ok small_console" "console_ok small_console" "stdin_ok small_console"
proof -
  have used: "used_pages small_console = {0x201000}"
    by (simp add: used_pages_def small_console_used entry_addr_def) (simp add: small_console_def)
  have pm: "pmem_ok small_console"
    by (simp add: pmem_ok_def small_console_def pmem_blocks_def)
  have out: "buf_ok StdOutput small_console"
    by (simp add: buf_ok_def used) (simp add: small_console_def buf_ready_def buf_contents_def ring_len_def)
  have inp: "buf_ok StdInput small_console"
    by (simp add: buf_ok_def small_console_def)
  show ok: "stdio_ok small_console"
    using pm out inp by (simp add: stdio_ok_def) (simp add: small_console_def)
  show "console_ok small_console"
    using ok by (simp add: console_ok_def) (simp add: small_console_def serial_responsive_def)
  have "card (pmem_pages small_console - used_pages small_console) = 7"
    by (simp add: card_free_pages [OF pm] small_console_used) (simp add: pmem_blocks_def small_console_def)
  with ok show "stdin_ok small_console"
    by (simp add: stdin_ok_def can_init_def)
qed

text \<open>C18: \<open>printf\<close> refines a pure rendering function. On a working console, for every format and
  argument list that fit together, \<open>printf\<close> returns (no overflow, no busy loop), the serial line
  receives exactly the rendered text, the console still works, pending input is untouched and so is
  every byte of memory outside the output buffer's page.\<close>

theorem printf_refines_render:
  assumes "console_ok s" "render format args = Some t"
  shows "wp (printf (cstr format) args) (\<lambda>_ s'. console_ok s'
    \<and> sent_to PORT_COM1 (io_log s') = sent_to PORT_COM1 (io_log s) @ t
    \<and> stream StdInput s' = stream StdInput s
    \<and> (\<forall>a. page_of a \<noteq> b_addr (std_output_buf s) \<longrightarrow> mem s' a = mem s a)) s"
  by (rule wp_mono [OF wp_printf [OF assms]])
    (use console_ok_frame [OF assms(1)] in \<open>simp add: printed_def console_frameD\<close>)

theorem printf_refines_render_witness:
  "wp (printf (cstr ''n=%d%%'') [ArgInt 42]) (\<lambda>_ s'. console_ok s'
    \<and> sent_to PORT_COM1 (io_log s') = cstr ''n=42%''
    \<and> stream StdInput s' = stream StdInput small_console
    \<and> (\<forall>a. page_of a \<noteq> 0x201000 \<longrightarrow> mem s' a = mem small_console a)) small_console"
proof -
  have "render ''n=%d%%'' [ArgInt 42] = Some (cstr ''n=42%'')" by code_simp
  moreover have "sent_to PORT_COM1 (io_log small_console) = []" "b_addr (std_output_buf small_console) = 0x201000"
    by (simp_all add: small_console_def)
  ultimately show ?thesis
    using printf_refines_render [OF small_console_ok(2), of "''n=%d%%''" "[ArgInt 42]" "cstr ''n=42%''"] by simp
qed

text \<open>C32: the digits printed for a number denote it: for every base from 2 to 16 the 32-byte
  buffer is large enough and reading the digits back gives the number.\<close>

theorem print_uint_digits_roundtrip:
  assumes "2 \<le> unat base" "unat base \<le> 16"
  shows "digits_value (unat base) (rev (uint_digits PRINTF_BUFFER_SIZE number base)) = unat number"
proof (rule uint_digits_value)
  have "(2 :: nat) ^ 32 \<le> unat base ^ 32" using assms(1) by (rule power_mono) simp
  moreover have "unat number < 2 ^ 32" using unat_u32_less [of number] by simp
  ultimately show "unat number < unat base ^ 32" by (rule less_le_trans [rotated])
qed (use assms in simp_all)

theorem print_uint_digits_roundtrip_witness:
  "digits_value 16 (rev (uint_digits PRINTF_BUFFER_SIZE 0xCAFE 16)) = 0xCAFE"
  using print_uint_digits_roundtrip [where base = 16 and number = "0xCAFE"] by simp

text \<open>C19: the standard input is a queue: up to 4095 characters put by the keyboard come out again
  in the order they went in, and then the stream is empty.\<close>

theorem stdin_put_get:
  assumes "stdin_ok s" "stream StdInput s = []" "0 \<notin> set cs" "length cs \<le> 4095"
  shows "wp (kseq (put_all stdlib_put_stdio_input_char cs) (get_n stdlib_pop_stdio_input_char (length cs)))
    (\<lambda>r s'. stdin_ok s' \<and> r = cs \<and> stream StdInput s' = []) s"
  by (rule stdin.put_get [OF assms])

theorem stdin_put_get_witness:
  "wp (kseq (put_all stdlib_put_stdio_input_char (cstr ''ls'')) (get_n stdlib_pop_stdio_input_char (length (cstr ''ls''))))
    (\<lambda>r s'. stdin_ok s' \<and> r = cstr ''ls'' \<and> stream StdInput s' = []) small_console"
proof -
  have "stream StdInput small_console = []" by (simp add: stream_def small_console_def)
  then show ?thesis
    by (intro stdin_put_get [OF small_console_ok(3)]) (simp_all add: cstr_def)
qed

text \<open>A character that arrives when 4095 are waiting is not dropped: the kernel panics.\<close>

theorem stdin_overflow_panics:
  assumes "stdio_ok s" "length (stream StdInput s) = 4095" "c \<noteq> 0"
  shows "\<exists>s'. stdlib_put_stdio_input_char c s = Panicked
    ''StdLib IO Buffer overflow! TODO: Flush what we have at this point automatically! Log to overflows! '' s'"
proof -
  have init: "is_init (std_buf StdInput s)" using assms(2) by (simp add: stream_def split: if_splits)
  then have "(head_ptr (std_buf StdInput s) + 1) mod 4096 = tail_ptr (std_buf StdInput s)"
    using stdin_room [OF assms(1)] assms(2) by simp
  moreover have "buf_ready (std_buf StdInput s)" "\<not> autoflush_to_screen (std_buf StdInput s)"
    using buf_ok_ready(1) [OF assms(1) init] stdio_okD(3) [OF assms(1), of StdInput] by simp_all
  ultimately obtain s' where "io_buffer_place_char StdInput c s = Panicked
    ''StdLib IO Buffer overflow! TODO: Flush what we have at this point automatically! Log to overflows! '' s'"
    by (metis place_char_overflow)
  then show ?thesis
    using init assms(3) stdin_put_eq [OF assms(1), of c]
    by (simp add: io_buffer_place_def io_buffer_init_def kernel_defs)
qed

definition full_console :: stdio_state where
  "full_console = small_console\<lparr>mem := (\<lambda>a. if page_of a = 0x202000 then 65
       else if a = 0x200000 \<or> a = 0x200001 then 1 else 0),
     std_input_buf := \<lparr>is_initializing = False, is_init = True, b_addr = 0x202000, head_ptr = 4095,
       tail_ptr = 0, b_size = 4096, autoflush_to_screen = False\<rparr>\<rparr>"

lemma full_console_ok: "stdio_ok full_console" "length (stream StdInput full_console) = 4095"
proof -
  have rec: "mem full_console (0x200000 + of_nat e) \<noteq> 0 \<longleftrightarrow> e = 0 \<or> e = 1" if "e < 8" for e
  proof -
    have "unat (0x200000 + of_nat e :: u32) = 0x200000 + e"
      using that by (simp add: unat_word_ariths unat_of_nat)
    then have "page_of (0x200000 + of_nat e) \<noteq> 0x202000"
      using that by (auto simp: word_unat_eq_iff unat_page_of)
    then show ?thesis
      using that of_nat_u32_eq_iff [of e 0] of_nat_u32_eq_iff [of e 1] by (auto simp: full_console_def)
  qed
  have "pmem_blocks full_console = 8" "pmem_main_memory_start full_console = 0x200000"
    by (simp_all add: pmem_blocks_def full_console_def small_console_def)
  then have "pmem_used full_console = {e. e < 8 \<and> mem full_console (0x200000 + of_nat e) \<noteq> 0}"
    by (simp add: pmem_used_def entry_used_def record_addr_def)
  then have "pmem_used full_console = {0, 1}" using rec rec [of 0] rec [of 1] by auto
  then have used: "used_pages full_console = {0x201000, 0x202000}"
    by (simp add: used_pages_def entry_addr_def) (simp add: full_console_def small_console_def)
  have pm: "pmem_ok full_console"
    by (simp add: pmem_ok_def full_console_def small_console_def pmem_blocks_def)
  have "buf_ok StdOutput full_console"
    by (simp add: buf_ok_def used) (simp add: full_console_def small_console_def buf_ready_def buf_contents_def ring_len_def)
  moreover have "page_of (0x202000 + of_nat (i mod 4096)) = 0x202000" for i
    by (rule page_offset(2)) simp_all
  then have "buf_contents (mem full_console) (std_input_buf full_console) = map (\<lambda>_. 65) [0..<4095]"
    by (simp add: buf_contents_def ring_len_def full_console_def page_offset(2))
  moreover have "buf_ok StdInput full_console"
    by (simp add: buf_ok_def used calculation(2)) (auto simp: full_console_def buf_ready_def)
  ultimately show "stdio_ok full_console"
    using pm by (simp add: stdio_ok_def) (simp add: full_console_def small_console_def)
  show "length (stream StdInput full_console) = 4095"
    by (simp add: stream_def buf_contents_length) (simp add: full_console_def ring_len_def)
qed

theorem stdin_overflow_panics_witness:
  "\<exists>s'. stdlib_put_stdio_input_char 65 full_console = Panicked
    ''StdLib IO Buffer overflow! TODO: Flush what we have at this point automatically! Log to overflows! '' s'"
  by (rule stdin_overflow_panics [OF full_console_ok]) simp

text \<open>\<open>eswap_uint32\<close> reverses the bytes of its argument, so swapping twice is the identity.\<close>

theorem eswap_reverses_bytes:
  "le32_bytes (eswap_uint32 v) = rev (le32_bytes v) \<and> eswap_uint32 (eswap_uint32 v) = v
    \<and> le16_bytes (eswap_uint16 w) = rev (le16_bytes w) \<and> eswap_uint16 (eswap_uint16 w) = w"
  by (metis eswap_bytes32 eswap_bytes16 rev_rev_ident le32_roundtrip le16_roundtrip)

end
