(* ===== verification/Pmem_Mgr.thy ===== *)
theory Pmem_Mgr
  imports Stdlib
begin

text \<open>
  The operations of the physical page allocator (\<open>drivers/memory/pmem.c\<close>) that print:
  \<open>pmem_initialize\<close>, which takes the largest available region of the boot loader's memory map,
  \<open>pmem_free\<close> and \<open>pmem_list_info\<close>. With \<open>pmem_free\<close> the allocator provides the whole
  interface \<open>page_allocator\<close>.
\<close>

section \<open>Definitions\<close>

abbreviation (input) "MEM_RESERVED_SECTION_MIN \<equiv> (0x100000 :: u32)"
abbreviation (input) "MIN_MEM_SIZE \<equiv> (0xFFFF :: u32)"
abbreviation (input) "MULTIBOOT_MEMORY_AVAILABLE \<equiv> (1 :: u32)"

text \<open>A packed memory-map entry of 24 bytes, as the kernel reads it through a pointer.\<close>

definition mmap_entry_at :: "memory \<Rightarrow> u32 \<Rightarrow> multiboot_mmap_entry" where
  "mmap_entry_at m a = \<lparr>mmap_size = load32 m a, mmap_addr_low = load32 m (a + 4),
     mmap_addr_high = load32 m (a + 8), mmap_len_low = load32 m (a + 12),
     mmap_len_high = load32 m (a + 16), mmap_type = load32 m (a + 20)\<rparr>"

text \<open>
  The number of iterations of the scan, whose index grows by 24. The index is a signed int: a map
  so long that it overflows has no meaning.
\<close>

definition mmap_count :: "u32 \<Rightarrow> nat" where
  "mmap_count len = (unat len + 23) div 24"

definition pmem_scan_entry :: "u32 \<Rightarrow> nat \<Rightarrow> ('z stdio_state_scheme, unit) kM" where
  "pmem_scan_entry addr k =
     kbind (kget (\<lambda>s. mmap_entry_at (mem s) (addr + of_nat (24 * k)))) (\<lambda>cs.
     kseq (printf (cstr ''Start Addr: %x | Length: %x | Size: %x | Type: %d\<newline>'')
       [ArgInt (mmap_addr_low cs), ArgInt (mmap_len_low cs), ArgInt (mmap_size cs), ArgInt (mmap_type cs)])
    (kbind (kget pmem_main_memory_length) (\<lambda>len.
     if mmap_type cs = MULTIBOOT_MEMORY_AVAILABLE \<and> mmap_len_low cs > len
     then kmod (\<lambda>s. s\<lparr>pmem_main_memory_start := mmap_addr_low cs, pmem_main_memory_length := mmap_len_low cs\<rparr>)
     else kret ())))"

definition pmem_skip_kernel :: "('z stdio_state_scheme, unit) kM" where
  "pmem_skip_kernel =
     kbind (kget pmem_main_memory_start) (\<lambda>start.
     kbind (kget pmem_main_memory_length) (\<lambda>len.
     kbind (kget pmem_kernel_reserved_end_addr) (\<lambda>kernel_end.
     if start < kernel_end then
       let space_to_alloc = kernel_end - start in
       if space_to_alloc > len then panic ''Not enough free space outside kernel!''
       else
         kseq (kmod (\<lambda>s. s\<lparr>pmem_main_memory_start := kernel_end, pmem_main_memory_length := len - space_to_alloc\<rparr>))
              (printf (cstr ''New main memory start addr: %x | length: %x\<newline>'')
                [ArgInt kernel_end, ArgInt (len - space_to_alloc)])
     else kret ())))"

definition pmem_zero_records :: "u32 \<Rightarrow> nat \<Rightarrow> memory \<Rightarrow> memory" where
  "pmem_zero_records start n m = fold (\<lambda>i m. m(start + of_nat i := 0)) [0..<n] m"

definition pmem_layout :: "('z stdio_state_scheme, unit) kM" where
  "pmem_layout =
     kbind (kget pmem_main_memory_start) (\<lambda>start.
     kbind (kget pmem_main_memory_length) (\<lambda>len.
     let end_addr = start + len; mgr_size = len div PHYS_BLOCK_SIZE;
         start_addr_alloc = (start + (mgr_size + PHYS_BLOCK_SIZE)) AND NOT (PHYS_BLOCK_SIZE - 1);
         len' = end_addr - start_addr_alloc
     in kmod (\<lambda>s. s\<lparr>mem := pmem_zero_records start (unat mgr_size) (mem s),
          pmem_alloc_start := start_addr_alloc, pmem_main_memory_length := len',
          pmem_mgr_reserved_size := len' div PHYS_BLOCK_SIZE\<rparr>)))"

definition pmem_check_and_finish :: "('z stdio_state_scheme, unit) kM" where
  "pmem_check_and_finish =
     kbind (kget pmem_main_memory_start) (\<lambda>start.
     kbind (kget pmem_main_memory_length) (\<lambda>len.
     kbind (kget pmem_alloc_start) (\<lambda>alloc_start.
     kbind (kget pmem_mgr_reserved_size) (\<lambda>mgr_size.
     kseq (printf (cstr ''Alloc Start: %x | Length: %x | # of Blocks: %d \<newline>'')
             [ArgInt alloc_start, ArgInt len, ArgInt mgr_size])
    (kseq (printf (cstr ''Free Memory: %d MB\<newline>'') [ArgInt (len div 1024 div 1024)])
    (if start < MEM_RESERVED_SECTION_MIN then panic ''invalid memory start region!''
     else if len = 0 then panic ''cannot have a memory of length 0!''
     else if len < MIN_MEM_SIZE then panic ''not enough memory!''
     else kmod (\<lambda>s. s\<lparr>pmem_initialized := True\<rparr>)))))))"

definition pmem_initialize :: "('z stdio_state_scheme, unit) kM" where
  "pmem_initialize =
     kbind (kget pmem_mbd) (\<lambda>mbd. case mbd of
       None \<Rightarrow> panic ''pmem: MBD was never set!''
     | Some mbd \<Rightarrow>
     kbind (kget pmem_kernel_reserved_end_addr) (\<lambda>kernel_end.
     if kernel_end = 0 then panic ''pmem: kernel reserved end addr is 0!''
     else if drop_bit 6 (mbi_flags mbd) AND 1 = 0 then
       kseq (printf (cstr ''mbd flags: %b'') [ArgInt (mbi_flags mbd)])
            (panic ''invalid memory map given by GRUB bootloader'')
     else
       kseq (kmod (\<lambda>s. s\<lparr>pmem_main_memory_start := 0, pmem_main_memory_length := 0\<rparr>))
      (kseq (printf (cstr ''memory map addr is %x and the length is %d\<newline>'')
               [ArgInt (mbi_mmap_addr mbd), ArgInt (mbi_mmap_length mbd)])
      (kseq (kguard (24 * mmap_count (mbi_mmap_length mbd) < 2147483648))
      (kseq (kfor [0..<mmap_count (mbi_mmap_length mbd)] (pmem_scan_entry (mbi_mmap_addr mbd)))
      (kbind (kget (\<lambda>s. (pmem_main_memory_start s, pmem_main_memory_length s))) (\<lambda>(start, len).
       kseq (printf (cstr ''Main memory start addr: %x | length: %x\<newline>'') [ArgInt start, ArgInt len])
      (kseq pmem_skip_kernel
      (kseq pmem_layout
            pmem_check_and_finish)))))))))"

definition pmem_free :: "u32 \<Rightarrow> ('z stdio_state_scheme, u32) kM" where
  "pmem_free ptr =
     kbind (pmem_ptr_to_entry ptr) (\<lambda>record.
     kbind (kget (\<lambda>s. pmem_main_memory_start s + record)) (\<lambda>record_ptr.
     kbind (kget (\<lambda>s. mem s record_ptr)) (\<lambda>v.
     kseq (if v = 0 then kseq (printf (cstr ''cannot free address %x'') [ArgInt ptr])
             (panic ''attempted to free memory that's already free!'')
           else kret ())
    (kseq (kmod (\<lambda>s. s\<lparr>mem := (mem s)(record_ptr := 0)\<rparr>))
          (kret 0)))))"

definition pmem_list_info :: "('z stdio_state_scheme, unit) kM" where
  "pmem_list_info =
     kbind (kget pmem_main_memory_start) (\<lambda>start.
     kbind (kget pmem_main_memory_length) (\<lambda>len.
     kbind (kget pmem_mgr_reserved_size) (\<lambda>mgr_size.
     kseq (printf (cstr ''Memory Start: %x \<newline>'') [ArgInt start])
    (kseq (printf (cstr ''Memory Size: %d mb\<newline>'') [ArgInt (len div 1024 div 1024)])
    (kbind (kget (\<lambda>s. of_nat (length (filter (\<lambda>i. mem s (start + of_nat i) \<noteq> 0) [0..<unat mgr_size])))) (\<lambda>pages_in_use.
     kseq (printf (cstr ''Pages in Use: %d / %d\<newline>'') [ArgInt pages_in_use, ArgInt mgr_size])
          (printf (cstr ''Memory In Use: %d mb / %d mb\<newline>'')
             [ArgInt ((pages_in_use * PHYS_BLOCK_SIZE) div 1024 div 1024), ArgInt (len div 1024 div 1024)])))))))"


section \<open>Release\<close>

lemma pmem_free_used:
  assumes "pmem_ok s" "e < pmem_blocks s" "entry_used s e"
  shows "pmem_free (entry_addr s e) s = Ok 0 (s\<lparr>mem := (mem s)(record_addr s e := 0)\<rparr>)"
proof -
  have "4096 * e \<le> unat (pmem_main_memory_length s)"
    using pmem_okD(4) [OF assms(1)] assms(2) by (simp add: less_eq_div_iff_mult_less_eq mult.commute)
  then have "pmem_ptr_to_entry (entry_addr s e) s = Ok (of_nat e) s"
    using pmem_ptr_to_entry_Ok [OF assms(1), of e 0] assms(2) by simp
  then show ?thesis
    using assms(3) by (simp add: pmem_free_def kbind_Ok entry_used_def record_addr_def kernel_defs)
qed

lemma pmem_release_frame:
  assumes "pmem_ok s" "e < pmem_blocks s"
  defines "t \<equiv> s\<lparr>mem := (mem s)(record_addr s e := 0)\<rparr>"
  shows "pmem_ok t" "pmem_pages t = pmem_pages s" "used_pages t = used_pages s - {entry_addr s e}"
    and "\<And>a. page_of a \<in> pmem_pages s \<Longrightarrow> mem t a = mem s a"
proof -
  have addr: "entry_addr t = entry_addr s" "record_addr t = record_addr s" "pmem_blocks t = pmem_blocks s"
    by (simp_all add: t_def fun_eq_iff entry_addr_def record_addr_def pmem_blocks_def)
  have used: "pmem_used t = pmem_used s - {e}"
    using assms(1,2) unfolding pmem_used_def entry_used_def addr
    by (auto simp: t_def record_addr_inj)
  show "pmem_ok t" using assms(1) by (simp add: pmem_ok_def addr) (simp add: t_def)
  show "pmem_pages t = pmem_pages s" by (simp add: pmem_pages_def addr)
  show "used_pages t = used_pages s - {entry_addr s e}"
    using entry_addr_inj [OF assms(1)] assms(2)
    by (auto simp: used_pages_def used addr) (auto simp: pmem_used_def)
  show "mem t a = mem s a" if "page_of a \<in> pmem_pages s" for a
    using record_not_in_page [OF assms(1,2)] that by (auto simp: t_def)
qed

lemma wp_pmem_free:
  assumes "pmem_ok s" "p \<in> used_pages s"
  shows "wp (pmem_free p) (\<lambda>_ s'. pmem_ok s' \<and> pmem_pages s' = pmem_pages s
    \<and> used_pages s' = used_pages s - {p} \<and> pmem_same s s'
    \<and> (\<forall>a. page_of a \<in> pmem_pages s \<longrightarrow> mem s' a = mem s a)) s"
proof -
  obtain e where e: "e < pmem_blocks s" "entry_used s e" "p = entry_addr s e"
    using assms(2) by (auto simp: used_pages_def pmem_used_def)
  show ?thesis
    using pmem_free_used [OF assms(1) e(1,2)] pmem_release_frame [OF assms(1) e(1)] pmem_same_write
    by (simp add: wp_def e(3))
qed

interpretation pa: page_allocator pmem_alloc mem "\<lambda>m s. s\<lparr>mem := m\<rparr>" pmem_ok pmem_pages used_pages pmem_same pmem_free
  by unfold_locales (rule wp_pmem_free)

section \<open>Initialisation\<close>

text \<open>The region the scan settles on: the first of the longest available ones.\<close>

definition better_region :: "multiboot_mmap_entry \<Rightarrow> u32 \<times> u32 \<Rightarrow> u32 \<times> u32" where
  "better_region e r = (if mmap_type e = MULTIBOOT_MEMORY_AVAILABLE \<and> mmap_len_low e > snd r
     then (mmap_addr_low e, mmap_len_low e) else r)"

definition largest_region :: "multiboot_mmap_entry list \<Rightarrow> u32 \<times> u32" where
  "largest_region es = fold better_region es (0, 0)"

definition memory_map :: "memory \<Rightarrow> multiboot_info \<Rightarrow> multiboot_mmap_entry list" where
  "memory_map m mbd = map (\<lambda>k. mmap_entry_at m (mbi_mmap_addr mbd + of_nat (24 * k)))
     [0..<mmap_count (mbi_mmap_length mbd)]"

lemma better_region_cases:
  "snd r \<le> snd (better_region e r)"
  "mmap_type e = MULTIBOOT_MEMORY_AVAILABLE \<Longrightarrow> mmap_len_low e \<le> snd (better_region e r)"
  "better_region e r = r \<or> mmap_type e = MULTIBOOT_MEMORY_AVAILABLE
     \<and> better_region e r = (mmap_addr_low e, mmap_len_low e)"
  by (auto simp: better_region_def)

lemma largest_region_longest:
  assumes "e \<in> set es" "mmap_type e = MULTIBOOT_MEMORY_AVAILABLE"
  shows "mmap_len_low e \<le> snd (largest_region es)"
proof -
  have mono: "snd r \<le> snd (fold better_region es r)" for r es
  proof (induction es arbitrary: r)
    case (Cons x es)
    show ?case using order.trans [OF better_region_cases(1) Cons] by simp
  qed simp
  have "mmap_len_low e \<le> snd (fold better_region es r)" for r
    using assms(1)
  proof (induction es arbitrary: r)
    case (Cons x es)
    then show ?case
      using order.trans [OF better_region_cases(2) [OF assms(2)] mono, of es r] by (cases "x = e") auto
  qed simp
  then show ?thesis by (simp add: largest_region_def)
qed

lemma largest_region_member:
  "largest_region es = (0, 0) \<or> (\<exists>e \<in> set es. mmap_type e = MULTIBOOT_MEMORY_AVAILABLE
     \<and> largest_region es = (mmap_addr_low e, mmap_len_low e))"
proof -
  have "fold better_region es r = r \<or> (\<exists>e \<in> set es. mmap_type e = MULTIBOOT_MEMORY_AVAILABLE
     \<and> fold better_region es r = (mmap_addr_low e, mmap_len_low e))" for r
  proof (induction es arbitrary: r)
    case (Cons x es)
    show ?case
      using Cons [of "better_region x r"] better_region_cases(3) [of x r] by fastforce
  qed simp
  then show ?thesis by (simp add: largest_region_def)
qed

text \<open>The scan computes the largest region, and otherwise changes the display only.\<close>

lemma wp_pmem_scan:
  assumes "serial_responsive (hw_byte s) PORT_COM1" "\<not> pmem_initialized s"
    and "r = fold better_region (map (\<lambda>k. mmap_entry_at (mem s) (addr + of_nat (24 * k))) [0..<n])
         (pmem_main_memory_start s, pmem_main_memory_length s)"
    and "\<And>v l. Q () (s\<lparr>vidmem := v, io_log := l, pmem_main_memory_start := fst r, pmem_main_memory_length := snd r\<rparr>)"
  shows "wp (kfor [0..<n] (pmem_scan_entry addr)) Q s"
proof -
  define best where "best n = fold better_region (map (\<lambda>k. mmap_entry_at (mem s) (addr + of_nat (24 * k))) [0..<n])
      (pmem_main_memory_start s, pmem_main_memory_length s)" for n
  define I where "I n s' \<longleftrightarrow> (\<exists>v l. s' = s\<lparr>vidmem := v, io_log := l,
      pmem_main_memory_start := fst (best n), pmem_main_memory_length := snd (best n)\<rparr>)" for n s'
  have "wp (kfor [0..<n] (pmem_scan_entry addr)) (\<lambda>_. I n) s"
  proof (rule wp_kfor_upt)
    have "s = s\<lparr>vidmem := vidmem s, io_log := io_log s, pmem_main_memory_start := fst (best 0),
        pmem_main_memory_length := snd (best 0)\<rparr>" by (simp add: best_def)
    then show "I 0 s" unfolding I_def by blast
  next
    fix k t
    assume "I k t"
    then obtain v l where t: "t = s\<lparr>vidmem := v, io_log := l,
      pmem_main_memory_start := fst (best k), pmem_main_memory_length := snd (best k)\<rparr>"
      unfolding I_def by blast
    have best: "best (Suc k) = better_region (mmap_entry_at (mem s) (addr + of_nat (24 * k))) (best k)"
      by (simp add: best_def)
    let ?e = "mmap_entry_at (mem s) (addr + of_nat (24 * k))"
    have step: "I (Suc k) (s\<lparr>vidmem := v, io_log := l, pmem_main_memory_start := fst (best (Suc k)),
        pmem_main_memory_length := snd (best (Suc k))\<rparr>)" for v l
      unfolding I_def by blast
    have mem: "mem t = mem s" by (simp add: t)
    show "wp (pmem_scan_entry addr k) (\<lambda>_. I (Suc k)) t"
      unfolding pmem_scan_entry_def wp_kbind wp_kget wp_kseq mem
    proof (rule wp_printf_early)
      fix v' l'
      show "wp (if mmap_type ?e = MULTIBOOT_MEMORY_AVAILABLE
              \<and> mmap_len_low ?e > pmem_main_memory_length (t\<lparr>vidmem := v', io_log := l'\<rparr>)
          then kmod (\<lambda>s. s\<lparr>pmem_main_memory_start := mmap_addr_low ?e, pmem_main_memory_length := mmap_len_low ?e\<rparr>)
          else kret ()) (\<lambda>_. I (Suc k)) (t\<lparr>vidmem := v', io_log := l'\<rparr>)"
        using step [of l' v'] by (auto simp: t best better_region_def state_order split: if_splits)
    qed (use assms in \<open>simp_all add: t\<close>)
  qed simp
  then show ?thesis
    by (rule wp_mono) (use assms(3,4) in \<open>auto simp: I_def best_def\<close>)
qed


lemma pmem_zero_records_eq:
  assumes "n \<le> 4294967296"
  shows "pmem_zero_records start n m a = (if unat (a - start) < n then 0 else m a)"
  using assms
proof (induction n)
  case 0
  then show ?case by (simp add: pmem_zero_records_def)
next
  case (Suc n)
  have "a = start + of_nat n \<longleftrightarrow> unat (a - start) = n"
  proof
    assume "a = start + of_nat n"
    then show "unat (a - start) = n" using Suc.prems by (simp add: unat_of_nat)
  next
    assume "unat (a - start) = n"
    then have "a - start = of_nat n" by auto
    then show "a = start + of_nat n" by (metis add.commute diff_add_cancel)
  qed
  with Suc show ?case by (auto simp: pmem_zero_records_def less_Suc_eq)
qed

text \<open>
  The memory left for the allocator: the region above the kernel, then the first page boundary
  above the records.
\<close>

definition region_above :: "u32 \<Rightarrow> u32 \<times> u32 \<Rightarrow> u32 \<times> u32" where
  "region_above kernel_end r = (if fst r < kernel_end then (kernel_end, snd r - (kernel_end - fst r)) else r)"

definition first_page :: "u32 \<times> u32 \<Rightarrow> u32" where
  "first_page r = (fst r + (snd r div PHYS_BLOCK_SIZE + PHYS_BLOCK_SIZE)) AND NOT (PHYS_BLOCK_SIZE - 1)"

definition pmem_set_up :: "u32 \<times> u32 \<Rightarrow> 'z pmem_state_scheme \<Rightarrow> 'z pmem_state_scheme" where
  "pmem_set_up r s = s\<lparr>mem := pmem_zero_records (fst r) (unat (snd r div PHYS_BLOCK_SIZE)) (mem s),
     pmem_initialized := True, pmem_main_memory_start := fst r,
     pmem_main_memory_length := fst r + snd r - first_page r, pmem_alloc_start := first_page r,
     pmem_mgr_reserved_size := (fst r + snd r - first_page r) div PHYS_BLOCK_SIZE\<rparr>"

lemma wp_pmem_skip_kernel:
  assumes "serial_responsive (hw_byte s) PORT_COM1" "\<not> pmem_initialized s"
    and "r = (pmem_main_memory_start s, pmem_main_memory_length s)" "k = pmem_kernel_reserved_end_addr s"
    and "fst r < k \<Longrightarrow> k - fst r \<le> snd r"
    and "\<And>v l. Q () (s\<lparr>vidmem := v, io_log := l, pmem_main_memory_start := fst (region_above k r),
           pmem_main_memory_length := snd (region_above k r)\<rparr>)"
  shows "wp pmem_skip_kernel Q s"
proof (cases "pmem_main_memory_start s < k")
  case True
  then have "\<not> k - pmem_main_memory_start s > pmem_main_memory_length s" using assms(3,5) by auto
  with True show ?thesis
    using assms by (simp add: pmem_skip_kernel_def Let_def, intro wp_printf_early)
      (simp_all add: region_above_def state_order)
next
  case False
  have "Q () s" using assms(6) [of "io_log s" "vidmem s"] False assms(3) by (simp add: region_above_def)
  with False assms show ?thesis by (simp add: pmem_skip_kernel_def)
qed

lemma wp_pmem_check_and_finish:
  assumes "serial_responsive (hw_byte s) PORT_COM1" "\<not> pmem_initialized s"
    and "MEM_RESERVED_SECTION_MIN \<le> pmem_main_memory_start s" "MIN_MEM_SIZE \<le> pmem_main_memory_length s"
    and "\<And>v l. Q () (s\<lparr>vidmem := v, io_log := l, pmem_initialized := True\<rparr>)"
  shows "wp pmem_check_and_finish Q s"
proof -
  have "pmem_main_memory_length s \<noteq> 0" using assms(4) by auto
  moreover have "\<not> pmem_main_memory_length s < MIN_MEM_SIZE" "\<not> pmem_main_memory_start s < MEM_RESERVED_SECTION_MIN"
    using assms(3,4) by simp_all
  ultimately show ?thesis
    unfolding pmem_check_and_finish_def wp_kbind wp_kget wp_kseq
    using assms(1,2,5) by (intro wp_printf_early) simp_all
qed

lemma wp_pmem_initialize:
  assumes "serial_responsive (hw_byte s) PORT_COM1" "\<not> pmem_initialized s"
    and "pmem_mbd s = Some mbd" "pmem_kernel_reserved_end_addr s \<noteq> 0"
    and "drop_bit 6 (mbi_flags mbd) AND 1 \<noteq> 0" "24 * mmap_count (mbi_mmap_length mbd) < 2147483648"
    and r: "r = largest_region (memory_map (mem s) mbd)"
    and "fst r < pmem_kernel_reserved_end_addr s \<Longrightarrow> pmem_kernel_reserved_end_addr s - fst r \<le> snd r"
    and q: "q = region_above (pmem_kernel_reserved_end_addr s) r"
    and "MEM_RESERVED_SECTION_MIN \<le> fst q" "MIN_MEM_SIZE \<le> fst q + snd q - first_page q"
  shows "wp pmem_initialize (\<lambda>_ s'. \<exists>v l. s' = pmem_set_up q (s\<lparr>vidmem := v, io_log := l\<rparr>)) s"
proof -
  let ?Q = "\<lambda>_ s'. \<exists>v l. s' = pmem_set_up q (s\<lparr>vidmem := v, io_log := l\<rparr>)"
  have done_state: "?Q () (s\<lparr>vidmem := v, io_log := l,
      mem := pmem_zero_records (fst q) (unat (snd q div PHYS_BLOCK_SIZE)) (mem s),
      pmem_main_memory_start := fst q, pmem_alloc_start := first_page q,
      pmem_main_memory_length := fst q + snd q - first_page q,
      pmem_mgr_reserved_size := (fst q + snd q - first_page q) div PHYS_BLOCK_SIZE, pmem_initialized := True\<rparr>)" for v l
    by (intro exI [of _ v] exI [of _ l]) (simp add: pmem_set_up_def)
  have last: "wp (kseq pmem_skip_kernel (kseq pmem_layout pmem_check_and_finish)) ?Q
      (s\<lparr>vidmem := v, io_log := l, pmem_main_memory_start := fst r, pmem_main_memory_length := snd r\<rparr>)" for v l
    unfolding wp_kseq
  proof (rule wp_pmem_skip_kernel [where r = r and k = "pmem_kernel_reserved_end_addr s"])
    fix v' l'
    show "wp pmem_layout (\<lambda>_. wp pmem_check_and_finish ?Q)
      (s\<lparr>vidmem := v, io_log := l, pmem_main_memory_start := fst r, pmem_main_memory_length := snd r\<rparr>
        \<lparr>vidmem := v', io_log := l', pmem_main_memory_start := fst (region_above (pmem_kernel_reserved_end_addr s) r),
         pmem_main_memory_length := snd (region_above (pmem_kernel_reserved_end_addr s) r)\<rparr>)"
      unfolding pmem_layout_def wp_kbind wp_kget wp_kmod Let_def
      using assms(1,2,10,11) done_state
      by (intro wp_pmem_check_and_finish) (simp_all add: q [symmetric] first_page_def [symmetric, simplified] state_order)
  qed (use assms in simp_all)
  have scan: "wp (kfor [0..<mmap_count (mbi_mmap_length mbd)] (pmem_scan_entry (mbi_mmap_addr mbd)))
     (\<lambda>_. wp (kbind (kget (\<lambda>s. (pmem_main_memory_start s, pmem_main_memory_length s))) (\<lambda>(start, len).
       kseq (printf (cstr ''Main memory start addr: %x | length: %x\<newline>'') [ArgInt start, ArgInt len])
      (kseq pmem_skip_kernel (kseq pmem_layout pmem_check_and_finish)))) ?Q)
     (s\<lparr>pmem_main_memory_start := 0, pmem_main_memory_length := 0\<rparr>\<lparr>vidmem := v, io_log := l\<rparr>)" for v l
  proof (rule wp_pmem_scan [where r = r])
    fix v' l'
    let ?t = "s\<lparr>pmem_main_memory_start := 0, pmem_main_memory_length := 0\<rparr>\<lparr>vidmem := v, io_log := l\<rparr>
      \<lparr>vidmem := v', io_log := l', pmem_main_memory_start := fst r, pmem_main_memory_length := snd r\<rparr>"
    show "wp (kbind (kget (\<lambda>s. (pmem_main_memory_start s, pmem_main_memory_length s))) (\<lambda>(start, len).
       kseq (printf (cstr ''Main memory start addr: %x | length: %x\<newline>'') [ArgInt start, ArgInt len])
      (kseq pmem_skip_kernel (kseq pmem_layout pmem_check_and_finish)))) ?Q ?t"
      unfolding wp_kbind wp_kget prod.case wp_kseq
      using assms(1,2) last [unfolded wp_kseq]
      by (intro wp_printf_early) (simp_all add: state_order)
  qed (use assms in \<open>simp_all add: largest_region_def memory_map_def\<close>)
  show ?thesis
    unfolding pmem_initialize_def wp_kbind wp_kget assms(3) option.case
    using assms(1,2,4,5,6) scan
    by (simp, intro wp_printf_early) simp_all
qed


text \<open>The arithmetic of the layout, when nothing wraps around.\<close>

lemma unat_region_above:
  assumes "unat (fst r) + unat (snd r) < 4294967296" "unat k \<le> unat (fst r) + unat (snd r)"
  shows "unat (fst (region_above k r)) = max (unat (fst r)) (unat k)"
    and "unat (fst (region_above k r)) + unat (snd (region_above k r)) = unat (fst r) + unat (snd r)"
    and "fst r < k \<Longrightarrow> k - fst r \<le> snd r"
proof -
  have sub: "unat (k - fst r) = unat k - unat (fst r)" if "fst r < k"
    using that by (simp add: unat_sub word_le_nat_alt word_less_nat_alt)
  then show le: "k - fst r \<le> snd r" if "fst r < k"
    using that assms by (simp add: word_le_nat_alt word_less_nat_alt)
  show "unat (fst (region_above k r)) = max (unat (fst r)) (unat k)"
    by (simp add: region_above_def word_less_nat_alt max_def)
  show "unat (fst (region_above k r)) + unat (snd (region_above k r)) = unat (fst r) + unat (snd r)"
  proof (cases "fst r < k")
    case True
    then have "unat (snd r - (k - fst r)) = unat (snd r) - (unat k - unat (fst r))"
      using le sub by (simp add: unat_sub)
    with True le sub show ?thesis
      using assms by (simp add: region_above_def word_less_nat_alt word_le_nat_alt)
  qed (simp add: region_above_def)
qed

text \<open>The number of pages a region of memory yields, after the records and the rounding to a page.\<close>

definition page_count :: "nat \<Rightarrow> nat \<Rightarrow> nat" where
  "page_count start limit = (limit - (start + (limit - start) div 4096 + 4096) div 4096 * 4096) div 4096"

lemma pmem_set_up_ok:
  assumes "start = unat (fst q)" "limit = unat (fst q) + unat (snd q)" "limit < 4294967296"
    and "start + (limit - start) div 4096 + 4096 + 65535 \<le> limit"
    and "pmem_curr_alloc_record s = 0"
  shows "pmem_ok (pmem_set_up q s)" "pmem_used (pmem_set_up q s) = {}"
    and "15 \<le> pmem_blocks (pmem_set_up q s)" "MIN_MEM_SIZE \<le> fst q + snd q - first_page q"
    and "\<And>p. p \<in> pmem_pages (pmem_set_up q s) \<Longrightarrow> start \<le> unat p \<and> unat p + 4096 \<le> limit"
    and "pmem_blocks (pmem_set_up q s) = page_count start limit"
proof -
  let ?t = "pmem_set_up q s" and ?n = "(limit - start) div 4096"
  define f where "f = (start + ?n + 4096) div 4096 * 4096"
  have f: "f \<le> start + ?n + 4096" "start + ?n < f" "4096 dvd f"
    unfolding f_def by (simp_all add: div_times_less_eq_dividend less_mult_imp_div_less dividend_less_div_times)
  have snd: "unat (snd q) = limit - start" using assms(1,2) by simp
  have mgr: "unat (snd q div 4096) = ?n" by (simp add: unat_div_distrib snd)
  have sum: "unat (snd q div 4096 + 4096) = ?n + 4096"
    using mgr assms(3,4) by (subst unat_add_u32) simp_all
  have "unat (fst q + (snd q div 4096 + 4096)) = start + ?n + 4096"
    using mgr sum assms by (subst unat_add_u32) simp_all
  then have page: "unat (first_page q) = f"
    using unat_page_of [of "fst q + (snd q div 4096 + 4096)"] by (simp add: first_page_def page_of_def f_def)
  have end_addr: "unat (fst q + snd q) = limit" using assms(2,3) by (simp add: unat_add_u32)
  have "first_page q \<le> fst q + snd q"
    using page end_addr f(1) assms(4) by (simp add: word_le_nat_alt)
  then have len: "unat (fst q + snd q - first_page q) = limit - f"
    using page end_addr by (simp add: unat_sub)
  show "MIN_MEM_SIZE \<le> fst q + snd q - first_page q"
    using len f(1) assms(4) by (simp add: word_le_nat_alt)
  have blocks: "pmem_blocks ?t = (limit - f) div 4096"
    by (simp add: pmem_blocks_def pmem_set_up_def unat_div_distrib len)
  then show "pmem_blocks ?t = page_count start limit" by (simp add: page_count_def f_def)
  show fifteen: "15 \<le> pmem_blocks ?t"
    unfolding blocks using f(1) assms(4) by (simp add: less_eq_div_iff_mult_less_eq)
  have fewer: "(limit - f) div 4096 \<le> ?n" using f(2) by (intro div_le_mono) simp
  show ok: "pmem_ok ?t"
    unfolding pmem_ok_def blocks
    using page len f fewer fifteen assms(1,3,4,5) unfolding blocks by (simp add: pmem_set_up_def)
  have "mem ?t (record_addr ?t e) = 0" if "e < pmem_blocks ?t" for e
  proof -
    have "e < ?n" using that fewer by (simp add: blocks)
    moreover have "?n < 4294967296" using assms(3) by (meson diff_le_self div_le_dividend le_less_trans)
    ultimately show ?thesis
      using mgr by (simp add: pmem_set_up_def record_addr_def pmem_zero_records_eq word_facts)
  qed
  then show "pmem_used ?t = {}" by (auto simp: pmem_used_def entry_used_def)
  fix p
  assume "p \<in> pmem_pages ?t"
  then obtain e where e: "e < pmem_blocks ?t" "p = entry_addr ?t e" by (auto simp: pmem_pages_def)
  then have "unat p = f + 4096 * e"
    using unat_entry_addr [OF ok, of e] page by (simp add: pmem_set_up_def)
  moreover have "4096 * Suc e \<le> 4096 * ((limit - f) div 4096)" using e(1) blocks by (intro mult_le_mono2) simp
  moreover have "4096 * ((limit - f) div 4096) \<le> limit - f" by (rule times_div_less_eq_dividend)
  ultimately show "start \<le> unat p \<and> unat p + 4096 \<le> limit" using f by simp
qed


section \<open>Properties\<close>

text \<open>C16: \<open>pmem_initialize\<close> sets up the allocator. When the largest available region of the memory
  map fits in the address space and leaves room above the kernel for the records and sixteen pages,
  initialisation returns without a panic, the allocator's invariant holds, no page is in use, there are at least fifteen
  pages, and every page lies inside the region and above the kernel.\<close>

theorem pmem_initialize_establishes:
  assumes "serial_responsive (hw_byte s) PORT_COM1" "\<not> pmem_initialized s" "pmem_curr_alloc_record s = 0"
    and "pmem_mbd s = Some mbd" "pmem_kernel_reserved_end_addr s \<noteq> 0"
    and "drop_bit 6 (mbi_flags mbd) AND 1 \<noteq> 0" "24 * mmap_count (mbi_mmap_length mbd) < 2147483648"
    and "largest_region (memory_map (mem s) mbd) = (addr, len)"
    and "start = max (unat addr) (unat (pmem_kernel_reserved_end_addr s))" "0x100000 \<le> start"
    and "limit = unat addr + unat len" "limit < 4294967296"
    and "start + (limit - start) div 4096 + 4096 + 65535 \<le> limit"
  shows "wp pmem_initialize (\<lambda>_ s'. pmem_ok s' \<and> used_pages s' = {} \<and> 15 \<le> card (pmem_pages s')
    \<and> (\<forall>p \<in> pmem_pages s'. start \<le> unat p \<and> unat p + 4096 \<le> limit)) s"
proof -
  let ?k = "pmem_kernel_reserved_end_addr s"
  define r where "r = largest_region (memory_map (mem s) mbd)"
  define q where "q = region_above ?k r"
  have r: "unat (fst r) + unat (snd r) < 4294967296" "unat ?k \<le> unat (fst r) + unat (snd r)"
    using assms(8,9,11-13) by (auto simp: r_def)
  have q: "start = unat (fst q)" "limit = unat (fst q) + unat (snd q)"
    using unat_region_above(1,2) [OF r] assms(8,9,11) by (simp_all add: q_def r_def)
  have "wp pmem_initialize (\<lambda>_ s'. \<exists>v l. s' = pmem_set_up q (s\<lparr>vidmem := v, io_log := l\<rparr>)) s"
    using assms unat_region_above(3) [OF r] pmem_set_up_ok(4) [OF q assms(12,13), of s] q(1)
    by (intro wp_pmem_initialize [OF _ _ _ _ _ _ r_def _ q_def]) (simp_all add: word_le_nat_alt)
  then show ?thesis
  proof (rule wp_mono)
    fix a s'
    assume "\<exists>v l. s' = pmem_set_up q (s\<lparr>vidmem := v, io_log := l\<rparr>)"
    then obtain v l where s': "s' = pmem_set_up q (s\<lparr>vidmem := v, io_log := l\<rparr>)" by blast
    have rec: "pmem_curr_alloc_record (s\<lparr>vidmem := v, io_log := l\<rparr>) = 0" using assms(3) by simp
    note u = pmem_set_up_ok [OF q assms(12,13) rec, folded s']
    have "card (pmem_pages s') = pmem_blocks s'"
      using card_free_pages [OF u(1)] u(2) by (simp add: used_pages_def)
    then show "pmem_ok s' \<and> used_pages s' = {} \<and> 15 \<le> card (pmem_pages s')
        \<and> (\<forall>p \<in> pmem_pages s'. start \<le> unat p \<and> unat p + 4096 \<le> limit)"
      using u by (simp add: used_pages_def)
  qed
qed

text \<open>A boot: one available region of 1 MB at 1 MB, with the kernel in its first half.\<close>

definition boot_mbd :: multiboot_info where
  "boot_mbd = \<lparr>mbi_flags = 0x40, mbi_mem_lower = 0, mbi_mem_upper = 0, mbi_boot_device = 0, mbi_cmdline = 0,
     mbi_mods_count = 0, mbi_mods_addr = 0, mbi_u = [], mbi_mmap_length = 24, mbi_mmap_addr = 0x9000\<rparr>"

definition boot_memory :: "u32 \<Rightarrow> u32 \<Rightarrow> memory" where
  "boot_memory addr len = store32 (store32 (store32 (\<lambda>_. 0) 0x9004 addr) 0x900C len) 0x9014 1"

definition boot_state :: "u32 \<Rightarrow> u32 \<Rightarrow> u32 \<Rightarrow> stdio_state" where
  "boot_state addr len kernel_end = small_console\<lparr>mem := boot_memory addr len, pmem_initialized := False,
     pmem_mbd := Some boot_mbd, pmem_kernel_reserved_end_addr := kernel_end\<rparr>"

lemma boot_state_region:
  "largest_region (memory_map (mem (boot_state addr len k)) boot_mbd) = (if 0 < len then (addr, len) else (0, 0))"
proof -
  have "load32 (boot_memory addr len) 0x9004 = addr" "load32 (boot_memory addr len) 0x900C = len"
    "load32 (boot_memory addr len) 0x9014 = 1"
    by (simp_all add: boot_memory_def) (simp_all add: load32_def store32_def le32_roundtrip [unfolded le32_bytes_def])
  then show ?thesis
    by (simp add: largest_region_def memory_map_def mmap_count_def boot_mbd_def better_region_def
        mmap_entry_at_def boot_state_def)
qed


lemma boot_state_fields:
  "hw_byte (boot_state a l k) = (\<lambda>_ _. 0x20)" "\<not> pmem_initialized (boot_state a l k)"
  "pmem_curr_alloc_record (boot_state a l k) = 0" "pmem_mbd (boot_state a l k) = Some boot_mbd"
  "pmem_kernel_reserved_end_addr (boot_state a l k) = k" "drop_bit 6 (mbi_flags boot_mbd) AND 1 \<noteq> 0"
  "24 * mmap_count (mbi_mmap_length boot_mbd) < 2147483648"
  by (simp_all add: boot_state_def small_console_def boot_mbd_def mmap_count_def)

lemma responsive_idle: "serial_responsive (\<lambda>_ _. 0x20) PORT_COM1"
  by (simp add: serial_responsive_def)

theorem pmem_initialize_establishes_witness:
  "wp pmem_initialize (\<lambda>_ s'. pmem_ok s' \<and> used_pages s' = {} \<and> 15 \<le> card (pmem_pages s')
    \<and> (\<forall>p \<in> pmem_pages s'. 0x180000 \<le> unat p \<and> unat p + 4096 \<le> 0x200000))
    (boot_state 0x100000 0x100000 0x180000)"
  by (rule pmem_initialize_establishes [where mbd = boot_mbd and addr = "0x100000" and len = "0x100000"])
    (simp_all add: boot_state_fields responsive_idle boot_state_region max_def)

text \<open>The sanity checks of \<open>pmem_initialize\<close> do not notice a region that is too small for the
  records and one page: the remaining length is computed with unsigned wrap-around. With 100 bytes
  of memory above the kernel, initialisation succeeds and the allocator believes in almost 4 GB.\<close>

theorem pmem_initialize_length_wraps:
  "wp pmem_initialize (\<lambda>_ s'. pmem_initialized s' \<and> pmem_main_memory_length s' = 0xFFFFF064
    \<and> pmem_mgr_reserved_size s' = 0xFFFFF) (boot_state 0x100000 0x64 0x100000)"
proof -
  define q :: "u32 \<times> u32" where "q = (0x100000, 0x64)"
  have q: "fst q + snd q - first_page q = 0xFFFFF064" by (simp add: q_def first_page_def)
  have "wp pmem_initialize (\<lambda>_ s'. \<exists>v l. s' = pmem_set_up q (boot_state 0x100000 0x64 0x100000\<lparr>vidmem := v, io_log := l\<rparr>))
      (boot_state 0x100000 0x64 0x100000)"
    by (rule wp_pmem_initialize [where mbd = boot_mbd and r = q])
      (simp_all add: boot_state_fields responsive_idle boot_state_region q, simp_all add: q_def region_above_def)
  then show ?thesis
    by (rule wp_mono) (auto simp: pmem_set_up_def q)
qed

text \<open>C17: \<open>pmem_free\<close> gives back exactly the page it is given: the call returns, the page can be
  allocated again, no other page changes its state, and no byte of any page changes.\<close>

theorem pmem_free_releases:
  assumes "pmem_ok s" "p \<in> used_pages s"
  shows "wp (pmem_free p) (\<lambda>r s'. r = 0 \<and> pmem_ok s' \<and> pmem_pages s' = pmem_pages s
    \<and> used_pages s' = used_pages s - {p} \<and> (\<forall>a. page_of a \<in> pmem_pages s \<longrightarrow> mem s' a = mem s a)) s"
proof -
  obtain e where e: "e < pmem_blocks s" "entry_used s e" "p = entry_addr s e"
    using assms(2) by (auto simp: used_pages_def pmem_used_def)
  show ?thesis
    using pmem_free_used [OF assms(1) e(1,2)] pmem_release_frame [OF assms(1) e(1)] by (simp add: wp_def e(3))
qed

lemma small_console_pages:
  "used_pages small_console = {0x201000}" "pmem_pages small_console - used_pages small_console \<noteq> {}"
  "pmem_ok small_console" "0x203000 \<in> pmem_pages small_console" "0x203000 \<notin> used_pages small_console"
  "card (pmem_pages small_console - used_pages small_console) = 7"
proof -
  show used: "used_pages small_console = {0x201000}"
    by (simp add: used_pages_def small_console_used entry_addr_def) (simp add: small_console_def)
  show ok: "pmem_ok small_console" by (rule stdio_okD(1) [OF small_console_ok(1)])
  have "entry_addr small_console 2 = 0x203000" "2 < pmem_blocks small_console"
    by (simp_all add: entry_addr_def pmem_blocks_def small_console_def)
  then show "0x203000 \<in> pmem_pages small_console" by (force simp: pmem_pages_def)
  then show "pmem_pages small_console - used_pages small_console \<noteq> {}" using used by auto
  show "0x203000 \<notin> used_pages small_console" by (simp add: used)
  show "card (pmem_pages small_console - used_pages small_console) = 7"
    by (simp add: card_free_pages [OF ok] small_console_used) (simp add: pmem_blocks_def small_console_def)
qed

theorem pmem_free_releases_witness:
  "wp (pmem_free 0x201000) (\<lambda>r s'. r = 0 \<and> pmem_ok s' \<and> pmem_pages s' = pmem_pages small_console
    \<and> used_pages s' = {} \<and> (\<forall>a. page_of a \<in> pmem_pages small_console \<longrightarrow> mem s' a = mem small_console a))
    small_console"
  using pmem_free_releases [of small_console "0x201000"] by (simp add: small_console_pages)

text \<open>Freeing a page that is not in use is detected: the kernel reports the address and panics.\<close>

theorem pmem_double_free_panics:
  assumes "pmem_ok s" "console_ok s" "p \<in> pmem_pages s" "p \<notin> used_pages s"
  shows "\<exists>s'. pmem_free p s = Panicked ''attempted to free memory that's already free!'' s'"
proof -
  obtain e where e: "e < pmem_blocks s" "p = entry_addr s e" "\<not> entry_used s e"
    using assms(3,4) by (auto simp: used_pages_def pmem_used_def pmem_pages_def)
  have "4096 * e \<le> unat (pmem_main_memory_length s)"
    using pmem_okD(4) [OF assms(1)] e(1) by (simp add: less_eq_div_iff_mult_less_eq mult.commute)
  then have entry: "pmem_ptr_to_entry p s = Ok (of_nat e) s"
    using pmem_ptr_to_entry_Ok [OF assms(1), of e 0] e(1,2) by simp
  have "wp (printf (cstr ''cannot free address %x'') [ArgInt p]) (\<lambda>_ _. True) s"
    using assms(2) by (intro wp_printf_frame) simp_all
  then obtain s' where "printf (cstr ''cannot free address %x'') [ArgInt p] s = Ok () s'"
    by (auto elim!: wpE)
  moreover obtain s'' where "(panic ''attempted to free memory that's already free!'' :: ('a stdio_state_scheme, unit) kM) s'
      = Panicked ''attempted to free memory that's already free!'' s''"
    using panic_stops by metis
  ultimately show ?thesis
    using e(3) entry by (simp add: pmem_free_def kbind_Ok entry_used_def record_addr_def kernel_defs)
qed

theorem pmem_double_free_panics_witness:
  "\<exists>s'. pmem_free 0x203000 small_console = Panicked ''attempted to free memory that's already free!'' s'"
  by (rule pmem_double_free_panics) (simp_all add: small_console_pages small_console_ok)

end
