(* ===== verification/Malloc.thy ===== *)
theory Malloc
  imports Pmem_Mgr
begin

text \<open>
  The slab allocator (\<open>libc/malloc.c\<close>): seven slabs of block sizes 4096, 2048, ..., 64, each a
  table of entries that grows by one page at a time. The counters are natural numbers: they stay
  far below the range of \<open>uint32_t\<close>.
\<close>

section \<open>Definitions\<close>

abbreviation (input) "SLAB_ENTRY_COUNT \<equiv> (1000 :: nat)"
abbreviation (input) "SLAB_MAX_PAGE_COUNT \<equiv> (100 :: nat)"
abbreviation (input) "SLAB_COUNT \<equiv> (7 :: nat)"

record kmemslab_entry =
  mem_addr :: u32
  mem_free :: bool

record kmemslab =
  slab_entries :: "kmemslab_entry list"
  free_entries :: nat
  current_entry :: nat
  max_entries :: nat
  slab_pages :: "u32 list"
  current_page :: nat

record malloc_state = stdlib_state +
  slabs :: "kmemslab list"

definition upd_slab :: "nat \<Rightarrow> (kmemslab \<Rightarrow> kmemslab) \<Rightarrow> 'z malloc_state_scheme \<Rightarrow> 'z malloc_state_scheme" where
  "upd_slab k f s = s\<lparr>slabs := (slabs s)[k := f (slabs s ! k)]\<rparr>"

text \<open>The loop that splits a page into entries: \<open>c_addr\<close> is advanced before it is recorded.\<close>

primrec slab_add_entries :: "nat \<Rightarrow> u32 \<Rightarrow> u32 \<Rightarrow> kmemslab \<Rightarrow> u32 \<times> kmemslab" where
  "slab_add_entries 0 c_addr slab_size slab = (c_addr, slab)"
| "slab_add_entries (Suc n) c_addr slab_size slab =
     (let c_addr = c_addr + slab_size in
      slab_add_entries n c_addr slab_size
        (slab\<lparr>slab_entries := (slab_entries slab)[max_entries slab := \<lparr>mem_addr = c_addr, mem_free = True\<rparr>],
              max_entries := max_entries slab + 1, free_entries := free_entries slab + 1\<rparr>))"

text \<open>The number of entries to add: a page's worth, or what is left of the table.\<close>

definition new_entries :: "nat \<Rightarrow> kmemslab \<Rightarrow> int" where
  "new_entries slab_size slab =
     (let additional_entries = int (4096 div slab_size);
          new_max_entries = int (max_entries slab) + additional_entries
      in if new_max_entries > int SLAB_ENTRY_COUNT then int SLAB_ENTRY_COUNT - int (max_entries slab)
         else additional_entries)"

definition alloc_new_page_if_needed :: "nat \<Rightarrow> nat \<Rightarrow> ('z malloc_state_scheme, unit) kM" where
  "alloc_new_page_if_needed k slab_size =
     kbind (kget (\<lambda>s. slabs s ! k)) (\<lambda>slab.
     if free_entries slab > 0 then kret ()
     else
       let additional_entries = new_entries slab_size slab
       in if (word_of_int (additional_entries * int slab_size) :: u32) > PHYS_BLOCK_SIZE
          then panic ''alloc_new_page_if_needed overflow''
          else if additional_entries \<le> 0 then kret ()
          else if current_page slab = SLAB_MAX_PAGE_COUNT then kret ()
          else
            kbind pmem_alloc (\<lambda>c_page.
            kseq (kguard (current_page slab < SLAB_MAX_PAGE_COUNT))
           (kseq (kmod (upd_slab k (\<lambda>slab. slab\<lparr>slab_pages := (slab_pages slab)[current_page slab := c_page],
                current_page := current_page slab + 1\<rparr>)))
           (kbind (kget (\<lambda>s. slab_add_entries (nat additional_entries) c_page (of_nat slab_size) (slabs s ! k)))
             (\<lambda>(c_addr, slab').
            kseq (kmod (upd_slab k (\<lambda>_. slab')))
           (if max_entries slab' > SLAB_ENTRY_COUNT then panic ''Max entry overflow!''
            else if c_addr > c_addr + PHYS_BLOCK_SIZE
            then panic ''Malloc allocated more entries than availiable!''
            else kret ()))))))"

text \<open>The size of slab \<open>i\<close>, and the choice of the smallest slab that fits.\<close>

definition slab_size :: "nat \<Rightarrow> nat" where
  "slab_size i = 4096 div 2 ^ i"

definition slab_for :: "u32 \<Rightarrow> nat option" where
  "slab_for sz = fold (\<lambda>i c_slab. if unat sz \<le> slab_size i then Some i else c_slab) [0..<SLAB_COUNT] None"

text \<open>The search loop of \<open>malloc\<close>; it visits at most \<open>max_entries\<close> entries.\<close>

primrec malloc_search :: "nat \<Rightarrow> nat \<Rightarrow> nat \<Rightarrow> ('z malloc_state_scheme, u32) kM" where
  "malloc_search k 0 c_ptr = khang"
| "malloc_search k (Suc fuel) c_ptr =
     kbind (kget (\<lambda>s. slabs s ! k)) (\<lambda>slab.
     kseq (kguard (c_ptr < SLAB_ENTRY_COUNT))
    (if mem_free (slab_entries slab ! c_ptr) then
       kseq (kmod (upd_slab k (\<lambda>slab. slab\<lparr>
           slab_entries := (slab_entries slab)[c_ptr := (slab_entries slab ! c_ptr)\<lparr>mem_free := False\<rparr>],
           current_entry := c_ptr, free_entries := free_entries slab - 1\<rparr>)))
         (kret (mem_addr (slab_entries slab ! c_ptr)))
     else
       kseq (kguard (max_entries slab \<noteq> 0))
      (let c_ptr = (c_ptr + 1) mod max_entries slab in
       if c_ptr \<noteq> current_entry slab then malloc_search k fuel c_ptr
       else panic ''Cannot malloc! Out of memory!'')))"

definition malloc :: "u32 \<Rightarrow> ('z malloc_state_scheme, u32) kM" where
  "malloc sz = (case slab_for sz of
     None \<Rightarrow> panic ''Cannot malloc an entry larger than 4096 bytes!''
   | Some k \<Rightarrow>
       kseq (alloc_new_page_if_needed k (slab_size k))
      (kbind (kget (\<lambda>s. slabs s ! k)) (\<lambda>c_slab.
       if free_entries c_slab \<le> 0 then panic ''malloc failed! no free memory exists!''
       else malloc_search k (max_entries c_slab) (current_entry c_slab))))"

text \<open>The downward search of \<open>free_ptr_slab\<close>.\<close>

primrec free_ptr_find :: "kmemslab \<Rightarrow> u32 \<Rightarrow> nat \<Rightarrow> nat option" where
  "free_ptr_find slab ptr 0 = None"
| "free_ptr_find slab ptr (Suc i) =
     (if mem_addr (slab_entries slab ! i) = ptr then Some i else free_ptr_find slab ptr i)"

definition free_ptr_slab :: "nat \<Rightarrow> u32 \<Rightarrow> ('z malloc_state_scheme, bool) kM" where
  "free_ptr_slab k ptr =
     kbind (kget (\<lambda>s. slabs s ! k)) (\<lambda>slab.
     kseq (kguard (max_entries slab \<le> SLAB_ENTRY_COUNT))
    (case free_ptr_find slab ptr (max_entries slab) of
       None \<Rightarrow> kret False
     | Some i \<Rightarrow>
         kseq (kmod (upd_slab k (\<lambda>slab. slab\<lparr>
             slab_entries := (slab_entries slab)[i := (slab_entries slab ! i)\<lparr>mem_free := True\<rparr>],
             current_entry := i, free_entries := free_entries slab + 1\<rparr>)))
              (kret True)))"

primrec free_in :: "nat list \<Rightarrow> u32 \<Rightarrow> ('z malloc_state_scheme, unit) kM" where
  "free_in [] ptr = panic ''failed to free address''"
| "free_in (k # ks) ptr = kbind (free_ptr_slab k ptr) (\<lambda>found. if found then kret () else free_in ks ptr)"

definition free :: "u32 \<Rightarrow> ('z malloc_state_scheme, unit) kM" where
  "free ptr = free_in [0..<SLAB_COUNT] ptr"

definition print_kmeminfo :: "nat \<Rightarrow> nat \<Rightarrow> ('z malloc_state_scheme, unit) kM" where
  "print_kmeminfo k sz =
     kbind (kget (\<lambda>s. slabs s ! k)) (\<lambda>slab.
     printf (cstr ''%db | Entries Used: %d/%d | Free: %d | Pages Used: %d/%d\<newline>'')
       [ArgInt (of_nat sz), ArgInt (of_nat (max_entries slab) - of_nat (free_entries slab)),
        ArgInt (of_nat (max_entries slab)), ArgInt (of_nat (free_entries slab)),
        ArgInt (of_nat (current_page slab)), ArgInt (of_nat SLAB_MAX_PAGE_COUNT)])"

text \<open>The size of the static slab table: entries are padded to eight bytes.\<close>

definition sizeof_slabs :: u32 where
  "sizeof_slabs = of_nat (SLAB_COUNT * (SLAB_ENTRY_COUNT * 8 + 3 * 4 + SLAB_MAX_PAGE_COUNT * 4 + 4))"

definition kmemlist :: "('z malloc_state_scheme, unit) kM" where
  "kmemlist =
     kseq (printf (cstr ''=====KMemList=====\<newline>'') [])
    (kseq (printf (cstr ''Size of Slab Library: %d kb\<newline>'') [ArgInt (sizeof_slabs div 1024)])
          (kfor [0..<SLAB_COUNT] (\<lambda>i. print_kmeminfo i (slab_size i))))"


section \<open>The invariant\<close>

definition blocks :: "kmemslab \<Rightarrow> kmemslab_entry list" where
  "blocks slab = take (max_entries slab) (slab_entries slab)"

definition page_set :: "kmemslab \<Rightarrow> u32 set" where
  "page_set slab = set (take (current_page slab) (slab_pages slab))"

text \<open>
  A slab: the arrays have their sizes, the free counter counts the free entries, the search position
  is one of the entries, the entries have distinct addresses, each in the 4096 bytes that start one
  byte after the start of one of the slab's pages.
\<close>

definition slab_ok :: "kmemslab \<Rightarrow> bool" where
  "slab_ok slab \<longleftrightarrow> length (slab_entries slab) = SLAB_ENTRY_COUNT \<and> max_entries slab \<le> SLAB_ENTRY_COUNT
     \<and> length (slab_pages slab) = SLAB_MAX_PAGE_COUNT \<and> current_page slab \<le> SLAB_MAX_PAGE_COUNT
     \<and> free_entries slab = length (filter mem_free (blocks slab))
     \<and> (current_entry slab < max_entries slab \<or> current_entry slab = 0 \<and> max_entries slab = 0)
     \<and> distinct (map mem_addr (blocks slab))
     \<and> (\<forall>e \<in> set (blocks slab). page_of (mem_addr e - 1) \<in> page_set slab)"

text \<open>
  Where the blocks lie: a block of \<open>z\<close> bytes starts a positive multiple \<open>m * z\<close> behind the start of one of
  the pages, with \<open>m * z \<le> 4096\<close>. The bound is not strict, because the address is advanced before it is
  recorded: the last block of a page starts where the page ends.
\<close>

definition placed :: "nat \<Rightarrow> u32 set \<Rightarrow> u32 \<Rightarrow> bool" where
  "placed z ps a \<longleftrightarrow> (\<exists>p \<in> ps. \<exists>m. 0 < m \<and> m * z \<le> 4096 \<and> a = p + of_nat (m * z))"

definition slab_sized :: "nat \<Rightarrow> kmemslab \<Rightarrow> bool" where
  "slab_sized z slab \<longleftrightarrow> (\<forall>a \<in> set (map mem_addr (blocks slab)). placed z (page_set slab) a)"

definition malloc_ok :: "'z malloc_state_scheme \<Rightarrow> bool" where
  "malloc_ok s \<longleftrightarrow> pmem_ok s \<and> (\<forall>p \<in> pmem_pages s. unat p + 8192 < 4294967296)
     \<and> length (slabs s) = SLAB_COUNT
     \<and> (\<forall>k < SLAB_COUNT. slab_ok (slabs s ! k) \<and> page_set (slabs s ! k) \<subseteq> used_pages s
          \<and> slab_sized (slab_size k) (slabs s ! k))
     \<and> (\<forall>k < SLAB_COUNT. \<forall>l < SLAB_COUNT. k \<noteq> l \<longrightarrow> page_set (slabs s ! k) \<inter> page_set (slabs s ! l) = {})"

text \<open>The blocks that are handed out, each with its size.\<close>

definition allocated_in :: "kmemslab \<Rightarrow> u32 set" where
  "allocated_in slab = mem_addr ` set (filter (\<lambda>e. \<not> mem_free e) (blocks slab))"

definition live_blocks :: "'z malloc_state_scheme \<Rightarrow> (u32 \<times> nat) set" where
  "live_blocks s = (\<Union>k < SLAB_COUNT. (\<lambda>a. (a, slab_size k)) ` allocated_in (slabs s ! k))"

text \<open>The size of the block a request gets: the least of the seven block sizes that is large enough.\<close>

definition block_size :: "u32 \<Rightarrow> nat" where
  "block_size sz = hd (filter (\<lambda>z. unat sz \<le> z) [64, 128, 256, 512, 1024, 2048, 4096])"

lemma slab_okD:
  assumes "slab_ok slab"
  shows "length (slab_entries slab) = SLAB_ENTRY_COUNT" "max_entries slab \<le> SLAB_ENTRY_COUNT"
    "length (slab_pages slab) = SLAB_MAX_PAGE_COUNT" "current_page slab \<le> SLAB_MAX_PAGE_COUNT"
    "free_entries slab = length (filter mem_free (blocks slab))"
    "current_entry slab < max_entries slab \<or> current_entry slab = 0 \<and> max_entries slab = 0"
    "distinct (map mem_addr (blocks slab))"
    "\<And>e. e \<in> set (blocks slab) \<Longrightarrow> page_of (mem_addr e - 1) \<in> page_set slab"
    "length (blocks slab) = max_entries slab"
  using assms by (auto simp: slab_ok_def blocks_def)

lemma nth_blocks: "i < max_entries slab \<Longrightarrow> blocks slab ! i = slab_entries slab ! i"
  by (simp add: blocks_def)

section \<open>Taking and giving back an entry\<close>

definition take_entry :: "nat \<Rightarrow> kmemslab \<Rightarrow> kmemslab" where
  "take_entry i slab = slab\<lparr>
     slab_entries := (slab_entries slab)[i := (slab_entries slab ! i)\<lparr>mem_free := False\<rparr>],
     current_entry := i, free_entries := free_entries slab - 1\<rparr>"

definition give_entry :: "nat \<Rightarrow> kmemslab \<Rightarrow> kmemslab" where
  "give_entry i slab = slab\<lparr>
     slab_entries := (slab_entries slab)[i := (slab_entries slab ! i)\<lparr>mem_free := True\<rparr>],
     current_entry := i, free_entries := free_entries slab + 1\<rparr>"

lemma blocks_take_give:
  "blocks (take_entry i slab) = (blocks slab)[i := (slab_entries slab ! i)\<lparr>mem_free := False\<rparr>]"
  "blocks (give_entry i slab) = (blocks slab)[i := (slab_entries slab ! i)\<lparr>mem_free := True\<rparr>]"
  "page_set (take_entry i slab) = page_set slab" "page_set (give_entry i slab) = page_set slab"
  by (simp_all add: blocks_def take_entry_def give_entry_def page_set_def take_update_swap)

lemma map_addr_update:
  assumes "i < length es" "mem_addr e = mem_addr (es ! i)"
  shows "map mem_addr (es[i := e]) = map mem_addr es"
  using assms by (metis list_update_id map_update)

lemma slab_ok_set_free:
  assumes "slab_ok slab" "i < max_entries slab"
    and "blocks slab' = (blocks slab)[i := (slab_entries slab ! i)\<lparr>mem_free := b\<rparr>]"
    and "page_set slab' = page_set slab" "max_entries slab' = max_entries slab" "current_entry slab' = i"
    and "length (slab_entries slab') = SLAB_ENTRY_COUNT" "length (slab_pages slab') = SLAB_MAX_PAGE_COUNT"
    and "current_page slab' = current_page slab"
    and "free_entries slab' + of_bool (mem_free (slab_entries slab ! i)) = free_entries slab + of_bool b"
  shows "slab_ok slab'"
proof -
  note d = slab_okD [OF assms(1)]
  have i: "i < length (blocks slab)" using assms(2) d(9) by simp
  have e: "blocks slab ! i = slab_entries slab ! i" using assms(2) by (rule nth_blocks)
  have "length (filter mem_free (blocks slab')) + of_bool (mem_free (slab_entries slab ! i))
      = length (filter mem_free (blocks slab)) + of_bool b"
    using length_filter_update [OF i, of mem_free "(slab_entries slab ! i)\<lparr>mem_free := b\<rparr>"]
    by (simp add: assms(3) e)
  then have "free_entries slab' = length (filter mem_free (blocks slab'))"
    using assms(10) d(5) by simp
  moreover have addrs: "map mem_addr (blocks slab') = map mem_addr (blocks slab)"
    unfolding assms(3) by (rule map_addr_update [OF i]) (simp add: e)
  moreover have "page_of (mem_addr x - 1) \<in> page_set slab'" if "x \<in> set (blocks slab')" for x
  proof -
    have "mem_addr x \<in> mem_addr ` set (blocks slab)" using that addrs by (metis image_eqI image_set)
    then show ?thesis using d(8) by (auto simp: assms(4))
  qed
  ultimately show ?thesis
    using assms(2,5-9) d(2,4,7) by (simp add: slab_ok_def)
qed

lemma slab_sized_cong:
  "map mem_addr (blocks slab') = map mem_addr (blocks slab) \<Longrightarrow> page_set slab' = page_set slab \<Longrightarrow>
    slab_sized z slab' = slab_sized z slab"
  unfolding slab_sized_def by simp

lemma slab_sized_take_give:
  assumes "slab_ok slab" "i < max_entries slab"
  shows "slab_sized z (take_entry i slab) = slab_sized z slab" "slab_sized z (give_entry i slab) = slab_sized z slab"
proof -
  have i: "i < length (blocks slab)" using assms(2) slab_okD(9) [OF assms(1)] by simp
  show "slab_sized z (take_entry i slab) = slab_sized z slab" "slab_sized z (give_entry i slab) = slab_sized z slab"
    using map_addr_update [OF i] nth_blocks [OF assms(2)]
    by (auto intro!: slab_sized_cong simp: blocks_take_give)
qed

lemma slab_ok_take:
  assumes "slab_ok slab" "i < max_entries slab" "mem_free (slab_entries slab ! i)"
  shows "slab_ok (take_entry i slab)"
proof -
  have "slab_entries slab ! i \<in> set (filter mem_free (blocks slab))"
    using assms slab_okD(9) [OF assms(1)] nth_mem [of i "blocks slab"] nth_blocks [OF assms(2)] by simp
  then have "0 < free_entries slab"
    using slab_okD(5) [OF assms(1)] by (metis length_pos_if_in_set)
  then show ?thesis
    using slab_okD [OF assms(1)] assms
    by (intro slab_ok_set_free [OF assms(1,2), where b = False])
      (simp_all add: blocks_take_give, simp_all add: take_entry_def)
qed

lemma slab_ok_give:
  assumes "slab_ok slab" "i < max_entries slab" "\<not> mem_free (slab_entries slab ! i)"
  shows "slab_ok (give_entry i slab)"
  using slab_okD [OF assms(1)] assms
  by (intro slab_ok_set_free [OF assms(1,2), where b = True])
    (simp_all add: blocks_take_give, simp_all add: give_entry_def)

lemma allocated_update:
  assumes "distinct (map mem_addr es)" "i < length es" "e = (es ! i)\<lparr>mem_free := b\<rparr>"
  shows "mem_addr ` set (filter (\<lambda>e. \<not> mem_free e) (es[i := e]))
    = (if b then mem_addr ` set (filter (\<lambda>e. \<not> mem_free e) es) - {mem_addr (es ! i)}
       else insert (mem_addr (es ! i)) (mem_addr ` set (filter (\<lambda>e. \<not> mem_free e) es)))"
proof -
  define F where "F l = {j. j < length l \<and> \<not> mem_free (l ! j)}" for l :: "'a kmemslab_entry_scheme list"
  have set: "mem_addr ` set (filter (\<lambda>e. \<not> mem_free e) l) = (\<lambda>j. mem_addr (l ! j)) ` F l" for l :: "'a kmemslab_entry_scheme list"
    by (force simp: in_set_conv_nth F_def)
  have addr: "mem_addr (es[i := e] ! j) = mem_addr (es ! j)" for j
    using assms(2,3) by (simp add: nth_list_update_iff)
  have F: "F (es[i := e]) = (if b then F es - {i} else insert i (F es))"
    using assms(2,3) by (auto simp: F_def nth_list_update_iff)
  have "inj_on (\<lambda>j. mem_addr (es ! j)) {..<length es}"
    using assms(1) by (auto simp: inj_on_def distinct_conv_nth)
  then have "(\<lambda>j. mem_addr (es ! j)) ` (F es - {i}) = (\<lambda>j. mem_addr (es ! j)) ` F es - {mem_addr (es ! i)}"
    using assms(2) by (subst inj_on_image_set_diff [where C = "{..<length es}"]) (auto simp: F_def)
  then show ?thesis
    unfolding set addr F by simp
qed

lemma allocated_take_give:
  assumes "slab_ok slab" "i < max_entries slab"
  shows "allocated_in (take_entry i slab) = insert (mem_addr (slab_entries slab ! i)) (allocated_in slab)"
    and "allocated_in (give_entry i slab) = allocated_in slab - {mem_addr (slab_entries slab ! i)}"
  using allocated_update [OF slab_okD(7) [OF assms(1)], of i "(slab_entries slab ! i)\<lparr>mem_free := False\<rparr>" False]
    allocated_update [OF slab_okD(7) [OF assms(1)], of i "(slab_entries slab ! i)\<lparr>mem_free := True\<rparr>" True]
    assms slab_okD(9) [OF assms(1)] nth_blocks [OF assms(2)]
  by (simp_all add: allocated_in_def blocks_take_give)


section \<open>The search loop\<close>

lemma malloc_search_finds:
  assumes "slab = slabs s ! k" "n = max_entries slab" "n \<le> SLAB_ENTRY_COUNT" "c = current_entry slab" "c < n"
    and "d \<le> e" "e < n" "mem_free (slab_entries slab ! ((c + e) mod n))"
  shows "\<exists>i < n. mem_free (slab_entries slab ! i) \<and>
    malloc_search k (n - d) ((c + d) mod n) s = Ok (mem_addr (slab_entries slab ! i)) (upd_slab k (take_entry i) s)"
  using assms(6-8)
proof (induction "n - d" arbitrary: d)
  case 0
  then show ?case by simp
next
  case (Suc m)
  let ?i = "(c + d) mod n"
  have i: "?i < n" using assms(5) by simp
  then have i': "?i < SLAB_ENTRY_COUNT" using assms(3) by simp
  have fuel: "n - d = Suc m" "m = n - Suc d" using Suc.hyps(2) by simp_all
  show ?case
  proof (cases "mem_free (slab_entries slab ! ?i)")
    case True
    have "malloc_search k (n - d) ?i s = Ok (mem_addr (slab_entries slab ! ?i)) (upd_slab k (take_entry ?i) s)"
      using True i' by (simp add: fuel(1) assms(1) [symmetric] kernel_defs take_entry_def [abs_def])
    with i True show ?thesis by blast
  next
    case False
    then have de: "Suc d \<le> e" using Suc.prems by (metis le_neq_implies_less Suc_leI)
    have n0: "n \<noteq> 0" using assms(5) by simp
    have next_ptr: "Suc ?i mod n = (c + Suc d) mod n" by (simp add: mod_Suc_eq)
    have "(c + Suc d) mod n \<noteq> c"
      using de Suc.prems(2) assms(5) by (cases "c + Suc d < n") (auto simp: le_mod_geq)
    then have "malloc_search k (n - d) ?i s = malloc_search k m ((c + Suc d) mod n) s"
      using False i' n0
      by (simp add: fuel(1) assms(1) [symmetric] kernel_defs next_ptr assms(2) [symmetric] assms(4) [symmetric] Let_def)
    then show ?thesis
      using Suc.hyps(1) [of "Suc d"] de Suc.prems(2,3) fuel by simp
  qed
qed

lemma malloc_search_Ok:
  assumes "slab = slabs s ! k" "slab_ok slab" "0 < free_entries slab"
  shows "\<exists>i < max_entries slab. mem_free (slab_entries slab ! i) \<and>
    malloc_search k (max_entries slab) (current_entry slab) s
      = Ok (mem_addr (slab_entries slab ! i)) (upd_slab k (take_entry i) s)"
proof -
  let ?n = "max_entries slab" and ?c = "current_entry slab"
  note d = slab_okD [OF assms(2)]
  have "filter mem_free (blocks slab) \<noteq> []" using assms(3) d(5) by auto
  then obtain x where "x \<in> set (blocks slab)" "mem_free x" by (auto simp: filter_empty_conv)
  then obtain i where "i < ?n" "mem_free (blocks slab ! i)" using d(9) by (auto simp: in_set_conv_nth)
  then have i: "i < ?n" "mem_free (slab_entries slab ! i)" by (simp_all add: nth_blocks)
  then have c: "?c < ?n" using d(6) by auto
  define e where "e = (i + ?n - ?c) mod ?n"
  have "(?c + e) mod ?n = (?c + (i + ?n - ?c)) mod ?n" unfolding e_def by (simp add: mod_add_right_eq)
  also have "\<dots> = i" using i(1) c by simp
  finally have "mem_free (slab_entries slab ! ((?c + e) mod ?n))" "e < ?n"
    using i c by (simp_all add: e_def)
  then show ?thesis
    using malloc_search_finds [OF assms(1) refl d(2) refl c, of 0 e] c by simp
qed

section \<open>Growing a slab\<close>

lemma slab_add_entries_eq:
  assumes "max_entries slab + n \<le> length (slab_entries slab)"
  shows "slab_add_entries n c sz slab = (c + of_nat n * sz,
    slab\<lparr>slab_entries := take (max_entries slab) (slab_entries slab) @
           map (\<lambda>j. \<lparr>mem_addr = c + of_nat (Suc j) * sz, mem_free = True\<rparr>) [0..<n] @
           drop (max_entries slab + n) (slab_entries slab),
         max_entries := max_entries slab + n, free_entries := free_entries slab + n\<rparr>)"
  using assms
proof (induction n arbitrary: c slab)
  case (Suc n)
  let ?e = "\<lparr>mem_addr = c + sz, mem_free = True\<rparr>"
  let ?s = "slab\<lparr>slab_entries := (slab_entries slab)[max_entries slab := ?e],
      max_entries := max_entries slab + 1, free_entries := free_entries slab + 1\<rparr>"
  have "slab_add_entries (Suc n) c sz slab = slab_add_entries n (c + sz) sz ?s" by (simp add: Let_def)
  also have "\<dots> = (c + sz + of_nat n * sz,
    ?s\<lparr>slab_entries := take (max_entries ?s) (slab_entries ?s) @
           map (\<lambda>j. \<lparr>mem_addr = c + sz + of_nat (Suc j) * sz, mem_free = True\<rparr>) [0..<n] @
           drop (max_entries ?s + n) (slab_entries ?s),
         max_entries := max_entries ?s + n, free_entries := free_entries ?s + n\<rparr>)"
    using Suc.prems by (intro Suc.IH) simp
  also have "take (max_entries ?s) (slab_entries ?s) = take (max_entries slab) (slab_entries slab) @ [?e]"
    using Suc.prems by (simp add: take_Suc_conv_app_nth)
  also have "map (\<lambda>j. \<lparr>mem_addr = c + sz + of_nat (Suc j) * sz, mem_free = True\<rparr>) [0..<n]
      = map (\<lambda>j. \<lparr>mem_addr = c + of_nat (Suc j) * sz, mem_free = True\<rparr>) [1..<Suc n]"
    by (simp add: map_Suc_upt [symmetric] algebra_simps del: upt_Suc)
  finally show ?case
    using Suc.prems by (simp add: upt_conv_Cons algebra_simps del: upt_Suc)
qed simp

text \<open>The slab after it has got the page \<open>p\<close>.\<close>

definition grow_count :: "nat \<Rightarrow> kmemslab \<Rightarrow> nat" where
  "grow_count sz slab = min (4096 div sz) (SLAB_ENTRY_COUNT - max_entries slab)"

definition grow_slab :: "u32 \<Rightarrow> nat \<Rightarrow> kmemslab \<Rightarrow> kmemslab" where
  "grow_slab p sz slab = snd (slab_add_entries (grow_count sz slab) p (of_nat sz)
     (slab\<lparr>slab_pages := (slab_pages slab)[current_page slab := p], current_page := current_page slab + 1\<rparr>))"

lemma block_address:
  assumes "4096 dvd unat p" "0 < m" "m \<le> 4096"
  shows "page_of (p + of_nat m - 1) = p" "unat (p + of_nat m - 1) = unat p + (m - 1)"
proof -
  have m: "p + of_nat m - 1 = p + of_nat (m - 1)" using assms(2) by (simp add: of_nat_diff)
  show "page_of (p + of_nat m - 1) = p" "unat (p + of_nat m - 1) = unat p + (m - 1)"
    unfolding m using page_offset [OF assms(1), of "m - 1"] assms(2,3) by linarith+
qed

lemma grow_count_bounds:
  assumes "0 < sz" "sz \<le> 4096" "max_entries slab < SLAB_ENTRY_COUNT"
  shows "0 < grow_count sz slab" "max_entries slab + grow_count sz slab \<le> SLAB_ENTRY_COUNT"
    "grow_count sz slab * sz \<le> 4096"
proof -
  show "0 < grow_count sz slab" using assms by (simp add: grow_count_def div_greater_zero_iff)
  show "max_entries slab + grow_count sz slab \<le> SLAB_ENTRY_COUNT" using assms(3) by (simp add: grow_count_def)
  have "grow_count sz slab * sz \<le> 4096 div sz * sz" by (intro mult_le_mono1) (simp add: grow_count_def)
  then show "grow_count sz slab * sz \<le> 4096" using div_times_less_eq_dividend [of 4096 sz] by linarith
qed

lemma grow_slab_fields:
  fixes sz :: nat and p :: u32
  assumes "slab_ok slab" "current_page slab < SLAB_MAX_PAGE_COUNT" "max_entries slab < SLAB_ENTRY_COUNT"
  defines "n \<equiv> grow_count sz slab" and "g \<equiv> grow_slab p sz slab"
  shows "blocks g = blocks slab @ map (\<lambda>j. \<lparr>mem_addr = p + of_nat (Suc j * sz), mem_free = True\<rparr>) [0..<n]"
    and "page_set g = insert p (page_set slab)" "max_entries g = max_entries slab + n"
    and "free_entries g = free_entries slab + n" "current_entry g = current_entry slab"
    and "length (slab_entries g) = SLAB_ENTRY_COUNT" "length (slab_pages g) = SLAB_MAX_PAGE_COUNT"
    and "current_page g = Suc (current_page slab)"
proof -
  note d = slab_okD [OF assms(1)]
  let ?new = "map (\<lambda>j. \<lparr>mem_addr = p + of_nat (Suc j * sz), mem_free = True\<rparr>) [0..<n]"
  have n: "max_entries slab + n \<le> 1000" using assms(3) by (simp add: n_def grow_count_def)
  have g: "g = slab\<lparr>slab_pages := (slab_pages slab)[current_page slab := p], current_page := current_page slab + 1,
      slab_entries := blocks slab @ ?new @ drop (max_entries slab + n) (slab_entries slab),
      max_entries := max_entries slab + n, free_entries := free_entries slab + n\<rparr>"
    using n d(1) by (simp add: g_def n_def grow_slab_def slab_add_entries_eq blocks_def algebra_simps)
  show "blocks g = blocks slab @ ?new"
    using n d(9) by (simp add: g) (simp add: blocks_def d(1,2) min_def)
  have "take (Suc (current_page slab)) ((slab_pages slab)[current_page slab := p])
      = take (current_page slab) (slab_pages slab) @ [p]"
    using assms(2) d(3) by (simp add: take_Suc_conv_app_nth)
  then show "page_set g = insert p (page_set slab)"
    by (auto simp: page_set_def g)
  show "length (slab_entries g) = SLAB_ENTRY_COUNT" using n d(1,9) by (simp add: g)
  show "length (slab_pages g) = SLAB_MAX_PAGE_COUNT" using d(3) by (simp add: g)
  show "max_entries g = max_entries slab + n" "free_entries g = free_entries slab + n"
    "current_entry g = current_entry slab" "current_page g = Suc (current_page slab)"
    by (simp_all add: g)
qed

lemma grow_slab_ok:
  assumes "slab_ok slab" "free_entries slab = 0" "current_page slab < SLAB_MAX_PAGE_COUNT"
    and "p \<notin> page_set slab" "4096 dvd unat p" "0 < sz" "sz \<le> 4096" "max_entries slab < SLAB_ENTRY_COUNT"
  shows "slab_ok (grow_slab p sz slab)"
    and "allocated_in (grow_slab p sz slab) = allocated_in slab"
    and "slab_sized sz slab \<Longrightarrow> slab_sized sz (grow_slab p sz slab)"
proof -
  note d = slab_okD [OF assms(1)]
  note a = grow_count_bounds [OF assms(6-8)]
  note g = grow_slab_fields [OF assms(1,3,8), where p = p and sz = sz]
  let ?a = "grow_count sz slab" and ?g = "grow_slab p sz slab"
  let ?new = "map (\<lambda>j. \<lparr>mem_addr = p + of_nat (Suc j * sz), mem_free = True\<rparr>) [0..<?a]"
  have mult: "0 < Suc j * sz" "Suc j * sz \<le> 4096" if "j < ?a" for j
  proof -
    have "Suc j * sz \<le> ?a * sz" using that by (intro mult_le_mono1) simp
    then show "Suc j * sz \<le> 4096" using a(3) by linarith
    show "0 < Suc j * sz" using assms(6) by simp
  qed
  note addr = block_address [OF assms(5) mult]
  have inj: "i = j" if "i < ?a" "j < ?a" "p + of_nat (Suc i * sz) = p + of_nat (Suc j * sz)" for i j
  proof -
    have "Suc i * sz - 1 = Suc j * sz - 1"
      using addr(2) [of i] addr(2) [of j] that by (metis add_left_cancel)
    then have "Suc i * sz = Suc j * sz" using mult(1) [OF that(1)] mult(1) [OF that(2)] by linarith
    then show ?thesis using assms(6) by simp
  qed
  have new: "page_of (x - 1) = p" if "x \<in> set (map mem_addr ?new)" for x
    using that addr(1) by (auto simp del: of_nat_mult mult_Suc)
  have "distinct (map mem_addr ?new)"
    using inj by (simp add: distinct_map inj_on_def comp_def del: of_nat_mult mult_Suc)
  moreover have "page_of (x - 1) \<noteq> p" if "x \<in> set (map mem_addr (blocks slab))" for x
    using that d(8) assms(4) by auto
  ultimately have "distinct (map mem_addr (blocks ?g))"
    using new d(7) unfolding g(1) map_append distinct_append by blast
  moreover have "page_of (mem_addr e - 1) \<in> page_set ?g" if "e \<in> set (blocks ?g)" for e
    using that d(8) new unfolding g(1,2) by fastforce
  moreover have "free_entries ?g = length (filter mem_free (blocks ?g))"
    unfolding g(1,4) using d(5) by (simp add: filter_map comp_def)
  ultimately show "slab_ok ?g"
    using a(1,2) d(6) assms(3) unfolding slab_ok_def by (auto simp: g(3,5-8))
  show "allocated_in ?g = allocated_in slab" by (simp add: allocated_in_def g(1) filter_map comp_def)
  show "slab_sized sz ?g" if "slab_sized sz slab"
    using that mult unfolding slab_sized_def g(1,2) placed_def
    by (auto simp del: of_nat_mult mult_Suc) blast+
qed


section \<open>Allocation and release over all slabs\<close>

lemma pmem_slabs [simp]:
  "pmem_ok (s\<lparr>slabs := x\<rparr>) = pmem_ok s" "pmem_pages (s\<lparr>slabs := x\<rparr>) = pmem_pages s"
  "used_pages (s\<lparr>slabs := x\<rparr>) = used_pages s"
  by (simp_all add: pmem_ok_def pmem_pages_def used_pages_def pmem_used_def entry_addr_def [abs_def]
      entry_used_def record_addr_def pmem_blocks_def)

lemma upd_slab_fields [simp]:
  "pmem_ok (upd_slab k f s) = pmem_ok s" "pmem_pages (upd_slab k f s) = pmem_pages s"
  "used_pages (upd_slab k f s) = used_pages s" "mem (upd_slab k f s) = mem s"
  "length (slabs (upd_slab k f s)) = length (slabs s)"
  by (simp_all add: upd_slab_def)

lemma nth_upd_slab:
  "k < length (slabs s) \<Longrightarrow> slabs (upd_slab k f s) ! l = (if l = k then f (slabs s ! k) else slabs s ! l)"
  by (simp add: upd_slab_def nth_list_update_iff)

lemma malloc_okD:
  assumes "malloc_ok s"
  shows "pmem_ok s" "\<And>p. p \<in> pmem_pages s \<Longrightarrow> unat p + 8192 < 4294967296" "length (slabs s) = SLAB_COUNT"
    "\<And>k. k < SLAB_COUNT \<Longrightarrow> slab_ok (slabs s ! k)" "\<And>k. k < SLAB_COUNT \<Longrightarrow> page_set (slabs s ! k) \<subseteq> used_pages s"
    "\<And>k l. k < SLAB_COUNT \<Longrightarrow> l < SLAB_COUNT \<Longrightarrow> k \<noteq> l \<Longrightarrow> page_set (slabs s ! k) \<inter> page_set (slabs s ! l) = {}"
    "\<And>k. k < SLAB_COUNT \<Longrightarrow> slab_sized (slab_size k) (slabs s ! k)"
  using assms by (auto simp: malloc_ok_def)

lemma malloc_ok_upd_slab:
  assumes "malloc_ok s" "k < SLAB_COUNT" "slab_ok (f (slabs s ! k))"
    and "page_set (f (slabs s ! k)) = page_set (slabs s ! k)" "slab_sized (slab_size k) (f (slabs s ! k))"
  shows "malloc_ok (upd_slab k f s)"
  using malloc_okD [OF assms(1)] assms(2-5) by (auto simp: malloc_ok_def nth_upd_slab)

lemma allocated_in_page:
  assumes "slab_ok slab" "x \<in> allocated_in slab"
  shows "page_of (x - 1) \<in> page_set slab"
  using assms(2) slab_okD(8) [OF assms(1)] by (auto simp: allocated_in_def)

lemma entry_page:
  assumes "slab_ok slab" "i < max_entries slab"
  shows "page_of (mem_addr (slab_entries slab ! i) - 1) \<in> page_set slab"
  using slab_okD(8) [OF assms(1)] assms(2) slab_okD(9) [OF assms(1)] nth_blocks [OF assms(2)] nth_mem
  by metis

lemma allocated_other:
  assumes "malloc_ok s" "k < SLAB_COUNT" "l < SLAB_COUNT" "l \<noteq> k" "i < max_entries (slabs s ! k)"
  shows "mem_addr (slab_entries (slabs s ! k) ! i) \<notin> allocated_in (slabs s ! l)"
  using malloc_okD(4) [OF assms(1)] malloc_okD(6) [OF assms(1-3)] assms entry_page allocated_in_page
  by (metis IntI empty_iff)

lemma live_split:
  "k < SLAB_COUNT \<Longrightarrow> live_blocks s = (\<Union>l \<in> {..<SLAB_COUNT} - {k}. (\<lambda>a. (a, slab_size l)) ` allocated_in (slabs s ! l))
    \<union> (\<lambda>a. (a, slab_size k)) ` allocated_in (slabs s ! k)"
  unfolding live_blocks_def by blast

lemma live_upd_slab:
  assumes "length (slabs s) = SLAB_COUNT" "k < SLAB_COUNT"
  shows "live_blocks (upd_slab k f s) = (\<Union>l \<in> {..<SLAB_COUNT} - {k}. (\<lambda>a. (a, slab_size l)) ` allocated_in (slabs s ! l))
    \<union> (\<lambda>a. (a, slab_size k)) ` allocated_in (f (slabs s ! k))"
  unfolding live_split [OF assms(2)]
  by (intro arg_cong2 [where f = "(\<union>)"] SUP_cong) (simp_all add: nth_upd_slab assms)

lemma not_live:
  "(\<And>l. l < SLAB_COUNT \<Longrightarrow> a \<notin> allocated_in (slabs s ! l)) \<Longrightarrow> a \<notin> fst ` live_blocks s"
  by (fastforce simp: live_blocks_def)

lemma entry_not_free:
  assumes "slab_ok slab" "i < max_entries slab" "mem_addr (slab_entries slab ! i) \<in> allocated_in slab"
  shows "\<not> mem_free (slab_entries slab ! i)"
proof -
  obtain j where "j < length (blocks slab)" "\<not> mem_free (blocks slab ! j)"
    "mem_addr (blocks slab ! j) = mem_addr (slab_entries slab ! i)"
    using assms(3) by (auto simp: allocated_in_def in_set_conv_nth)
  then show ?thesis
    using slab_okD(7,9) [OF assms(1)] assms(2) nth_blocks [OF assms(2)]
    by (metis distinct_conv_nth length_map nth_map)
qed

lemma take_entry_state:
  assumes "malloc_ok s" "k < SLAB_COUNT" "i < max_entries (slabs s ! k)" "mem_free (slab_entries (slabs s ! k) ! i)"
  defines "a \<equiv> mem_addr (slab_entries (slabs s ! k) ! i)"
  shows "malloc_ok (upd_slab k (take_entry i) s)"
    and "live_blocks (upd_slab k (take_entry i) s) = insert (a, slab_size k) (live_blocks s)"
    and "a \<notin> fst ` live_blocks s"
proof -
  note ok = malloc_okD(4) [OF assms(1,2)]
  show "malloc_ok (upd_slab k (take_entry i) s)"
    using assms ok malloc_okD(7) [OF assms(1,2)]
    by (intro malloc_ok_upd_slab) (simp_all add: slab_ok_take blocks_take_give slab_sized_take_give)
  show "live_blocks (upd_slab k (take_entry i) s) = insert (a, slab_size k) (live_blocks s)"
    using allocated_take_give(1) [OF ok assms(3)] malloc_okD(3) [OF assms(1)] assms(2)
    by (simp add: live_upd_slab live_split [of k s] a_def)
  have "a \<notin> allocated_in (slabs s ! k)"
    using entry_not_free [OF ok assms(3)] assms(4) by (auto simp: a_def)
  then show "a \<notin> fst ` live_blocks s"
    using allocated_other [OF assms(1,2) _ _ assms(3)] unfolding a_def by (intro not_live) metis
qed

text \<open>Room for one more block in slab \<open>k\<close>: a free entry, or room to grow by a page.\<close>

definition slab_room :: "nat \<Rightarrow> 'z malloc_state_scheme \<Rightarrow> bool" where
  "slab_room k s \<longleftrightarrow> 0 < free_entries (slabs s ! k)
     \<or> max_entries (slabs s ! k) < SLAB_ENTRY_COUNT \<and> current_page (slabs s ! k) < SLAB_MAX_PAGE_COUNT
       \<and> 2 \<le> card (pmem_pages s - used_pages s)"

lemma slab_size_bounds: "k < SLAB_COUNT \<Longrightarrow> 0 < slab_size k \<and> slab_size k \<le> 4096"
proof -
  assume "k < SLAB_COUNT"
  then have "(2 :: nat) ^ k \<le> 2 ^ 6" by (intro power_increasing) simp_all
  then show ?thesis by (simp add: slab_size_def div_greater_zero_iff)
qed

lemma alloc_new_page_run:
  assumes "malloc_ok s" "k < SLAB_COUNT" "free_entries (slabs s ! k) = 0"
    and "max_entries (slabs s ! k) < SLAB_ENTRY_COUNT" "current_page (slabs s ! k) < SLAB_MAX_PAGE_COUNT"
    and "pmem_alloc s = Ok p t" "slabs t = slabs s" "p \<in> pmem_pages s" "4096 dvd unat p"
  shows "alloc_new_page_if_needed k (slab_size k) s
    = Ok () (upd_slab k (\<lambda>_. grow_slab p (slab_size k) (slabs s ! k)) t)"
proof -
  let ?slab = "slabs s ! k" and ?z = "slab_size k"
  let ?a = "grow_count ?z ?slab"
  have "0 < ?z" "?z \<le> 4096" using slab_size_bounds [OF assms(2)] by simp_all
  note count = grow_count_bounds [OF this assms(4)]
  have a: "new_entries ?z ?slab = int ?a"
    using assms(4) by (auto simp: grow_count_def new_entries_def Let_def min_def)
  have pos: "0 < ?a" and small: "?a * ?z \<le> 4096" using count by simp_all
  have "(word_of_int (int ?a * int ?z) :: u32) = of_nat (?a * ?z)"
    by (metis of_int_of_nat_eq of_nat_mult)
  moreover have "unat (of_nat (?a * ?z) :: u32) = ?a * ?z" using small by (intro unat_of_nat_u32) simp
  ultimately have check: "\<not> (word_of_int (int ?a * int ?z) :: u32) > 4096"
    using small by (simp add: word_less_nat_alt)
  have fits: "max_entries ?slab + ?a \<le> length (slab_entries ?slab)"
    using assms(4) slab_okD(1) [OF malloc_okD(4) [OF assms(1,2)]] by (simp add: grow_count_def)
  let ?slab' = "?slab\<lparr>slab_pages := (slab_pages ?slab)[current_page ?slab := p], current_page := Suc (current_page ?slab)\<rparr>"
  have len: "length (slabs s) = 7" by (rule malloc_okD(3) [OF assms(1)])
  have entries: "slab_add_entries ?a p (of_nat ?z) ?slab' = (p + of_nat (?a * ?z), grow_slab p ?z ?slab)"
    using fits by (simp add: grow_slab_def slab_add_entries_eq)
  have "max_entries (grow_slab p ?z ?slab) = max_entries ?slab + ?a"
    using fits by (simp add: grow_slab_def slab_add_entries_eq)
  then have max: "\<not> max_entries (grow_slab p ?z ?slab) > 1000"
    using fits slab_okD(1) [OF malloc_okD(4) [OF assms(1,2)]] by simp
  have "unat p + ?a * ?z + 4096 < 4294967296" using malloc_okD(2) [OF assms(1,8)] small by linarith
  then have "unat (p + of_nat (?a * ?z)) = unat p + ?a * ?z"
    "unat (p + of_nat (?a * ?z) + 4096) = unat p + ?a * ?z + 4096"
    using small by (simp_all add: unat_add_u32 unat_of_nat_u32 del: of_nat_mult)
  then have wrap: "\<not> p + of_nat (?a * ?z) > p + of_nat (?a * ?z) + 4096"
    by (simp add: word_less_nat_alt)
  show ?thesis
    using assms(3,5,6,7) pos check max wrap len assms(2)
    by (simp add: alloc_new_page_if_needed_def a kernel_defs entries nth_upd_slab Let_def del: of_nat_mult)
      (simp add: upd_slab_def)
qed


lemma pmem_same_slabs: "pmem_same s t \<Longrightarrow> slabs t = slabs s"
  by (auto simp: pmem_same_def)

text \<open>What allocation keeps: no page is released and no byte of a page changes.\<close>

definition keeps_pages :: "'z pmem_state_scheme \<Rightarrow> 'z pmem_state_scheme \<Rightarrow> bool" where
  "keeps_pages s s' \<longleftrightarrow> pmem_pages s' = pmem_pages s \<and> used_pages s \<subseteq> used_pages s'
     \<and> (\<forall>a. page_of a \<in> pmem_pages s \<longrightarrow> mem s' a = mem s a)"

lemma wp_alloc_new_page:
  assumes "malloc_ok s" "k < SLAB_COUNT" "slab_room k s"
  shows "wp (alloc_new_page_if_needed k (slab_size k)) (\<lambda>_ s'. malloc_ok s' \<and> live_blocks s' = live_blocks s
    \<and> free_entries (slabs s' ! k) = (if 0 < free_entries (slabs s ! k) then free_entries (slabs s ! k)
        else grow_count (slab_size k) (slabs s ! k))
    \<and> 0 < free_entries (slabs s' ! k) \<and> keeps_pages s s') s"
proof (cases "0 < free_entries (slabs s ! k)")
  case True
  with assms show ?thesis by (simp add: alloc_new_page_if_needed_def keeps_pages_def)
next
  case False
  let ?slab = "slabs s ! k" and ?z = "slab_size k"
  note ok = malloc_okD [OF assms(1)]
  have room: "max_entries ?slab < SLAB_ENTRY_COUNT" "current_page ?slab < SLAB_MAX_PAGE_COUNT"
    "2 \<le> card (pmem_pages s - used_pages s)"
    using assms(3) False by (simp_all add: slab_room_def)
  obtain p t where alloc: "pmem_alloc s = Ok p t" and p: "p \<in> pmem_pages s - used_pages s"
    and t: "pmem_ok t" "pmem_pages t = pmem_pages s" "used_pages t = insert p (used_pages s)" "pmem_same s t"
      "\<And>a. page_of a \<in> pmem_pages s \<Longrightarrow> mem t a = mem s a"
    by (rule wpE [OF pm.alloc_ok [OF ok(1) room(3)]]) auto
  have align: "4096 dvd unat p" using p pm.pages_aligned [OF ok(1)] by blast
  have fresh: "p \<notin> page_set (slabs s ! l)" if "l < SLAB_COUNT" for l using ok(5) [OF that] p by blast
  have z: "0 < ?z" "?z \<le> 4096" using slab_size_bounds [OF assms(2)] by simp_all
  have grow: "slab_ok (grow_slab p ?z ?slab)" "allocated_in (grow_slab p ?z ?slab) = allocated_in ?slab"
    "slab_sized ?z (grow_slab p ?z ?slab)"
    using grow_slab_ok [OF ok(4) [OF assms(2)] _ room(2) fresh [OF assms(2)] align z room(1)] False
      ok(7) [OF assms(2)] by simp_all
  note fields = grow_slab_fields [OF ok(4) [OF assms(2)] room(2,1), where p = p and sz = ?z]
  let ?t = "upd_slab k (\<lambda>_. grow_slab p ?z ?slab) t"
  have slabs: "slabs t = slabs s" by (rule pmem_same_slabs [OF t(4)])
  have nth: "slabs ?t ! l = (if l = k then grow_slab p ?z ?slab else slabs s ! l)" for l
    using ok(3) assms(2) slabs by (simp add: nth_upd_slab)
  have "malloc_ok ?t"
    unfolding malloc_ok_def
  proof (intro conjI ballI allI impI)
    show "pmem_ok ?t" using t(1) by simp
    show "unat q + 8192 < 4294967296" if "q \<in> pmem_pages ?t" for q using that ok(2) t(2) by simp
    show "length (slabs ?t) = SLAB_COUNT" using ok(3) slabs by simp
    show "slab_ok (slabs ?t ! l)" if "l < SLAB_COUNT" for l using that ok(4) grow(1) by (simp add: nth)
    show "slab_sized (slab_size l) (slabs ?t ! l)" if "l < SLAB_COUNT" for l using that ok(7) grow(3) by (simp add: nth)
    show "page_set (slabs ?t ! l) \<subseteq> used_pages ?t" if "l < SLAB_COUNT" for l
      using ok(5) [OF that] t(3) fields(2) by (auto simp: nth)
    show "page_set (slabs ?t ! l) \<inter> page_set (slabs ?t ! m) = {}" if "l < SLAB_COUNT" "m < SLAB_COUNT" "l \<noteq> m" for l m
      using ok(6) [OF that] fresh that fields(2) by (auto simp: nth)
  qed
  moreover have "live_blocks ?t = live_blocks s"
    unfolding live_blocks_def by (rule SUP_cong) (simp_all add: nth grow(2))
  moreover have "free_entries (slabs ?t ! k) = grow_count ?z ?slab" using fields(4) False by (simp add: nth)
  moreover note grow_count_bounds(1) [OF z room(1)]
  moreover have "keeps_pages s ?t" using t by (auto simp: keeps_pages_def)
  moreover have "alloc_new_page_if_needed k ?z s = Ok () ?t"
    using alloc_new_page_run [OF assms(1,2) _ room(1,2) alloc slabs _ align] False p by simp
  ultimately show ?thesis using False by (simp add: wp_def)
qed

lemma wp_malloc:
  assumes "malloc_ok s" "slab_for sz = Some k" "k < SLAB_COUNT" "slab_room k s"
  shows "wp (malloc sz) (\<lambda>a s'. malloc_ok s' \<and> a \<notin> fst ` live_blocks s
    \<and> live_blocks s' = insert (a, slab_size k) (live_blocks s) \<and> keeps_pages s s'
    \<and> Suc (free_entries (slabs s' ! k)) = (if 0 < free_entries (slabs s ! k) then free_entries (slabs s ! k)
        else grow_count (slab_size k) (slabs s ! k))) s"
  unfolding malloc_def assms(2) option.case wp_kseq
proof (rule wp_mono [OF wp_alloc_new_page [OF assms(1,3,4)]])
  fix u t
  assume t: "malloc_ok t \<and> live_blocks t = live_blocks s
    \<and> free_entries (slabs t ! k) = (if 0 < free_entries (slabs s ! k) then free_entries (slabs s ! k)
        else grow_count (slab_size k) (slabs s ! k))
    \<and> 0 < free_entries (slabs t ! k) \<and> keeps_pages s t"
  then have ok: "slab_ok (slabs t ! k)" using malloc_okD(4) assms(3) by blast
  then obtain i where i: "i < max_entries (slabs t ! k)" "mem_free (slab_entries (slabs t ! k) ! i)"
    "malloc_search k (max_entries (slabs t ! k)) (current_entry (slabs t ! k)) t
      = Ok (mem_addr (slab_entries (slabs t ! k) ! i)) (upd_slab k (take_entry i) t)"
    using malloc_search_Ok [OF refl ok] t by auto
  note e = take_entry_state [OF conjunct1 [OF t] assms(3) i(1,2)]
  have "Suc (free_entries (slabs (upd_slab k (take_entry i) t) ! k)) = free_entries (slabs t ! k)"
    using t malloc_okD(3) [OF conjunct1 [OF t]] assms(3) by (simp add: nth_upd_slab take_entry_def)
  then show "wp (kbind (kget (\<lambda>s. slabs s ! k)) (\<lambda>c_slab. if free_entries c_slab \<le> 0
        then panic ''malloc failed! no free memory exists!''
        else malloc_search k (max_entries c_slab) (current_entry c_slab)))
      (\<lambda>a s'. malloc_ok s' \<and> a \<notin> fst ` live_blocks s \<and> live_blocks s' = insert (a, slab_size k) (live_blocks s)
        \<and> keeps_pages s s' \<and> Suc (free_entries (slabs s' ! k))
          = (if 0 < free_entries (slabs s ! k) then free_entries (slabs s ! k) else grow_count (slab_size k) (slabs s ! k))) t"
    using t e i(3) by (simp add: wp_def kernel_defs keeps_pages_def)
qed

lemma slab_for_Some:
  assumes "unat sz \<le> 4096"
  obtains k where "slab_for sz = Some k" "k < SLAB_COUNT" "unat sz \<le> slab_size k"
    "\<And>j. j < SLAB_COUNT \<Longrightarrow> unat sz \<le> slab_size j \<Longrightarrow> j \<le> k"
proof -
  define f where "f n = fold (\<lambda>i c_slab. if unat sz \<le> slab_size i then Some i else c_slab) [0..<n] None" for n
  have "\<exists>k < n. f n = Some k \<and> unat sz \<le> slab_size k \<and> (\<forall>j < n. unat sz \<le> slab_size j \<longrightarrow> j \<le> k)" if "0 < n" for n
    using that
  proof (induction n)
    case (Suc n)
    have step: "f (Suc n) = (if unat sz \<le> slab_size n then Some n else f n)" by (simp add: f_def)
    show ?case
    proof (cases "unat sz \<le> slab_size n")
      case True
      then show ?thesis by (auto simp: step less_Suc_eq)
    next
      case False
      then have "0 < n" using assms by (cases n) (simp_all add: slab_size_def)
      with Suc.IH False show ?thesis by (auto simp: step less_Suc_eq)
    qed
  qed simp
  from this [of 7] show thesis using that by (auto simp: slab_for_def f_def)
qed


text \<open>The entry of a block, and the slab that holds it.\<close>

lemma live_entry:
  assumes "(a, z) \<in> live_blocks s"
  obtains k i where "k < SLAB_COUNT" "i < max_entries (slabs s ! k)" "mem_addr (slab_entries (slabs s ! k) ! i) = a"
    "\<not> mem_free (slab_entries (slabs s ! k) ! i)" "slab_size k = z"
  using assms by (auto simp: live_blocks_def allocated_in_def blocks_def in_set_conv_nth)

lemma free_ptr_find_Some:
  assumes "distinct (map mem_addr (take n (slab_entries slab)))" "n \<le> length (slab_entries slab)" "i < n"
  shows "free_ptr_find slab (mem_addr (slab_entries slab ! i)) n = Some i"
  using assms
proof (induction n)
  case (Suc n)
  show ?case
  proof (cases "i = n")
    case False
    then have "i < n" using Suc.prems(3) by simp
    moreover have "distinct (map mem_addr (take n (slab_entries slab)))"
      using Suc.prems(1,2) by (simp add: take_Suc_conv_app_nth)
    moreover have "mem_addr (slab_entries slab ! n) \<noteq> mem_addr (slab_entries slab ! i)"
      using Suc.prems \<open>i < n\<close> by (auto simp: distinct_conv_nth)
    ultimately show ?thesis using Suc by simp
  qed simp
qed simp

lemma free_ptr_find_None:
  "(\<And>i. i < n \<Longrightarrow> mem_addr (slab_entries slab ! i) \<noteq> ptr) \<Longrightarrow> free_ptr_find slab ptr n = None"
  by (induction n) auto

lemma free_run:
  assumes "malloc_ok s" "k < SLAB_COUNT" "i < max_entries (slabs s ! k)" "mem_addr (slab_entries (slabs s ! k) ! i) = a"
  shows "free a s = Ok () (upd_slab k (give_entry i) s)"
proof -
  note ok = malloc_okD [OF assms(1)]
  note d = slab_okD [OF ok(4)]
  have here: "free_ptr_slab k a s = Ok True (upd_slab k (give_entry i) s)"
    using free_ptr_find_Some [of "max_entries (slabs s ! k)" "slabs s ! k" i] d(1,2,7) [OF assms(2)] assms(3,4)
    by (simp add: free_ptr_slab_def blocks_def kernel_defs give_entry_def [abs_def])
  have other: "free_ptr_slab l a s = Ok False s" if "l < SLAB_COUNT" "l \<noteq> k" for l
  proof -
    have "mem_addr (slab_entries (slabs s ! l) ! j) \<noteq> a" if "j < max_entries (slabs s ! l)" for j
      using entry_page [OF ok(4) [OF \<open>l < SLAB_COUNT\<close>] that] entry_page [OF ok(4) [OF assms(2)] assms(3)]
        ok(6) [OF \<open>l < SLAB_COUNT\<close> assms(2) \<open>l \<noteq> k\<close>] assms(4) by auto
    then show ?thesis
      using d(2) [OF that(1)] by (simp add: free_ptr_slab_def free_ptr_find_None kernel_defs)
  qed
  have "free_in [j..<SLAB_COUNT] a s = Ok () (upd_slab k (give_entry i) s)" if "j \<le> k" for j
    using that
  proof (induction "k - j" arbitrary: j)
    case 0
    then show ?case using assms(2) here by (simp add: upt_conv_Cons kbind_Ok kret_def)
  next
    case (Suc n)
    then have j: "j < k" "n = k - Suc j" "j < SLAB_COUNT" using assms(2) by simp_all
    then have "free_in [j..<SLAB_COUNT] a s = free_in [Suc j..<SLAB_COUNT] a s"
      using other [of j] by (subst upt_conv_Cons) (simp_all add: kbind_def)
    then show ?case using Suc.hyps(1) [of "Suc j"] j by simp
  qed
  from this [of 0] show ?thesis by (simp add: free_def)
qed

lemma give_entry_state:
  assumes "malloc_ok s" "k < SLAB_COUNT" "i < max_entries (slabs s ! k)" "\<not> mem_free (slab_entries (slabs s ! k) ! i)"
  defines "a \<equiv> mem_addr (slab_entries (slabs s ! k) ! i)"
  shows "malloc_ok (upd_slab k (give_entry i) s)"
    and "live_blocks (upd_slab k (give_entry i) s) = live_blocks s - {(a, slab_size k)}"
proof -
  note ok = malloc_okD(4) [OF assms(1,2)]
  show "malloc_ok (upd_slab k (give_entry i) s)"
    using assms ok malloc_okD(7) [OF assms(1,2)]
    by (intro malloc_ok_upd_slab) (simp_all add: slab_ok_give blocks_take_give slab_sized_take_give)
  have "a \<notin> (\<Union>l \<in> {..<SLAB_COUNT} - {k}. allocated_in (slabs s ! l))"
    using allocated_other [OF assms(1,2) _ _ assms(3)] by (auto simp: a_def)
  then show "live_blocks (upd_slab k (give_entry i) s) = live_blocks s - {(a, slab_size k)}"
    using allocated_take_give(2) [OF ok assms(3)] malloc_okD(3) [OF assms(1)] assms(2)
    by (auto simp: live_upd_slab live_split [of k s] a_def)
qed

lemma wp_free:
  assumes "malloc_ok s" "(a, z) \<in> live_blocks s"
  shows "wp (free a) (\<lambda>_ s'. malloc_ok s' \<and> live_blocks s' = live_blocks s - {(a, z)} \<and> keeps_pages s s') s"
proof -
  obtain k i where e: "k < SLAB_COUNT" "i < max_entries (slabs s ! k)" "mem_addr (slab_entries (slabs s ! k) ! i) = a"
    "\<not> mem_free (slab_entries (slabs s ! k) ! i)" "slab_size k = z"
    using assms(2) by (rule live_entry)
  show ?thesis
    using free_run [OF assms(1) e(1-3)] give_entry_state [OF assms(1) e(1,2,4)] e(3,5)
    by (simp add: wp_def keeps_pages_def)
qed

section \<open>Where the live blocks lie\<close>

lemma slab_cases:
  assumes "k < SLAB_COUNT"
  obtains "k = 0" | "k = 1" | "k = 2" | "k = 3" | "k = 4" | "k = 5" | "k = 6"
  using assms by linarith

lemma slab_size_dvd:
  assumes "k < SLAB_COUNT"
  shows "slab_size k dvd 4096"
  using assms by (rule slab_cases) (simp_all add: slab_size_def)

lemma slab_size_inj:
  assumes "k < SLAB_COUNT" "l < SLAB_COUNT" "slab_size k = slab_size l"
  shows "k = l"
  by (rule slab_cases [OF assms(1)]; rule slab_cases [OF assms(2)])
    (use assms(3) in \<open>simp_all add: slab_size_def\<close>)

lemma slab_for_block_size: "slab_for sz = Some k \<Longrightarrow> slab_size k = block_size sz"
  by (auto simp: slab_for_def block_size_def slab_size_def upt_rec split: if_splits)

lemma live_placed:
  assumes "malloc_ok s" "(a, z) \<in> live_blocks s"
  obtains k p m where "k < SLAB_COUNT" "p \<in> page_set (slabs s ! k)" "z = slab_size k"
    "p \<in> pmem_pages s" "p \<in> used_pages s" "0 < m" "m * z \<le> 4096" "unat a = unat p + m * z"
proof -
  note ok = malloc_okD [OF assms(1)]
  obtain k i where e: "k < SLAB_COUNT" "i < max_entries (slabs s ! k)" "mem_addr (slab_entries (slabs s ! k) ! i) = a"
    "slab_size k = z"
    using live_entry [OF assms(2)] by metis
  have "blocks (slabs s ! k) ! i \<in> set (blocks (slabs s ! k))"
    using e(2) slab_okD(9) [OF ok(4) [OF e(1)]] by (intro nth_mem) simp
  then have "a \<in> set (map mem_addr (blocks (slabs s ! k)))" using e(3) nth_blocks [OF e(2)] by force
  then obtain p m where p: "p \<in> page_set (slabs s ! k)" "0 < m" "m * z \<le> 4096" "a = p + of_nat (m * z)"
    using ok(7) [OF e(1)] e(4) unfolding slab_sized_def placed_def by blast
  moreover have "p \<in> used_pages s" using ok(5) [OF e(1)] p(1) by blast
  moreover from this have "p \<in> pmem_pages s" using pm.used_pages [OF ok(1)] by blast
  moreover from this have "unat a = unat p + m * z"
    using ok(2) [of p] p(3,4) by (simp add: unat_add_u32 unat_of_nat_u32 del: of_nat_mult)
  ultimately show thesis using that e(1,4) by blast
qed

lemma multiples_apart:
  fixes x y z :: nat
  assumes "z dvd x" "z dvd y" "x < y"
  shows "x + z \<le> y"
proof -
  obtain i j where "x = z * i" "y = z * j" using assms(1,2) by (auto elim!: dvdE)
  with assms(3) have "i < j" by simp
  then have "z * Suc i \<le> z * j" by (intro mult_le_mono2) simp
  then show ?thesis using \<open>x = z * i\<close> \<open>y = z * j\<close> by simp
qed

lemma live_aligned:
  assumes "malloc_ok s" "(a, z) \<in> live_blocks s"
  shows "z dvd unat a"
proof -
  obtain k p m where p: "k < SLAB_COUNT" "z = slab_size k" "p \<in> pmem_pages s" "unat a = unat p + m * z"
    using live_placed [OF assms] by metis
  have "z dvd 4096" using slab_size_dvd [OF p(1)] p(2) by simp
  also have "4096 dvd unat p" using pm.pages_aligned [OF malloc_okD(1) [OF assms(1)]] p(3) by blast
  finally show ?thesis using p(4) by simp
qed

text \<open>Two live blocks of one size do not overlap.\<close>

lemma live_disjoint:
  assumes "malloc_ok s" "(a, z) \<in> live_blocks s" "(b, z) \<in> live_blocks s" "a \<noteq> b"
  shows "{unat a..<unat a + z} \<inter> {unat b..<unat b + z} = {}"
  using multiples_apart [OF live_aligned [OF assms(1,2)] live_aligned [OF assms(1,3)]]
    multiples_apart [OF live_aligned [OF assms(1,3)] live_aligned [OF assms(1,2)]] assms(4)
  by (cases "unat a < unat b") (auto simp: not_less le_less word_unat_eq_iff)

text \<open>The bytes in front of the addresses of two live blocks, whatever their sizes, do not overlap.\<close>

lemma live_spans_disjoint:
  assumes "malloc_ok s" "(a, y) \<in> live_blocks s" "(b, z) \<in> live_blocks s" "a \<noteq> b"
  shows "{unat a - y..<unat a} \<inter> {unat b - z..<unat b} = {}"
proof -
  note ok = malloc_okD [OF assms(1)]
  obtain k p m where a: "k < SLAB_COUNT" "p \<in> page_set (slabs s ! k)" "y = slab_size k"
    "p \<in> pmem_pages s" "0 < m" "m * y \<le> 4096" "unat a = unat p + m * y"
    using live_placed [OF assms(1,2)] by metis
  obtain l q n where b: "l < SLAB_COUNT" "q \<in> page_set (slabs s ! l)" "z = slab_size l"
    "q \<in> pmem_pages s" "0 < n" "n * z \<le> 4096" "unat b = unat q + n * z"
    using live_placed [OF assms(1,3)] by metis
  have m: "y \<le> m * y" "z \<le> n * z" using a(5) b(5) by simp_all
  show ?thesis
  proof (cases "p = q")
    case True
    then have "k = l" using ok(6) [OF a(1) b(1)] a(2) b(2) by blast
    then have "(b, y) \<in> live_blocks s" "y = z" using a(3) b(3) assms(3) by simp_all
    with live_disjoint [OF assms(1,2), of b] assms(4) show ?thesis
      using m a(7) b(7) by (cases "unat a < unat b") (auto simp: not_less)
  next
    case False
    have "4096 dvd unat p" "4096 dvd unat q" using pm.pages_aligned [OF ok(1)] a(4) b(4) by blast+
    then have "unat p + 4096 \<le> unat q \<or> unat q + 4096 \<le> unat p"
      using False multiples_apart [of 4096 "unat p" "unat q"] multiples_apart [of 4096 "unat q" "unat p"]
      by (metis linorder_neqE_nat word_unat_eq_iff)
    moreover have "unat p \<le> unat a - y" "unat a \<le> unat p + 4096" "unat q \<le> unat b - z" "unat b \<le> unat q + 4096"
      using m a(6,7) b(6,7) by linarith+
    ultimately show ?thesis by auto
  qed
qed

section \<open>The heap interface\<close>

text \<open>
  What a client of the heap relies on: an allocated block is a new one, and releasing it takes it
  away again. The client pattern \<open>allocate, use, release\<close> leaves the set of blocks as it was.
\<close>

locale heap =
  fixes new :: "u32 \<Rightarrow> ('s, u32) kM"
    and dispose :: "u32 \<Rightarrow> ('s, unit) kM"
    and live :: "'s \<Rightarrow> (u32 \<times> nat) set"
    and inv :: "'s \<Rightarrow> bool"
    and room :: "u32 \<Rightarrow> 's \<Rightarrow> bool"
    and size_of :: "u32 \<Rightarrow> nat"
  assumes new_ok: "inv s \<Longrightarrow> room sz s \<Longrightarrow>
      wp (new sz) (\<lambda>a s'. inv s' \<and> a \<notin> fst ` live s \<and> live s' = insert (a, size_of sz) (live s)) s"
    and dispose_ok: "inv s \<Longrightarrow> (a, z) \<in> live s \<Longrightarrow> wp (dispose a) (\<lambda>_ s'. inv s' \<and> live s' = live s - {(a, z)}) s"
    and size_ok: "room sz s \<Longrightarrow> unat sz \<le> size_of sz"
    and live_apart: "inv s \<Longrightarrow> (a, z) \<in> live s \<Longrightarrow> (b, z) \<in> live s \<Longrightarrow> a \<noteq> b \<Longrightarrow>
      {unat a..<unat a + z} \<inter> {unat b..<unat b + z} = {}"
begin

lemma with_block:
  assumes "inv s" "room sz s"
    and "\<And>a s'. inv s' \<Longrightarrow> live s' = insert (a, size_of sz) (live s) \<Longrightarrow> a \<notin> fst ` live s \<Longrightarrow>
      wp (body a) (\<lambda>_ s''. inv s'' \<and> live s'' = live s') s'"
  shows "wp (kbind (new sz) (\<lambda>a. kseq (body a) (dispose a))) (\<lambda>_ s'. inv s' \<and> live s' = live s) s"
  unfolding wp_kbind wp_kseq
proof (rule wp_mono [OF new_ok [OF assms(1,2)]])
  fix a :: u32 and s'
  let ?b = "(a, size_of sz)"
  assume s': "inv s' \<and> a \<notin> fst ` live s \<and> live s' = insert ?b (live s)"
  then have "wp (body a) (\<lambda>_ s''. inv s'' \<and> live s'' = live s') s'" using assms(3) by blast
  then show "wp (body a) (\<lambda>_. wp (dispose a) (\<lambda>_ s'. inv s' \<and> live s' = live s)) s'"
  proof (rule wp_mono)
    fix u s''
    assume s'': "inv s'' \<and> live s'' = live s'"
    with s' have "wp (dispose a) (\<lambda>_ t. inv t \<and> live t = live s'' - {?b}) s''" by (intro dispose_ok) auto
    moreover have "?b \<notin> live s" using s' by force
    ultimately show "wp (dispose a) (\<lambda>_ s'. inv s' \<and> live s' = live s) s''"
      by (elim wp_mono) (use s' s'' in auto)
  qed
qed

text \<open>A new block has room for the request and touches no live block of its size.\<close>

lemma new_apart:
  assumes "inv s" "room sz s"
  shows "wp (new sz) (\<lambda>a s'. unat sz \<le> size_of sz \<and> (\<forall>b. (b, size_of sz) \<in> live s \<longrightarrow>
    {unat a..<unat a + size_of sz} \<inter> {unat b..<unat b + size_of sz} = {})) s"
proof (rule wp_mono [OF new_ok [OF assms]])
  fix a :: u32 and s'
  assume s': "inv s' \<and> a \<notin> fst ` live s \<and> live s' = insert (a, size_of sz) (live s)"
  show "unat sz \<le> size_of sz \<and> (\<forall>b. (b, size_of sz) \<in> live s \<longrightarrow>
      {unat a..<unat a + size_of sz} \<inter> {unat b..<unat b + size_of sz} = {})"
    using size_ok [OF assms(2)] live_apart [of s' a "size_of sz"] s' by force
qed

end

definition malloc_room :: "u32 \<Rightarrow> 'z malloc_state_scheme \<Rightarrow> bool" where
  "malloc_room sz s \<longleftrightarrow> unat sz \<le> 4096 \<and> (\<forall>k < SLAB_COUNT. slab_size k = block_size sz \<longrightarrow> slab_room k s)"

lemma malloc_room_slab:
  assumes "malloc_room sz s"
  obtains k where "slab_for sz = Some k" "k < SLAB_COUNT" "slab_room k s" "slab_size k = block_size sz"
    "unat sz \<le> block_size sz"
proof -
  have "unat sz \<le> 4096" using assms by (simp add: malloc_room_def)
  then obtain k where "slab_for sz = Some k" "k < SLAB_COUNT" "unat sz \<le> slab_size k" by (rule slab_for_Some)
  moreover from this have "slab_size k = block_size sz" using slab_for_block_size by blast
  ultimately show thesis using assms that by (auto simp: malloc_room_def)
qed

lemma wp_malloc_block:
  assumes "malloc_ok s" "malloc_room sz s"
  shows "wp (malloc sz) (\<lambda>a s'. malloc_ok s' \<and> a \<notin> fst ` live_blocks s
    \<and> live_blocks s' = insert (a, block_size sz) (live_blocks s) \<and> keeps_pages s s') s"
proof -
  obtain k where k: "slab_for sz = Some k" "k < SLAB_COUNT" "slab_room k s" "slab_size k = block_size sz"
    using assms(2) by (rule malloc_room_slab)
  show ?thesis by (rule wp_mono [OF wp_malloc [OF assms(1) k(1-3)]]) (simp add: k(4))
qed

interpretation kheap: heap malloc free live_blocks malloc_ok malloc_room block_size
proof unfold_locales
  fix s :: "'z malloc_state_scheme" and sz a b z
  show "malloc_ok s \<Longrightarrow> malloc_room sz s \<Longrightarrow> wp (malloc sz) (\<lambda>a s'. malloc_ok s' \<and> a \<notin> fst ` live_blocks s
      \<and> live_blocks s' = insert (a, block_size sz) (live_blocks s)) s"
    by (rule wp_mono [OF wp_malloc_block]) auto
  show "malloc_ok s \<Longrightarrow> (a, z) \<in> live_blocks s \<Longrightarrow>
      wp (free a) (\<lambda>_ s'. malloc_ok s' \<and> live_blocks s' = live_blocks s - {(a, z)}) s"
    by (rule wp_mono [OF wp_free]) auto
  show "malloc_room sz s \<Longrightarrow> unat sz \<le> block_size sz" by (erule malloc_room_slab)
qed (rule live_disjoint)


section \<open>Properties\<close>

text \<open>A heap in its initial state, over the small console.\<close>

definition empty_slab :: kmemslab where
  "empty_slab = \<lparr>slab_entries = replicate SLAB_ENTRY_COUNT \<lparr>mem_addr = 0, mem_free = False\<rparr>, free_entries = 0,
     current_entry = 0, max_entries = 0, slab_pages = replicate SLAB_MAX_PAGE_COUNT 0, current_page = 0\<rparr>"

definition small_heap :: malloc_state where
  "small_heap = stdio_state.extend small_console
     \<lparr>random_seed = 0, slabs = replicate SLAB_COUNT empty_slab\<rparr>"

lemma small_heap_pmem:
  "pmem_ok small_heap" "pmem_pages small_heap = pmem_pages small_console" "used_pages small_heap = used_pages small_console"
  using small_console_pages(3)
  by (simp_all add: small_heap_def stdio_state.extend_def small_console_def pmem_ok_def pmem_pages_def used_pages_def
      pmem_used_def entry_addr_def [abs_def] entry_used_def record_addr_def pmem_blocks_def)


lemma small_heap_slab: "k < SLAB_COUNT \<Longrightarrow> slabs small_heap ! k = empty_slab" "length (slabs small_heap) = SLAB_COUNT"
  by (simp_all add: small_heap_def stdio_state.extend_def small_console_def)

lemma small_pages_low:
  assumes "p \<in> pmem_pages small_console"
  shows "unat p + 8192 < 4294967296"
proof -
  obtain e where e: "e < pmem_blocks small_console" "p = entry_addr small_console e"
    using assms by (auto simp: pmem_pages_def)
  have "pmem_blocks small_console = 8" "unat (pmem_alloc_start small_console) = 0x201000"
    by (simp_all add: pmem_blocks_def small_console_def)
  then show ?thesis
    using unat_entry_addr [OF small_console_pages(3), of e] e by simp
qed

lemma small_heap_ok: "malloc_ok small_heap" "live_blocks small_heap = {}" "k < SLAB_COUNT \<Longrightarrow> slab_room k small_heap"
proof -
  have empty: "slab_ok empty_slab" "page_set empty_slab = {}" "allocated_in empty_slab = {}" "slab_sized z empty_slab" for z
    by (simp_all add: slab_ok_def blocks_def page_set_def allocated_in_def slab_sized_def empty_slab_def)
  show "malloc_ok small_heap"
    using empty small_heap_pmem small_pages_low by (simp add: malloc_ok_def small_heap_slab)
  show "live_blocks small_heap = {}" using empty by (simp add: live_blocks_def small_heap_slab)
  show "slab_room k small_heap" if "k < SLAB_COUNT"
    using that by (simp add: slab_room_def small_heap_slab small_heap_pmem small_console_pages(6))
      (simp add: empty_slab_def)
qed

lemma small_heap_room: "unat sz \<le> 4096 \<Longrightarrow> malloc_room sz small_heap"
  by (simp add: malloc_room_def small_heap_ok(3))

text \<open>Where a new block lies, in relation to its page and to the blocks that were live before.\<close>

lemma new_block_lies:
  assumes "malloc_ok t" "live_blocks t = insert (a, z) (live_blocks s)" "a \<notin> fst ` live_blocks s" "pmem_pages t = pmem_pages s"
  shows "\<exists>p \<in> pmem_pages s \<inter> used_pages t. unat p + z \<le> unat a \<and> unat a \<le> unat p + 4096"
    and "\<forall>(b, y) \<in> live_blocks s. {unat a - z..<unat a} \<inter> {unat b - y..<unat b} = {}
      \<and> (y = z \<longrightarrow> {unat a..<unat a + z} \<inter> {unat b..<unat b + z} = {})"
proof -
  have a: "(a, z) \<in> live_blocks t" using assms(2) by simp
  obtain p m where "p \<in> pmem_pages t" "p \<in> used_pages t" "0 < m" "m * z \<le> 4096" "unat a = unat p + m * z"
    using live_placed [OF assms(1) a] by metis
  then show "\<exists>p \<in> pmem_pages s \<inter> used_pages t. unat p + z \<le> unat a \<and> unat a \<le> unat p + 4096"
    using assms(4) by (intro bexI [of _ p]) (auto simp: Suc_le_eq)
  show "\<forall>(b, y) \<in> live_blocks s. {unat a - z..<unat a} \<inter> {unat b - y..<unat b} = {}
      \<and> (y = z \<longrightarrow> {unat a..<unat a + z} \<inter> {unat b..<unat b + z} = {})"
  proof (intro ballI, clarify, intro conjI impI)
    fix b y
    assume b: "(b, y) \<in> live_blocks s"
    then have b': "(b, y) \<in> live_blocks t" "a \<noteq> b" using assms(2,3) by force+
    show "{unat a - z..<unat a} \<inter> {unat b - y..<unat b} = {}"
      by (rule live_spans_disjoint [OF assms(1) a b'])
    show "{unat a..<unat a + z} \<inter> {unat b..<unat b + z} = {}" if "y = z"
      using live_disjoint [OF assms(1) a _ b'(2)] b'(1) that by simp
  qed
qed

text \<open>C9: \<open>malloc\<close> implements a heap of sized blocks. With room for the request it returns (the search
  loop ends, nothing panics) a block whose size is the least of 64, 128, ..., 4096 that is large enough,
  at an address that was not in use before; the live blocks grow by exactly this one, the
  allocator's invariant is kept, no page is released and no byte of a page changes. As many bytes as
  the block has, in front of the returned address, lie in one page that the heap has in use, and they
  are disjoint from those of every live block. The block itself, from the returned address on, is
  disjoint from every live block of the same size; it may reach past the end of its page, since the
  address is advanced before it is recorded.\<close>

theorem malloc_fresh_block:
  assumes "malloc_ok s" "malloc_room sz s"
  shows "wp (malloc sz) (\<lambda>a s'. malloc_ok s' \<and> keeps_pages s s' \<and> a \<notin> fst ` live_blocks s
    \<and> live_blocks s' = insert (a, block_size sz) (live_blocks s) \<and> unat sz \<le> block_size sz
    \<and> (\<exists>p \<in> pmem_pages s \<inter> used_pages s'. unat p + block_size sz \<le> unat a \<and> unat a \<le> unat p + 4096)
    \<and> (\<forall>(b, z) \<in> live_blocks s. {unat a - block_size sz..<unat a} \<inter> {unat b - z..<unat b} = {}
        \<and> (z = block_size sz \<longrightarrow> {unat a..<unat a + block_size sz} \<inter> {unat b..<unat b + block_size sz} = {}))) s"
proof (rule wp_mono [OF wp_malloc_block [OF assms]])
  fix a s'
  assume s': "malloc_ok s' \<and> a \<notin> fst ` live_blocks s
    \<and> live_blocks s' = insert (a, block_size sz) (live_blocks s) \<and> keeps_pages s s'"
  then have "pmem_pages s' = pmem_pages s" by (simp add: keeps_pages_def)
  with s' new_block_lies [of s' a "block_size sz" s] kheap.size_ok [OF assms(2)]
  show "malloc_ok s' \<and> keeps_pages s s' \<and> a \<notin> fst ` live_blocks s
    \<and> live_blocks s' = insert (a, block_size sz) (live_blocks s) \<and> unat sz \<le> block_size sz
    \<and> (\<exists>p \<in> pmem_pages s \<inter> used_pages s'. unat p + block_size sz \<le> unat a \<and> unat a \<le> unat p + 4096)
    \<and> (\<forall>(b, z) \<in> live_blocks s. {unat a - block_size sz..<unat a} \<inter> {unat b - z..<unat b} = {}
        \<and> (z = block_size sz \<longrightarrow> {unat a..<unat a + block_size sz} \<inter> {unat b..<unat b + block_size sz} = {}))"
    by blast
qed

text \<open>A heap in which a block has been handed out from the 128-byte slab still has room there.\<close>

lemma small_heap_128:
  "wp (malloc 100) (\<lambda>a s'. malloc_ok s' \<and> live_blocks s' = {(a, 128)} \<and> malloc_room 100 s') small_heap"
proof -
  have k: "slab_for 100 = Some 5" "slab_size 5 = 128" by (simp_all add: slab_for_def slab_size_def upt_rec)
  have size: "block_size 100 = 128" by (simp add: block_size_def)
  have only: "l = 5" if "slab_size l = 128" "l < 7" for l
    using slab_size_inj [of l 5] that k(2) by simp
  have count: "grow_count 128 (slabs small_heap ! 5) = 32" "free_entries (slabs small_heap ! 5) = 0"
    by (simp_all add: small_heap_slab grow_count_def empty_slab_def)
  show ?thesis
    using wp_malloc [OF small_heap_ok(1) k(1) _ small_heap_ok(3)]
    by (rule wp_mono) (use only in \<open>auto simp: k(2) count size malloc_room_def slab_room_def small_heap_ok(2)\<close>)
qed

theorem malloc_fresh_block_witness:
  "wp (kbind (malloc 100) (\<lambda>b. kbind (malloc 100) (\<lambda>a. kret (b, a))))
    (\<lambda>(b, a) s'. live_blocks s' = {(b, 128), (a, 128)} \<and> {unat a..<unat a + 128} \<inter> {unat b..<unat b + 128} = {}) small_heap"
  unfolding wp_kbind
proof (rule wp_mono [OF small_heap_128])
  fix b t
  assume t: "malloc_ok t \<and> live_blocks t = {(b, 128)} \<and> malloc_room 100 t"
  have "block_size 100 = 128" by (simp add: block_size_def)
  with t show "wp (malloc 100) (\<lambda>a. wp (kret (b, a)) (\<lambda>(b, a) s'. live_blocks s' = {(b, 128), (a, 128)}
      \<and> {unat a..<unat a + 128} \<inter> {unat b..<unat b + 128} = {})) t"
    by (intro wp_mono [OF malloc_fresh_block]) (auto simp: insert_commute)
qed

text \<open>C21: a freed block is the next one handed out. Whatever was allocated or released in between, the
  release of a live block returns and takes exactly this block away, and the next request that
  needs a block of its size gets the very same block back.\<close>

theorem malloc_free_reuse:
  assumes "malloc_ok s" "(a, block_size sz) \<in> live_blocks s" "unat sz \<le> 4096"
  shows "wp (free a) (\<lambda>_ t. malloc_ok t \<and> live_blocks t = live_blocks s - {(a, block_size sz)}
    \<and> wp (malloc sz) (\<lambda>b s'. b = a \<and> malloc_ok s' \<and> live_blocks s' = live_blocks s) t) s"
proof -
  obtain k i where e: "k < SLAB_COUNT" "i < max_entries (slabs s ! k)" "mem_addr (slab_entries (slabs s ! k) ! i) = a"
    "\<not> mem_free (slab_entries (slabs s ! k) ! i)" "slab_size k = block_size sz"
    using assms(2) by (rule live_entry)
  obtain l where l: "slab_for sz = Some l" "l < SLAB_COUNT" using assms(3) by (rule slab_for_Some)
  have "l = k"
    using slab_size_inj [OF l(2) e(1)] slab_for_block_size [OF l(1)] e(5) by simp
  then have k: "slab_for sz = Some k" using l(1) by simp
  let ?t = "upd_slab k (give_entry i) s"
  note t = give_entry_state [OF assms(1) e(1,2,4)]
  have slab: "slabs ?t ! k = give_entry i (slabs s ! k)"
    using malloc_okD(3) [OF assms(1)] e(1) by (simp add: nth_upd_slab)
  have i: "i < SLAB_ENTRY_COUNT" "i < length (slab_entries (slabs s ! k))"
    using e(2) slab_okD(1,2) [OF malloc_okD(4) [OF assms(1) e(1)]] by simp_all
  then have entry: "mem_free (slab_entries (slabs ?t ! k) ! i)" "mem_addr (slab_entries (slabs ?t ! k) ! i) = a"
    "i < max_entries (slabs ?t ! k)" "0 < free_entries (slabs ?t ! k)" "current_entry (slabs ?t ! k) = i"
    using e(2,3) by (simp_all add: slab give_entry_def)
  have "malloc sz ?t = Ok a (upd_slab k (take_entry i) ?t)"
    using entry i(1) k by (cases "max_entries (slabs ?t ! k)")
      (simp_all add: malloc_def alloc_new_page_if_needed_def kernel_defs take_entry_def [abs_def])
  moreover have "free a s = Ok () ?t" using free_run [OF assms(1) e(1-3)] .
  moreover note take_entry_state [OF t(1) e(1) entry(3,1)]
  ultimately show ?thesis
    using t entry(2) e(3,5) assms(2) by (auto simp: wp_def)
qed

theorem malloc_free_reuse_witness:
  "wp (kbind (malloc 100) (\<lambda>a. kbind (malloc 100) (\<lambda>c. kseq (free a) (kbind (malloc 120) (\<lambda>b. kret (a, b, c))))))
    (\<lambda>(a, b, c) s'. b = a \<and> c \<noteq> a \<and> live_blocks s' = {(a, 128), (c, 128)}) small_heap"
  unfolding wp_kbind wp_kseq
proof (rule wp_mono [OF small_heap_128])
  fix a s
  assume s: "malloc_ok s \<and> live_blocks s = {(a, 128)} \<and> malloc_room 100 s"
  have size: "block_size 100 = 128" "block_size 120 = 128" by (simp_all add: block_size_def)
  show "wp (malloc 100) (\<lambda>c. wp (free a) (\<lambda>_. wp (malloc 120) (\<lambda>b. wp (kret (a, b, c))
      (\<lambda>(a, b, c) s'. b = a \<and> c \<noteq> a \<and> live_blocks s' = {(a, 128), (c, 128)})))) s"
  proof (rule wp_mono [OF wp_malloc_block])
    fix c t
    assume "malloc_ok t \<and> c \<notin> fst ` live_blocks s \<and> live_blocks t = insert (c, block_size 100) (live_blocks s) \<and> keeps_pages s t"
    with s have t: "malloc_ok t" "c \<noteq> a" "live_blocks t = {(a, 128), (c, 128)}" by (auto simp: size)
    then have "wp (free a) (\<lambda>_ u. malloc_ok u \<and> live_blocks u = live_blocks t - {(a, block_size 120)}
        \<and> wp (malloc 120) (\<lambda>b s'. b = a \<and> malloc_ok s' \<and> live_blocks s' = live_blocks t) u) t"
      by (intro malloc_free_reuse) (simp_all add: size)
    then show "wp (free a) (\<lambda>_. wp (malloc 120) (\<lambda>b. wp (kret (a, b, c))
        (\<lambda>(a, b, c) s'. b = a \<and> c \<noteq> a \<and> live_blocks s' = {(a, 128), (c, 128)}))) t"
      by (rule wp_mono) (elim conjE, erule wp_mono, use t in simp)
  qed (use s in simp_all)
qed


lemma slab_for_page:
  assumes "2048 < unat sz" "unat sz \<le> 4096"
  shows "slab_for sz = Some 0"
proof -
  obtain k where k: "slab_for sz = Some k" "unat sz \<le> slab_size k" using slab_for_Some [OF assms(2)] .
  have "k = 0"
  proof (rule ccontr)
    assume "k \<noteq> 0"
    then have "(2 :: nat) ^ 1 \<le> 2 ^ k" by (intro power_increasing) simp_all
    then have "slab_size k \<le> 4096 div 2" unfolding slab_size_def by (intro div_le_mono2) simp_all
    then show False using k(2) assms(1) by simp
  qed
  with k show ?thesis by simp
qed

text \<open>C40: the address of a block is advanced before it is recorded, so a block does not start where
  its space does. For a request of more than 2048 bytes on a fresh slab, \<open>malloc\<close> takes a page and
  returns the address just after it: the whole block lies outside the page that was allocated for it.\<close>

theorem malloc_block_outside_page:
  assumes "malloc_ok s" "2048 < unat sz" "unat sz \<le> 4096"
    and "max_entries (slabs s ! 0) = 0" "current_page (slabs s ! 0) < SLAB_MAX_PAGE_COUNT"
    and "2 \<le> card (pmem_pages s - used_pages s)"
  shows "wp (malloc sz) (\<lambda>a s'. \<exists>p \<in> pmem_pages s - used_pages s.
    used_pages s' = insert p (used_pages s) \<and> unat a = unat p + 4096) s"
proof -
  let ?slab = "slabs s ! 0"
  note ok = malloc_okD [OF assms(1)]
  have slab: "slab_ok ?slab" using ok(4) by simp
  have empty: "free_entries ?slab = 0" "current_entry ?slab = 0"
    using slab_okD(5,6,9) [OF slab] assms(4) by auto
  obtain p t where alloc: "pmem_alloc s = Ok p t" and p: "p \<in> pmem_pages s - used_pages s"
    and t: "used_pages t = insert p (used_pages s)" "pmem_same s t"
    by (rule wpE [OF pm.alloc_ok [OF ok(1) assms(6)]]) auto
  have align: "4096 dvd unat p" using p pm.pages_aligned [OF ok(1)] by blast
  have slabs: "slabs t = slabs s" by (rule pmem_same_slabs [OF t(2)])
  let ?g = "grow_slab p 4096 ?slab"
  have size: "slab_size 0 = 4096" by (simp add: slab_size_def)
  have run: "alloc_new_page_if_needed 0 4096 s = Ok () (upd_slab 0 (\<lambda>_. ?g) t)"
    using alloc_new_page_run [OF assms(1) _ empty(1) _ assms(5) alloc slabs _ align] p assms(4) size by simp
  have "length (slab_entries ?slab) = 1000" using slab_okD(1) [OF slab] .
  then have g: "slab_entries ?g ! 0 = \<lparr>mem_addr = p + 4096, mem_free = True\<rparr>" "max_entries ?g = 1"
      "current_entry ?g = 0" "free_entries ?g = 1"
    using assms(4) empty
    by (simp_all add: grow_slab_def grow_count_def Let_def)
  let ?u = "upd_slab 0 (\<lambda>_. ?g) t"
  have nth: "slabs ?u ! 0 = ?g" using ok(3) slabs by (simp add: nth_upd_slab)
  have "malloc sz s = Ok (p + 4096) (upd_slab 0 (take_entry 0) ?u)"
    using run nth g slab_for_page [OF assms(2,3)]
    by (simp add: malloc_def size kernel_defs take_entry_def [abs_def])
  moreover have "unat (p + 4096) = unat p + 4096"
    using ok(2) [of p] p by (simp add: unat_add_u32)
  ultimately show ?thesis
    using p t by (auto simp: wp_def)
qed

theorem malloc_block_outside_page_witness:
  "wp (malloc 4096) (\<lambda>a s'. \<exists>p \<in> pmem_pages small_heap - used_pages small_heap.
    used_pages s' = insert p (used_pages small_heap) \<and> unat a = unat p + 4096) small_heap"
  by (rule malloc_block_outside_page [OF small_heap_ok(1)])
    (simp_all add: small_heap_slab small_heap_pmem small_console_pages(6), simp_all add: empty_slab_def)

text \<open>\<open>free\<close> does not notice that a block is already free: a second release of the same block
  returns without a panic and counts the block twice, which breaks the allocator's invariant.\<close>

theorem double_free_breaks_slab:
  assumes "malloc_ok s" "(a, z) \<in> live_blocks s"
  shows "wp (kseq (free a) (free a)) (\<lambda>_ s'. \<exists>k < SLAB_COUNT.
    free_entries (slabs s' ! k) = Suc (length (filter mem_free (blocks (slabs s' ! k)))) \<and> \<not> malloc_ok s') s"
proof -
  obtain k i where e: "k < SLAB_COUNT" "i < max_entries (slabs s ! k)" "mem_addr (slab_entries (slabs s ! k) ! i) = a"
    "\<not> mem_free (slab_entries (slabs s ! k) ! i)"
    using assms(2) by (rule live_entry)
  let ?t = "upd_slab k (give_entry i) s"
  let ?u = "upd_slab k (give_entry i) ?t"
  note t = give_entry_state(1) [OF assms(1) e(1,2,4)]
  have slab: "slabs ?t ! k = give_entry i (slabs s ! k)" "slabs ?u ! k = give_entry i (give_entry i (slabs s ! k))"
    using malloc_okD(3) [OF assms(1)] e(1) by (simp_all add: nth_upd_slab)
  have i: "i < length (slab_entries (slabs s ! k))"
    using e(2) slab_okD(1,2) [OF malloc_okD(4) [OF assms(1) e(1)]] by simp
  then have twice: "blocks (slabs ?u ! k) = blocks (slabs ?t ! k)"
    "free_entries (slabs ?u ! k) = Suc (free_entries (slabs ?t ! k))"
    by (simp_all add: slab, simp_all add: give_entry_def blocks_def)
  have run: "free a s = Ok () ?t" using free_run [OF assms(1) e(1-3)] .
  have "free a ?t = Ok () ?u"
    using free_run [OF t e(1), of i a] e(2,3) i by (simp add: slab give_entry_def)
  moreover have count: "free_entries (slabs ?u ! k) = Suc (length (filter mem_free (blocks (slabs ?u ! k))))"
    using slab_okD(5) [OF malloc_okD(4) [OF t e(1)]] twice by simp
  moreover have "\<not> malloc_ok ?u"
    using slab_okD(5) [OF malloc_okD(4) [of ?u k]] count e(1) by auto
  ultimately show ?thesis
    using e(1) run by (auto simp: wp_def kernel_defs)
qed

theorem double_free_breaks_slab_witness:
  "wp (kbind (malloc 100) (\<lambda>a. kseq (free a) (free a))) (\<lambda>_ s'. \<exists>k < SLAB_COUNT.
    free_entries (slabs s' ! k) = Suc (length (filter mem_free (blocks (slabs s' ! k)))) \<and> \<not> malloc_ok s') small_heap"
  unfolding wp_kbind
  by (rule wp_mono [OF kheap.new_ok [OF small_heap_ok(1) small_heap_room]])
    (simp, intro double_free_breaks_slab, auto)

end
