(* ===== verification/Block_Spec.thy ===== *)
theory Block_Spec
  imports Machine
begin

text \<open>
  The interface between a byte-addressed disk and the file system above it: a read returns a slice
  of the disk's contents, a write overwrites a slice, and nothing else the file system sees changes.
\<close>

section \<open>Slices\<close>

definition slice :: "nat \<Rightarrow> nat \<Rightarrow> 'a list \<Rightarrow> 'a list" where
  "slice a n xs = take n (drop a xs)"

definition overwrite :: "nat \<Rightarrow> 'a list \<Rightarrow> 'a list \<Rightarrow> 'a list" where
  "overwrite a d xs = take a xs @ d @ drop (a + length d) xs"

lemma length_slice: "a + n \<le> length xs \<Longrightarrow> length (slice a n xs) = n"
  by (simp add: slice_def)

lemma nth_slice: "a + n \<le> length xs \<Longrightarrow> i < n \<Longrightarrow> slice a n xs ! i = xs ! (a + i)"
  by (simp add: slice_def)

lemma length_overwrite [simp]: "a + length d \<le> length xs \<Longrightarrow> length (overwrite a d xs) = length xs"
  by (simp add: overwrite_def)

lemma nth_overwrite:
  assumes "a + length d \<le> length xs"
  shows "overwrite a d xs ! i = (if a \<le> i \<and> i < a + length d then d ! (i - a) else xs ! i)"
  using assms by (auto simp: overwrite_def nth_append)

lemma slice_overwrite_same:
  assumes "a + length d \<le> length xs"
  shows "slice a (length d) (overwrite a d xs) = d"
  using assms by (simp add: slice_def overwrite_def)

lemma slice_overwrite_prefix:
  assumes "a + length d \<le> length xs" "n \<le> length d"
  shows "slice a n (overwrite a d xs) = take n d"
  using assms by (simp add: slice_def overwrite_def)

lemma slice_overwrite_disjoint:
  assumes "a + length d \<le> length xs" "b + n \<le> length xs" "b + n \<le> a \<or> a + length d \<le> b"
  shows "slice b n (overwrite a d xs) = slice b n xs"
proof (rule nth_equalityI)
  show "length (slice b n (overwrite a d xs)) = length (slice b n xs)"
    using assms by (simp add: length_slice)
  fix i
  assume "i < length (slice b n (overwrite a d xs))"
  then have "i < n" using assms by (simp add: length_slice)
  then show "slice b n (overwrite a d xs) ! i = slice b n xs ! i"
    using assms by (auto simp: nth_slice nth_overwrite)
qed

section \<open>The interface\<close>

locale block_device =
  fixes get :: "u32 \<Rightarrow> 'b \<Rightarrow> u32 \<Rightarrow> ('s, u32 \<times> 'b) kM"
    and put :: "u32 \<Rightarrow> 'b \<Rightarrow> u32 \<Rightarrow> ('s, u32) kM"
    and arr :: "bytes \<Rightarrow> 'b"
    and contents :: "'s \<Rightarrow> bytes"
    and inv :: "'s \<Rightarrow> bool"
    and same :: "'s \<Rightarrow> 's \<Rightarrow> bool"
  assumes read_ok: "inv s \<Longrightarrow> unat a + unat n \<le> length (contents s) \<Longrightarrow> unat n \<le> length d \<Longrightarrow>
      get a (arr d) n s = Ok (0, arr (slice (unat a) (unat n) (contents s) @ drop (unat n) d)) s"
    and write_ok: "inv s \<Longrightarrow> unat a + unat n \<le> length (contents s) \<Longrightarrow> unat n \<le> length d \<Longrightarrow>
      wp (put a (arr d) n) (\<lambda>r s'. r = 0 \<and> inv s' \<and> same s s'
        \<and> contents s' = overwrite (unat a) (take (unat n) d) (contents s)) s"
    and same_refl: "same s s"
    and same_trans: "same s t \<Longrightarrow> same t u \<Longrightarrow> same s u"
begin

text \<open>A read after a write sees what was written; a write elsewhere does not disturb it.\<close>

lemma write_then_read:
  assumes "inv s" "unat a + unat n \<le> length (contents s)" "unat n \<le> length d" "unat n \<le> length e"
  shows "wp (kbind (put a (arr d) n) (\<lambda>_. get a (arr e) n)) (\<lambda>(r, e') s'. r = 0 \<and> inv s' \<and> same s s'
    \<and> e' = arr (take (unat n) d @ drop (unat n) e)) s"
  unfolding wp_kbind
proof (rule wp_mono [OF write_ok [OF assms(1-3)]])
  fix r s'
  assume w: "r = 0 \<and> inv s' \<and> same s s' \<and> contents s' = overwrite (unat a) (take (unat n) d) (contents s)"
  have len: "length (take (unat n) d) = unat n" using assms(3) by simp
  have "unat a + unat n \<le> length (contents s')" using w assms(2) len by simp
  then have "get a (arr e) n s' = Ok (0, arr (slice (unat a) (unat n) (contents s') @ drop (unat n) e)) s'"
    using w assms(4) by (intro read_ok) simp_all
  moreover have "slice (unat a) (unat n) (contents s') = take (unat n) d"
    using w slice_overwrite_same [of "unat a" "take (unat n) d" "contents s"] assms(2) len by simp
  ultimately show "wp (get a (arr e) n) (\<lambda>(r, e') s'. r = 0 \<and> inv s' \<and> same s s' \<and> e' = arr (take (unat n) d @ drop (unat n) e)) s'"
    using w len by (simp add: wp_def)
qed

text \<open>A loop of writes of equal blocks to consecutive places.\<close>

lemma write_blocks:
  assumes "inv s" "\<And>i. i < k \<Longrightarrow> unat (addr i) + unat n \<le> length (contents s)" "unat n \<le> length d"
  shows "wp (kfor [0..<k] (\<lambda>i. kbind (put (addr i) (arr d) n) (\<lambda>_. kret ()))) (\<lambda>_ s'. inv s' \<and> same s s'
    \<and> contents s' = fold (\<lambda>i c. overwrite (unat (addr i)) (take (unat n) d) c) [0..<k] (contents s)) s"
proof -
  define f where "f i c = overwrite (unat (addr i)) (take (unat n) d) c" for i c
  define I where "I i s' \<longleftrightarrow> inv s' \<and> same s s' \<and> contents s' = fold f [0..<i] (contents s)
      \<and> length (contents s') = length (contents s)" for i s'
  have "wp (kfor [0..<k] (\<lambda>i. kbind (put (addr i) (arr d) n) (\<lambda>_. kret ()))) (\<lambda>_. I k) s"
  proof (rule wp_kfor_upt)
    show "I 0 s" using assms(1) by (simp add: I_def same_refl)
  next
    fix i t
    assume i: "i < k" and "I i t"
    then have I: "inv t" "same s t" "length (contents t) = length (contents s)"
      and c: "contents t = fold f [0..<i] (contents s)" unfolding I_def by blast+
    have "wp (put (addr i) (arr d) n) (\<lambda>r s'. r = 0 \<and> inv s' \<and> same t s'
        \<and> contents s' = overwrite (unat (addr i)) (take (unat n) d) (contents t)) t"
      using I assms(2) [OF i] assms(3) by (intro write_ok) simp_all
    then have "wp (put (addr i) (arr d) n) (\<lambda>_. I (Suc i)) t"
    proof (rule wp_mono)
      fix r s'
      assume w: "r = 0 \<and> inv s' \<and> same t s'
        \<and> contents s' = overwrite (unat (addr i)) (take (unat n) d) (contents t)"
      then have "length (contents s') = length (contents s)"
        using I(3) assms(2) [OF i] assms(3) by simp
      moreover have "contents s' = fold f [0..<Suc i] (contents s)" using w c by (simp add: f_def)
      ultimately show "I (Suc i) s'"
        using w same_trans [OF I(2)] by (simp add: I_def)
    qed
    then show "wp (kbind (put (addr i) (arr d) n) (\<lambda>_. kret ())) (\<lambda>_. I (Suc i)) t" by simp
  qed simp
  then show ?thesis by (rule wp_mono) (simp add: I_def f_def [abs_def])
qed

end

end
