(* ===== verification/Ramdisk.thy ===== *)
theory Ramdisk
  imports Malloc Block_Spec
begin

text \<open>
  The ramdisk (\<open>drivers/ramdisk/ramdisk.c\<close>): a disk of up to 1024 pages spread over physical
  memory, found through a table of page addresses that is kept in a page of its own.
\<close>

section \<open>Definitions\<close>

abbreviation (input) "RAMDISK_ERROR_OUT_OF_BOUNDS \<equiv> (1 :: u32)"
abbreviation (input) "RAMDISK_ERROR_OVERFLOW \<equiv> (2 :: u32)"
abbreviation (input) "UINT32_MAX \<equiv> (0xFFFFFFFF :: u32)"

record ramdisk_state = malloc_state +
  ramdisk_block_size :: u32
  ramdisk_block_pointers :: u32

definition ramdisk_init :: "u32 \<Rightarrow> ('z ramdisk_state_scheme, unit) kM" where
  "ramdisk_init size_in_bytes =
     kbind (kget ramdisk_block_size) (\<lambda>block_size.
     kbind (kget ramdisk_block_pointers) (\<lambda>block_pointers.
     if size_in_bytes = 0 then panic ''init_disk_ramdisk: size_in_bytes cannot be zero!''
     else if size_in_bytes mod PHYS_BLOCK_SIZE \<noteq> 0
     then panic ''init_disk_ramdisk: size_in_bytes needs to divide block size!''
     else if block_size > 0 then panic ''init_disk_ramdisk: ramdisk already initialized!''
     else if block_pointers > 0 then panic ''init_disk_ramdisk: ramdisk_block_pointers already set!''
     else
       kseq (kmod (\<lambda>s. s\<lparr>ramdisk_block_size := size_in_bytes div PHYS_BLOCK_SIZE\<rparr>))
      (if size_in_bytes div PHYS_BLOCK_SIZE > PHYS_BLOCK_SIZE div 4
       then panic ''Cannot create that big of a ramdisk!''
       else
         kbind pmem_alloc (\<lambda>p.
         kseq (kmod (\<lambda>s. s\<lparr>ramdisk_block_pointers := p\<rparr>))
              (kfor [0..<unat (size_in_bytes div PHYS_BLOCK_SIZE)] (\<lambda>i.
                kbind pmem_alloc (\<lambda>q. kmod (\<lambda>s. s\<lparr>mem := store32 (mem s) (slot p i) q\<rparr>))))))))"

definition ramdisk_destroy :: "('z ramdisk_state_scheme, unit) kM" where
  "ramdisk_destroy =
     kbind (kget ramdisk_block_size) (\<lambda>block_size.
     kbind (kget ramdisk_block_pointers) (\<lambda>block_pointers.
     if block_size = 0 then panic ''init_disk_ramdisk: ramDisk is not initialized!''
     else if block_pointers = 0 then panic ''init_disk_ramdisk: ramdisk_block_pointers is already unset!''
     else
       kseq (kfor [0..<unat block_size] (\<lambda>i.
         kbind (kget (\<lambda>s. load32 (mem s) (slot block_pointers i))) (\<lambda>p.
         kbind (pmem_free p) (\<lambda>_. kret ()))))
      (kbind (pmem_free block_pointers) (\<lambda>_.
       kmod (\<lambda>s. s\<lparr>ramdisk_block_size := 0, ramdisk_block_pointers := 0\<rparr>)))))"

text \<open>
  The caller's buffer is a local or static C array, or lies in memory at some address. A read
  changes it byte by byte; an access outside an array has no meaning.
\<close>

datatype buffer = Local bytes | Mem u32

fun buffer_fits :: "buffer \<Rightarrow> nat \<Rightarrow> bool" where
  "buffer_fits (Local d) n \<longleftrightarrow> n \<le> length d"
| "buffer_fits (Mem a) n \<longleftrightarrow> True"

fun buffer_get :: "buffer \<Rightarrow> nat \<Rightarrow> ('z machine_scheme, u8) kM" where
  "buffer_get (Local d) i = kret (d ! i)"
| "buffer_get (Mem a) i = kget (\<lambda>s. mem s (a + of_nat i))"

fun buffer_put :: "buffer \<Rightarrow> nat \<Rightarrow> u8 \<Rightarrow> ('z machine_scheme, buffer) kM" where
  "buffer_put (Local d) i v = kret (Local (d[i := v]))"
| "buffer_put (Mem a) i v = kseq (kmod (\<lambda>s. s\<lparr>mem := (mem s)(a + of_nat i := v)\<rparr>)) (kret (Mem a))"

text \<open>One iteration of the copy loop, then the loop over the given indices.\<close>

definition ramdisk_io_byte :: "u32 \<Rightarrow> u32 \<Rightarrow> nat \<Rightarrow> buffer \<Rightarrow> ('z ramdisk_state_scheme, buffer) kM" where
  "ramdisk_io_byte io_type start_addr i data =
     (let current_addr = start_addr + of_nat i;
          offset = current_addr mod PHYS_BLOCK_SIZE;
          block_number = current_addr div PHYS_BLOCK_SIZE
      in kbind (kget (\<lambda>s. load32 (mem s) (slot (ramdisk_block_pointers s) (unat block_number)))) (\<lambda>page.
         if io_type = 0
         then kbind (kget (\<lambda>s. mem s (page + offset))) (\<lambda>v. buffer_put data i v)
         else kbind (buffer_get data i) (\<lambda>v.
              kseq (kmod (\<lambda>s. s\<lparr>mem := (mem s)(page + offset := v)\<rparr>)) (kret data))))"

primrec ramdisk_io_loop :: "u32 \<Rightarrow> u32 \<Rightarrow> nat list \<Rightarrow> buffer \<Rightarrow> ('z ramdisk_state_scheme, buffer) kM" where
  "ramdisk_io_loop io_type start_addr [] data = kret data"
| "ramdisk_io_loop io_type start_addr (i # is) data =
     kbind (ramdisk_io_byte io_type start_addr i data) (\<lambda>data. ramdisk_io_loop io_type start_addr is data)"

definition ramdisk_internal_io ::
  "u32 \<Rightarrow> u32 \<Rightarrow> buffer \<Rightarrow> u32 \<Rightarrow> ('z ramdisk_state_scheme, u32 \<times> buffer) kM" where
  "ramdisk_internal_io io_type start_addr data data_size =
     kbind (kget ramdisk_block_size) (\<lambda>block_size.
     if block_size = 0 then panic ''init_disk_ramdisk: ramDisk is not initialized!''
     else if start_addr + data_size > block_size * PHYS_BLOCK_SIZE
     then kret (RAMDISK_ERROR_OUT_OF_BOUNDS, data)
     else if start_addr > UINT32_MAX - data_size then kret (RAMDISK_ERROR_OVERFLOW, data)
     else
       kseq (kguard (buffer_fits data (unat data_size)))
      (kbind (ramdisk_io_loop io_type start_addr [0..<unat data_size] data) (\<lambda>data.
       kret (0, data))))"

definition ramdisk_write :: "u32 \<Rightarrow> buffer \<Rightarrow> u32 \<Rightarrow> ('z ramdisk_state_scheme, u32) kM" where
  "ramdisk_write start_addr data data_size =
     kbind (ramdisk_internal_io 1 start_addr data data_size) (\<lambda>(r, _). kret r)"

definition ramdisk_read :: "u32 \<Rightarrow> buffer \<Rightarrow> u32 \<Rightarrow> ('z ramdisk_state_scheme, u32 \<times> buffer) kM" where
  "ramdisk_read start_addr data data_size = ramdisk_internal_io 0 start_addr data data_size"


section \<open>The disk as one byte array\<close>

definition disk_blocks :: "'z ramdisk_state_scheme \<Rightarrow> nat" where
  "disk_blocks s = unat (ramdisk_block_size s)"

definition disk_table :: "'z ramdisk_state_scheme \<Rightarrow> u32 list" where
  "disk_table s = table (mem s) (ramdisk_block_pointers s) (disk_blocks s)"

text \<open>The pages the disk owns: the table's page and the data pages, all different and in use.\<close>

definition disk_pages :: "'z ramdisk_state_scheme \<Rightarrow> u32 set" where
  "disk_pages s = insert (ramdisk_block_pointers s) (set (disk_table s))"

definition ramdisk_ok :: "'z ramdisk_state_scheme \<Rightarrow> bool" where
  "ramdisk_ok s \<longleftrightarrow> pmem_ok s \<and> 0 < disk_blocks s \<and> disk_blocks s \<le> 1024
     \<and> disk_pages s \<subseteq> used_pages s \<and> distinct (ramdisk_block_pointers s # disk_table s)"

definition disk_addr :: "'z ramdisk_state_scheme \<Rightarrow> nat \<Rightarrow> u32" where
  "disk_addr s k = disk_table s ! (k div 4096) + of_nat (k mod 4096)"

definition disk :: "'z ramdisk_state_scheme \<Rightarrow> bytes" where
  "disk s = map (\<lambda>k. mem s (disk_addr s k)) [0..<4096 * disk_blocks s]"

lemma length_disk [simp]: "length (disk s) = 4096 * disk_blocks s"
  by (simp add: disk_def)

lemma length_disk_table [simp]: "length (disk_table s) = disk_blocks s"
  by (simp add: disk_table_def)

lemma ramdisk_okD:
  assumes "ramdisk_ok s"
  shows "pmem_ok s" "0 < disk_blocks s" "disk_blocks s \<le> 1024" "ramdisk_block_pointers s \<in> used_pages s"
    "set (disk_table s) \<subseteq> used_pages s" "ramdisk_block_pointers s \<notin> set (disk_table s)" "distinct (disk_table s)"
    "4096 dvd unat (ramdisk_block_pointers s)"
  using assms pm.pages_aligned [of s] pm.used_pages [of s] by (auto simp: ramdisk_ok_def disk_pages_def)

lemma disk_block:
  assumes "k < 4096 * disk_blocks s"
  shows "k div 4096 < disk_blocks s"
  using assms by (simp add: less_mult_imp_div_less mult.commute)

lemma disk_addr_page:
  assumes "ramdisk_ok s" "k < 4096 * disk_blocks s"
  shows "page_of (disk_addr s k) = disk_table s ! (k div 4096)" "page_of (disk_addr s k) \<in> set (disk_table s)"
proof -
  have b: "k div 4096 < length (disk_table s)" using disk_block [OF assms(2)] by simp
  then have "disk_table s ! (k div 4096) \<in> set (disk_table s)" by (rule nth_mem)
  moreover have "4096 dvd unat (disk_table s ! (k div 4096))"
    using ramdisk_okD(1,5) [OF assms(1)] pm.pages_aligned [of s] pm.used_pages [of s] calculation by blast
  ultimately show "page_of (disk_addr s k) = disk_table s ! (k div 4096)"
    and "page_of (disk_addr s k) \<in> set (disk_table s)"
    by (simp_all add: disk_addr_def page_offset(2))
qed

lemma disk_addr_inj:
  assumes "ramdisk_ok s" "k < 4096 * disk_blocks s" "l < 4096 * disk_blocks s"
  shows "disk_addr s k = disk_addr s l \<longleftrightarrow> k = l"
proof
  assume eq: "disk_addr s k = disk_addr s l"
  have "disk_table s ! (k div 4096) = disk_table s ! (l div 4096)"
    using disk_addr_page(1) [OF assms(1,2)] disk_addr_page(1) [OF assms(1,3)] eq by simp
  then have div: "k div 4096 = l div 4096"
    using ramdisk_okD(7) [OF assms(1)] disk_block [OF assms(2)] disk_block [OF assms(3)]
    by (simp add: nth_eq_iff_index_eq)
  then have "(of_nat (k mod 4096) :: u32) = of_nat (l mod 4096)" using eq by (simp add: disk_addr_def)
  then have "k mod 4096 = l mod 4096" by (simp add: of_nat_u32_eq_iff)
  with div show "k = l" by (metis div_mult_mod_eq)
qed simp

text \<open>The address the copy loop computes is the address of the byte.\<close>

lemma ramdisk_io_addr:
  assumes "ramdisk_ok s" "unat start + i < 4096 * disk_blocks s"
  shows "load32 (mem s) (slot (ramdisk_block_pointers s) (unat ((start + of_nat i) div 4096))) + (start + of_nat i) mod 4096
    = disk_addr s (unat start + i)"
proof -
  have small: "unat start + i < 4194304"
    using assms(2) ramdisk_okD(3) [OF assms(1)] by linarith
  then have a: "unat (start + of_nat i) = unat start + i"
    by (simp add: unat_add_u32 unat_of_nat_u32)
  have "unat ((start + of_nat i) div 4096) = (unat start + i) div 4096"
    by (simp add: unat_div_distrib a)
  moreover have "unat ((start + of_nat i) mod 4096) = (unat start + i) mod 4096"
    by (simp add: unat_mod_distrib a)
  then have "(start + of_nat i) mod 4096 = of_nat ((unat start + i) mod 4096)"
    by (simp add: word_unat_eq_iff unat_of_nat_u32)
  ultimately show ?thesis
    using disk_block [OF assms(2)] by (simp add: disk_addr_def disk_table_def nth_table)
qed


text \<open>Memory changes outside the disk's pages do not change the disk.\<close>

lemma ramdisk_write_frame:
  assumes "ramdisk_ok s" "\<And>a. page_of a \<notin> pmem_pages s \<Longrightarrow> m a = mem s a" "\<And>a. page_of a = ramdisk_block_pointers s \<Longrightarrow> m a = mem s a"
  shows "ramdisk_ok (s\<lparr>mem := m\<rparr>)" "disk_table (s\<lparr>mem := m\<rparr>) = disk_table s" "disk_addr (s\<lparr>mem := m\<rparr>) = disk_addr s"
    "disk_pages (s\<lparr>mem := m\<rparr>) = disk_pages s" "used_pages (s\<lparr>mem := m\<rparr>) = used_pages s" "pmem_pages (s\<lparr>mem := m\<rparr>) = pmem_pages s"
proof -
  note d = ramdisk_okD [OF assms(1)]
  have W: "pmem_ok (s\<lparr>mem := m\<rparr>)" "used_pages (s\<lparr>mem := m\<rparr>) = used_pages s" "pmem_pages (s\<lparr>mem := m\<rparr>) = pmem_pages s"
    using pmem_write_frame [OF d(1) assms(2)] by blast+
  have tab: "disk_table (s\<lparr>mem := m\<rparr>) = disk_table s"
    using table_cong [OF d(8,3) assms(3)] by (simp add: disk_table_def disk_blocks_def)
  then show "disk_table (s\<lparr>mem := m\<rparr>) = disk_table s" "disk_addr (s\<lparr>mem := m\<rparr>) = disk_addr s"
    "disk_pages (s\<lparr>mem := m\<rparr>) = disk_pages s"
    by (simp_all add: disk_addr_def fun_eq_iff disk_pages_def)
  show "ramdisk_ok (s\<lparr>mem := m\<rparr>)"
    using W assms(1) tab by (simp add: ramdisk_ok_def disk_pages_def disk_blocks_def)
  show "used_pages (s\<lparr>mem := m\<rparr>) = used_pages s" "pmem_pages (s\<lparr>mem := m\<rparr>) = pmem_pages s" by (rule W)+
qed

lemma disk_write_frame:
  assumes "ramdisk_ok s" "\<And>a. page_of a \<notin> pmem_pages s \<Longrightarrow> m a = mem s a" "\<And>a. page_of a \<in> disk_pages s \<Longrightarrow> m a = mem s a"
  shows "disk (s\<lparr>mem := m\<rparr>) = disk s"
proof -
  have "disk_addr (s\<lparr>mem := m\<rparr>) = disk_addr s" "disk_blocks (s\<lparr>mem := m\<rparr>) = disk_blocks s"
    using ramdisk_write_frame(3) [OF assms(1,2)] assms(3) by (simp_all add: disk_pages_def disk_blocks_def)
  then show ?thesis
    using disk_addr_page(2) [OF assms(1)] assms(3) by (simp add: disk_def disk_pages_def)
qed

section \<open>Reading and writing\<close>

text \<open>What the disk's clients see unchanged: everything but the bytes of the data pages.\<close>

definition disk_same :: "'z ramdisk_state_scheme \<Rightarrow> 'z ramdisk_state_scheme \<Rightarrow> bool" where
  "disk_same s s' \<longleftrightarrow> (\<exists>m. s' = s\<lparr>mem := m\<rparr> \<and> (ramdisk_ok s \<longrightarrow> ramdisk_ok s' \<and> disk_table s' = disk_table s
     \<and> used_pages s' = used_pages s \<and> pmem_pages s' = pmem_pages s
     \<and> (\<forall>a. page_of a \<notin> set (disk_table s) \<longrightarrow> m a = mem s a)))"

lemma disk_same_refl: "disk_same s s"
proof -
  have "s = s\<lparr>mem := mem s\<rparr>" by simp
  then show ?thesis unfolding disk_same_def by blast
qed

lemma disk_same_trans:
  assumes "disk_same s t" "disk_same t u"
  shows "disk_same s u"
proof -
  obtain m where m: "t = s\<lparr>mem := m\<rparr>" "ramdisk_ok s \<longrightarrow> ramdisk_ok t \<and> disk_table t = disk_table s
     \<and> used_pages t = used_pages s \<and> pmem_pages t = pmem_pages s
     \<and> (\<forall>a. page_of a \<notin> set (disk_table s) \<longrightarrow> m a = mem s a)"
    using assms(1) unfolding disk_same_def by blast
  obtain m' where m': "u = t\<lparr>mem := m'\<rparr>" "ramdisk_ok t \<longrightarrow> ramdisk_ok u \<and> disk_table u = disk_table t
     \<and> used_pages u = used_pages t \<and> pmem_pages u = pmem_pages t
     \<and> (\<forall>a. page_of a \<notin> set (disk_table t) \<longrightarrow> m' a = mem t a)"
    using assms(2) unfolding disk_same_def by blast
  have "u = s\<lparr>mem := m'\<rparr>" "mem t = m" using m(1) m'(1) by simp_all
  with m(2) m'(2) show ?thesis unfolding disk_same_def by auto
qed

lemma ramdisk_read_loop:
  assumes "ramdisk_ok s" "unat start + n \<le> 4096 * disk_blocks s" "n \<le> length d" "k \<le> n"
  shows "ramdisk_io_loop 0 start [k..<n] (Local (slice (unat start) k (disk s) @ drop k d)) s
    = Ok (Local (slice (unat start) n (disk s) @ drop n d)) s"
  using assms(4)
proof (induction "n - k" arbitrary: k)
  case 0
  then show ?case by (simp add: kret_def)
next
  case (Suc j)
  let ?d = "slice (unat start) k (disk s) @ drop k d"
  have k: "k < n" "unat start + k < 4096 * disk_blocks s" using Suc.hyps(2) assms(2) by simp_all
  have len: "length (slice (unat start) k (disk s)) = k" using k by (simp add: length_slice)
  have byte: "mem s (disk_addr s (unat start + k)) = disk s ! (unat start + k)"
    using k by (simp add: disk_def)
  have "ramdisk_io_byte 0 start k (Local ?d) s = Ok (Local (?d[k := disk s ! (unat start + k)])) s"
    using ramdisk_io_addr [OF assms(1) k(2)] byte by (simp add: ramdisk_io_byte_def kernel_defs Let_def)
  moreover have "?d[k := disk s ! (unat start + k)] = slice (unat start) (Suc k) (disk s) @ drop (Suc k) d"
  proof -
    have "drop k d = d ! k # drop (Suc k) d" using k(1) assms(3) by (simp add: Cons_nth_drop_Suc)
    moreover have "slice (unat start) (Suc k) (disk s) = slice (unat start) k (disk s) @ [disk s ! (unat start + k)]"
      using k(2) by (simp add: slice_def take_Suc_conv_app_nth)
    ultimately show ?thesis using len by (simp add: list_update_append)
  qed
  ultimately show ?case
    using Suc.hyps k(1) by (simp add: upt_conv_Cons kbind_def)
qed

lemma in_bounds:
  assumes "ramdisk_ok s" "unat start + unat n \<le> 4096 * disk_blocks s"
  shows "\<not> start + n > ramdisk_block_size s * 4096" "\<not> start > 0xFFFFFFFF - n" "ramdisk_block_size s \<noteq> 0"
proof -
  note d = ramdisk_okD [OF assms(1)]
  have small: "4096 * disk_blocks s \<le> 4194304" using d(3) by simp
  have "unat (start + n) = unat start + unat n" using assms(2) small by (simp add: unat_add_u32)
  moreover have "unat (ramdisk_block_size s * 4096) = 4096 * disk_blocks s"
    using small by (simp add: unat_mult_u32 disk_blocks_def)
  ultimately show "\<not> start + n > ramdisk_block_size s * 4096"
    using assms(2) by (simp add: word_less_nat_alt)
  have "unat n \<le> 4294967295" using unat_u32_less [of n] by linarith
  then have "unat (0xFFFFFFFF - n) = 4294967295 - unat n"
    by (subst unat_sub) (simp_all add: word_le_nat_alt)
  then show "\<not> start > 0xFFFFFFFF - n" using assms(2) small by (simp add: word_less_nat_alt)
  show "ramdisk_block_size s \<noteq> 0" using d(2) by (auto simp: disk_blocks_def)
qed

lemma ramdisk_read_Ok:
  assumes "ramdisk_ok s" "unat start + unat n \<le> length (disk s)" "unat n \<le> length d"
  shows "ramdisk_read start (Local d) n s
    = Ok (0, Local (slice (unat start) (unat n) (disk s) @ drop (unat n) d)) s"
proof -
  have "ramdisk_io_loop 0 start [0..<unat n] (Local d) s
      = Ok (Local (slice (unat start) (unat n) (disk s) @ drop (unat n) d)) s"
    using ramdisk_read_loop [of s start "unat n" d 0] assms by (simp add: slice_def)
  then show ?thesis
    using in_bounds [of s start n] assms by (simp add: ramdisk_read_def ramdisk_internal_io_def kernel_defs)
qed


lemma disk_poke:
  fixes v :: u8
  assumes "ramdisk_ok s" "k < 4096 * disk_blocks s"
  defines "t \<equiv> s\<lparr>mem := (mem s)(disk_addr s k := v)\<rparr>"
  shows "disk_same s t" "ramdisk_ok t" "disk t = (disk s)[k := v]" "disk_blocks t = disk_blocks s"
proof -
  note d = ramdisk_okD [OF assms(1)]
  note page = disk_addr_page [OF assms(1,2)]
  let ?m = "(mem s)(disk_addr s k := v)"
  have out: "?m a = mem s a" if "page_of a \<notin> set (disk_table s)" for a using that page(2) by auto
  have pages: "set (disk_table s) \<subseteq> pmem_pages s" using d(1,5) pm.used_pages [of s] by blast
  have f: "ramdisk_ok t" "disk_table t = disk_table s" "disk_addr t = disk_addr s"
    "used_pages t = used_pages s" "pmem_pages t = pmem_pages s"
  proof -
    have "?m a = mem s a" if "page_of a \<notin> pmem_pages s" for a using that out pages by blast
    moreover have "?m a = mem s a" if "page_of a = ramdisk_block_pointers s" for a
      using that out d(6) by metis
    ultimately show "ramdisk_ok t" "disk_table t = disk_table s" "disk_addr t = disk_addr s"
      "used_pages t = used_pages s" "pmem_pages t = pmem_pages s"
      unfolding t_def using ramdisk_write_frame [OF assms(1), of ?m] by blast+
  qed
  show "ramdisk_ok t" by (rule f(1))
  show "disk_same s t" using f out unfolding disk_same_def t_def by blast
  show "disk_blocks t = disk_blocks s" by (simp add: t_def disk_blocks_def)
  then show "disk t = (disk s)[k := v]"
    using disk_addr_inj [OF assms(1) _ assms(2)] assms(2)
    by (auto intro!: nth_equalityI simp: disk_def f(3) nth_list_update) (auto simp: t_def)
qed

lemma wp_ramdisk_write_loop:
  assumes "ramdisk_ok s" "unat start + n \<le> 4096 * disk_blocks s" "n \<le> length d" "k \<le> n"
    and "\<And>t. ramdisk_ok t \<Longrightarrow> disk_same s t \<Longrightarrow> disk t = overwrite (unat start + k) (drop k (take n d)) (disk s) \<Longrightarrow> Q (Local d) t"
  shows "wp (ramdisk_io_loop 1 start [k..<n] (Local d)) Q s"
  using assms
proof (induction "n - k" arbitrary: k s)
  case 0
  then have "Q (Local d) s" by (auto intro: disk_same_refl simp: overwrite_def)
  with 0 show ?case by simp
next
  case (Suc j)
  have k: "k < n" "unat start + k < 4096 * disk_blocks s" using Suc.hyps(2) Suc.prems(2) by simp_all
  let ?t = "s\<lparr>mem := (mem s)(disk_addr s (unat start + k) := d ! k)\<rparr>"
  note p = disk_poke [OF Suc.prems(1) k(2), of "d ! k"]
  have run: "ramdisk_io_byte 1 start k (Local d) s = Ok (Local d) ?t"
    using ramdisk_io_addr [OF Suc.prems(1) k(2)] by (simp add: ramdisk_io_byte_def kernel_defs Let_def)
  have over: "overwrite (unat start + Suc k) (drop (Suc k) (take n d)) ((disk s)[unat start + k := d ! k])
      = overwrite (unat start + k) (drop k (take n d)) (disk s)"
  proof -
    have "drop k (take n d) = d ! k # drop (Suc k) (take n d)"
      using k(1) Suc.prems(3) by (metis Cons_nth_drop_Suc length_take min.absorb2 nth_take)
    then show ?thesis
      using k(2) by (simp add: overwrite_def take_Suc_conv_app_nth)
  qed
  have "wp (ramdisk_io_loop 1 start [Suc k..<n] (Local d)) Q ?t"
  proof (rule Suc.hyps(1))
    fix t
    assume t: "ramdisk_ok t" "disk_same ?t t" "disk t = overwrite (unat start + Suc k) (drop (Suc k) (take n d)) (disk ?t)"
    then show "Q (Local d) t"
      using Suc.prems(5) [of t] disk_same_trans [OF p(1)] over p(3) by simp
  qed (use Suc.hyps(2) Suc.prems(2,3) k(1) p(2,4) in simp_all)
  then show ?case
    using run k(1) by (simp add: upt_conv_Cons wp_def kbind_def)
qed

lemma wp_ramdisk_write:
  assumes "ramdisk_ok s" "unat start + unat n \<le> length (disk s)" "unat n \<le> length d"
  shows "wp (ramdisk_write start (Local d) n) (\<lambda>r s'. r = 0 \<and> ramdisk_ok s' \<and> disk_same s s'
    \<and> disk s' = overwrite (unat start) (take (unat n) d) (disk s)) s"
  using in_bounds [of s start n] assms
  by (simp add: ramdisk_write_def ramdisk_internal_io_def, intro wp_ramdisk_write_loop) simp_all

interpretation rd: block_device ramdisk_read ramdisk_write Local disk ramdisk_ok disk_same
  by unfold_locales (rule ramdisk_read_Ok wp_ramdisk_write disk_same_refl disk_same_trans; assumption)+


section \<open>Creation and destruction\<close>

lemma pmem_ramdisk_fields [simp]:
  "pmem_ok (s\<lparr>ramdisk_block_size := x\<rparr>) = pmem_ok s" "pmem_pages (s\<lparr>ramdisk_block_size := x\<rparr>) = pmem_pages s"
  "used_pages (s\<lparr>ramdisk_block_size := x\<rparr>) = used_pages s"
  "pmem_ok (s\<lparr>ramdisk_block_pointers := y\<rparr>) = pmem_ok s" "pmem_pages (s\<lparr>ramdisk_block_pointers := y\<rparr>) = pmem_pages s"
  "used_pages (s\<lparr>ramdisk_block_pointers := y\<rparr>) = used_pages s"
  by (simp_all add: pmem_ok_def pmem_pages_def used_pages_def pmem_used_def entry_addr_def [abs_def]
      entry_used_def record_addr_def pmem_blocks_def)

lemma pmem_same_ramdisk:
  "pmem_same s t \<Longrightarrow> ramdisk_block_size t = ramdisk_block_size s" "pmem_same s t \<Longrightarrow> ramdisk_block_pointers t = ramdisk_block_pointers s"
  by (auto simp: pmem_same_def)

text \<open>Everything outside the disk's own globals and the memory is as before.\<close>

definition disk_created :: "nat \<Rightarrow> 'z ramdisk_state_scheme \<Rightarrow> 'z ramdisk_state_scheme \<Rightarrow> bool" where
  "disk_created n s s' \<longleftrightarrow> ramdisk_ok s' \<and> disk_blocks s' = n \<and> pmem_pages s' = pmem_pages s
     \<and> used_pages s' = used_pages s \<union> disk_pages s' \<and> disk_pages s' \<inter> used_pages s = {}
     \<and> (\<forall>a. page_of a \<in> used_pages s \<longrightarrow> mem s' a = mem s a)
     \<and> (\<exists>c m x y. s' = s\<lparr>pmem_curr_alloc_record := c, mem := m, ramdisk_block_size := x, ramdisk_block_pointers := y\<rparr>)"

lemma wp_ramdisk_init:
  assumes "pmem_ok s" "ramdisk_block_size s = 0" "ramdisk_block_pointers s = 0"
    and "0 < unat sz" "unat sz \<le> 4194304" "4096 dvd unat sz"
    and "Suc (unat sz div 4096) < card (pmem_pages s - used_pages s)"
  shows "wp (ramdisk_init sz) (\<lambda>_ s'. disk_created (unat sz div 4096) s s') s"
proof -
  let ?n = "unat sz div 4096"
  have n: "0 < ?n" "?n \<le> 1024" using assms(4-6) by (auto simp: div_greater_zero_iff dvd_imp_le)
  have words: "sz \<noteq> 0" "\<not> sz mod 4096 \<noteq> 0" "unat (sz div 4096) = ?n" "\<not> sz div 4096 > 4096 div 4"
    using assms(4,5,6) n(2) by (auto simp: word_unat_eq_iff unat_mod_distrib unat_div_distrib word_less_nat_alt)
  define s1 where "s1 = s\<lparr>ramdisk_block_size := sz div 4096\<rparr>"
  have s1: "pmem_ok s1" "pmem_pages s1 = pmem_pages s" "used_pages s1 = used_pages s" "mem s1 = mem s"
    using assms(1) by (simp_all add: s1_def)
  have "2 \<le> card (pmem_pages s1 - used_pages s1)" using assms(7) n(1) by (simp add: s1)
  then obtain p t where alloc: "pmem_alloc s1 = Ok p t" and p: "p \<in> pmem_pages s - used_pages s"
    and t: "pmem_ok t" "pmem_pages t = pmem_pages s" "used_pages t = insert p (used_pages s)" "pmem_same s1 t"
      "\<And>a. page_of a \<in> pmem_pages s \<Longrightarrow> mem t a = mem s a"
    using wpE [OF pm.alloc_ok [OF s1(1)]] by (metis s1(2-4))
  define t1 where "t1 = t\<lparr>ramdisk_block_pointers := p\<rparr>"
  have t1: "pmem_ok t1" "pmem_pages t1 = pmem_pages s" "used_pages t1 = insert p (used_pages s)" "mem t1 = mem t"
    using t by (simp_all add: t1_def)
  have size: "ramdisk_block_size t1 = sz div 4096" "ramdisk_block_pointers t1 = p"
    using pmem_same_ramdisk(1) [OF t(4)] by (simp_all add: t1_def s1_def)
  have "?n < card (pmem_pages t1 - used_pages t1)"
    using assms(7) p pm.card_free_insert [OF assms(1) p] by (simp add: t1)
  then have fill: "wp (kfor [0..<?n] (\<lambda>i. kbind pmem_alloc (\<lambda>q. kmod (\<lambda>s. s\<lparr>mem := store32 (mem s) (slot p i) q\<rparr>))))
    (\<lambda>_ s'. pmem_ok s' \<and> pmem_pages s' = pmem_pages t1 \<and> pmem_same t1 s' \<and> distinct (table (mem s') p ?n)
      \<and> set (table (mem s') p ?n) \<subseteq> pmem_pages t1 - used_pages t1
      \<and> used_pages s' = used_pages t1 \<union> set (table (mem s') p ?n)
      \<and> (\<forall>a. page_of a \<in> pmem_pages t1 - {p} \<longrightarrow> mem s' a = mem t1 a)) t1"
    using t1 n(2) by (intro pm.fill_table_ok) simp_all
  have fin: "disk_created ?n s s'"
    if w: "pmem_ok s' \<and> pmem_pages s' = pmem_pages t1 \<and> pmem_same t1 s' \<and> distinct (table (mem s') p ?n)
      \<and> set (table (mem s') p ?n) \<subseteq> pmem_pages t1 - used_pages t1
      \<and> used_pages s' = used_pages t1 \<union> set (table (mem s') p ?n)
      \<and> (\<forall>a. page_of a \<in> pmem_pages t1 - {p} \<longrightarrow> mem s' a = mem t1 a)" for s'
  proof -
    have f: "ramdisk_block_size s' = sz div 4096" "ramdisk_block_pointers s' = p"
      using that size pmem_same_ramdisk [of t1 s'] by auto
    have tab: "disk_table s' = table (mem s') p ?n" "disk_blocks s' = ?n"
      by (simp_all add: disk_table_def disk_blocks_def f words(3))
    have "ramdisk_ok s'"
      using that n t1(3) by (auto simp: ramdisk_ok_def disk_pages_def tab f)
    moreover have "used_pages s' = used_pages s \<union> disk_pages s'" "disk_pages s' \<inter> used_pages s = {}"
      using that t1(2,3) p by (auto simp: disk_pages_def tab f)
    moreover have "mem s' a = mem s a" if "page_of a \<in> used_pages s" for a
    proof -
      have "page_of a \<in> pmem_pages s" "page_of a \<noteq> p" using that p pm.used_pages [OF assms(1)] by auto
      then show ?thesis
        using w t(5) t1 by (simp add: t1(4))
    qed
    moreover have "\<exists>c m x y. s' = s\<lparr>pmem_curr_alloc_record := c, mem := m, ramdisk_block_size := x, ramdisk_block_pointers := y\<rparr>"
    proof -
      obtain c m where "t = s1\<lparr>pmem_curr_alloc_record := c, mem := m\<rparr>" using t(4) by (auto simp: pmem_same_def)
      moreover obtain c' m' where "s' = t1\<lparr>pmem_curr_alloc_record := c', mem := m'\<rparr>"
        using w by (auto simp: pmem_same_def)
      ultimately have "s' = s\<lparr>pmem_curr_alloc_record := c', mem := m', ramdisk_block_size := sz div 4096, ramdisk_block_pointers := p\<rparr>"
        by (simp add: t1_def s1_def)
      then show ?thesis by blast
    qed
    ultimately show ?thesis using that t1(2) tab by (auto simp: disk_created_def)
  qed
  have "ramdisk_init sz s = kfor [0..<?n] (\<lambda>i. kbind pmem_alloc (\<lambda>q. kmod (\<lambda>s. s\<lparr>mem := store32 (mem s) (slot p i) q\<rparr>))) t1"
    using words assms(2,3) alloc by (simp add: ramdisk_init_def kernel_defs s1_def t1_def)
  then show ?thesis
    using wp_mono [OF fill fin] by (simp add: wp_def)
qed


lemma wp_ramdisk_destroy:
  assumes "ramdisk_ok s" "ramdisk_block_pointers s \<noteq> 0"
  shows "wp ramdisk_destroy (\<lambda>_ s'. pmem_ok s' \<and> ramdisk_block_size s' = 0 \<and> ramdisk_block_pointers s' = 0
    \<and> pmem_pages s' = pmem_pages s \<and> used_pages s' = used_pages s - disk_pages s
    \<and> (\<forall>a. page_of a \<in> pmem_pages s \<longrightarrow> mem s' a = mem s a)) s"
proof -
  note d = ramdisk_okD [OF assms(1)]
  let ?p = "ramdisk_block_pointers s" and ?n = "disk_blocks s"
  have p: "?p \<in> pmem_pages s" using d(1,4) pm.used_pages [of s] by blast
  have rel: "wp (kfor [0..<?n] (\<lambda>i. kbind (kget (\<lambda>s. load32 (mem s) (slot ?p i))) (\<lambda>q. kbind (pmem_free q) (\<lambda>_. kret ()))))
    (\<lambda>_ s'. pmem_ok s' \<and> pmem_pages s' = pmem_pages s \<and> pmem_same s s'
      \<and> used_pages s' = used_pages s - set (table (mem s) ?p ?n)
      \<and> (\<forall>a. page_of a \<in> pmem_pages s \<longrightarrow> mem s' a = mem s a)) s"
    using d p by (intro pa.release_table_ok) (simp_all add: disk_table_def)
  have rest: "wp (kbind (pmem_free ?p) (\<lambda>_. kmod (\<lambda>s. s\<lparr>ramdisk_block_size := 0, ramdisk_block_pointers := 0\<rparr>)))
     (\<lambda>_ s'. pmem_ok s' \<and> ramdisk_block_size s' = 0 \<and> ramdisk_block_pointers s' = 0
    \<and> pmem_pages s' = pmem_pages s \<and> used_pages s' = used_pages s - disk_pages s
    \<and> (\<forall>a. page_of a \<in> pmem_pages s \<longrightarrow> mem s' a = mem s a)) t"
    if t: "pmem_ok t \<and> pmem_pages t = pmem_pages s \<and> pmem_same s t \<and> used_pages t = used_pages s - set (table (mem s) ?p ?n)
      \<and> (\<forall>a. page_of a \<in> pmem_pages s \<longrightarrow> mem t a = mem s a)" for t
  proof -
    have "?p \<in> used_pages t" using t d(4,6) by (auto simp: disk_table_def)
    then have "wp (pmem_free ?p) (\<lambda>_ u. pmem_ok u \<and> pmem_pages u = pmem_pages t \<and> used_pages u = used_pages t - {?p}
        \<and> pmem_same t u \<and> (\<forall>a. page_of a \<in> pmem_pages t \<longrightarrow> mem u a = mem t a)) t"
      using t by (intro wp_pmem_free) simp_all
    then show ?thesis
      unfolding wp_kbind wp_kmod
      by (rule wp_mono) (use t in \<open>auto simp: disk_pages_def disk_table_def\<close>)
  qed
  have "ramdisk_destroy s = kseq (kfor [0..<?n] (\<lambda>i. kbind (kget (\<lambda>s. load32 (mem s) (slot ?p i))) (\<lambda>q. kbind (pmem_free q) (\<lambda>_. kret ()))))
      (kbind (pmem_free ?p) (\<lambda>_. kmod (\<lambda>s. s\<lparr>ramdisk_block_size := 0, ramdisk_block_pointers := 0\<rparr>))) s"
    using d(2) assms(2) by (auto simp: ramdisk_destroy_def disk_blocks_def)
  moreover have "wp (kseq (kfor [0..<?n] (\<lambda>i. kbind (kget (\<lambda>s. load32 (mem s) (slot ?p i))) (\<lambda>q. kbind (pmem_free q) (\<lambda>_. kret ()))))
      (kbind (pmem_free ?p) (\<lambda>_. kmod (\<lambda>s. s\<lparr>ramdisk_block_size := 0, ramdisk_block_pointers := 0\<rparr>))))
     (\<lambda>_ s'. pmem_ok s' \<and> ramdisk_block_size s' = 0 \<and> ramdisk_block_pointers s' = 0
    \<and> pmem_pages s' = pmem_pages s \<and> used_pages s' = used_pages s - disk_pages s
    \<and> (\<forall>a. page_of a \<in> pmem_pages s \<longrightarrow> mem s' a = mem s a)) s"
    unfolding wp_kseq by (rule wp_mono [OF rel rest])
  ultimately show ?thesis by (simp only: wp_def)
qed

section \<open>Properties\<close>

definition small_disk :: ramdisk_state where
  "small_disk = malloc_state.extend small_heap \<lparr>ramdisk_block_size = 0, ramdisk_block_pointers = 0\<rparr>"

lemma small_disk_pmem:
  "pmem_ok small_disk" "pmem_pages small_disk = pmem_pages small_console" "used_pages small_disk = used_pages small_console"
  "ramdisk_block_size small_disk = 0" "ramdisk_block_pointers small_disk = 0"
  using small_console_pages(3)
  by (simp_all add: small_disk_def malloc_state.extend_def small_heap_def stdio_state.extend_def small_console_def
      pmem_ok_def pmem_pages_def used_pages_def pmem_used_def entry_addr_def [abs_def] entry_used_def record_addr_def pmem_blocks_def)

lemma small_disk_init: "wp (ramdisk_init 8192) (\<lambda>_ s'. disk_created 2 small_disk s') small_disk"
  using wp_ramdisk_init [of small_disk 8192] by (simp add: small_disk_pmem small_console_pages(6))

text \<open>C5: the ramdisk is a disk: what is written at an address is what is read back from there, for
  every range inside the disk, also across the pages the disk is spread over.\<close>

theorem ramdisk_write_read:
  assumes "ramdisk_ok s" "unat start + unat n \<le> length (disk s)" "unat n \<le> length d" "unat n \<le> length e"
  shows "wp (kbind (ramdisk_write start (Local d) n) (\<lambda>_. ramdisk_read start (Local e) n))
    (\<lambda>(r, e') s'. r = 0 \<and> ramdisk_ok s' \<and> e' = Local (take (unat n) d @ drop (unat n) e)) s"
  by (rule wp_mono [OF rd.write_then_read [OF assms]]) auto

theorem ramdisk_write_read_witness:
  "wp (kseq (ramdisk_init 8192) (kbind (ramdisk_write 4095 (Local [1, 2, 3]) 3) (\<lambda>_. ramdisk_read 4095 (Local [0, 0, 0, 9]) 3)))
    (\<lambda>(r, e') s'. r = 0 \<and> ramdisk_ok s' \<and> e' = Local [1, 2, 3, 9]) small_disk"
  unfolding wp_kseq
proof (rule wp_mono [OF small_disk_init])
  fix u s
  assume "disk_created 2 small_disk s"
  then have "ramdisk_ok s" "length (disk s) = 8192" by (simp_all add: disk_created_def)
  then show "wp (kbind (ramdisk_write 4095 (Local [1, 2, 3]) 3) (\<lambda>_. ramdisk_read 4095 (Local [0, 0, 0, 9]) 3))
      (\<lambda>(r, e') s'. r = 0 \<and> ramdisk_ok s' \<and> e' = Local [1, 2, 3, 9]) s"
    using ramdisk_write_read [of s 4095 3 "[1, 2, 3]" "[0, 0, 0, 9]"] by simp
qed

text \<open>C33: an access that does not fit on the disk is refused with an error code, even when the end of
  the range wraps around, and changes neither the disk nor the buffer.\<close>

theorem ramdisk_out_of_bounds:
  assumes "ramdisk_ok s" "length (disk s) < unat start + unat n"
  shows "\<exists>r \<in> {RAMDISK_ERROR_OUT_OF_BOUNDS, RAMDISK_ERROR_OVERFLOW}.
    ramdisk_internal_io io_type start data n s = Ok (r, data) s"
proof -
  note d = ramdisk_okD [OF assms(1)]
  have mult: "unat (ramdisk_block_size s * 4096) = 4096 * disk_blocks s"
    using d(3) by (simp add: unat_mult_u32 disk_blocks_def)
  have size: "ramdisk_block_size s \<noteq> 0" using d(2) by (auto simp: disk_blocks_def)
  show ?thesis
  proof (cases "unat start + unat n < 4294967296")
    case True
    then have "start + n > ramdisk_block_size s * 4096"
      using assms(2) mult by (simp add: word_less_nat_alt unat_add_u32)
    then show ?thesis using size by (simp add: ramdisk_internal_io_def kernel_defs)
  next
    case False
    have n: "unat n \<le> 4294967295" using unat_u32_less [of n] by linarith
    then have "unat (0xFFFFFFFF - n) = 4294967295 - unat n"
      by (subst unat_sub) (simp_all add: word_le_nat_alt)
    then have "unat (0xFFFFFFFF - n) < unat start" using False n by linarith
    then have "start > 0xFFFFFFFF - n" by (simp only: word_less_nat_alt)
    then show ?thesis using size by (simp add: ramdisk_internal_io_def kernel_defs)
  qed
qed

theorem ramdisk_out_of_bounds_witness:
  "wp (ramdisk_init 8192) (\<lambda>_ s. \<exists>r \<in> {RAMDISK_ERROR_OUT_OF_BOUNDS, RAMDISK_ERROR_OVERFLOW}.
    ramdisk_internal_io 0 0xFFFFFFFF (Local [7, 7]) 2 s = Ok (r, Local [7, 7]) s) small_disk"
proof (rule wp_mono [OF small_disk_init])
  fix u s
  assume "disk_created 2 small_disk s"
  then have "ramdisk_ok s" "length (disk s) < unat (0xFFFFFFFF :: u32) + unat (2 :: u32)" by (simp_all add: disk_created_def)
  then show "\<exists>r \<in> {RAMDISK_ERROR_OUT_OF_BOUNDS, RAMDISK_ERROR_OVERFLOW}.
      ramdisk_internal_io 0 0xFFFFFFFF (Local [7, 7]) 2 s = Ok (r, Local [7, 7]) s"
    by (rule ramdisk_out_of_bounds)
qed

text \<open>Creating a disk takes only pages that were free and leaves every page in use alone;
  destroying it gives all of them back, so that exactly the old pages are in use again.\<close>

theorem ramdisk_init_destroy:
  assumes "pmem_ok s" "ramdisk_block_size s = 0" "ramdisk_block_pointers s = 0" "0 \<notin> pmem_pages s"
    and "0 < unat sz" "unat sz \<le> 4194304" "4096 dvd unat sz"
    and "Suc (unat sz div 4096) < card (pmem_pages s - used_pages s)"
  shows "wp (kseq (ramdisk_init sz) ramdisk_destroy) (\<lambda>_ s'. pmem_ok s' \<and> used_pages s' = used_pages s
    \<and> ramdisk_block_size s' = 0 \<and> (\<forall>a. page_of a \<in> used_pages s \<longrightarrow> mem s' a = mem s a)) s"
  unfolding wp_kseq
proof (rule wp_mono [OF wp_ramdisk_init [OF assms(1-3,5-8)]])
  fix u t
  assume t: "disk_created (unat sz div 4096) s t"
  then have ok: "ramdisk_ok t" "pmem_pages t = pmem_pages s" "used_pages t = used_pages s \<union> disk_pages t"
    "disk_pages t \<inter> used_pages s = {}" "\<And>a. page_of a \<in> used_pages s \<Longrightarrow> mem t a = mem s a"
    by (auto simp: disk_created_def)
  have "ramdisk_block_pointers t \<in> pmem_pages s"
    using ramdisk_okD(1,4) [OF ok(1)] pm.used_pages [of t] ok(2) by auto
  then have "ramdisk_block_pointers t \<noteq> 0" using assms(4) by auto
  then have "wp ramdisk_destroy (\<lambda>_ s'. pmem_ok s' \<and> ramdisk_block_size s' = 0 \<and> ramdisk_block_pointers s' = 0
    \<and> pmem_pages s' = pmem_pages t \<and> used_pages s' = used_pages t - disk_pages t
    \<and> (\<forall>a. page_of a \<in> pmem_pages t \<longrightarrow> mem s' a = mem t a)) t"
    using ok(1) by (intro wp_ramdisk_destroy)
  then show "wp ramdisk_destroy (\<lambda>_ s'. pmem_ok s' \<and> used_pages s' = used_pages s
    \<and> ramdisk_block_size s' = 0 \<and> (\<forall>a. page_of a \<in> used_pages s \<longrightarrow> mem s' a = mem s a)) t"
    by (rule wp_mono) (use ok pm.used_pages [OF assms(1)] in auto)
qed

theorem ramdisk_init_destroy_witness:
  "wp (kseq (ramdisk_init 8192) ramdisk_destroy) (\<lambda>_ s'. pmem_ok s' \<and> used_pages s' = used_pages small_disk
    \<and> ramdisk_block_size s' = 0 \<and> (\<forall>a. page_of a \<in> used_pages small_disk \<longrightarrow> mem s' a = mem small_disk a)) small_disk"
proof (rule ramdisk_init_destroy)
  have "0 \<noteq> entry_addr small_console e" if "e \<le> pmem_blocks small_console" for e
    using unat_entry_addr [OF small_console_pages(3) that] by (auto simp: small_console_def)
  then show "0 \<notin> pmem_pages small_disk" unfolding small_disk_pmem(2) by (auto simp: pmem_pages_def)
qed (simp_all add: small_disk_pmem small_console_pages(6))

end
