(* ===== verification/CString.thy ===== *)
theory CString
  imports Machine
begin

text \<open>
  The string and memory routines (\<open>libc/string.c\<close>) on C arrays. An array is the list of all its
  bytes, terminators included; an access outside the array has no meaning, and the routine's
  result is then \<open>None\<close>. Pointers that the callers pass are never null, so the null tests of
  \<open>strcpy\<close> and \<open>memset\<close> do not appear.
\<close>

section \<open>Definitions\<close>

text \<open>The loop of \<open>strcpy\<close>, from index \<open>i\<close>, and the write of the terminator after it.\<close>

definition put_byte :: "bytes \<Rightarrow> nat \<Rightarrow> u8 \<Rightarrow> bytes option" where
  "put_byte arr i v = (if i < length arr then Some (arr[i := v]) else None)"

function strcpy_loop :: "bytes \<Rightarrow> bytes \<Rightarrow> nat \<Rightarrow> nat \<Rightarrow> bytes option" where
  "strcpy_loop dst src dst_size i =
     (if i < dst_size then
        if i < length src then
          if src ! i = 0 then put_byte dst i 0
          else (case put_byte dst i (src ! i) of None \<Rightarrow> None
                | Some dst' \<Rightarrow> strcpy_loop dst' src dst_size (i + 1))
        else None
      else put_byte dst i 0)"
  by auto
termination by (relation "measure (\<lambda>(dst, src, dst_size, i). dst_size - i)") auto

declare strcpy_loop.simps [simp del]

definition strcpy :: "bytes \<Rightarrow> bytes \<Rightarrow> nat \<Rightarrow> bytes option" where
  "strcpy dst src dst_size = strcpy_loop dst src dst_size 0"

primrec strlen :: "bytes \<Rightarrow> nat option" where
  "strlen [] = None"
| "strlen (c # str) = (if c = 0 then Some 0 else map_option Suc (strlen str))"

fun strcmp :: "bytes \<Rightarrow> bytes \<Rightarrow> int option" where
  "strcmp (a # as) (b # bs) = (if a \<noteq> 0 \<and> a = b then strcmp as bs else Some (uint a - uint b))"
| "strcmp _ _ = None"

definition memcpy :: "bytes \<Rightarrow> bytes \<Rightarrow> nat \<Rightarrow> bytes option" where
  "memcpy dst src data_size =
     (if data_size \<le> length dst \<and> data_size \<le> length src
      then Some (fold (\<lambda>i d. d[i := src ! i]) [0..<data_size] dst) else None)"

primrec memset_loop :: "bytes \<Rightarrow> nat \<Rightarrow> u8 \<Rightarrow> nat \<Rightarrow> bytes option" where
  "memset_loop arr i value 0 = Some arr"
| "memset_loop arr i value (Suc len) = (case put_byte arr i value of None \<Rightarrow> None
     | Some arr' \<Rightarrow> memset_loop arr' (i + 1) value len)"

definition memset :: "bytes \<Rightarrow> u8 \<Rightarrow> nat \<Rightarrow> bytes option" where
  "memset arr value len = memset_loop arr 0 value len"

fun memcmp :: "bytes \<Rightarrow> bytes \<Rightarrow> nat \<Rightarrow> int option" where
  "memcmp a b 0 = Some 0"
| "memcmp (x # a) (y # b) (Suc n) =
     (if x < y then Some (- 1) else if y > x then Some 1 else memcmp a b n)"
| "memcmp _ _ (Suc n) = None"

definition rpad :: "bytes \<Rightarrow> u8 \<Rightarrow> nat \<Rightarrow> bytes option" where
  "rpad str pad_char len = (case strlen str of None \<Rightarrow> None
     | Some src_length \<Rightarrow>
         if src_length \<ge> len then Some str
         else if len \<le> length str
         then Some ((fold (\<lambda>i s. s[i := pad_char]) [src_length..<len] str)[len - 1 := 0])
         else None)"

section \<open>Strings in arrays\<close>

text \<open>The string an array holds: its bytes before the first terminator.\<close>

definition c_string :: "bytes \<Rightarrow> bytes" where
  "c_string arr = takeWhile (\<lambda>c. c \<noteq> 0) arr"

lemma strlen_Some: "0 \<in> set str \<Longrightarrow> strlen str = Some (length (c_string str))"
  by (induction str) (auto simp: c_string_def)

lemma strlen_None: "0 \<notin> set str \<Longrightarrow> strlen str = None"
  by (induction str) auto

lemma c_string_nth:
  assumes "0 \<in> set str"
  shows "length (c_string str) < length str" "str ! length (c_string str) = 0"
  using assms by (induction str) (auto simp: c_string_def)

lemma c_string_append: "0 \<notin> set cs \<Longrightarrow> c_string (cs @ 0 # rest) = cs"
  by (induction cs) (auto simp: c_string_def)

lemma memcpy_eq:
  assumes "n \<le> length dst" "n \<le> length src"
  shows "memcpy dst src n = Some (take n src @ drop n dst)"
proof -
  have "fold (\<lambda>i d. d[i := src ! i]) [0..<k] dst = take k src @ drop k dst" if "k \<le> n" for k
    using that
  proof (induction k)
    case (Suc k)
    then have "fold (\<lambda>i d. d[i := src ! i]) [0..<Suc k] dst = (take k src @ drop k dst)[k := src ! k]"
      by simp
    also have "\<dots> = take k src @ (drop k dst)[0 := src ! k]"
      using Suc.prems assms by (simp add: list_update_append)
    also have "drop k dst = dst ! k # drop (Suc k) dst"
      using Suc.prems assms by (intro Cons_nth_drop_Suc [symmetric]) simp
    finally show ?case
      using Suc.prems assms by (simp add: take_Suc_conv_app_nth)
  qed simp
  then show ?thesis using assms by (simp add: memcpy_def)
qed

lemma memset_eq:
  assumes "len \<le> length arr"
  shows "memset arr value len = Some (replicate len value @ drop len arr)"
proof -
  have "memset_loop arr i value n = Some (take i arr @ replicate n value @ drop (i + n) arr)"
    if "i + n \<le> length arr" for i n arr
    using that
  proof (induction n arbitrary: i arr)
    case (Suc n)
    have "take (Suc i) (arr[i := value]) = take i arr @ [value]"
      using Suc.prems by (simp add: take_Suc_conv_app_nth)
    then show ?case
      using Suc by (simp add: put_byte_def)
  qed simp
  from this [of 0 len arr] show ?thesis using assms by (simp add: memset_def)
qed

lemma strcpy_loop_eq:
  assumes "i \<le> dst_size" "dst_size < length dst" "0 \<in> set src" "i \<le> length (c_string src)"
  shows "strcpy_loop dst src dst_size i = Some (take i dst @ take (dst_size - i) (drop i (c_string src))
    @ 0 # drop (Suc (min dst_size (length (c_string src)))) dst)"
  using assms
proof (induction "dst_size - i" arbitrary: dst i)
  case 0
  then have "strcpy_loop dst src dst_size i = Some (take i dst @ 0 # drop (Suc i) dst)"
    by (subst strcpy_loop.simps) (simp add: put_byte_def upd_conv_take_nth_drop)
  with 0 show ?case by simp
next
  case (Suc d)
  note src = c_string_nth [OF Suc.prems(3)]
  have ilt: "i < dst_size" and d: "d = dst_size - (i + 1)" using Suc.hyps(2) by simp_all
  show ?case
  proof (cases "i = length (c_string src)")
    case True
    then have "strcpy_loop dst src dst_size i = Some (take i dst @ 0 # drop (Suc i) dst)"
      using Suc.prems Suc.hyps(2) src by (subst strcpy_loop.simps) (simp add: put_byte_def upd_conv_take_nth_drop)
    with True Suc show ?thesis by simp
  next
    case False
    then have i: "i < length (c_string src)" using Suc.prems by simp
    then have c: "src ! i = c_string src ! i" "src ! i \<noteq> 0" "i < length src"
      using src nth_mem [OF i] by (auto simp: c_string_def takeWhile_nth dest: set_takeWhileD)
    have step: "strcpy_loop dst src dst_size i = strcpy_loop (dst[i := src ! i]) src dst_size (i + 1)"
      using Suc.prems ilt c by (simp add: put_byte_def strcpy_loop.simps [of dst src dst_size i])
    have "strcpy_loop (dst[i := src ! i]) src dst_size (i + 1)
        = Some (take (i + 1) (dst[i := src ! i]) @ take (dst_size - (i + 1)) (drop (i + 1) (c_string src))
          @ 0 # drop (Suc (min dst_size (length (c_string src)))) (dst[i := src ! i]))"
      using d Suc.prems i ilt by (intro Suc.hyps(1)) auto
    moreover have "drop (Suc (min dst_size (length (c_string src)))) (dst[i := src ! i])
        = drop (Suc (min dst_size (length (c_string src)))) dst"
      using i ilt by (intro drop_update_cancel) simp
    moreover have "take (i + 1) (dst[i := src ! i]) = take i dst @ [c_string src ! i]"
      using Suc.prems Suc.hyps(2) by (simp add: take_Suc_conv_app_nth c)
    moreover have "take (dst_size - i) (drop i (c_string src))
        = c_string src ! i # take (dst_size - (i + 1)) (drop (i + 1) (c_string src))"
      using i Suc.hyps(2) by (simp add: Cons_nth_drop_Suc [symmetric] take_Cons' )
    ultimately show ?thesis using step by simp
  qed
qed

lemma strcpy_eq:
  assumes "dst_size < length dst" "0 \<in> set src"
  shows "strcpy dst src dst_size = Some (take dst_size (c_string src) @ 0 # drop (Suc (min dst_size (length (c_string src)))) dst)"
  using strcpy_loop_eq [of 0 dst_size dst src] assms by (simp add: strcpy_def)

lemma strcmp_zero_iff:
  assumes "0 \<in> set a" "0 \<in> set b"
  shows "\<exists>d. strcmp a b = Some d \<and> (d = 0 \<longleftrightarrow> c_string a = c_string b)"
  using assms
proof (induction a b rule: strcmp.induct)
  case (1 x a y b)
  show ?case
  proof (cases "x \<noteq> 0 \<and> x = y")
    case True
    with 1 show ?thesis by (auto simp: c_string_def)
  next
    case False
    then show ?thesis by (auto simp: c_string_def word_uint_eq_iff)
  qed
qed simp_all

lemma memcmp_never_positive: "memcmp a b n \<noteq> Some 1"
  by (induction a b n rule: memcmp.induct) auto

lemma memcmp_zero_iff:
  assumes "n \<le> length a" "n \<le> length b"
  shows "memcmp a b n = Some 0 \<longleftrightarrow> (\<forall>i < n. b ! i \<le> a ! i)"
  using assms
proof (induction a b n rule: memcmp.induct)
  case (2 x a y b n)
  have "(\<forall>i < Suc n. (y # b) ! i \<le> (x # a) ! i) \<longleftrightarrow> y \<le> x \<and> (\<forall>i < n. b ! i \<le> a ! i)"
    by (simp add: All_less_Suc2)
  with 2 show ?case by (auto simp: not_less)
qed auto


section \<open>Properties\<close>

text \<open>\<open>strcpy\<close> with a destination that has a byte to spare beyond \<open>dst_size\<close> returns, and
  the destination then holds the source string cut off after \<open>dst_size\<close> bytes; its size does not
  change.\<close>

theorem strcpy_copies:
  assumes "dst_size < length dst" "0 \<in> set src"
  shows "\<exists>dst'. strcpy dst src dst_size = Some dst' \<and> c_string dst' = take dst_size (c_string src)
    \<and> length dst' = length dst"
proof -
  obtain rest where "strcpy dst src dst_size = Some (take dst_size (c_string src) @ 0 # rest)"
    "length rest = length dst - Suc (min dst_size (length (c_string src)))"
    using strcpy_loop_eq [of 0 dst_size dst src] assms by (auto simp: strcpy_def)
  moreover have "0 \<notin> set (take dst_size (c_string src))"
    by (metis c_string_def in_set_takeD set_takeWhileD)
  ultimately show ?thesis
    using assms(1) by (auto simp: c_string_append)
qed

theorem strcpy_copies_witness:
  "\<exists>dst'. strcpy (replicate 4 9) [65, 66, 67, 68, 69, 0] 3 = Some dst'
    \<and> c_string dst' = take 3 (c_string [65, 66, 67, 68, 69, 0]) \<and> length dst' = length (replicate 4 (9 :: u8))"
  by (rule strcpy_copies) simp_all

text \<open>With \<open>dst_size\<close> the size of the destination array, as its documentation asks, \<open>strcpy\<close> of a string
  of at least that length writes the terminator one byte past the array.\<close>

theorem strcpy_overruns:
  assumes "0 \<in> set src" "length dst \<le> length (c_string src)"
  shows "strcpy dst src (length dst) = None"
proof -
  have "strcpy_loop d src (length d) i = None" if "i \<le> length d" "length d \<le> length (c_string src)" for d i
    using that
  proof (induction "length d - i" arbitrary: d i)
    case 0
    then show ?case by (subst strcpy_loop.simps) (simp add: put_byte_def)
  next
    case (Suc n)
    then have i: "i < length (c_string src)" by simp
    then have "src ! i \<noteq> 0" "i < length src"
      using nth_mem [OF i] c_string_nth(1) [OF assms(1)]
      by (auto simp: c_string_def takeWhile_nth dest: set_takeWhileD)
    moreover have "strcpy_loop (d[i := src ! i]) src (length (d[i := src ! i])) (i + 1) = None"
      using Suc.hyps(2) Suc.prems by (intro Suc.hyps(1)) simp_all
    ultimately show ?case
      using Suc.hyps(2) by (subst strcpy_loop.simps) (simp add: put_byte_def)
  qed
  then show ?thesis using assms by (simp add: strcpy_def)
qed

theorem strcpy_overruns_witness: "strcpy [9, 9] [65, 66, 67, 0] (length [9 :: u8, 9]) = None"
  by (rule strcpy_overruns) (simp_all add: c_string_def)

text \<open>\<open>strcmp\<close> of two terminated strings returns, and returns zero exactly when the strings are
  equal.\<close>

theorem strcmp_decides_equality:
  assumes "0 \<in> set a" "0 \<in> set b"
  shows "\<exists>d. strcmp a b = Some d \<and> (d = 0 \<longleftrightarrow> c_string a = c_string b)"
  using assms by (rule strcmp_zero_iff)

theorem strcmp_decides_equality_witness:
  "\<exists>d. strcmp [108, 115, 0] [108, 115, 0, 7] = Some d \<and> (d = 0 \<longleftrightarrow> c_string [108, 115, 0] = c_string [108, 115, 0, 7])"
  by (rule strcmp_decides_equality) simp_all

text \<open>\<open>memcmp\<close> never reports that the first array is greater, and reports equality as soon as no
  byte of the first is smaller than its counterpart; so it returns zero on arrays that differ.\<close>

theorem memcmp_reports_equal:
  assumes "n \<le> length a" "n \<le> length b"
  shows "(memcmp a b n = Some 0 \<longleftrightarrow> (\<forall>i < n. b ! i \<le> a ! i)) \<and> memcmp a b n \<noteq> Some 1"
  using memcmp_zero_iff [OF assms] memcmp_never_positive by blast

theorem memcmp_reports_equal_witness:
  "(memcmp [98, 46] [97, 46] 2 = Some 0 \<longleftrightarrow> (\<forall>i < 2. [97 :: u8, 46] ! i \<le> [98, 46] ! i))
    \<and> memcmp [98, 46] [97, 46] 2 \<noteq> Some 1"
  by (rule memcmp_reports_equal) simp_all

end
