(* ===== verification/Fat16.thy ===== *)
theory Fat16
  imports Ramdisk CString
begin

text \<open>
  The FAT16 file system on the ramdisk (\<open>fs/ramdisk_fat16.c\<close>): boot sector, two file allocation
  tables of 32 sectors, a root directory of which 31 entries are used, and data sectors of 512
  bytes, one per cluster. The boot record comes from an assembly file and is part of the state.
\<close>

section \<open>State and layout\<close>

text \<open>
  Three places of the code read memory that was never written: the bytes on the stack after an
  unterminated file name, the bytes after the four bytes of \<open>starting_sectors\<close>, and the fields of a
  new directory entry that are not set. Their values are arbitrary and do not change.
\<close>

record stack_garbage =
  after_name :: bytes
  after_sectors :: "nat \<Rightarrow> u8"
  in_entry :: "nat \<Rightarrow> u8"

record fat16_state = ramdisk_state +
  ramdisk_fat16_bootrecord :: bytes
  garbage :: stack_garbage

abbreviation (input) "FAT16_BYTES_PER_SECTOR \<equiv> (512 :: u32)"
abbreviation (input) "FIRST_FAT_TABLE_SECTOR \<equiv> (1 :: u32)"
abbreviation (input) "FAT16_SECTORS_PER_FAT \<equiv> (32 :: u32)"
abbreviation (input) "FIRST_ROOT_SECTOR \<equiv> (65 :: u32)"
abbreviation (input) "ROOT_DIRECTORY_SECTORS \<equiv> (32 :: nat)"
abbreviation (input) "FIRST_DATA_SECTOR \<equiv> (97 :: u32)"
abbreviation (input) "CLUSTER_COUNT \<equiv> (415 :: nat)"
abbreviation (input) "RAMDISK_FAT16_SIZE \<equiv> (4194304 :: u32)"

text \<open>
  The product \<open>SECOND_FAT_TABLE_SECTOR * FAT16_BYTES_PER_SECTOR\<close> as the preprocessor leaves it:
  the macro is a sum without parentheses.
\<close>

definition second_fat_product :: u32 where
  "second_fat_product = FIRST_FAT_TABLE_SECTOR + FAT16_SECTORS_PER_FAT * FAT16_BYTES_PER_SECTOR"

abbreviation (input) "FAT16_RAMDISK_SUCCESS \<equiv> (0 :: u32)"
abbreviation (input) "FAT16_RAMDISK_ERROR_NO_FREE_SPACE \<equiv> (2 :: u32)"
abbreviation (input) "FAT16_RAMDISK_ERROR_FILE_DOESNT_EXIST \<equiv> (3 :: u32)"
abbreviation (input) "FAT16_RAMDISK_ERROR_FILE_EXISTS \<equiv> (4 :: u32)"
abbreviation (input) "FAT16_RAMDISK_DOESNT_SUPPORT_MULTICLUSTER \<equiv> (5 :: u32)"

text \<open>A directory entry: a packed structure of 32 bytes.\<close>

record ramdisk_fat16_entry =
  entry_name :: bytes
  entry_attrib :: u8
  entry_reserved :: u8
  entry_creation_time_tenth_secs :: u8
  entry_creation_time :: u16
  entry_creation_date :: u16
  last_accessed_date :: u16
  entry_high_cluster_number :: u16
  last_mod_time :: u16
  last_mod_date :: u16
  entry_low_cluster_number :: u16
  file_size :: u32

definition bytes_of_entry :: "ramdisk_fat16_entry \<Rightarrow> bytes" where
  "bytes_of_entry e = entry_name e @ [entry_attrib e, entry_reserved e, entry_creation_time_tenth_secs e] @
     le16_bytes (entry_creation_time e) @ le16_bytes (entry_creation_date e) @ le16_bytes (last_accessed_date e) @
     le16_bytes (entry_high_cluster_number e) @ le16_bytes (last_mod_time e) @ le16_bytes (last_mod_date e) @
     le16_bytes (entry_low_cluster_number e) @ le32_bytes (file_size e)"

definition entry_of_bytes :: "bytes \<Rightarrow> ramdisk_fat16_entry" where
  "entry_of_bytes b = \<lparr>entry_name = take 11 b, entry_attrib = b ! 11, entry_reserved = b ! 12,
     entry_creation_time_tenth_secs = b ! 13, entry_creation_time = le16_of (slice 14 2 b),
     entry_creation_date = le16_of (slice 16 2 b), last_accessed_date = le16_of (slice 18 2 b),
     entry_high_cluster_number = le16_of (slice 20 2 b), last_mod_time = le16_of (slice 22 2 b),
     last_mod_date = le16_of (slice 24 2 b), entry_low_cluster_number = le16_of (slice 26 2 b),
     file_size = le32_of (slice 28 4 b)\<rparr>"

section \<open>Sectors\<close>

text \<open>The array in a local buffer; a pointer that was advanced into a buffer.\<close>

fun local_bytes :: "buffer \<Rightarrow> bytes" where
  "local_bytes (Local d) = d"
| "local_bytes (Mem a) = []"

fun buffer_off :: "buffer \<Rightarrow> nat \<Rightarrow> buffer" where
  "buffer_off (Local d) n = Local (drop n d)"
| "buffer_off (Mem a) n = Mem (a + of_nat n)"

definition write_sector :: "u32 \<Rightarrow> buffer \<Rightarrow> ('z fat16_state_scheme, u32) kM" where
  "write_sector start_sec data = ramdisk_write (start_sec * FAT16_BYTES_PER_SECTOR) data FAT16_BYTES_PER_SECTOR"

definition write_sector_partial :: "u32 \<Rightarrow> buffer \<Rightarrow> u32 \<Rightarrow> ('z fat16_state_scheme, u32) kM" where
  "write_sector_partial start_sec data len = ramdisk_write (start_sec * FAT16_BYTES_PER_SECTOR) data len"

definition read_sector :: "u32 \<Rightarrow> buffer \<Rightarrow> ('z fat16_state_scheme, u32 \<times> buffer) kM" where
  "read_sector start_sec data = ramdisk_read (start_sec * FAT16_BYTES_PER_SECTOR) data FAT16_BYTES_PER_SECTOR"

definition addr_to_sect :: "u32 \<Rightarrow> u16" where
  "addr_to_sect addr = ucast (addr div FAT16_BYTES_PER_SECTOR)"

definition addr_to_sec_offset :: "u32 \<Rightarrow> u32" where
  "addr_to_sec_offset addr = addr mod FAT16_BYTES_PER_SECTOR"

primrec find_free_cluster_loop :: "nat list \<Rightarrow> bytes \<Rightarrow> ('z fat16_state_scheme, u16) kM" where
  "find_free_cluster_loop [] current_cluster = kret 0"
| "find_free_cluster_loop (i # is) current_cluster =
     kbind (ramdisk_read (FIRST_FAT_TABLE_SECTOR * FAT16_BYTES_PER_SECTOR + of_nat (i * 2)) (Local current_cluster) 2)
       (\<lambda>(_, b). if le16_of (local_bytes b) = 0 then kret (of_nat i)
                 else find_free_cluster_loop is (local_bytes b))"

definition find_next_free_cluster :: "('z fat16_state_scheme, u16) kM" where
  "find_next_free_cluster = find_free_cluster_loop [0..<CLUSTER_COUNT] [0, 0]"

text \<open>The address of root entry \<open>i\<close>, and a structure as the stack holds it before it is filled.\<close>

definition root_addr :: "nat \<Rightarrow> u32" where
  "root_addr i = FIRST_ROOT_SECTOR * FAT16_BYTES_PER_SECTOR + of_nat (i * 32)"

definition raw_entry :: "'z fat16_state_scheme \<Rightarrow> bytes" where
  "raw_entry s = map (in_entry (garbage s)) [0..<32]"

primrec find_free_root_loop :: "nat list \<Rightarrow> bytes \<Rightarrow> ('z fat16_state_scheme, u32) kM" where
  "find_free_root_loop [] cur_root_entry = kret 0"
| "find_free_root_loop (i # is) cur_root_entry =
     kbind (ramdisk_read (root_addr i) (Local cur_root_entry) 32)
       (\<lambda>(_, b). if entry_name (entry_of_bytes (local_bytes b)) ! 0 = 0 then kret (of_nat i)
                 else find_free_root_loop is (local_bytes b))"

definition find_next_free_root_entry :: "('z fat16_state_scheme, u32) kM" where
  "find_next_free_root_entry =
     kbind (kget raw_entry) (\<lambda>cur. find_free_root_loop [1..<ROOT_DIRECTORY_SECTORS] cur)"

section \<open>Formatting\<close>

definition starting_sectors :: "'z fat16_state_scheme \<Rightarrow> bytes" where
  "starting_sectors s = [0xF8, 0xFF, 0xFF, 0xFF] @ map (after_sectors (garbage s)) [0..<508]"

definition ramdisk_fat16_format :: "('z fat16_state_scheme, unit) kM" where
  "ramdisk_fat16_format =
     (let zero_sector = replicate 512 (0 :: u8) in
      kbind (kget ramdisk_fat16_bootrecord) (\<lambda>bootrecord.
      kbind (ramdisk_write 0 (Local bootrecord) 512) (\<lambda>_.
      kseq (kfor [0..<32] (\<lambda>i.
              kbind (write_sector (FIRST_FAT_TABLE_SECTOR + of_nat i) (Local zero_sector)) (\<lambda>_.
              kbind (write_sector (FIRST_FAT_TABLE_SECTOR + FAT16_SECTORS_PER_FAT + of_nat i) (Local zero_sector)) (\<lambda>_.
              kret ()))))
     (kseq (kfor [0..<ROOT_DIRECTORY_SECTORS] (\<lambda>i.
              kbind (write_sector (FIRST_ROOT_SECTOR + of_nat i) (Local zero_sector)) (\<lambda>_. kret ())))
     (kbind (kget starting_sectors) (\<lambda>starting.
      kbind (write_sector FIRST_FAT_TABLE_SECTOR (Local starting)) (\<lambda>_.
      kbind (write_sector (FIRST_FAT_TABLE_SECTOR + FAT16_SECTORS_PER_FAT) (Local starting)) (\<lambda>_.
      kret ()))))))))"

section \<open>File names\<close>

fun native_loop :: "bool \<Rightarrow> nat \<Rightarrow> bytes \<Rightarrow> bytes \<Rightarrow> bytes \<Rightarrow> bytes \<times> bytes" where
  "native_loop proc_file_name j name ext [] = (name, ext)"
| "native_loop proc_file_name j name ext (c # raw) =
     (if c = 0 then (name, ext)
      else if proc_file_name then
        if c = 46 then native_loop False 0 name ext raw
        else if j < 8 then native_loop True (j + 1) (name[j := c]) ext raw
        else native_loop True j name ext raw
      else if j < 3 then native_loop False (j + 1) name (ext[j := c]) raw
      else native_loop False j name ext raw)"

definition ramdisk_fat16_filename_to_native :: "bytes \<Rightarrow> bytes" where
  "ramdisk_fat16_filename_to_native raw_file_name =
     (case native_loop True 0 (replicate 8 0x20) (replicate 3 0x20) raw_file_name of
        (name, ext) \<Rightarrow> name @ ext)"

section \<open>Files\<close>

primrec file_exists_loop :: "bytes \<Rightarrow> nat list \<Rightarrow> bytes \<Rightarrow> ('z fat16_state_scheme, u32) kM" where
  "file_exists_loop file_name [] cur_root_entry = kret 0"
| "file_exists_loop file_name (i # is) cur_root_entry =
     kbind (ramdisk_read (root_addr i) (Local cur_root_entry) 32)
       (\<lambda>(_, b). let entry = entry_of_bytes (local_bytes b) in
         if entry_name entry ! 0 \<noteq> 0
            \<and> memcmp (ramdisk_fat16_filename_to_native file_name) (entry_name entry) 11 = Some 0
         then kret (of_nat i)
         else file_exists_loop file_name is (local_bytes b))"

definition ramdisk_fat16_file_exists :: "bytes \<Rightarrow> ('z fat16_state_scheme, u32) kM" where
  "ramdisk_fat16_file_exists file_name =
     kbind (kget raw_entry) (\<lambda>cur. file_exists_loop file_name [1..<ROOT_DIRECTORY_SECTORS] cur)"

definition ramdisk_fat16_file_read ::
  "bytes \<Rightarrow> buffer \<Rightarrow> u16 \<Rightarrow> ('z fat16_state_scheme, u32 \<times> buffer) kM" where
  "ramdisk_fat16_file_read file_name sector_buffer sector_index =
     kbind (ramdisk_fat16_file_exists file_name) (\<lambda>root_entry_num.
     if root_entry_num = 0 then kret (FAT16_RAMDISK_ERROR_FILE_DOESNT_EXIST, sector_buffer)
     else
       kbind (kget raw_entry) (\<lambda>raw.
       kbind (ramdisk_read (root_addr (unat root_entry_num)) (Local raw) 32) (\<lambda>(_, b).
       let entry = entry_of_bytes (local_bytes b) in
       kbind (kget (\<lambda>s. after_name (garbage s))) (\<lambda>tail_bytes.
       kseq (printf (cstr ''ramdisk_fat16_file_read: Reading file %s on cluster %x\<newline>'')
               [ArgStr (local_bytes b @ tail_bytes), ArgInt (ucast (entry_low_cluster_number entry))])
      (kbind (read_sector (FIRST_DATA_SECTOR + ucast (entry_low_cluster_number entry)) sector_buffer)
         (\<lambda>(_, sector_buffer).
       if sector_index \<noteq> 0 then kret (FAT16_RAMDISK_DOESNT_SUPPORT_MULTICLUSTER, sector_buffer)
       else kret (FAT16_RAMDISK_SUCCESS, sector_buffer)))))))"

text \<open>The two writes of a FAT entry; the value is stored byte-swapped.\<close>

definition write_fat :: "u16 \<Rightarrow> u16 \<Rightarrow> ('z fat16_state_scheme, unit) kM" where
  "write_fat sector value =
     kbind (ramdisk_write (FIRST_FAT_TABLE_SECTOR * FAT16_BYTES_PER_SECTOR + ucast sector * 2)
              (Local (le16_bytes (eswap_uint16 value))) 2) (\<lambda>_.
     kbind (ramdisk_write (second_fat_product + ucast sector * 2)
              (Local (le16_bytes (eswap_uint16 value))) 2) (\<lambda>_.
     kret ()))"

text \<open>
  The loop over the full sectors; it returns the last sector, the data pointer and the number of
  bytes left. Each turn takes 512 bytes off.
\<close>

primrec file_write_loop ::
  "nat \<Rightarrow> buffer \<Rightarrow> u16 \<Rightarrow> nat \<Rightarrow> u32 \<Rightarrow> ('z fat16_state_scheme, u16 \<times> nat \<times> u32) kM" where
  "file_write_loop 0 data current_sector pointer left = khang"
| "file_write_loop (Suc fuel) data current_sector pointer left =
     (if left > 512 then
        kseq (printf (cstr ''ramdisk_fat16_file_write: Writing complete data to sector %x\<newline>'')
                [ArgInt (ucast current_sector)])
       (kbind (write_sector (FIRST_DATA_SECTOR + ucast current_sector) (buffer_off data pointer)) (\<lambda>_.
        kbind find_next_free_cluster (\<lambda>next_sector.
        kseq (if next_sector = 0 then
                kseq (printf (cstr ''ramdisk_fat16_file_write: no way to undo partial write\<newline>'') [])
                     (panic ''ramdisk_fat16_file_write: cannot undo partial write!\<newline>'')
              else kret ())
       (kseq (write_fat current_sector next_sector)
             (file_write_loop fuel data next_sector (pointer + 512) (left - 512))))))
      else kret (current_sector, pointer, left))"

definition ramdisk_fat16_file_write ::
  "bytes \<Rightarrow> buffer \<Rightarrow> u32 \<Rightarrow> ('z fat16_state_scheme, u32) kM" where
  "ramdisk_fat16_file_write file_name data data_size =
     (let native_file_name = ramdisk_fat16_filename_to_native file_name in
      kbind (kget (\<lambda>s. after_name (garbage s))) (\<lambda>tail_bytes.
      kseq (printf (cstr ''ramdisk_fat16_file_write: Writing file %s\<newline>'') [ArgStr (native_file_name @ tail_bytes)])
     (kbind (ramdisk_fat16_file_exists file_name) (\<lambda>exists.
      if exists \<noteq> 0 then kret FAT16_RAMDISK_ERROR_FILE_EXISTS
      else
        kbind (kget raw_entry) (\<lambda>raw.
        let new_entry = (entry_of_bytes raw)\<lparr>entry_name := native_file_name, entry_attrib := 0,
              entry_reserved := 0, file_size := data_size\<rparr> in
        kbind find_next_free_cluster (\<lambda>head_sector.
        if head_sector = 0 then kret FAT16_RAMDISK_ERROR_NO_FREE_SPACE
        else
          kbind (file_write_loop (Suc (unat data_size)) data head_sector 0 data_size)
            (\<lambda>(current_sector, pointer, left).
          kseq (if left > 0 then
                  kseq (printf (cstr ''ramdisk_fat16_file_write: Writing %d bytes data to sector %x\<newline>'')
                          [ArgInt left, ArgInt (ucast current_sector)])
                 (kbind (write_sector_partial (FIRST_DATA_SECTOR + ucast current_sector)
                           (buffer_off data pointer) left) (\<lambda>_. kret ()))
                else kret ())
         (kseq (write_fat current_sector 0xFFF8)
         (let new_entry = new_entry\<lparr>entry_low_cluster_number := head_sector\<rparr> in
          kbind find_next_free_root_entry (\<lambda>root.
          let new_root_entry = (ucast root :: u16) in
          kseq (printf (cstr ''ramdisk_fat16_file_write: writing %s to root entry number %d\<newline>'')
                  [ArgStr (bytes_of_entry new_entry @ tail_bytes), ArgInt (ucast new_root_entry)])
         (kbind (ramdisk_write (root_addr (unat new_root_entry)) (Local (bytes_of_entry new_entry)) 32) (\<lambda>_.
          kret 0))))))))))))"

section \<open>Information, creation and destruction\<close>

primrec count_free_loop :: "nat list \<Rightarrow> bytes \<Rightarrow> u16 \<Rightarrow> ('z fat16_state_scheme, u16) kM" where
  "count_free_loop [] current_cluster free_clusters = kret free_clusters"
| "count_free_loop (i # is) current_cluster free_clusters =
     kbind (ramdisk_read (FIRST_FAT_TABLE_SECTOR * FAT16_BYTES_PER_SECTOR + of_nat (i * 2)) (Local current_cluster) 2)
       (\<lambda>(_, b). count_free_loop is (local_bytes b)
         (if le16_of (local_bytes b) = 0 then free_clusters + 1 else free_clusters))"

primrec list_files_loop :: "nat list \<Rightarrow> bytes \<Rightarrow> ('z fat16_state_scheme, unit) kM" where
  "list_files_loop [] cur_root_entry = kret ()"
| "list_files_loop (i # is) cur_root_entry =
     kbind (ramdisk_read (root_addr i) (Local cur_root_entry) 32) (\<lambda>(_, b).
     let entry = entry_of_bytes (local_bytes b) in
     kbind (kget (\<lambda>s. after_name (garbage s))) (\<lambda>tail_bytes.
     kseq (if entry_name entry ! 0 \<noteq> 0
           then printf (cstr ''File %d: %s | Size: %d bytes | Cluster: %d\<newline>'')
                  [ArgInt (of_nat i), ArgStr (local_bytes b @ tail_bytes), ArgInt (file_size entry),
                   ArgInt (ucast (entry_low_cluster_number entry))]
           else kret ())
          (list_files_loop is (local_bytes b))))"

definition ramdisk_fat16_list_info :: "('z fat16_state_scheme, unit) kM" where
  "ramdisk_fat16_list_info =
     kseq (printf (cstr ''Filesize of FAT16 Ramdisk: %d MB\<newline>'') [ArgInt (RAMDISK_FAT16_SIZE div 1024 div 1024)])
    (kseq (printf (cstr ''Total Sectors: %d | Bytes per Cluster: %d\<newline>'') [ArgInt 512, ArgInt 512])
    (kseq (printf (cstr ''FAT Sectors: %d | Root Sectors: %d | Data Clusters: %d\<newline>'')
             [ArgInt 1, ArgInt (of_nat ROOT_DIRECTORY_SECTORS), ArgInt (of_nat CLUSTER_COUNT)])
    (kbind (count_free_loop [0..<CLUSTER_COUNT] [0, 0] 0) (\<lambda>free_clusters.
     kseq (printf (cstr ''Used Clusters : %d | Free Clusters %d\<newline>'')
             [ArgInt (of_nat CLUSTER_COUNT - ucast free_clusters), ArgInt (ucast free_clusters)])
    (kseq (printf (cstr ''\<newline>===File List===\<newline>'') [])
    (kbind (kget raw_entry) (\<lambda>raw.
     kseq (list_files_loop [0..<ROOT_DIRECTORY_SECTORS] raw)
          (printf (cstr ''\<newline>'') []))))))))"

definition ramdisk_fat16_init :: "('z fat16_state_scheme, unit) kM" where
  "ramdisk_fat16_init =
     kbind (kget ramdisk_fat16_bootrecord) (\<lambda>bootrecord.
     kseq (if bootrecord ! 510 \<noteq> 0x55 \<or> bootrecord ! 511 \<noteq> 0xAA then
             kseq (printf (cstr ''Magic number shown is: %x'')
                     [ArgInt (push_bit 8 (ucast (bootrecord ! 510)) OR ucast (bootrecord ! 511))])
                  (panic ''Invalid FAT16 magic number in bootloader!'')
           else kret ())
    (kseq (printf (cstr ''ramdisk_fat16_init: First Root Sec: %x | Root Dir Sectors: %x\<newline>'')
             [ArgInt FIRST_ROOT_SECTOR, ArgInt (of_nat ROOT_DIRECTORY_SECTORS)])
    (kseq (printf (cstr ''ramdisk_fat16_init: First Data Sec: %x | Cluster Count: %x\<newline>'')
             [ArgInt FIRST_DATA_SECTOR, ArgInt (of_nat CLUSTER_COUNT)])
    (kseq (ramdisk_init RAMDISK_FAT16_SIZE)
    (kseq ramdisk_fat16_format
    (kbind (kget raw_entry) (\<lambda>raw.
     kbind (ramdisk_read 512 (Local (take 2 raw)) 2) (\<lambda>(_, first_cluster).
     printf (cstr ''ramdisk_fat16_init: First Cluster Values: %x \<newline>'')
       [ArgInt (push_bit 8 (ucast (local_bytes first_cluster ! 1)) OR ucast (local_bytes first_cluster ! 0))]))))))))"

definition ramdisk_fat16_destroy :: "('z fat16_state_scheme, unit) kM" where
  "ramdisk_fat16_destroy = ramdisk_destroy"


section \<open>The invariant and what file operations leave alone\<close>

text \<open>
  The disk has the 512 sectors the layout needs, the console works, and no stream buffer lies in
  one of the disk's pages.
\<close>

definition fat16_ok :: "'z fat16_state_scheme \<Rightarrow> bool" where
  "fat16_ok s \<longleftrightarrow> ramdisk_ok s \<and> stdio_ok s \<and> is_init (std_output_buf s)
     \<and> serial_responsive (hw_byte s) PORT_COM1 \<and> 262144 \<le> length (disk s)
     \<and> (\<forall>i. is_init (std_buf i s) \<longrightarrow> b_addr (std_buf i s) \<notin> disk_pages s)"

definition fs_same :: "'z fat16_state_scheme \<Rightarrow> 'z fat16_state_scheme \<Rightarrow> bool" where
  "fs_same s s' \<longleftrightarrow> (\<exists>v l m b. s' = s\<lparr>vidmem := v, io_log := l, mem := m, std_output_buf := b\<rparr>)
     \<and> b_addr (std_output_buf s') = b_addr (std_output_buf s) \<and> disk_table s' = disk_table s
     \<and> used_pages s' = used_pages s \<and> pmem_pages s' = pmem_pages s \<and> stream StdInput s' = stream StdInput s
     \<and> (\<forall>a. page_of a \<noteq> b_addr (std_output_buf s) \<longrightarrow> page_of a \<notin> set (disk_table s) \<longrightarrow> mem s' a = mem s a)"

lemma fat16_okD:
  assumes "fat16_ok s"
  shows "ramdisk_ok s" "stdio_ok s" "is_init (std_output_buf s)" "console_ok s" "262144 \<le> length (disk s)"
    "\<And>i. is_init (std_buf i s) \<Longrightarrow> b_addr (std_buf i s) \<notin> disk_pages s"
    "b_addr (std_output_buf s) \<notin> disk_pages s"
  using assms by (auto simp: fat16_ok_def console_ok_def dest: spec [of _ StdOutput])

lemma fs_same_refl [simp]: "fs_same s s"
proof -
  have "s = s\<lparr>vidmem := vidmem s, io_log := io_log s, mem := mem s, std_output_buf := std_output_buf s\<rparr>" by simp
  then have "\<exists>v l m b. s = s\<lparr>vidmem := v, io_log := l, mem := m, std_output_buf := b\<rparr>" by blast
  then show ?thesis by (simp add: fs_same_def)
qed

lemma fs_same_trans:
  assumes "fs_same s t" "fs_same t u"
  shows "fs_same s u"
proof -
  obtain v l m b where t: "t = s\<lparr>vidmem := v, io_log := l, mem := m, std_output_buf := b\<rparr>"
    using assms(1) by (auto simp: fs_same_def)
  obtain v' l' m' b' where "u = t\<lparr>vidmem := v', io_log := l', mem := m', std_output_buf := b'\<rparr>"
    using assms(2) unfolding fs_same_def by blast
  then have "u = s\<lparr>vidmem := v', io_log := l', mem := m', std_output_buf := b'\<rparr>" by (simp add: t)
  then have "\<exists>v l m b. u = s\<lparr>vidmem := v, io_log := l, mem := m, std_output_buf := b\<rparr>" by blast
  then show ?thesis using assms unfolding fs_same_def by metis
qed

lemma fs_same_fields:
  assumes "fs_same s s'"
  shows "garbage s' = garbage s" "ramdisk_fat16_bootrecord s' = ramdisk_fat16_bootrecord s" "slabs s' = slabs s"
    "raw_entry s' = raw_entry s"
proof -
  obtain v l m b where "s' = s\<lparr>vidmem := v, io_log := l, mem := m, std_output_buf := b\<rparr>"
    using assms by (auto simp: fs_same_def)
  then show "garbage s' = garbage s" "ramdisk_fat16_bootrecord s' = ramdisk_fat16_bootrecord s" "slabs s' = slabs s"
    "raw_entry s' = raw_entry s"
    by (simp_all add: raw_entry_def)
qed

text \<open>Printing does not touch the disk, and writing to the disk does not touch the console.\<close>

lemma fs_print_frame:
  assumes "fat16_ok s" "console_frame s s'"
  shows "fat16_ok s'" "fs_same s s'" "disk s' = disk s"
proof -
  note d = fat16_okD [OF assms(1)]
  note c = console_frameD [OF assms(2)]
  obtain v l m b where s': "s' = s\<lparr>vidmem := v, io_log := l, mem := m, std_output_buf := b\<rparr>"
    using assms(2) by (auto simp: console_frame_def)
  have out: "m a = mem s a" if "page_of a \<noteq> b_addr (std_output_buf s)" for a using c(1) [OF that] by (simp add: s')
  have m: "m a = mem s a" if "page_of a \<in> disk_pages s" for a using out that d(7) by metis
  have pg: "m a = mem s a" if "page_of a \<notin> pmem_pages s" for a
  proof -
    have "b_addr (std_output_buf s) \<in> pmem_pages s"
      using buf_ok_ready(2) [OF d(2), of StdOutput] d(3) pm.used_pages [OF stdio_okD(1) [OF d(2)]] by auto
    then show ?thesis using out that by metis
  qed
  have tab: "disk_table s' = disk_table s" "disk_blocks s' = disk_blocks s" "ramdisk_block_pointers s' = ramdisk_block_pointers s"
    using ramdisk_write_frame(2) [OF d(1), of m] m pg
    by (simp_all add: s' disk_pages_def disk_table_def disk_blocks_def)
  then have "disk_addr s' = disk_addr s" by (simp add: disk_addr_def fun_eq_iff)
  then show disk: "disk s' = disk s"
    using disk_addr_page(2) [OF d(1)] m by (simp add: disk_def tab(2)) (simp add: s' disk_pages_def)
  have st: "stdio_ok s'" by (rule c(9) [OF d(2)])
  have "ramdisk_ok s'"
    using d(1) stdio_okD(1) [OF st] by (simp add: ramdisk_ok_def disk_pages_def tab c)
  moreover have "b_addr (std_buf i s') \<notin> disk_pages s'" if "is_init (std_buf i s')" for i
    using d(6) [of i] that c(3,4) by (cases i) (simp_all add: disk_pages_def tab, simp_all add: s')
  ultimately show "fat16_ok s'"
    using d st c(4) disk console_frame_hw(1) [OF assms(2)] assms(1) by (simp add: fat16_ok_def)
  have "\<exists>v l m b. s' = s\<lparr>vidmem := v, io_log := l, mem := m, std_output_buf := b\<rparr>" using s' by blast
  then show "fs_same s s'" using c tab by (simp add: fs_same_def)
qed

lemma fs_disk_frame:
  assumes "fat16_ok s" "disk_same s s'" "length (disk s') = length (disk s)"
  shows "fat16_ok s'" "fs_same s s'"
proof -
  note d = fat16_okD [OF assms(1)]
  obtain m where s': "s' = s\<lparr>mem := m\<rparr>" and r: "ramdisk_ok s'" "disk_table s' = disk_table s"
     "used_pages s' = used_pages s" "pmem_pages s' = pmem_pages s"
    and m: "\<And>a. page_of a \<notin> set (disk_table s) \<Longrightarrow> m a = mem s a"
    using assms(2) d(1) unfolding disk_same_def by blast
  have tab: "set (disk_table s) \<subseteq> disk_pages s" "set (disk_table s) \<subseteq> pmem_pages s"
    using ramdisk_okD(5) [OF d(1)] pm.used_pages [OF ramdisk_okD(1) [OF d(1)]] by (auto simp: disk_pages_def)
  have pg: "m a = mem s a" if "page_of a \<notin> pmem_pages s" for a using m that tab(2) by blast
  have bf: "m a = mem s a" if "is_init (std_buf i s)" "page_of a = b_addr (std_buf i s)" for i a
    using m that tab(1) d(6) by (metis subsetD)
  have st: "stdio_ok s'" "stream i s' = stream i s" for i
    unfolding s' using stdio_write_frame [OF d(2), of m] pg bf by blast+
  show "fat16_ok s'"
    using st(1) r(1) d assms(1,3) by (simp add: fat16_ok_def disk_pages_def r(2)) (simp add: s')
  have "s' = s\<lparr>vidmem := vidmem s, io_log := io_log s, mem := m, std_output_buf := std_output_buf s\<rparr>" by (simp add: s')
  then have "\<exists>v l m b. s' = s\<lparr>vidmem := v, io_log := l, mem := m, std_output_buf := b\<rparr>" by blast
  then show "fs_same s s'" using r st(2) m by (simp add: fs_same_def) (simp add: s')
qed

lemma wp_fs_print:
  assumes "fat16_ok s" "render format args \<noteq> None"
    and "\<And>s'. fat16_ok s' \<Longrightarrow> fs_same s s' \<Longrightarrow> disk s' = disk s \<Longrightarrow> Q () s'"
  shows "wp (printf (cstr format) args) Q s"
  by (rule wp_printf_frame [OF fat16_okD(4) [OF assms(1)] assms(2)], rule assms(3))
    (rule fs_print_frame [OF assms(1)], assumption)+

lemma wp_fs_write:
  assumes "fat16_ok s" "unat start + unat n \<le> length (disk s)" "unat n \<le> length d"
    and "\<And>s'. fat16_ok s' \<Longrightarrow> fs_same s s' \<Longrightarrow> disk s' = overwrite (unat start) (take (unat n) d) (disk s) \<Longrightarrow> Q 0 s'"
  shows "wp (ramdisk_write start (Local d) n) Q s"
proof (rule wp_mono [OF rd.write_ok [OF fat16_okD(1) [OF assms(1)] assms(2,3)]])
  fix r :: u32 and s'
  assume w: "r = 0 \<and> ramdisk_ok s' \<and> disk_same s s' \<and> disk s' = overwrite (unat start) (take (unat n) d) (disk s)"
  then have "length (disk s') = length (disk s)"
    using length_overwrite [of "unat start" "take (unat n) d" "disk s"] assms(2,3) by (simp only: length_take min_absorb2)
  then show "Q r s'" using w assms(4) fs_disk_frame [OF assms(1), of s'] by blast
qed

lemma fs_read:
  assumes "fat16_ok s" "unat start + unat n \<le> 262144" "unat n \<le> length d"
  shows "ramdisk_read start (Local d) n s = Ok (0, Local (slice (unat start) (unat n) (disk s) @ drop (unat n) d)) s"
  using rd.read_ok [OF fat16_okD(1) [OF assms(1)], of start n d] fat16_okD(5) [OF assms(1)] assms(2,3) by simp


section \<open>The file system as the disk holds it\<close>

text \<open>Entry \<open>i\<close> of the first allocation table, root entry \<open>i\<close>, and the data of a cluster.\<close>

definition fat_at :: "bytes \<Rightarrow> nat \<Rightarrow> u16" where
  "fat_at d i = le16_of (slice (512 + 2 * i) 2 d)"

definition root_bytes :: "bytes \<Rightarrow> nat \<Rightarrow> bytes" where
  "root_bytes d i = slice (33280 + 32 * i) 32 d"

definition cluster_data :: "bytes \<Rightarrow> nat \<Rightarrow> bytes" where
  "cluster_data d c = slice (512 * (97 + c)) 512 d"

definition root_free :: "bytes \<Rightarrow> nat \<Rightarrow> bool" where
  "root_free d i \<longleftrightarrow> root_bytes d i ! 0 = 0"

text \<open>What the code accepts as the entry of a file: see \<open>memcmp\<close>.\<close>

definition root_match :: "bytes \<Rightarrow> bytes \<Rightarrow> nat \<Rightarrow> bool" where
  "root_match file_name d i \<longleftrightarrow> \<not> root_free d i
     \<and> (\<forall>j < 11. root_bytes d i ! j \<le> ramdisk_fat16_filename_to_native file_name ! j)"

text \<open>The first index that satisfies a test, or zero.\<close>

definition first_or_zero :: "(nat \<Rightarrow> bool) \<Rightarrow> nat list \<Rightarrow> nat" where
  "first_or_zero P xs = (case find P xs of None \<Rightarrow> 0 | Some i \<Rightarrow> i)"

lemma first_or_zero_simps [simp]:
  "first_or_zero P [] = 0"
  "first_or_zero P (x # xs) = (if P x then x else first_or_zero P xs)"
  by (simp_all add: first_or_zero_def)

lemma first_or_zero_range: "first_or_zero P xs = 0 \<or> first_or_zero P xs \<in> set xs \<and> P (first_or_zero P xs)"
  by (induction xs) auto

lemma first_or_zero_hit: "x \<in> set xs \<Longrightarrow> P x \<Longrightarrow> 0 \<notin> set xs \<or> \<not> P 0 \<Longrightarrow> first_or_zero P xs \<noteq> 0"
  by (induction xs) (auto intro: gr0I)

lemma first_or_zero_cong: "(\<And>x. x \<in> set xs \<Longrightarrow> P x = R x) \<Longrightarrow> first_or_zero P xs = first_or_zero R xs"
  by (induction xs) auto

lemma first_or_zero_append:
  "first_or_zero P (xs @ ys) = (if \<exists>x \<in> set xs. P x then first_or_zero P xs else first_or_zero P ys)"
  by (induction xs) auto

lemma first_or_zero_none: "0 \<notin> set xs \<Longrightarrow> first_or_zero P xs = 0 \<longleftrightarrow> (\<forall>x \<in> set xs. \<not> P x)"
  by (induction xs) auto

lemma length_filename_to_native [simp]: "length (ramdisk_fat16_filename_to_native f) = 11"
proof -
  have "length (fst (native_loop p j n e f)) = length n \<and> length (snd (native_loop p j n e f)) = length e" for p j n e
    by (induction p j n e f rule: native_loop.induct) auto
  from this [of True 0 "replicate 8 0x20" "replicate 3 0x20"] show ?thesis
    by (simp add: ramdisk_fat16_filename_to_native_def case_prod_beta)
qed

section \<open>The searches\<close>

lemma unat_root_addr: "i < 32 \<Longrightarrow> unat (root_addr i) = 33280 + 32 * i"
  by (simp add: root_addr_def word_facts)

lemma unat_fat_addr: "i < 415 \<Longrightarrow> unat (512 + of_nat (i * 2) :: u32) = 512 + 2 * i"
  by (simp add: word_facts del: of_nat_mult)

lemma read_root:
  assumes "fat16_ok s" "i < 32" "length cur = 32"
  shows "ramdisk_read (root_addr i) (Local cur) 32 s = Ok (0, Local (root_bytes (disk s) i)) s"
  using fs_read [OF assms(1), of "root_addr i" 32 cur] assms(2,3) by (simp add: unat_root_addr root_bytes_def)

lemma length_root_bytes: "fat16_ok s \<Longrightarrow> i < 32 \<Longrightarrow> length (root_bytes (disk s) i) = 32"
  using fat16_okD(5) [of s] unfolding root_bytes_def by (intro length_slice) simp

lemma entry_name_first: "length b = 32 \<Longrightarrow> entry_name (entry_of_bytes b) ! 0 = b ! 0"
  by (simp add: entry_of_bytes_def)

lemma find_free_cluster_loop_Ok:
  assumes "fat16_ok s" "length cur = 2" "set xs \<subseteq> {0..<415}"
  shows "find_free_cluster_loop xs cur s = Ok (of_nat (first_or_zero (\<lambda>i. fat_at (disk s) i = 0) xs)) s"
  using assms(2,3)
proof (induction xs arbitrary: cur)
  case (Cons i xs)
  have i: "i < 415" using Cons.prems by simp
  have len: "length (slice (512 + 2 * i) 2 (disk s)) = 2"
    using fat16_okD(5) [OF assms(1)] i by (intro length_slice) simp
  have "ramdisk_read (512 + of_nat (i * 2)) (Local cur) 2 s = Ok (0, Local (slice (512 + 2 * i) 2 (disk s))) s"
    using fs_read [OF assms(1), of "512 + of_nat (i * 2)" 2 cur] i Cons.prems(1) unat_fat_addr [OF i] by simp
  then show ?case
    using Cons.IH [OF len] Cons.prems(2) by (simp add: kbind_def kret_def fat_at_def)
qed (simp add: kret_def)

lemma find_next_free_cluster_Ok:
  assumes "fat16_ok s"
  shows "find_next_free_cluster s = Ok (of_nat (first_or_zero (\<lambda>i. fat_at (disk s) i = 0) [0..<415])) s"
  unfolding find_next_free_cluster_def by (rule find_free_cluster_loop_Ok [OF assms]) auto

lemma find_free_root_loop_Ok:
  assumes "fat16_ok s" "length cur = 32" "set xs \<subseteq> {0..<32}"
  shows "find_free_root_loop xs cur s = Ok (of_nat (first_or_zero (root_free (disk s)) xs)) s"
  using assms(2,3)
proof (induction xs arbitrary: cur)
  case (Cons i xs)
  then show ?case
    using read_root [OF assms(1), of i cur] length_root_bytes [OF assms(1), of i]
    by (simp add: kbind_def kret_def root_free_def entry_name_first)
qed (simp add: kret_def)

lemma length_raw_entry [simp]: "length (raw_entry s) = 32"
  by (simp add: raw_entry_def)

lemma find_next_free_root_entry_Ok:
  assumes "fat16_ok s"
  shows "find_next_free_root_entry s = Ok (of_nat (first_or_zero (root_free (disk s)) [1..<32])) s"
  unfolding find_next_free_root_entry_def using find_free_root_loop_Ok [OF assms, of "raw_entry s" "[1..<32]"] by simp

lemma file_exists_loop_Ok:
  assumes "fat16_ok s" "length cur = 32" "set xs \<subseteq> {0..<32}"
  shows "file_exists_loop f xs cur s = Ok (of_nat (first_or_zero (root_match f (disk s)) xs)) s"
  using assms(2,3)
proof (induction xs arbitrary: cur)
  case (Cons i xs)
  let ?b = "root_bytes (disk s) i"
  have len: "length ?b = 32" using length_root_bytes [OF assms(1)] Cons.prems by simp
  have "memcmp (ramdisk_fat16_filename_to_native f) (entry_name (entry_of_bytes ?b)) 11 = Some 0
      \<longleftrightarrow> (\<forall>j < 11. ?b ! j \<le> ramdisk_fat16_filename_to_native f ! j)"
    using memcmp_zero_iff [of 11 "ramdisk_fat16_filename_to_native f" "take 11 ?b"] len by (simp add: entry_of_bytes_def)
  then show ?case
    using Cons read_root [OF assms(1), of i cur] len
    by (auto simp: kbind_def kret_def Let_def root_match_def root_free_def entry_name_first)
qed (simp add: kret_def)

lemma file_exists_Ok:
  assumes "fat16_ok s"
  shows "ramdisk_fat16_file_exists f s = Ok (of_nat (first_or_zero (root_match f (disk s)) [1..<32])) s"
  unfolding ramdisk_fat16_file_exists_def using file_exists_loop_Ok [OF assms, of "raw_entry s" "[1..<32]"] by simp

end
