(* ===== verification/Fat16_Files.thy ===== *)
theory Fat16_Files
  imports Fat16
begin

text \<open>
  What the file system does as a whole: formatting, writing a file, reading it back, and where the
  code falls short of that.
\<close>

section \<open>Directory entries and file names\<close>

lemma slice_append_right: "length xs \<le> a \<Longrightarrow> slice a n (xs @ ys) = slice (a - length xs) n ys"
  by (simp add: slice_def)

lemma length_bytes_of_entry: "length (entry_name e) = 11 \<Longrightarrow> length (bytes_of_entry e) = 32"
  by (simp add: bytes_of_entry_def)

lemma entry_roundtrip:
  assumes "length (entry_name e) = 11"
  shows "entry_of_bytes (bytes_of_entry e) = e"
proof -
  have "le16_of (slice 14 2 (bytes_of_entry e)) = entry_creation_time e"
    "le16_of (slice 16 2 (bytes_of_entry e)) = entry_creation_date e"
    "le16_of (slice 18 2 (bytes_of_entry e)) = last_accessed_date e"
    "le16_of (slice 20 2 (bytes_of_entry e)) = entry_high_cluster_number e"
    "le16_of (slice 22 2 (bytes_of_entry e)) = last_mod_time e"
    "le16_of (slice 24 2 (bytes_of_entry e)) = last_mod_date e"
    "le16_of (slice 26 2 (bytes_of_entry e)) = entry_low_cluster_number e"
    "le32_of (slice 28 4 (bytes_of_entry e)) = file_size e"
    using assms unfolding bytes_of_entry_def
    by (simp_all add: slice_append_right)
      (simp_all add: slice_def le16_bytes_def le32_bytes_def
        le16_roundtrip [unfolded le16_bytes_def] le32_roundtrip [unfolded le32_bytes_def])
  moreover have "bytes_of_entry e ! 11 = entry_attrib e" "bytes_of_entry e ! 12 = entry_reserved e"
    "bytes_of_entry e ! 13 = entry_creation_time_tenth_secs e" "take 11 (bytes_of_entry e) = entry_name e"
    using assms by (simp_all add: bytes_of_entry_def nth_append)
  ultimately show ?thesis by (simp add: entry_of_bytes_def)
qed

text \<open>A native name never starts with the byte that marks a free entry.\<close>

lemma native_first: "ramdisk_fat16_filename_to_native f ! 0 \<noteq> 0"
proof -
  have "fst (native_loop p j n e f) ! 0 \<noteq> 0 \<and> length (fst (native_loop p j n e f)) = 8"
    if "length n = 8" "n ! 0 \<noteq> 0" for p j n e
    using that by (induction p j n e f rule: native_loop.induct) (auto simp: nth_list_update)
  from this [of "replicate 8 0x20" True 0 "replicate 3 0x20"] show ?thesis
    by (auto simp: ramdisk_fat16_filename_to_native_def case_prod_beta nth_append)
qed

text \<open>Filling a blank-padded field from position \<open>j\<close> on.\<close>

definition fill_field :: "nat \<Rightarrow> bytes \<Rightarrow> bytes \<Rightarrow> bytes" where
  "fill_field j field cs = take (length field) (take j field @ cs @ drop (j + length cs) field)"

lemma fill_field_Nil: "j \<le> length field \<Longrightarrow> fill_field j field [] = field"
  by (simp add: fill_field_def)

lemma fill_field_full: "fill_field (length field) field cs = field"
  by (simp add: fill_field_def)

lemma fill_field_Cons:
  assumes "j < length field"
  shows "fill_field j field (c # cs) = fill_field (Suc j) (field[j := c]) cs"
  using assms by (simp add: fill_field_def take_Suc_conv_app_nth)

lemma native_loop_name:
  assumes "length name = 8" "j \<le> 8" "0 \<notin> set base" "46 \<notin> set base"
  shows "native_loop True j name ext (base @ rest) = native_loop True (min 8 (j + length base)) (fill_field j name base) ext rest"
  using assms
proof (induction base arbitrary: j name)
  case Nil
  then show ?case by (simp add: fill_field_Nil)
next
  case (Cons c base)
  show ?case
  proof (cases "j < 8")
    case True
    then show ?thesis using Cons by (simp add: fill_field_Cons)
  next
    case False
    then have "j = length name" using Cons.prems by simp
    then show ?thesis using Cons.prems Cons.IH [of name 8] fill_field_full [of name] by simp
  qed
qed

lemma native_loop_ext:
  assumes "length ext = 3" "j \<le> 3" "0 \<notin> set cs"
  shows "native_loop False j name ext (cs @ rest) = native_loop False (min 3 (j + length cs)) name (fill_field j ext cs) rest"
  using assms
proof (induction cs arbitrary: j ext)
  case Nil
  then show ?case by (simp add: fill_field_Nil)
next
  case (Cons c cs)
  show ?case
  proof (cases "j < 3")
    case True
    then show ?thesis using Cons by (simp add: fill_field_Cons)
  next
    case False
    then have "j = length ext" using Cons.prems by simp
    then show ?thesis using Cons.prems Cons.IH [of ext 3] fill_field_full [of ext] by simp
  qed
qed

section \<open>Writing a file\<close>

lemma overwrite_nil [simp]: "overwrite a [] xs = xs"
  by (simp add: overwrite_def)

lemma wp_file_exists:
  "fat16_ok s \<Longrightarrow> Q (of_nat (first_or_zero (root_match f (disk s)) [1..<32])) s \<Longrightarrow> wp (ramdisk_fat16_file_exists f) Q s"
  using file_exists_Ok by (rule wpI)

lemma wp_find_cluster:
  "fat16_ok s \<Longrightarrow> Q (of_nat (first_or_zero (\<lambda>i. fat_at (disk s) i = 0) [0..<415])) s \<Longrightarrow> wp find_next_free_cluster Q s"
  using find_next_free_cluster_Ok by (rule wpI)

lemma wp_find_root:
  "fat16_ok s \<Longrightarrow> Q (of_nat (first_or_zero (root_free (disk s)) [1..<32])) s \<Longrightarrow> wp find_next_free_root_entry Q s"
  using find_next_free_root_entry_Ok by (rule wpI)

text \<open>The effect of \<open>write_fat\<close> on the disk: two bytes in the first table, and two bytes at an odd place.\<close>

definition fat_written :: "nat \<Rightarrow> u16 \<Rightarrow> bytes \<Rightarrow> bytes" where
  "fat_written c v d = overwrite (16385 + 2 * c) (le16_bytes (eswap_uint16 v))
     (overwrite (512 + 2 * c) (le16_bytes (eswap_uint16 v)) d)"

lemma length_fat_written: "c < 415 \<Longrightarrow> 262144 \<le> length d \<Longrightarrow> length (fat_written c v d) = length d"
  by (simp add: fat_written_def)

lemma unat_of_nat_u16: "n < 65536 \<Longrightarrow> unat (of_nat n :: u16) = n"
  by (simp add: unat_of_nat)

lemma unat_ucast_small: "c < 65536 \<Longrightarrow> unat (ucast (of_nat c :: u16) :: u32) = c"
  by (simp add: unsigned_ucast_eq unat_of_nat take_bit_nat_eq_self)

lemma wp_write_fat:
  assumes "fat16_ok s" "c < 415"
    and "\<And>s'. fat16_ok s' \<Longrightarrow> fs_same s s' \<Longrightarrow> disk s' = fat_written c v (disk s) \<Longrightarrow> Q () s'"
  shows "wp (write_fat (of_nat c) v) Q s"
proof -
  have a: "unat (FIRST_FAT_TABLE_SECTOR * 512 + ucast (of_nat c :: u16) * 2) = 512 + 2 * c"
    "unat (second_fat_product + ucast (of_nat c :: u16) * 2) = 16385 + 2 * c"
    using assms(2) unat_ucast_small [of c] by (simp_all add: second_fat_product_def word_facts)
  note len = fat16_okD(5)
  show ?thesis
    unfolding write_fat_def wp_kbind wp_kret
  proof (rule wp_fs_write [OF assms(1)])
    fix t
    assume t: "fat16_ok t" "fs_same s t" "disk t = overwrite (unat (FIRST_FAT_TABLE_SECTOR * 512 + ucast (of_nat c :: u16) * 2))
       (take (unat (2 :: u32)) (le16_bytes (eswap_uint16 v))) (disk s)"
    show "wp (ramdisk_write (second_fat_product + ucast (of_nat c :: u16) * 2) (Local (le16_bytes (eswap_uint16 v))) 2) (\<lambda>a. Q ()) t"
    proof (rule wp_fs_write [OF t(1)])
      fix u
      assume u: "fat16_ok u" "fs_same t u" "disk u = overwrite (unat (second_fat_product + ucast (of_nat c :: u16) * 2))
        (take (unat (2 :: u32)) (le16_bytes (eswap_uint16 v))) (disk t)"
      have "disk u = fat_written c v (disk s)" unfolding u(3) t(3) fat_written_def a by simp
      then show "Q () u" using assms(3) u(1) fs_same_trans [OF t(2) u(2)] by blast
    qed (use len [OF t(1)] assms(2) a in simp_all)
  qed (use len [OF assms(1)] assms(2) a in simp_all)
qed


text \<open>The directory entry a write creates, and the disk after a write whose last chunk is \<open>d\<close>.\<close>

definition new_file :: "'z fat16_state_scheme \<Rightarrow> bytes \<Rightarrow> u32 \<Rightarrow> nat \<Rightarrow> ramdisk_fat16_entry" where
  "new_file s f n c = (entry_of_bytes (raw_entry s))\<lparr>entry_name := ramdisk_fat16_filename_to_native f,
     entry_attrib := 0, entry_reserved := 0, file_size := n, entry_low_cluster_number := of_nat c\<rparr>"

definition file_written :: "ramdisk_fat16_entry \<Rightarrow> nat \<Rightarrow> nat \<Rightarrow> bytes \<Rightarrow> bytes \<Rightarrow> bytes" where
  "file_written entry e c chunk d = overwrite (33280 + 32 * e) (bytes_of_entry entry)
     (fat_written c 0xFFF8 (overwrite (512 * (97 + c)) chunk d))"

lemma length_new_file [simp]: "length (entry_name (new_file s f n c)) = 11" "length (bytes_of_entry (new_file s f n c)) = 32"
  by (simp_all add: new_file_def length_bytes_of_entry)

text \<open>Writes to the tables and to the data area leave the directory alone.\<close>

lemma root_bytes_fat_written:
  "c < 415 \<Longrightarrow> 262144 \<le> length d \<Longrightarrow> i < 32 \<Longrightarrow> root_bytes (fat_written c v d) i = root_bytes d i"
  by (simp add: fat_written_def root_bytes_def slice_overwrite_disjoint)

lemma root_bytes_data:
  "c < 415 \<Longrightarrow> length x \<le> 512 \<Longrightarrow> 262144 \<le> length d \<Longrightarrow> i < 32 \<Longrightarrow>
    root_bytes (overwrite (512 * (97 + c)) x d) i = root_bytes d i"
  by (simp add: root_bytes_def slice_overwrite_disjoint)

lemma root_free_cong:
  "(\<And>i. i < 32 \<Longrightarrow> root_bytes d' i = root_bytes d i) \<Longrightarrow>
    first_or_zero (root_free d') [1..<32] = first_or_zero (root_free d) [1..<32]"
  by (rule first_or_zero_cong) (simp add: root_free_def)

text \<open>The last chunk of a file: it goes to the data area, if there is anything left.\<close>

lemma wp_write_rest:
  assumes "fat16_ok s" "c < 415" "unat left \<le> 512" "pointer + unat left \<le> length d"
    and "\<And>s'. fat16_ok s' \<Longrightarrow> fs_same s s' \<Longrightarrow>
      disk s' = overwrite (512 * (97 + c)) (slice pointer (unat left) d) (disk s) \<Longrightarrow> Q () s'"
  shows "wp (if left > 0 then
       kseq (printf (cstr ''ramdisk_fat16_file_write: Writing %d bytes data to sector %x\<newline>'')
               [ArgInt left, ArgInt (ucast (of_nat c :: u16))])
            (kbind (write_sector_partial (FIRST_DATA_SECTOR + ucast (of_nat c :: u16)) (buffer_off (Local d) pointer) left)
               (\<lambda>_. kret ()))
     else kret ()) Q s"
proof (cases "left = 0")
  case True
  then show ?thesis using assms(1,5) by (simp add: slice_def)
next
  case False
  have a: "unat ((FIRST_DATA_SECTOR + ucast (of_nat c :: u16)) * 512) = 512 * (97 + c)"
    using assms(2) unat_ucast_small [of c] by (simp add: word_facts)
  have "wp (kseq (printf (cstr ''ramdisk_fat16_file_write: Writing %d bytes data to sector %x\<newline>'')
               [ArgInt left, ArgInt (ucast (of_nat c :: u16))])
            (kbind (write_sector_partial (FIRST_DATA_SECTOR + ucast (of_nat c :: u16)) (buffer_off (Local d) pointer) left)
               (\<lambda>_. kret ()))) Q s"
    unfolding wp_kseq wp_kbind wp_kret write_sector_partial_def buffer_off.simps
  proof (rule wp_fs_print [OF assms(1)])
    fix t
    assume t: "fat16_ok t" "fs_same s t" "disk t = disk s"
    show "wp (ramdisk_write ((FIRST_DATA_SECTOR + ucast (of_nat c :: u16)) * 512) (Local (drop pointer d)) left) (\<lambda>a. Q ()) t"
    proof (rule wp_fs_write [OF t(1)])
      fix u
      assume u: "fat16_ok u" "fs_same t u" "disk u = overwrite (unat ((FIRST_DATA_SECTOR + ucast (of_nat c :: u16)) * 512))
        (take (unat left) (drop pointer d)) (disk t)"
      then have "disk u = overwrite (512 * (97 + c)) (slice pointer (unat left) d) (disk s)"
        by (simp only: a t(3) slice_def)
      then show "Q () u" using assms(5) u(1) fs_same_trans [OF t(2) u(2)] by blast
    qed (use assms fat16_okD(5) [OF t(1)] a in simp_all)
  qed simp
  with False show ?thesis by (simp add: word_gt_0)
qed

lemma wp_file_write:
  assumes "fat16_ok s" "first_or_zero (root_match f (disk s)) [1..<32] = 0"
    and c: "first_or_zero (\<lambda>i. fat_at (disk s) i = 0) [0..<415] = c" "c \<noteq> 0"
    and e: "first_or_zero (root_free (disk s)) [1..<32] = e"
    and loop: "\<And>t. fat16_ok t \<Longrightarrow> fs_same s t \<Longrightarrow> disk t = disk s \<Longrightarrow>
      wp (file_write_loop (Suc (unat n)) (Local d) (of_nat c) 0 n) (\<lambda>(cur, p, left) u. cur = of_nat c \<and> p = P \<and> left = L
        \<and> fat16_ok u \<and> fs_same t u \<and> disk u = D) t"
    and D: "\<And>i. i < 32 \<Longrightarrow> root_bytes D i = root_bytes (disk s) i"
    and L: "unat L \<le> 512" "P + unat L \<le> length d"
  shows "wp (ramdisk_fat16_file_write f (Local d) n) (\<lambda>r s'. r = 0 \<and> fat16_ok s' \<and> fs_same s s'
    \<and> disk s' = file_written (new_file s f n c) e c (slice P (unat L) d) D) s"
proof -
  have c415: "c < 415"
    using first_or_zero_range [of "\<lambda>i. fat_at (disk s) i = 0" "[0..<415]"] c by auto
  have e32: "e < 32" using first_or_zero_range [of "root_free (disk s)" "[1..<32]"] e by auto
  have c0: "(of_nat c :: u16) \<noteq> 0"
  proof -
    have "unat (of_nat c :: u16) = c" using c415 by (simp add: unat_of_nat)
    then show ?thesis using c(2) by (metis unat_0)
  qed
  have e16: "unat (ucast (of_nat e :: u32) :: u16) = e"
    using e32 by (simp add: unsigned_ucast_eq unat_of_nat take_bit_nat_eq_self)
  let ?Q = "\<lambda>r s'. r = 0 \<and> fat16_ok s' \<and> fs_same s s' \<and> disk s' = file_written (new_file s f n c) e c (slice P (unat L) d) D"
  let ?D1 = "overwrite (512 * (97 + c)) (slice P (unat L) d) D"
  have finish: "wp (ramdisk_write (root_addr (unat (ucast (of_nat e :: u32) :: u16))) (Local (bytes_of_entry (new_file s f n c))) 32)
      (\<lambda>a. ?Q 0) w"
    if "fat16_ok w" "fs_same s w" "disk w = fat_written c 0xFFF8 ?D1" for w
  proof (rule wp_fs_write [OF that(1)])
    fix x
    assume x: "fat16_ok x" "fs_same w x" "disk x = overwrite (unat (root_addr (unat (ucast (of_nat e :: u32) :: u16))))
      (take (unat (32 :: u32)) (bytes_of_entry (new_file s f n c))) (disk w)"
    have "disk x = file_written (new_file s f n c) e c (slice P (unat L) d) D"
      unfolding x(3) file_written_def that(3) e16 unat_root_addr [OF e32] by simp
    then show "?Q 0 x" using x(1) fs_same_trans [OF that(2) x(2)] by simp
  qed (use e32 fat16_okD(5) [OF that(1)] in \<open>simp_all add: e16 unat_root_addr\<close>)
  have root: "first_or_zero (root_free (disk w)) [1..<32] = e"
    if "disk w = fat_written c 0xFFF8 ?D1" "fat16_ok u" "disk u = D" for u w :: "'a fat16_state_scheme"
  proof -
    have len: "length (slice P (unat L) d) \<le> 512" using L(1) by (simp add: slice_def)
    have D': "262144 \<le> length D" "262144 \<le> length ?D1"
      using fat16_okD(5) [OF that(2)] that(3) len c415 by simp_all
    have "root_bytes (disk w) i = root_bytes (disk s) i" if "i < 32" for i
      unfolding \<open>disk w = _\<close> using root_bytes_fat_written [OF c415 D'(2)] root_bytes_data [OF c415 len D'(1)] D that by simp
    then show ?thesis using root_free_cong e by blast
  qed
  show ?thesis
    unfolding ramdisk_fat16_file_write_def Let_def wp_kbind wp_kseq wp_kget wp_kret
    apply (rule wp_fs_print [OF assms(1)], simp)
    subgoal premises t for t
      apply (rule wp_file_exists [OF t(1)])
      unfolding t(3) assms(2) c(1) semiring_1_class.of_nat_0
      apply (simp only: simp_thms if_False wp_kbind wp_kget wp_kseq fs_same_fields(4) [OF t(2)])
      apply (rule wp_find_cluster [OF t(1)])
      unfolding t(3) c(1)
      apply (simp only: c0 simp_thms if_False wp_kbind wp_kseq)
      apply (rule wp_mono [OF loop [OF t]])
      apply clarify
      subgoal premises u for cur p left u
        apply (simp only: wp_kbind wp_kseq)
        apply (rule wp_write_rest [OF u(1) c415 L])
        apply (rule wp_write_fat [OF _ c415], assumption)
        subgoal premises w for v w
          apply (rule wp_find_root [OF w(4)])
          apply (rule wp_fs_print [OF w(4)], simp)
          unfolding new_file_def [symmetric]
          unfolding root [OF w(6) [unfolded w(3) u(3) [symmetric]] u(1) u(3) [symmetric]] wp_kret u(3) [symmetric]
          apply (rule finish, assumption)
           apply (rule fs_same_trans [OF fs_same_trans [OF fs_same_trans [OF fs_same_trans [OF t(2) u(2)] w(2)] w(5)]], assumption)
          by (simp only: w(3,6) u(3))
        done
      done
    done
qed


text \<open>Up to one cluster the loop does nothing; up to two clusters it runs once.\<close>

lemma file_write_loop_small:
  "unat n \<le> 512 \<Longrightarrow> file_write_loop (Suc k) data c p n s = Ok (c, p, n) s"
  by (simp add: kret_def word_less_nat_alt)

lemma fat_at_data:
  "c < 415 \<Longrightarrow> length x \<le> 512 \<Longrightarrow> 262144 \<le> length d \<Longrightarrow> i < 415 \<Longrightarrow>
    fat_at (overwrite (512 * (97 + c)) x d) i = fat_at d i"
  by (simp add: fat_at_def slice_overwrite_disjoint)

lemma wp_file_write_loop_two:
  assumes "fat16_ok s" "512 < unat n" "unat n \<le> 1024" "unat n \<le> length d"
    and c: "first_or_zero (\<lambda>i. fat_at (disk s) i = 0) [0..<415] = c" "c \<noteq> 0"
  shows "wp (file_write_loop (Suc (unat n)) (Local d) (of_nat c) 0 n) (\<lambda>(cur, p, left) u. cur = of_nat c \<and> p = 512
    \<and> left = n - 512 \<and> fat16_ok u \<and> fs_same s u
    \<and> disk u = fat_written c (of_nat c) (overwrite (512 * (97 + c)) (take 512 d) (disk s))) s"
proof -
  have c415: "c < 415"
    using first_or_zero_range [of "\<lambda>i. fat_at (disk s) i = 0" "[0..<415]"] c by auto
  have c0: "(of_nat c :: u16) \<noteq> 0"
  proof -
    have "unat (of_nat c :: u16) = c" using c415 by (simp add: unat_of_nat)
    then show ?thesis using c(2) by (metis unat_0)
  qed
  have a: "unat ((FIRST_DATA_SECTOR + ucast (of_nat c :: u16)) * 512) = 512 * (97 + c)"
    using c415 unat_ucast_small [of c] by (simp add: word_facts)
  obtain k where k: "unat n = Suc k" using assms(2) by (cases "unat n") auto
  have n: "unat (n - 512) = unat n - 512"
    using assms(2) by (subst unat_sub) (simp_all add: word_le_nat_alt)
  let ?D = "overwrite (512 * (97 + c)) (take 512 d) (disk s)"
  have again: "first_or_zero (\<lambda>i. fat_at ?D i = 0) [0..<415] = c"
    using fat_at_data [OF c415, of "take 512 d" "disk s"] fat16_okD(5) [OF assms(1)] c(1)
    by (intro trans [OF first_or_zero_cong c(1)]) simp
  have gt: "n > 512" using assms(2) by (simp add: word_less_nat_alt)
  show ?thesis
    unfolding k file_write_loop.simps(2) [of "Suc k"] write_sector_def buffer_off.simps drop_0
    apply (simp only: gt if_True wp_kbind wp_kseq)
    apply (rule wp_fs_print [OF assms(1)], simp)
    subgoal premises t for t
      apply (rule wp_fs_write [OF t(1)])
        apply (use c415 fat16_okD(5) [OF t(1)] a in simp)
       apply (use assms(2,4) in simp)
      subgoal premises u for u
        unfolding wp_kseq wp_kbind
      proof (rule wp_find_cluster [OF u(1)])
        have D: "disk u = ?D" using u(3) unfolding a t(3) by simp
        show "wp (if of_nat (first_or_zero (\<lambda>i. fat_at (disk u) i = 0) [0..<415]) = (0 :: u16)
          then kseq (printf (cstr ''ramdisk_fat16_file_write: no way to undo partial write\<newline>'') [])
            (panic ''ramdisk_fat16_file_write: cannot undo partial write!\<newline>'') else kret ())
          (\<lambda>_. wp (write_fat (of_nat c) (of_nat (first_or_zero (\<lambda>i. fat_at (disk u) i = 0) [0..<415])))
            (\<lambda>_. wp (file_write_loop (Suc k) (Local d) (of_nat (first_or_zero (\<lambda>i. fat_at (disk u) i = 0) [0..<415])) (0 + 512) (n - 512))
            (\<lambda>(cur, p, left) u. cur = of_nat c \<and> p = 512 \<and> left = n - 512 \<and> fat16_ok u \<and> fs_same s u
            \<and> disk u = fat_written c (of_nat c) ?D))) u"
          unfolding D again
          apply (simp only: c0 if_False wp_kret)
          apply (rule wp_write_fat [OF u(1) c415])
          apply (rule wpI [OF file_write_loop_small])
          using n assms(3) fs_same_trans [OF fs_same_trans [OF t(2) u(2)]] by (auto simp: D)
      qed
      done
    done
qed

lemma wp_file_read:
  assumes "fat16_ok s" "first_or_zero (root_match f (disk s)) [1..<32] = e" "e \<noteq> 0" "512 \<le> length buf"
    and c: "entry_low_cluster_number (entry_of_bytes (root_bytes (disk s) e)) = of_nat c" "c < 415"
  shows "wp (ramdisk_fat16_file_read f (Local buf) 0) (\<lambda>(r, b) s'. r = 0 \<and> fat16_ok s' \<and> fs_same s s' \<and> disk s' = disk s
    \<and> b = Local (cluster_data (disk s) c @ drop 512 buf)) s"
proof -
  have e32: "e < 32" using first_or_zero_range [of "root_match f (disk s)" "[1..<32]"] assms(2) by auto
  have e0: "(of_nat e :: u32) \<noteq> 0" "unat (of_nat e :: u32) = e"
    using of_nat_u32_eq_iff [of e 0] e32 assms(3) by (simp_all add: word_facts)
  have a: "unat ((FIRST_DATA_SECTOR + ucast (of_nat c :: u16)) * 512) = 512 * (97 + c)"
    using c(2) unat_ucast_small [of c] by (simp add: word_facts)
  have rd: "read_sector (FIRST_DATA_SECTOR + ucast (of_nat c :: u16)) (Local buf) t
      = Ok (0, Local (cluster_data (disk s) c @ drop 512 buf)) t" if "fat16_ok t" "disk t = disk s" for t :: "'a fat16_state_scheme"
    using fs_read [OF that(1), of "(FIRST_DATA_SECTOR + ucast (of_nat c :: u16)) * 512" 512 buf] a assms(4) c(2)
    unfolding read_sector_def cluster_data_def by (simp only: that(2)) simp
  show ?thesis
    unfolding ramdisk_fat16_file_read_def Let_def wp_kbind
    apply (rule wp_file_exists [OF assms(1)])
    unfolding assms(2)
    apply (simp only: e0 if_False wp_kbind wp_kget)
    apply (rule wpI, rule read_root [OF assms(1) e32 length_raw_entry])
    apply (simp only: prod.case local_bytes.simps c(1) wp_kbind wp_kget wp_kseq)
    apply (rule wp_fs_print [OF assms(1)], simp)
    by (rule wpI, rule rd) simp_all
qed


section \<open>Formatting\<close>

lemma wp_write_sector:
  assumes "fat16_ok s" "unat sec < 512" "length d = 512"
    and "\<And>s'. fat16_ok s' \<Longrightarrow> fs_same s s' \<Longrightarrow> disk s' = overwrite (512 * unat sec) d (disk s) \<Longrightarrow> Q 0 s'"
  shows "wp (write_sector sec (Local d)) Q s"
proof -
  have a: "unat (sec * 512) = 512 * unat sec" using assms(2) by (simp add: unat_mult_u32)
  show ?thesis
    unfolding write_sector_def
    by (rule wp_fs_write [OF assms(1)])
      (use assms(2,3,4) fat16_okD(5) [OF assms(1)] in \<open>simp_all add: a\<close>)
qed

text \<open>The bytes of a disk that has been zeroed from \<open>a\<close> on, for \<open>n\<close> bytes.\<close>

definition zeroed :: "nat \<Rightarrow> nat \<Rightarrow> bytes \<Rightarrow> bool" where
  "zeroed a n d \<longleftrightarrow> (\<forall>i. a \<le> i \<longrightarrow> i < a + n \<longrightarrow> d ! i = 0)"

lemma zeroed_overwrite:
  assumes "zeroed a n d" "b + 512 \<le> length d"
  shows "zeroed a n (overwrite b (replicate 512 0) d)"
    "b = a + n \<Longrightarrow> zeroed a (n + 512) (overwrite b (replicate 512 0) d)"
  using assms by (auto simp: zeroed_def nth_overwrite)

lemma zeroed_disjoint:
  assumes "zeroed a n d" "b + length x \<le> length d" "b + length x \<le> a \<or> a + n \<le> b"
  shows "zeroed a n (overwrite b x d)"
  using assms by (auto simp: zeroed_def nth_overwrite)

lemma zeroed_slice: "zeroed a n d \<Longrightarrow> a \<le> b \<Longrightarrow> b + k \<le> a + n \<Longrightarrow> b + k \<le> length d \<Longrightarrow> slice b k d = replicate k 0"
  by (rule nth_equalityI) (simp_all add: length_slice nth_slice zeroed_def)

abbreviation (input) "zero_sector \<equiv> replicate 512 (0 :: u8)"

lemma wp_zero_fats:
  assumes "fat16_ok s"
  shows "wp (kfor [0..<32] (\<lambda>i.
      kbind (write_sector (FIRST_FAT_TABLE_SECTOR + of_nat i) (Local zero_sector)) (\<lambda>_.
      kbind (write_sector (FIRST_FAT_TABLE_SECTOR + FAT16_SECTORS_PER_FAT + of_nat i) (Local zero_sector)) (\<lambda>_. kret ()))))
    (\<lambda>_ s'. fat16_ok s' \<and> fs_same s s' \<and> zeroed 512 (512 * 32) (disk s')) s"
proof (rule wp_kfor_upt [where I = "\<lambda>i s'. fat16_ok s' \<and> fs_same s s' \<and> zeroed 512 (512 * i) (disk s')"])
  fix i t
  assume i: "i < 32" and t: "fat16_ok t \<and> fs_same s t \<and> zeroed 512 (512 * i) (disk t)"
  have a: "unat (FIRST_FAT_TABLE_SECTOR + of_nat i) = 1 + i"
    "unat (33 + of_nat i :: u32) = 33 + i"
    using i by (simp_all add: word_facts)
  show "wp (kbind (write_sector (FIRST_FAT_TABLE_SECTOR + of_nat i) (Local zero_sector)) (\<lambda>_.
      kbind (write_sector (FIRST_FAT_TABLE_SECTOR + FAT16_SECTORS_PER_FAT + of_nat i) (Local zero_sector)) (\<lambda>_. kret ())))
    (\<lambda>_ s'. fat16_ok s' \<and> fs_same s s' \<and> zeroed 512 (512 * Suc i) (disk s')) t"
    unfolding wp_kbind wp_kret
  proof (rule wp_write_sector)
    fix u
    assume u: "fat16_ok u" "fs_same t u" "disk u = overwrite (512 * unat (FIRST_FAT_TABLE_SECTOR + of_nat i)) zero_sector (disk t)"
    have "zeroed 512 (512 * i + 512) (disk u)"
      unfolding u(3) a using zeroed_overwrite(2) [of 512 "512 * i" "disk t" "512 * (1 + i)"] t fat16_okD(5) [of t] i by simp
    then have z: "zeroed 512 (512 * Suc i) (disk u)" by (simp add: add.commute)
    show "wp (write_sector (FIRST_FAT_TABLE_SECTOR + FAT16_SECTORS_PER_FAT + of_nat i) (Local zero_sector))
       (\<lambda>_ s'. fat16_ok s' \<and> fs_same s s' \<and> zeroed 512 (512 * Suc i) (disk s')) u"
      using z zeroed_overwrite(1) [OF z, of "512 * (33 + i)"] fat16_okD(5) [OF u(1)] i t fs_same_trans [OF fs_same_trans [OF _ u(2)]]
      by (intro wp_write_sector [OF u(1)]) (simp_all add: a)
  qed (use t i a in simp_all)
qed (use assms in \<open>simp_all add: zeroed_def\<close>)

lemma wp_zero_root:
  assumes "fat16_ok s" "zeroed 512 16384 (disk s)"
  shows "wp (kfor [0..<32] (\<lambda>i. kbind (write_sector (FIRST_ROOT_SECTOR + of_nat i) (Local zero_sector)) (\<lambda>_. kret ())))
    (\<lambda>_ s'. fat16_ok s' \<and> fs_same s s' \<and> zeroed 512 16384 (disk s') \<and> zeroed 33280 (512 * 32) (disk s')) s"
proof (rule wp_kfor_upt [where I = "\<lambda>i s'. fat16_ok s' \<and> fs_same s s' \<and> zeroed 512 16384 (disk s') \<and> zeroed 33280 (512 * i) (disk s')"])
  fix i t
  assume i: "i < 32" and t: "fat16_ok t \<and> fs_same s t \<and> zeroed 512 16384 (disk t) \<and> zeroed 33280 (512 * i) (disk t)"
  have a: "unat (FIRST_ROOT_SECTOR + of_nat i) = 65 + i" using i by (simp add: word_facts)
  show "wp (kbind (write_sector (FIRST_ROOT_SECTOR + of_nat i) (Local zero_sector)) (\<lambda>_. kret ()))
    (\<lambda>_ s'. fat16_ok s' \<and> fs_same s s' \<and> zeroed 512 16384 (disk s') \<and> zeroed 33280 (512 * Suc i) (disk s')) t"
    unfolding wp_kbind wp_kret
  proof (rule wp_write_sector)
    fix u
    assume u: "fat16_ok u" "fs_same t u" "disk u = overwrite (512 * unat (FIRST_ROOT_SECTOR + of_nat i)) zero_sector (disk t)"
    have "zeroed 33280 (512 * i + 512) (disk u)" "zeroed 512 16384 (disk u)"
      unfolding u(3) a using zeroed_overwrite(2) [of 33280 "512 * i" "disk t" "512 * (65 + i)"]
        zeroed_overwrite(1) [of 512 16384 "disk t" "512 * (65 + i)"] t fat16_okD(5) [of t] i by simp_all
    then show "fat16_ok u \<and> fs_same s u \<and> zeroed 512 16384 (disk u) \<and> zeroed 33280 (512 * Suc i) (disk u)"
      using u t by (auto intro: fs_same_trans simp: add.commute)
  qed (use t i a in simp_all)
qed (use assms in \<open>simp_all add: zeroed_def\<close>)

text \<open>A freshly formatted disk: the directory is empty, the first two table entries are taken, and
  beyond the first table sector all clusters are free.\<close>

definition formatted :: "bytes \<Rightarrow> bool" where
  "formatted d \<longleftrightarrow> zeroed 33280 16384 d \<and> zeroed 1024 (512 * 31) d \<and> slice 512 4 d = [0xF8, 0xFF, 0xFF, 0xFF]"

lemma wp_format:
  assumes "fat16_ok s" "length (ramdisk_fat16_bootrecord s) = 512"
  shows "wp ramdisk_fat16_format (\<lambda>_ s'. fat16_ok s' \<and> fs_same s s' \<and> formatted (disk s')) s"
  unfolding ramdisk_fat16_format_def Let_def wp_kbind wp_kseq wp_kget wp_kret
  apply (rule wp_fs_write [OF assms(1)])
    apply (use fat16_okD(5) [OF assms(1)] assms(2) in simp_all)[2]
  subgoal premises t for t
    apply (rule wp_mono [OF wp_zero_fats [OF t(1)]])
    subgoal premises u for _ u
      apply (rule wp_mono [OF wp_zero_root], use u in simp, use u in simp)
      subgoal premises v for _ v
      proof (rule wp_write_sector)
        show "fat16_ok v" using v by simp
        fix w
        assume w: "fat16_ok w" "fs_same v w" "disk w = overwrite (512 * unat FIRST_FAT_TABLE_SECTOR) (starting_sectors v) (disk v)"
        have len: "length (starting_sectors v) = 512" by (simp add: starting_sectors_def)
        have lv: "262144 \<le> length (disk v)" using v fat16_okD(5) by blast
        have z: "zeroed 1024 (512 * 31) (disk v)" using v by (auto simp: zeroed_def)
        have "formatted (disk w)"
          unfolding formatted_def w(3)
          using zeroed_disjoint [of 33280 16384 "disk v" 512 "starting_sectors v"] zeroed_disjoint [OF z, of 512 "starting_sectors v"]
            slice_overwrite_prefix [of 512 "starting_sectors v" "disk v" 4] v len lv by (simp add: starting_sectors_def)
        then have f: "zeroed 33280 16384 (disk w)" "zeroed 1024 (512 * 31) (disk w)" "slice 512 4 (disk w) = [0xF8, 0xFF, 0xFF, 0xFF]"
          by (simp_all add: formatted_def)
        show "wp (write_sector (FIRST_FAT_TABLE_SECTOR + FAT16_SECTORS_PER_FAT) (Local (starting_sectors v)))
           (\<lambda>_ s'. fat16_ok s' \<and> fs_same s s' \<and> formatted (disk s')) w"
        proof (rule wp_write_sector [OF w(1)])
          fix x
          assume x: "fat16_ok x" "fs_same w x"
            "disk x = overwrite (512 * unat (FIRST_FAT_TABLE_SECTOR + FAT16_SECTORS_PER_FAT)) (starting_sectors v) (disk w)"
          have "formatted (disk x)"
            unfolding formatted_def x(3)
            using zeroed_disjoint [OF f(1), of 16896 "starting_sectors v"] zeroed_disjoint [OF f(2), of 16896 "starting_sectors v"]
              slice_overwrite_disjoint [of 16896 "starting_sectors v" "disk w" 512 4] f(3) fat16_okD(5) [OF w(1)] len by simp
          moreover have "fs_same s x"
            using fs_same_trans [OF fs_same_trans [OF fs_same_trans [OF fs_same_trans [OF t(2), of u], of v] w(2)] x(2)] u v by blast
          ultimately show "fat16_ok x \<and> fs_same s x \<and> formatted (disk x)" using x(1) by simp
        qed (simp_all add: len)
      qed (simp_all add: starting_sectors_def)
      done
    done
  done

text \<open>Formatting leaves the data clusters as they are.\<close>

lemma wp_write_low:
  assumes "fat16_ok t \<and> fs_same s t \<and> zeroed a n (disk t)" "unat sec < 97" "length d = 512" "49664 \<le> a"
    and "\<And>u. fat16_ok u \<and> fs_same s u \<and> zeroed a n (disk u) \<Longrightarrow> Q 0 u"
  shows "wp (write_sector sec (Local d)) Q t"
proof (rule wp_write_sector)
  fix u
  assume u: "fat16_ok u" "fs_same t u" "disk u = overwrite (512 * unat sec) d (disk t)"
  have "zeroed a n (disk u)"
    unfolding u(3) using zeroed_disjoint [of a n "disk t" "512 * unat sec" d] assms(1-4) fat16_okD(5) [of t] by simp
  then show "Q 0 u" using u assms(1,5) fs_same_trans by blast
qed (use assms in simp_all)

lemma wp_format_zeroed:
  assumes "fat16_ok s" "length (ramdisk_fat16_bootrecord s) = 512" "zeroed a n (disk s)" "49664 \<le> a"
  shows "wp ramdisk_fat16_format (\<lambda>_ t. fat16_ok t \<and> fs_same s t \<and> zeroed a n (disk t)) s"
proof -
  let ?I = "\<lambda>t. fat16_ok t \<and> fs_same s t \<and> zeroed a n (disk t)"
  note low = wp_write_low [OF _ _ _ assms(4), where s = s and n = n]
  have sec: "unat (FIRST_FAT_TABLE_SECTOR + of_nat i) = 1 + i" "unat (33 + of_nat i :: u32) = 33 + i"
    "unat (FIRST_ROOT_SECTOR + of_nat i) = 65 + i" if "i < 32" for i
    using that by (simp_all add: word_facts)
  have fats: "wp (kfor [0..<32] (\<lambda>i.
      kbind (write_sector (FIRST_FAT_TABLE_SECTOR + of_nat i) (Local zero_sector)) (\<lambda>_.
      kbind (write_sector (FIRST_FAT_TABLE_SECTOR + FAT16_SECTORS_PER_FAT + of_nat i) (Local zero_sector)) (\<lambda>_. kret ()))))
    (\<lambda>_. ?I) t" if "?I t" for t
    by (rule wp_kfor_upt [where I = "\<lambda>_. ?I"], simp, rule that) (auto intro!: low simp: wp_kbind wp_kret sec)
  have root: "wp (kfor [0..<32] (\<lambda>i. kbind (write_sector (FIRST_ROOT_SECTOR + of_nat i) (Local zero_sector)) (\<lambda>_. kret ())))
    (\<lambda>_. ?I) t" if "?I t" for t
    by (rule wp_kfor_upt [where I = "\<lambda>_. ?I"], simp, rule that) (auto intro!: low simp: wp_kbind wp_kret sec)
  show ?thesis
    unfolding ramdisk_fat16_format_def Let_def wp_kbind wp_kseq wp_kget wp_kret
    apply (rule wp_fs_write [OF assms(1)])
      apply (use fat16_okD(5) [OF assms(1)] assms(2) in simp_all)[2]
    apply (rule wp_mono [OF fats])
    using assms zeroed_disjoint [OF assms(3), of 0 "ramdisk_fat16_bootrecord s"] fat16_okD(5) [OF assms(1)] apply simp
    apply (rule wp_mono, erule root)
    by (erule low, simp, simp add: starting_sectors_def, erule low) (simp_all add: starting_sectors_def)
qed


lemma formatted_root:
  assumes "formatted d" "262144 \<le> length d"
  shows "i < 32 \<Longrightarrow> root_free d i" "first_or_zero (root_match f d) [1..<32] = 0" "first_or_zero (root_free d) [1..<32] = 1"
proof -
  have free: "root_free d i" if "i < 32" for i
    using zeroed_slice [of 33280 16384 d "33280 + 32 * i" 32] assms that by (simp add: formatted_def root_free_def root_bytes_def)
  then show "i < 32 \<Longrightarrow> root_free d i" .
  show "first_or_zero (root_match f d) [1..<32] = 0"
    using free by (subst first_or_zero_none) (simp_all add: root_match_def)
  show "first_or_zero (root_free d) [1..<32] = 1" using free by (simp add: upt_conv_Cons)
qed

lemma formatted_cluster:
  assumes "formatted d" "262144 \<le> length d"
  defines "c \<equiv> first_or_zero (\<lambda>i. fat_at d i = 0) [0..<415]"
  shows "2 \<le> c" "c \<le> 256" "fat_at d c = 0"
proof -
  have four: "slice 512 4 d = [0xF8, 0xFF, 0xFF, 0xFF]" using assms(1) by (simp add: formatted_def)
  have "slice 512 2 d = take 2 (slice 512 4 d)" "slice 514 2 d = drop 2 (slice 512 4 d)"
    by (simp_all add: slice_def drop_take)
  then have f: "fat_at d 0 \<noteq> 0" "fat_at d 1 \<noteq> 0"
    unfolding four by (simp_all add: fat_at_def le16_of_def)
  have z: "fat_at d 256 = 0"
    using zeroed_slice [of 1024 "512 * 31" d 1024 2] assms(1,2) by (simp add: fat_at_def formatted_def le16_of_def numeral_2_eq_2)
  have "c \<noteq> 0" unfolding c_def by (rule first_or_zero_hit [of 256]) (use f z in simp_all)
  then show hit: "fat_at d c = 0" using first_or_zero_range [of "\<lambda>i. fat_at d i = 0" "[0..<415]"] by (auto simp: c_def)
  have "c \<noteq> 1" using hit f(2) by metis
  with \<open>c \<noteq> 0\<close> show "2 \<le> c" by linarith
  have n: "(257 :: nat) + 158 = 415" by simp
  have split: "[0..<415] = [0..<257] @ [257..<415]"
    using upt_add_eq_append [OF le0, of 257 158] unfolding n .
  have "256 \<in> set [0..<257]" unfolding set_upt by simp
  then have ex: "\<exists>x \<in> set [0..<257]. fat_at d x = 0" using z by (rule bexI [rotated])
  have "c = first_or_zero (\<lambda>i. fat_at d i = 0) [0..<257]"
    unfolding c_def split first_or_zero_append if_P [OF ex] by (rule refl)
  then have "c = 0 \<or> c \<in> set [0..<257]"
    using first_or_zero_range [of "\<lambda>i. fat_at d i = 0" "[0..<257]"] by metis
  then show "c \<le> 256" unfolding set_upt by auto
qed

section \<open>Initialisation\<close>

text \<open>Creating the disk takes only free pages, so the streams are not affected.\<close>

lemma disk_created_console:
  assumes "disk_created n s s'" "stdio_ok s" "is_init (std_output_buf s)" "serial_responsive (hw_byte s) PORT_COM1" "64 \<le> n"
  shows "fat16_ok s'"
proof -
  have d: "ramdisk_ok s'" "disk_blocks s' = n" "used_pages s' = used_pages s \<union> disk_pages s'" "disk_pages s' \<inter> used_pages s = {}"
    "\<And>a. page_of a \<in> used_pages s \<Longrightarrow> mem s' a = mem s a"
    using assms(1) by (auto simp: disk_created_def)
  obtain c m x y where s': "s' = s\<lparr>pmem_curr_alloc_record := c, mem := m, ramdisk_block_size := x, ramdisk_block_pointers := y\<rparr>"
    using assms(1) unfolding disk_created_def by blast
  have buf: "std_buf i s' = std_buf i s" for i by (cases i) (simp_all add: s')
  have cont: "buf_contents (mem s') (std_buf i s) = buf_contents (mem s) (std_buf i s)" if "is_init (std_buf i s)" for i
    using buf_ok_ready [OF assms(2) that] d(5) by (intro buf_contents_cong) auto
  have "buf_ok i s'" for i
    using stdio_okD(2) [OF assms(2), of i] cont [of i] d(3) by (auto simp: buf_ok_def Let_def buf)
  then have st: "stdio_ok s'"
    using stdio_okD(3,4) [OF assms(2)] ramdisk_okD(1) [OF d(1)] by (intro stdio_okI) (simp_all add: buf)
  have "b_addr (std_buf i s') \<notin> disk_pages s'" if "is_init (std_buf i s')" for i
    using buf_ok_ready(2) [OF assms(2), of i] that d(4) by (auto simp: buf)
  with st show ?thesis
    using d(1,2) assms(3-5) buf [of StdOutput] by (simp add: fat16_ok_def) (simp add: s')
qed

definition boot_ok :: "'z fat16_state_scheme \<Rightarrow> bool" where
  "boot_ok s \<longleftrightarrow> length (ramdisk_fat16_bootrecord s) = 512 \<and> ramdisk_fat16_bootrecord s ! 510 = 0x55
     \<and> ramdisk_fat16_bootrecord s ! 511 = 0xAA"

text \<open>The machine before the file system is set up: no disk yet, and room for it.\<close>

definition fat16_ready :: "'z fat16_state_scheme \<Rightarrow> bool" where
  "fat16_ready s \<longleftrightarrow> stdio_ok s \<and> is_init (std_output_buf s) \<and> serial_responsive (hw_byte s) PORT_COM1 \<and> boot_ok s
     \<and> ramdisk_block_size s = 0 \<and> ramdisk_block_pointers s = 0 \<and> 1025 < card (pmem_pages s - used_pages s)"

text \<open>What initialisation takes: 1025 pages; nothing above the file system changes, nor do the pages in
  use before, but for that of the output buffer.\<close>

definition fs_created :: "'z fat16_state_scheme \<Rightarrow> 'z fat16_state_scheme \<Rightarrow> bool" where
  "fs_created s s' \<longleftrightarrow> fat16_state.more s' = fat16_state.more s \<and> pmem_pages s' = pmem_pages s
     \<and> card (pmem_pages s' - used_pages s') + 1025 = card (pmem_pages s - used_pages s)
     \<and> stream StdInput s' = stream StdInput s \<and> is_init (std_input_buf s') = is_init (std_input_buf s)
     \<and> used_pages s' = used_pages s \<union> disk_pages s' \<and> disk_pages s' \<inter> used_pages s = {}
     \<and> std_input_buf s' = std_input_buf s \<and> b_addr (std_output_buf s') = b_addr (std_output_buf s)
     \<and> ramdisk_fat16_bootrecord s' = ramdisk_fat16_bootrecord s
     \<and> (\<forall>a. page_of a \<in> used_pages s \<longrightarrow> page_of a \<noteq> b_addr (std_output_buf s) \<longrightarrow> mem s' a = mem s a)"

lemma disk_created_pages:
  assumes "disk_created 1024 s s'" "stdio_ok s"
  shows "fs_created s s'"
proof -
  have d: "ramdisk_ok s'" "disk_blocks s' = 1024" "pmem_pages s' = pmem_pages s" "used_pages s' = used_pages s \<union> disk_pages s'"
    "disk_pages s' \<inter> used_pages s = {}" "fat16_state.more s' = fat16_state.more s" "std_input_buf s' = std_input_buf s"
    using assms(1) by (auto simp: disk_created_def)
  have "buf_contents (mem s') (std_input_buf s) = buf_contents (mem s) (std_input_buf s)" if "is_init (std_input_buf s)"
    using buf_ok_ready [OF assms(2), of StdInput] that assms(1) by (intro buf_contents_cong) (auto simp: disk_created_def)
  then have str: "stream StdInput s' = stream StdInput s" by (simp add: stream_def d(7))
  have "card (disk_pages s') = length (ramdisk_block_pointers s' # disk_table s')"
    using d(1) distinct_card [of "ramdisk_block_pointers s' # disk_table s'"] by (simp add: disk_pages_def ramdisk_ok_def)
  then have c: "card (disk_pages s') = 1025" by (simp add: d(2))
  have sub: "disk_pages s' \<subseteq> pmem_pages s - used_pages s"
    using d(3,4,5) pm.used_pages [OF ramdisk_okD(1) [OF d(1)]] by auto
  have fin: "finite (pmem_pages s - used_pages s)" by (simp add: pmem_pages_def)
  have "pmem_pages s' - used_pages s' = (pmem_pages s - used_pages s) - disk_pages s'" using d(3,4) by auto
  then have "card (pmem_pages s' - used_pages s') = card (pmem_pages s - used_pages s) - 1025"
    using sub c by (simp add: card_Diff_subset finite_subset [OF sub fin])
  moreover have "1025 \<le> card (pmem_pages s - used_pages s)" using card_mono [OF fin sub] c by simp
  ultimately have room: "card (pmem_pages s' - used_pages s') + 1025 = card (pmem_pages s - used_pages s)" by simp
  have "std_output_buf s' = std_output_buf s" "ramdisk_fat16_bootrecord s' = ramdisk_fat16_bootrecord s"
    "\<forall>a. page_of a \<in> used_pages s \<longrightarrow> mem s' a = mem s a"
    using assms(1) by (auto simp: disk_created_def)
  with room d(3-7) str show ?thesis unfolding fs_created_def by metis
qed

lemma fs_created_trans:
  "fs_created s t \<Longrightarrow> fs_same t u \<Longrightarrow> fs_created s u"
  "console_frame s t \<Longrightarrow> fs_created t u \<Longrightarrow> fs_created s u"
proof -
  assume a: "fs_created s t" "fs_same t u"
  have u: "ramdisk_block_pointers u = ramdisk_block_pointers t" "ramdisk_fat16_bootrecord u = ramdisk_fat16_bootrecord t"
    "std_input_buf u = std_input_buf t" "fat16_state.more u = fat16_state.more t" using a(2) by (auto simp: fs_same_def)
  have d: "disk_pages u = disk_pages t" using a(2) u(1) by (simp add: fs_same_def disk_pages_def)
  have "mem u b = mem s b" if "page_of b \<in> used_pages s" "page_of b \<noteq> b_addr (std_output_buf s)" for b
  proof -
    have "page_of b \<notin> set (disk_table t)" using a(1) that(1) by (auto simp: fs_created_def disk_pages_def)
    then have "mem u b = mem t b" using a that by (auto simp: fs_created_def fs_same_def)
    then show ?thesis using a(1) that by (simp add: fs_created_def)
  qed
  then have m: "\<forall>b. page_of b \<in> used_pages s \<longrightarrow> page_of b \<noteq> b_addr (std_output_buf s) \<longrightarrow> mem u b = mem s b" by blast
  have e: "used_pages u = used_pages t" "pmem_pages u = pmem_pages t" "stream StdInput u = stream StdInput t"
    "b_addr (std_output_buf u) = b_addr (std_output_buf t)" using a(2) by (simp_all add: fs_same_def)
  show "fs_created s u" using a(1) m unfolding fs_created_def u d e by blast
next
  assume a: "console_frame s t" "fs_created t u"
  have t: "ramdisk_fat16_bootrecord t = ramdisk_fat16_bootrecord s" "std_input_buf t = std_input_buf s"
    "fat16_state.more t = fat16_state.more s" using a(1) by (auto simp: console_frame_def)
  note c = console_frameD [OF a(1)]
  have m: "\<forall>b. page_of b \<in> used_pages s \<longrightarrow> page_of b \<noteq> b_addr (std_output_buf s) \<longrightarrow> mem u b = mem s b"
    using a(2) c(1,3,7) by (simp add: fs_created_def)
  show "fs_created s u" using a(2) m unfolding fs_created_def t c by blast
qed

lemma wp_fat16_init_frame:
  assumes "fat16_ready s"
  shows "wp ramdisk_fat16_init (\<lambda>_ s'. fat16_ok s' \<and> formatted (disk s') \<and> fs_created s s') s"
proof -
  have r: "stdio_ok s" "is_init (std_output_buf s)" "serial_responsive (hw_byte s) PORT_COM1" "boot_ok s"
    "ramdisk_block_size s = 0" "ramdisk_block_pointers s = 0" "1025 < card (pmem_pages s - used_pages s)"
    using assms by (simp_all add: fat16_ready_def)
  have ready_frame: "fat16_ready t" if t: "fat16_ready s0" "console_frame s0 t" for s0 t :: "'a fat16_state_scheme"
  proof -
    obtain v l m b where "t = s0\<lparr>vidmem := v, io_log := l, mem := m, std_output_buf := b\<rparr>"
      using t(2) by (auto simp: console_frame_def)
    then show ?thesis
      using t(1) console_frameD [OF t(2)] console_frame_hw [OF t(2)]
      by (simp add: fat16_ready_def boot_ok_def)
  qed
  have cons: "console_ok t" if "fat16_ready t" for t :: "'a fat16_state_scheme"
    using that by (simp add: fat16_ready_def console_ok_def)
  have rest: "wp (kseq (ramdisk_init RAMDISK_FAT16_SIZE)
      (kseq ramdisk_fat16_format
      (kbind (kget raw_entry) (\<lambda>raw.
       kbind (ramdisk_read 512 (Local (take 2 raw)) 2) (\<lambda>(_, first_cluster).
       printf (cstr ''ramdisk_fat16_init: First Cluster Values: %x \<newline>'')
         [ArgInt (push_bit 8 (ucast (local_bytes first_cluster ! 1)) OR ucast (local_bytes first_cluster ! 0))])))))
     (\<lambda>_ s'. fat16_ok s' \<and> formatted (disk s') \<and> fs_created s s') t" if t: "fat16_ready t" and c: "\<And>v. fs_created t v \<Longrightarrow> fs_created s v" for t :: "'a fat16_state_scheme"
  proof -
    have t': "pmem_ok t" "ramdisk_block_size t = 0" "ramdisk_block_pointers t = 0" "1025 < card (pmem_pages t - used_pages t)"
      using t stdio_okD(1) [of t] by (simp_all add: fat16_ready_def)
    have init: "wp (ramdisk_init RAMDISK_FAT16_SIZE) (\<lambda>_ s'. disk_created 1024 t s') t"
      using wp_ramdisk_init [of t RAMDISK_FAT16_SIZE] t' by simp
    show ?thesis
      unfolding wp_kseq wp_kbind wp_kget
      apply (rule wp_mono [OF init])
      subgoal premises u for _ u
      proof -
        have st: "stdio_ok t" using t by (simp add: fat16_ready_def)
        have ok: "fat16_ok u" using t disk_created_console [OF u] by (simp add: fat16_ready_def)
        have "ramdisk_fat16_bootrecord u = ramdisk_fat16_bootrecord t" using u by (auto simp: disk_created_def)
        then have "length (ramdisk_fat16_bootrecord u) = 512" using t by (simp add: fat16_ready_def boot_ok_def)
        from wp_format [OF ok this] show ?thesis
        proof (rule wp_mono)
          fix x v
          assume v: "fat16_ok v \<and> fs_same u v \<and> formatted (disk v)"
          then have "ramdisk_read 512 (Local (take 2 (raw_entry v))) 2 v = Ok (0, Local (slice 512 2 (disk v))) v"
            using fs_read [of v 512 2 "take 2 (raw_entry v)"] by simp
          then show "wp (ramdisk_read 512 (Local (take 2 (raw_entry v))) 2) (\<lambda>a. wp (case a of (_, first_cluster) \<Rightarrow>
              printf (cstr ''ramdisk_fat16_init: First Cluster Values: %x \<newline>'')
                [ArgInt (push_bit 8 (ucast (local_bytes first_cluster ! 1)) OR ucast (local_bytes first_cluster ! 0))])
              (\<lambda>_ s'. fat16_ok s' \<and> formatted (disk s') \<and> fs_created s s')) v"
            by (rule wpI) (use v in \<open>auto intro!: wp_fs_print c fs_created_trans(1) [OF fs_created_trans(1) [OF disk_created_pages [OF u st]]]\<close>)
        qed
      qed
      done
  qed
  have magic: "\<not> (ramdisk_fat16_bootrecord s ! 510 \<noteq> 0x55 \<or> ramdisk_fat16_bootrecord s ! 511 \<noteq> 0xAA)"
    using r(4) by (simp add: boot_ok_def)
  show ?thesis
    unfolding ramdisk_fat16_init_def wp_kbind wp_kget wp_kseq wp_if if_not_P [OF magic] wp_kret
    apply (rule wp_printf_frame [OF cons [OF assms]], simp)
    subgoal premises f for t
      apply (rule wp_printf_frame [OF cons [OF ready_frame [OF assms f]]], simp)
      subgoal premises g for u
        by (rule rest [OF ready_frame [OF ready_frame [OF assms f] g] fs_created_trans(2) [OF f fs_created_trans(2) [OF g]],
              unfolded wp_kseq wp_kbind wp_kget])
      done
    done
qed

lemma wp_fat16_init:
  "fat16_ready s \<Longrightarrow> wp ramdisk_fat16_init (\<lambda>_ s'. fat16_ok s' \<and> formatted (disk s')) s"
  by (rule wp_mono [OF wp_fat16_init_frame]) auto


section \<open>Reading back what was written\<close>

lemma cluster_data_overwrite:
  assumes "c < 415" "length x \<le> 512" "262144 \<le> length d"
  shows "cluster_data (overwrite (512 * (97 + c)) x d) c = x @ drop (length x) (cluster_data d c)"
proof -
  have len: "512 * (97 + c) + length x \<le> length d" "512 * (97 + c) + 512 \<le> length d" using assms by simp_all
  show ?thesis
  proof (rule nth_equalityI)
    show "length (cluster_data (overwrite (512 * (97 + c)) x d) c) = length (x @ drop (length x) (cluster_data d c))"
      using len assms(2) by (simp add: cluster_data_def length_slice)
    fix i
    assume "i < length (cluster_data (overwrite (512 * (97 + c)) x d) c)"
    then have i: "i < 512" using len by (simp add: cluster_data_def length_slice)
    have "cluster_data (overwrite (512 * (97 + c)) x d) c ! i = overwrite (512 * (97 + c)) x d ! (512 * (97 + c) + i)"
      unfolding cluster_data_def using len i by (intro nth_slice) simp_all
    also have "\<dots> = (if i < length x then x ! i else d ! (512 * (97 + c) + i))"
      using nth_overwrite [OF len(1)] by simp
    also have "\<dots> = (x @ drop (length x) (cluster_data d c)) ! i"
      using len i assms(2) by (simp add: nth_append cluster_data_def length_slice nth_slice)
    finally show "cluster_data (overwrite (512 * (97 + c)) x d) c ! i = (x @ drop (length x) (cluster_data d c)) ! i" .
  qed
qed

lemma cluster_data_fat_written:
  assumes "c < 415" "k < 415" "262144 \<le> length d"
  shows "cluster_data (fat_written c v d) k = cluster_data d k"
  using assms by (simp add: cluster_data_def fat_written_def slice_overwrite_disjoint)

lemma file_written_view:
  assumes "c < 415" "length x \<le> 512" "262144 \<le> length d" "e < 32" "length (bytes_of_entry E) = 32"
  shows "root_bytes (file_written E e c x d) e = bytes_of_entry E"
    "\<And>i. i < 32 \<Longrightarrow> i \<noteq> e \<Longrightarrow> root_bytes (file_written E e c x d) i = root_bytes d i"
    "cluster_data (file_written E e c x d) c = x @ drop (length x) (cluster_data d c)"
    "length (file_written E e c x d) = length d"
proof -
  let ?d1 = "overwrite (512 * (97 + c)) x d"
  let ?d2 = "fat_written c 0xFFF8 ?d1"
  have l1: "length ?d1 = length d" using assms by simp
  then have l2: "length ?d2 = length d" using assms by (simp add: length_fat_written)
  show "root_bytes (file_written E e c x d) e = bytes_of_entry E"
    using slice_overwrite_same [of "33280 + 32 * e" "bytes_of_entry E" ?d2] assms l2 by (simp add: file_written_def root_bytes_def)
  show "root_bytes (file_written E e c x d) i = root_bytes d i" if "i < 32" "i \<noteq> e" for i
  proof -
    have "33280 + 32 * i + 32 \<le> 33280 + 32 * e \<or> 33280 + 32 * e + 32 \<le> 33280 + 32 * i" using that(2) by linarith
    then have "root_bytes (file_written E e c x d) i = root_bytes ?d2 i"
      using slice_overwrite_disjoint [of "33280 + 32 * e" "bytes_of_entry E" ?d2 "33280 + 32 * i" 32] assms l2 that(1)
      by (simp add: file_written_def root_bytes_def)
    also have "\<dots> = root_bytes d i"
      using root_bytes_fat_written [OF assms(1), of ?d1] root_bytes_data [OF assms(1-3)] that(1) l1 assms(3) by simp
    finally show ?thesis .
  qed
  have "cluster_data (file_written E e c x d) c = cluster_data ?d2 c"
    using slice_overwrite_disjoint [of "33280 + 32 * e" "bytes_of_entry E" ?d2 "512 * (97 + c)" 512] assms l2
    by (simp add: file_written_def cluster_data_def)
  also have "\<dots> = cluster_data ?d1 c" using cluster_data_fat_written [OF assms(1,1), of ?d1] l1 assms(3) by simp
  also have "\<dots> = x @ drop (length x) (cluster_data d c)" by (rule cluster_data_overwrite [OF assms(1-3)])
  finally show "cluster_data (file_written E e c x d) c = x @ drop (length x) (cluster_data d c)" .
  show "length (file_written E e c x d) = length d" using assms l2 by (simp add: file_written_def)
qed

text \<open>A name finds the entry that was written for it, when no older entry answers to it.\<close>

lemma file_written_match:
  assumes "c < 415" "length x \<le> 512" "262144 \<le> length d" "e < 32" "e \<noteq> 0"
    and "entry_name E = ramdisk_fat16_filename_to_native f"
    and "\<And>i. i < 32 \<Longrightarrow> i \<noteq> 0 \<Longrightarrow> \<not> root_match g d i"
    and "\<And>j. j < 11 \<Longrightarrow> ramdisk_fat16_filename_to_native f ! j \<le> ramdisk_fat16_filename_to_native g ! j"
  shows "first_or_zero (root_match g (file_written E e c x d)) [1..<32] = e"
proof -
  have E: "length (bytes_of_entry E) = 32" using assms(6) by (simp add: length_bytes_of_entry)
  note v = file_written_view [OF assms(1-4) E]
  have nth: "bytes_of_entry E ! j = ramdisk_fat16_filename_to_native f ! j" if "j < 11" for j
    using that assms(6) by (simp add: bytes_of_entry_def nth_append)
  have hit: "root_match g (file_written E e c x d) e"
    using nth native_first [of f] assms(8) by (simp add: root_match_def root_free_def v(1))
  have miss: "\<not> root_match g (file_written E e c x d) i" if "i \<in> set [1..<32]" "i \<noteq> e" for i
    using assms(7) [of i] that v(2) [of i] by (simp add: root_match_def root_free_def)
  have "first_or_zero (root_match g (file_written E e c x d)) [1..<32] \<noteq> 0"
    using hit assms(4,5) by (intro first_or_zero_hit [of e]) simp_all
  then show ?thesis
    using first_or_zero_range [of "root_match g (file_written E e c x d)" "[1..<32]"] miss by metis
qed

text \<open>The free space a write needs: a cluster and a directory entry, and no older entry for the name.\<close>

definition can_write :: "bytes \<Rightarrow> 'z fat16_state_scheme \<Rightarrow> bool" where
  "can_write f s \<longleftrightarrow> fat16_ok s \<and> first_or_zero (root_match f (disk s)) [1..<32] = 0
     \<and> first_or_zero (\<lambda>i. fat_at (disk s) i = 0) [0..<415] \<noteq> 0 \<and> first_or_zero (root_free (disk s)) [1..<32] \<noteq> 0"

definition free_cluster :: "'z fat16_state_scheme \<Rightarrow> nat" where
  "free_cluster s = first_or_zero (\<lambda>i. fat_at (disk s) i = 0) [0..<415]"

definition free_root :: "'z fat16_state_scheme \<Rightarrow> nat" where
  "free_root s = first_or_zero (root_free (disk s)) [1..<32]"

lemma can_writeD:
  assumes "can_write f s"
  shows "fat16_ok s" "first_or_zero (root_match f (disk s)) [1..<32] = 0" "free_cluster s \<noteq> 0" "free_root s \<noteq> 0"
    "free_cluster s < 415" "free_root s < 32" "\<And>i. i < 32 \<Longrightarrow> i \<noteq> 0 \<Longrightarrow> \<not> root_match f (disk s) i" "262144 \<le> length (disk s)"
proof -
  show ok: "fat16_ok s" and z: "first_or_zero (root_match f (disk s)) [1..<32] = 0"
    and c: "free_cluster s \<noteq> 0" and r: "free_root s \<noteq> 0"
    using assms unfolding can_write_def free_cluster_def free_root_def by blast+
  have "free_cluster s \<in> set [0..<415]" "free_root s \<in> set [1..<32]"
    using first_or_zero_range c r unfolding free_cluster_def free_root_def by metis+
  then show "free_cluster s < 415" "free_root s < 32" unfolding set_upt by simp_all
  show "\<not> root_match f (disk s) i" if "i < 32" "i \<noteq> 0" for i
  proof -
    have "0 \<notin> set [1..<32]" "i \<in> set [1..<32]" using that unfolding set_upt by simp_all
    then show ?thesis using z first_or_zero_none by metis
  qed
  show "262144 \<le> length (disk s)" by (rule fat16_okD(5) [OF ok])
qed

text \<open>Up to 512 bytes: the data go to a free cluster. Up to 1024 bytes: so does each chunk in turn.\<close>

lemma wp_file_write_small:
  assumes "can_write f s" "unat n \<le> 512" "unat n \<le> length d"
  shows "wp (ramdisk_fat16_file_write f (Local d) n) (\<lambda>r s'. r = 0 \<and> fat16_ok s' \<and> fs_same s s'
    \<and> disk s' = file_written (new_file s f n (free_cluster s)) (free_root s) (free_cluster s) (take (unat n) d) (disk s)) s"
proof -
  note w = can_writeD [OF assms(1)]
  have loop: "wp (file_write_loop (Suc (unat n)) (Local d) (of_nat (free_cluster s)) 0 n)
      (\<lambda>(cur, p, left) u. cur = of_nat (free_cluster s) \<and> p = 0 \<and> left = n \<and> fat16_ok u \<and> fs_same t u \<and> disk u = disk s) t"
    if "fat16_ok t" "disk t = disk s" for t :: "'a fat16_state_scheme"
    by (rule wpI, rule file_write_loop_small [OF assms(2)]) (use that in simp)
  have "wp (ramdisk_fat16_file_write f (Local d) n) (\<lambda>r s'. r = 0 \<and> fat16_ok s' \<and> fs_same s s'
    \<and> disk s' = file_written (new_file s f n (free_cluster s)) (free_root s) (free_cluster s) (slice 0 (unat n) d) (disk s)) s"
    by (rule wp_file_write [OF w(1,2) free_cluster_def [symmetric] w(3) free_root_def [symmetric] loop])
      (use assms(2,3) in auto)
  then show ?thesis by (simp add: slice_def)
qed

lemma wp_file_write_two:
  assumes "can_write f s" "512 < unat n" "unat n \<le> 1024" "unat n \<le> length d"
  defines "c \<equiv> free_cluster s"
  shows "wp (ramdisk_fat16_file_write f (Local d) n) (\<lambda>r s'. r = 0 \<and> fat16_ok s' \<and> fs_same s s'
    \<and> disk s' = file_written (new_file s f n c) (free_root s) c (slice 512 (unat n - 512) d)
        (fat_written c (of_nat c) (overwrite (512 * (97 + c)) (take 512 d) (disk s)))) s"
proof -
  note w = can_writeD [OF assms(1), folded c_def]
  have n: "unat (n - 512) = unat n - 512" using assms(2) by (subst unat_sub) (simp_all add: word_le_nat_alt)
  let ?D = "fat_written c (of_nat c) (overwrite (512 * (97 + c)) (take 512 d) (disk s))"
  have loop: "wp (file_write_loop (Suc (unat n)) (Local d) (of_nat c) 0 n) (\<lambda>(cur, p, left) u. cur = of_nat c \<and> p = 512
    \<and> left = n - 512 \<and> fat16_ok u \<and> fs_same t u \<and> disk u = ?D) t"
    if "fat16_ok t" "fs_same s t" "disk t = disk s" for t :: "'a fat16_state_scheme"
    using wp_file_write_loop_two [OF that(1) assms(2-4), of c] w(3) unfolding that(3)
    by (simp only: c_def free_cluster_def simp_thms)
  have "length (take 512 d) \<le> 512" by simp
  then have root: "root_bytes ?D i = root_bytes (disk s) i" if "i < 32" for i
    using root_bytes_fat_written [OF w(5) _ that] root_bytes_data [OF w(5) _ w(8) that, of "take 512 d"] w(5,8) by simp
  show ?thesis
    unfolding n [symmetric]
    by (rule wp_file_write [OF w(1,2) free_cluster_def [of s, symmetric, folded c_def] w(3) free_root_def [symmetric] loop root])
      (use assms(2-4) n in auto)
qed


text \<open>After a write, every name whose native form is nowhere smaller is found.\<close>

lemma file_exists_after_write:
  assumes "can_write f s" "unat n \<le> 512" "unat n \<le> length d" "first_or_zero (root_match g (disk s)) [1..<32] = 0"
    and "\<And>j. j < 11 \<Longrightarrow> ramdisk_fat16_filename_to_native f ! j \<le> ramdisk_fat16_filename_to_native g ! j"
  shows "wp (ramdisk_fat16_file_write f (Local d) n) (\<lambda>r t. r = 0 \<and> fat16_ok t
    \<and> (\<exists>e. e \<noteq> 0 \<and> ramdisk_fat16_file_exists g t = Ok e t)) s"
proof (rule wp_mono [OF wp_file_write_small [OF assms(1-3)]])
  note w = can_writeD [OF assms(1)]
  have no: "\<not> root_match g (disk s) i" if "i < 32" "i \<noteq> 0" for i
  proof -
    have "0 \<notin> set [1..<32]" "i \<in> set [1..<32]" using that unfolding set_upt by simp_all
    then show ?thesis using assms(4) first_or_zero_none by metis
  qed
  fix r :: u32 and t
  let ?E = "new_file s f n (free_cluster s)" and ?x = "take (unat n) d"
  assume t: "r = 0 \<and> fat16_ok t \<and> fs_same s t \<and> disk t = file_written ?E (free_root s) (free_cluster s) ?x (disk s)"
  have "first_or_zero (root_match g (disk t)) [1..<32] = free_root s"
    using file_written_match [OF w(5) _ w(8,6,4) _ no assms(5), where x = ?x and E = ?E] t assms(2,3) by (simp add: new_file_def)
  then have "ramdisk_fat16_file_exists g t = Ok (of_nat (free_root s)) t" using file_exists_Ok t by metis
  moreover have "(of_nat (free_root s) :: u32) \<noteq> 0" using of_nat_u32_eq_iff [of "free_root s" 0] w(4,6) by simp
  ultimately show "r = 0 \<and> fat16_ok t \<and> (\<exists>e. e \<noteq> 0 \<and> ramdisk_fat16_file_exists g t = Ok e t)" using t by blast
qed

section \<open>A machine with room for the disk\<close>

definition fat_machine :: fat16_state where
  "fat_machine = ramdisk_state.extend (small_disk\<lparr>pmem_main_memory_length := 0x800000, pmem_mgr_reserved_size := 2048\<rparr>)
     \<lparr>ramdisk_fat16_bootrecord = replicate 510 0 @ [0x55, 0xAA],
      garbage = \<lparr>after_name = [0], after_sectors = (\<lambda>_. 0), in_entry = (\<lambda>_. 0)\<rparr>\<rparr>"

lemmas fat_machine_defs = fat_machine_def ramdisk_state.extend_def small_disk_def malloc_state.extend_def small_heap_def
  stdio_state.extend_def small_console_def

lemma fat_machine_used: "pmem_used fat_machine = {0}"
proof
  have "(0x200000 :: u32) + of_nat e = 0x200000 \<longleftrightarrow> e = 0" if "e < 2048" for e
    using that of_nat_u32_eq_iff [of e 0] by simp
  then show "pmem_used fat_machine \<subseteq> {0}"
    by (auto simp: pmem_used_def entry_used_def record_addr_def pmem_blocks_def fat_machine_defs split: if_splits)
  show "{0} \<subseteq> pmem_used fat_machine"
    by (simp add: pmem_used_def entry_used_def record_addr_def pmem_blocks_def fat_machine_defs)
qed

lemma fat_machine_ready: "fat16_ready fat_machine"
proof -
  have used: "used_pages fat_machine = {0x201000}"
    by (simp add: used_pages_def fat_machine_used entry_addr_def) (simp add: fat_machine_defs)
  have pm: "pmem_ok fat_machine" by (simp add: pmem_ok_def fat_machine_defs pmem_blocks_def)
  have out: "buf_ok StdOutput fat_machine"
    by (simp add: buf_ok_def used) (simp add: fat_machine_defs buf_ready_def buf_contents_def ring_len_def)
  have inp: "buf_ok StdInput fat_machine" by (simp add: buf_ok_def fat_machine_defs)
  have ok: "stdio_ok fat_machine" using pm out inp by (simp add: stdio_ok_def) (simp add: fat_machine_defs)
  have "card (pmem_pages fat_machine - used_pages fat_machine) = 2047"
    by (simp add: card_free_pages [OF pm] fat_machine_used) (simp add: pmem_blocks_def fat_machine_defs)
  with ok show ?thesis
    by (simp add: fat16_ready_def boot_ok_def) (simp add: fat_machine_defs serial_responsive_def nth_append)
qed

text \<open>After initialisation every file can be written.\<close>

lemma formatted_can_write: "fat16_ok s \<Longrightarrow> formatted (disk s) \<Longrightarrow> can_write f s"
  using formatted_root [of "disk s"] formatted_cluster(1) [of "disk s"] fat16_okD(5) [of s]
  unfolding can_write_def by fastforce

lemma fat_machine_init: "wp ramdisk_fat16_init (\<lambda>_ s. can_write f s) fat_machine"
  by (rule wp_mono [OF wp_fat16_init [OF fat_machine_ready]]) (simp add: formatted_can_write)

section \<open>Properties\<close>

text \<open>C10: initialisation makes an empty file system. With a valid boot sector, a working console and
  1026 free pages, \<open>ramdisk_fat16_init\<close> returns, no name is found in the directory, and the first free
  cluster is one of the clusters 2 to 256: the two reserved table entries are never handed out,
  whatever bytes follow the four bytes of the starting sector on the stack.\<close>

theorem fat16_init_empty:
  assumes "fat16_ready s"
  shows "wp ramdisk_fat16_init (\<lambda>_ s'. fat16_ok s' \<and> (\<forall>f. ramdisk_fat16_file_exists f s' = Ok 0 s')
    \<and> (\<exists>c. find_next_free_cluster s' = Ok c s' \<and> 2 \<le> unat c \<and> unat c \<le> 256)) s"
proof (rule wp_mono [OF wp_fat16_init [OF assms]])
  fix u s'
  assume s': "fat16_ok s' \<and> formatted (disk s')"
  note len = fat16_okD(5) [OF conjunct1 [OF s']]
  have "ramdisk_fat16_file_exists f s' = Ok 0 s'" for f
    using file_exists_Ok [of s' f] formatted_root(2) [of "disk s'" f] s' len by simp
  moreover have "\<exists>c. find_next_free_cluster s' = Ok c s' \<and> 2 \<le> unat c \<and> unat c \<le> 256"
  proof (intro exI conjI)
    let ?c = "first_or_zero (\<lambda>i. fat_at (disk s') i = 0) [0..<415]"
    show "find_next_free_cluster s' = Ok (of_nat ?c) s'" using s' find_next_free_cluster_Ok by blast
    have c: "2 \<le> ?c" "?c \<le> 256" using formatted_cluster [of "disk s'"] s' len by blast+
    then have "unat (of_nat ?c :: u16) = ?c" by (intro unat_of_nat_u16) linarith
    with c show "2 \<le> unat (of_nat ?c :: u16)" "unat (of_nat ?c :: u16) \<le> 256" by simp_all
  qed
  ultimately show "fat16_ok s' \<and> (\<forall>f. ramdisk_fat16_file_exists f s' = Ok 0 s')
    \<and> (\<exists>c. find_next_free_cluster s' = Ok c s' \<and> 2 \<le> unat c \<and> unat c \<le> 256)" using s' by blast
qed

theorem fat16_init_empty_witness:
  "wp ramdisk_fat16_init (\<lambda>_ s'. fat16_ok s' \<and> (\<forall>f. ramdisk_fat16_file_exists f s' = Ok 0 s')
    \<and> (\<exists>c. find_next_free_cluster s' = Ok c s' \<and> 2 \<le> unat c \<and> unat c \<le> 256)) fat_machine"
  by (rule fat16_init_empty [OF fat_machine_ready])

text \<open>C3: a file of up to 512 bytes is read back as it was written: when the name is not taken and a
  cluster and a directory entry are free, the write succeeds, and a read of the same name then
  succeeds and delivers the data at the start of the sector buffer.\<close>

theorem fat16_write_read:
  assumes "can_write f s" "unat n \<le> 512" "unat n \<le> length d" "512 \<le> length buf"
  shows "wp (kbind (ramdisk_fat16_file_write f (Local d) n) (\<lambda>r. kbind (ramdisk_fat16_file_read f (Local buf) 0)
      (\<lambda>(q, b). kret (r, q, b)))) (\<lambda>(r, q, b) s'. r = 0 \<and> q = 0 \<and> fat16_ok s' \<and> take (unat n) (local_bytes b) = take (unat n) d) s"
  unfolding wp_kbind
proof (rule wp_mono [OF wp_file_write_small [OF assms(1-3)]])
  note w = can_writeD [OF assms(1)]
  let ?E = "new_file s f n (free_cluster s)" and ?x = "take (unat n) d"
  let ?D = "file_written ?E (free_root s) (free_cluster s) ?x (disk s)"
  fix r :: u32 and t
  assume t: "r = 0 \<and> fat16_ok t \<and> fs_same s t \<and> disk t = ?D"
  have x: "length ?x \<le> 512" "length ?x = unat n" using assms(2,3) by simp_all
  have E: "entry_name ?E = ramdisk_fat16_filename_to_native f" "entry_low_cluster_number ?E = of_nat (free_cluster s)"
    by (simp_all add: new_file_def)
  note v = file_written_view [OF w(5) x(1) w(8,6), of ?E, simplified]
  have m: "first_or_zero (root_match f (disk t)) [1..<32] = free_root s"
    using file_written_match [OF w(5) x(1) w(8,6,4) E(1) w(7)] t by simp
  have low: "entry_low_cluster_number (entry_of_bytes (root_bytes (disk t) (free_root s))) = of_nat (free_cluster s)"
    using t v(1) E(2) by (simp add: entry_roundtrip)
  have "wp (ramdisk_fat16_file_read f (Local buf) 0) (\<lambda>(q, b) s'. q = 0 \<and> fat16_ok s' \<and> fs_same t s' \<and> disk s' = disk t
    \<and> b = Local (cluster_data (disk t) (free_cluster s) @ drop 512 buf)) t"
    using t by (intro wp_file_read [OF _ m w(4) assms(4) low w(5)]) simp
  then show "wp (ramdisk_fat16_file_read f (Local buf) 0) (\<lambda>a. wp (case a of (q, b) \<Rightarrow> kret (r, q, b))
      (\<lambda>(r, q, b) s'. r = 0 \<and> q = 0 \<and> fat16_ok s' \<and> take (unat n) (local_bytes b) = take (unat n) d)) t"
    by (rule wp_mono) (use t v(3) x(2) in auto)
qed

theorem fat16_write_read_witness:
  "wp (kseq ramdisk_fat16_init (kbind (ramdisk_fat16_file_write (cstr ''a.txt'' @ [0]) (Local [1, 2, 3]) 3)
      (\<lambda>r. kbind (ramdisk_fat16_file_read (cstr ''a.txt'' @ [0]) (Local (replicate 512 9)) 0) (\<lambda>(q, b). kret (r, q, b)))))
    (\<lambda>(r, q, b) s'. r = 0 \<and> q = 0 \<and> fat16_ok s' \<and> take 3 (local_bytes b) = [1, 2, 3]) fat_machine"
  unfolding wp_kseq
proof (rule wp_mono [OF fat_machine_init])
  fix u s
  assume "can_write (cstr ''a.txt'' @ [0]) s"
  then show "wp (kbind (ramdisk_fat16_file_write (cstr ''a.txt'' @ [0]) (Local [1, 2, 3]) 3)
      (\<lambda>r. kbind (ramdisk_fat16_file_read (cstr ''a.txt'' @ [0]) (Local (replicate 512 9)) 0) (\<lambda>(q, b). kret (r, q, b))))
    (\<lambda>(r, q, b) s'. r = 0 \<and> q = 0 \<and> fat16_ok s' \<and> take 3 (local_bytes b) = [1, 2, 3]) s"
    using fat16_write_read [of "cstr ''a.txt'' @ [0]" s 3 "[1, 2, 3]" "replicate 512 9"] by simp
qed

text \<open>C38: a file of two clusters is damaged by the write. The second cluster is searched for before the
  first is marked as taken in the table, so the same cluster is found again: the write reports success,
  and a read delivers the second part of the data where the first should be.\<close>

theorem fat16_two_clusters_overlap:
  assumes "can_write f s" "512 < unat n" "unat n \<le> 1024" "unat n \<le> length d" "512 \<le> length buf"
  shows "wp (kbind (ramdisk_fat16_file_write f (Local d) n) (\<lambda>r. kbind (ramdisk_fat16_file_read f (Local buf) 0)
      (\<lambda>(q, b). kret (r, q, b)))) (\<lambda>(r, q, b) s'. r = 0 \<and> q = 0
        \<and> take 512 (local_bytes b) = slice 512 (unat n - 512) d @ slice (unat n - 512) (1024 - unat n) d) s"
  unfolding wp_kbind
proof (rule wp_mono [OF wp_file_write_two [OF assms(1-4)]])
  note w = can_writeD [OF assms(1)]
  let ?c = "free_cluster s"
  let ?E = "new_file s f n ?c" and ?x = "slice 512 (unat n - 512) d" and ?y = "take 512 d"
  let ?D1 = "fat_written ?c (of_nat ?c) (overwrite (512 * (97 + ?c)) ?y (disk s))"
  fix r :: u32 and t
  assume t: "r = 0 \<and> fat16_ok t \<and> fs_same s t \<and> disk t = file_written ?E (free_root s) ?c ?x ?D1"
  have x: "length ?x \<le> 512" "length ?x = unat n - 512" "length ?y = 512" "length ?y \<le> 512"
    using assms(2-4) by (simp_all add: slice_def)
  have D1: "262144 \<le> length ?D1" "cluster_data ?D1 ?c = ?y"
    "\<And>i. i < 32 \<Longrightarrow> root_bytes ?D1 i = root_bytes (disk s) i"
  proof -
    have l: "length (overwrite (512 * (97 + ?c)) ?y (disk s)) = length (disk s)" using w(5,8) x(3) by simp
    then show "262144 \<le> length ?D1" using length_fat_written [OF w(5)] w(8) by simp
    have "length (cluster_data (disk s) ?c) = 512" unfolding cluster_data_def using w(5,8) by (intro length_slice) simp
    then show "cluster_data ?D1 ?c = ?y"
      using cluster_data_fat_written [OF w(5,5), of "overwrite (512 * (97 + ?c)) ?y (disk s)"]
        cluster_data_overwrite [OF w(5) x(4) w(8)] l w(8) x(3) by simp
    show "root_bytes ?D1 i = root_bytes (disk s) i" if "i < 32" for i
      using root_bytes_fat_written [OF w(5) _ that] root_bytes_data [OF w(5) x(4) w(8) that] l w(8) by simp
  qed
  have E: "entry_name ?E = ramdisk_fat16_filename_to_native f" "entry_low_cluster_number ?E = of_nat ?c"
    by (simp_all add: new_file_def)
  note v = file_written_view [OF w(5) x(1) D1(1) w(6), of ?E, simplified]
  have no: "\<not> root_match f ?D1 i" if "i < 32" "i \<noteq> 0" for i
    using w(7) [OF that] D1(3) [OF that(1)] by (simp add: root_match_def root_free_def)
  have m: "first_or_zero (root_match f (disk t)) [1..<32] = free_root s"
    using file_written_match [OF w(5) x(1) D1(1) w(6,4) E(1) no] t by simp
  have low: "entry_low_cluster_number (entry_of_bytes (root_bytes (disk t) (free_root s))) = of_nat ?c"
    using t v(1) E(2) by (simp add: entry_roundtrip)
  have "wp (ramdisk_fat16_file_read f (Local buf) 0) (\<lambda>(q, b) s'. q = 0 \<and> fat16_ok s' \<and> fs_same t s' \<and> disk s' = disk t
    \<and> b = Local (cluster_data (disk t) ?c @ drop 512 buf)) t"
    using t by (intro wp_file_read [OF _ m w(4) assms(5) low w(5)]) simp
  moreover have "take 512 (cluster_data (disk t) ?c @ drop 512 buf) = ?x @ slice (unat n - 512) (1024 - unat n) d"
    using t v(3) D1(2) x assms(2-4) by (simp add: slice_def drop_take)
  ultimately show "wp (ramdisk_fat16_file_read f (Local buf) 0) (\<lambda>a. wp (case a of (q, b) \<Rightarrow> kret (r, q, b))
      (\<lambda>(r, q, b) s'. r = 0 \<and> q = 0 \<and> take 512 (local_bytes b) = ?x @ slice (unat n - 512) (1024 - unat n) d)) t"
    using t by (auto elim!: wp_mono)
qed

theorem fat16_two_clusters_overlap_witness:
  "wp (kseq ramdisk_fat16_init (kbind (ramdisk_fat16_file_write (cstr ''a.txt'' @ [0]) (Local (replicate 512 1 @ [2])) 513)
      (\<lambda>r. kbind (ramdisk_fat16_file_read (cstr ''a.txt'' @ [0]) (Local (replicate 512 9)) 0) (\<lambda>(q, b). kret (r, q, b)))))
    (\<lambda>(r, q, b) s'. r = 0 \<and> q = 0 \<and> take 512 (local_bytes b) = 2 # replicate 511 1) fat_machine"
  unfolding wp_kseq
proof (rule wp_mono [OF fat_machine_init])
  fix u s
  assume s: "can_write (cstr ''a.txt'' @ [0]) s"
  have "slice 512 1 (replicate 512 1 @ [2 :: u8]) @ slice 1 511 (replicate 512 1 @ [2]) = 2 # replicate 511 1"
    by (simp add: slice_def)
  then show "wp (kbind (ramdisk_fat16_file_write (cstr ''a.txt'' @ [0]) (Local (replicate 512 1 @ [2])) 513)
      (\<lambda>r. kbind (ramdisk_fat16_file_read (cstr ''a.txt'' @ [0]) (Local (replicate 512 9)) 0) (\<lambda>(q, b). kret (r, q, b))))
    (\<lambda>(r, q, b) s'. r = 0 \<and> q = 0 \<and> take 512 (local_bytes b) = 2 # replicate 511 1) s"
    using fat16_two_clusters_overlap [OF s, of 513 "replicate 512 1 @ [2]" "replicate 512 9"] by simp
qed

text \<open>C34: a write is refused without touching the disk when the name is found (error 4) and, for a new
  name, when no cluster is free (error 2).\<close>

theorem fat16_write_refused:
  assumes "fat16_ok s"
  shows "(ramdisk_fat16_file_exists f s \<noteq> Ok 0 s \<longrightarrow>
      wp (ramdisk_fat16_file_write f data n) (\<lambda>r s'. r = FAT16_RAMDISK_ERROR_FILE_EXISTS \<and> fat16_ok s' \<and> disk s' = disk s) s)
    \<and> (ramdisk_fat16_file_exists f s = Ok 0 s \<and> find_next_free_cluster s = Ok 0 s \<longrightarrow>
      wp (ramdisk_fat16_file_write f data n) (\<lambda>r s'. r = FAT16_RAMDISK_ERROR_NO_FREE_SPACE \<and> fat16_ok s' \<and> disk s' = disk s) s)"
proof -
  let ?e = "first_or_zero (root_match f (disk s)) [1..<32]" and ?c = "first_or_zero (\<lambda>i. fat_at (disk s) i = 0) [0..<415]"
  have ex: "ramdisk_fat16_file_exists f s = Ok (of_nat ?e) s" by (rule file_exists_Ok [OF assms])
  have fc: "find_next_free_cluster s = Ok (of_nat ?c) s" by (rule find_next_free_cluster_Ok [OF assms])
  have "wp (ramdisk_fat16_file_write f data n) (\<lambda>r s'. r = FAT16_RAMDISK_ERROR_FILE_EXISTS \<and> fat16_ok s' \<and> disk s' = disk s) s"
    if nz: "(of_nat ?e :: u32) \<noteq> 0"
    unfolding ramdisk_fat16_file_write_def Let_def wp_kbind wp_kseq wp_kget
    apply (rule wp_fs_print [OF assms], simp)
    subgoal premises t for t
      apply (rule wp_file_exists [OF t(1)])
      unfolding t(3) using nz t by simp
    done
  moreover have "wp (ramdisk_fat16_file_write f data n) (\<lambda>r s'. r = FAT16_RAMDISK_ERROR_NO_FREE_SPACE \<and> fat16_ok s' \<and> disk s' = disk s) s"
    if z: "(of_nat ?e :: u32) = 0" "(of_nat ?c :: u16) = 0"
    unfolding ramdisk_fat16_file_write_def Let_def wp_kbind wp_kseq wp_kget
    apply (rule wp_fs_print [OF assms], simp)
    subgoal premises t for t
      apply (rule wp_file_exists [OF t(1)])
      unfolding t(3) z
      apply (simp only: simp_thms if_False wp_kbind wp_kget)
      apply (rule wp_find_cluster [OF t(1)])
      unfolding t(3) z using t by simp
    done
  ultimately show ?thesis unfolding ex fc by simp
qed

theorem fat16_write_refused_witness:
  "wp (kseq ramdisk_fat16_init (kbind (ramdisk_fat16_file_write (cstr ''a'' @ [0]) (Local [7]) 1) (\<lambda>_.
      ramdisk_fat16_file_write (cstr ''a'' @ [0]) (Local [8]) 1)))
    (\<lambda>r s'. r = FAT16_RAMDISK_ERROR_FILE_EXISTS) fat_machine"
  unfolding wp_kseq wp_kbind
proof (rule wp_mono [OF fat_machine_init])
  let ?f = "cstr ''a'' @ [0]"
  fix u s
  assume s: "can_write ?f s"
  have "wp (ramdisk_fat16_file_write ?f (Local [7]) 1) (\<lambda>r t. r = 0 \<and> fat16_ok t
    \<and> (\<exists>e. e \<noteq> 0 \<and> ramdisk_fat16_file_exists ?f t = Ok e t)) s"
    by (rule file_exists_after_write [OF s _ _ can_writeD(2) [OF s]]) simp_all
  then show "wp (ramdisk_fat16_file_write ?f (Local [7]) 1) (\<lambda>_. wp (ramdisk_fat16_file_write ?f (Local [8]) 1)
      (\<lambda>r s'. r = FAT16_RAMDISK_ERROR_FILE_EXISTS)) s"
  proof (rule wp_mono)
    fix r t
    assume t: "r = 0 \<and> fat16_ok t \<and> (\<exists>e. e \<noteq> 0 \<and> ramdisk_fat16_file_exists ?f t = Ok e t)"
    then have "ramdisk_fat16_file_exists ?f t \<noteq> Ok 0 t" by auto
    then have "wp (ramdisk_fat16_file_write ?f (Local [8]) 1) (\<lambda>r s'. r = FAT16_RAMDISK_ERROR_FILE_EXISTS \<and> fat16_ok s' \<and> disk s' = disk t) t"
      using fat16_write_refused [of t ?f "Local [8]" 1] t by blast
    then show "wp (ramdisk_fat16_file_write ?f (Local [8]) 1) (\<lambda>r s'. r = FAT16_RAMDISK_ERROR_FILE_EXISTS) t"
      by (rule wp_mono) simp
  qed
qed

text \<open>C39: existence is reported for names that were never written. Once a file is written, every other
  name whose native form is nowhere smaller, byte for byte, is found as well, since \<open>memcmp\<close> reports
  equality for it; such a file can then not be created.\<close>

theorem fat16_exists_false_positive:
  assumes "can_write f s" "unat n \<le> 512" "unat n \<le> length d" "ramdisk_fat16_file_exists g s = Ok 0 s"
    and "\<forall>j < 11. ramdisk_fat16_filename_to_native f ! j \<le> ramdisk_fat16_filename_to_native g ! j"
  shows "wp (kbind (ramdisk_fat16_file_write f (Local d) n) (\<lambda>_. ramdisk_fat16_file_exists g)) (\<lambda>r _. r \<noteq> 0) s"
proof -
  let ?e = "first_or_zero (root_match g (disk s)) [1..<32]"
  have "(of_nat ?e :: u32) = 0" using assms(4) file_exists_Ok [OF can_writeD(1) [OF assms(1)], of g] by simp
  moreover have "?e < 32"
    using first_or_zero_range [of "root_match g (disk s)" "[1..<32]"] unfolding set_upt by auto
  ultimately have "?e = 0" using of_nat_u32_eq_iff [of ?e 0] by simp
  then have "wp (ramdisk_fat16_file_write f (Local d) n) (\<lambda>r t. r = 0 \<and> fat16_ok t
    \<and> (\<exists>e. e \<noteq> 0 \<and> ramdisk_fat16_file_exists g t = Ok e t)) s"
    using assms by (intro file_exists_after_write) simp_all
  then show ?thesis unfolding wp_kbind by (rule wp_mono) (auto simp: wp_def)
qed

theorem fat16_exists_false_positive_witness:
  "wp (kseq ramdisk_fat16_init (kbind (ramdisk_fat16_file_write (cstr ''a.txt'' @ [0]) (Local [7]) 1)
      (\<lambda>_. ramdisk_fat16_file_exists (cstr ''b.txt'' @ [0])))) (\<lambda>r _. r \<noteq> 0) fat_machine"
  unfolding wp_kseq
proof (rule wp_mono [OF wp_fat16_init [OF fat_machine_ready]])
  let ?f = "cstr ''a.txt'' @ [0]" and ?g = "cstr ''b.txt'' @ [0]"
  fix u s
  assume s: "fat16_ok s \<and> formatted (disk s)"
  have "ramdisk_fat16_file_exists ?g s = Ok 0 s"
    using file_exists_Ok [of s ?g] formatted_root(2) [of "disk s" ?g] fat16_okD(5) [of s] s by simp
  moreover have "\<forall>j < 11. ramdisk_fat16_filename_to_native ?f ! j \<le> ramdisk_fat16_filename_to_native ?g ! j"
    by code_simp
  ultimately show "wp (kbind (ramdisk_fat16_file_write ?f (Local [7]) 1) (\<lambda>_. ramdisk_fat16_file_exists ?g)) (\<lambda>r _. r \<noteq> 0) s"
    using fat16_exists_false_positive [of ?f s 1 "[7]" ?g] formatted_can_write [of s ?f] s by simp
qed

definition blank_field :: "nat \<Rightarrow> bytes \<Rightarrow> bytes" where
  "blank_field k cs = take k (cs @ replicate k 0x20)"

text \<open>The native form of a name: the part before the first dot, cut off or blank-padded to eight
  bytes, then the part after it, cut off or padded to three; a name without a dot has a blank extension.\<close>

theorem fat16_native_name:
  assumes "0 \<notin> set base" "46 \<notin> set base" "0 \<notin> set ext"
  shows "ramdisk_fat16_filename_to_native (base @ 46 # ext @ 0 # rest) = blank_field 8 base @ blank_field 3 ext
    \<and> ramdisk_fat16_filename_to_native (base @ 0 # rest) = blank_field 8 base @ blank_field 3 []"
proof -
  have field: "fill_field 0 (replicate k 0x20) cs = blank_field k cs" for k cs
    by (simp add: fill_field_def blank_field_def min_def)
  show ?thesis
    unfolding ramdisk_fat16_filename_to_native_def
    using native_loop_name [OF _ _ assms(1,2), of "replicate 8 0x20" 0 "replicate 3 0x20"]
      native_loop_ext [OF _ _ assms(3), of "replicate 3 0x20" 0]
    by (simp add: field) (simp add: blank_field_def)
qed

theorem fat16_native_name_witness:
  "ramdisk_fat16_filename_to_native (cstr ''longfilename'' @ 46 # cstr ''c'' @ 0 # [5])
      = blank_field 8 (cstr ''longfilename'') @ blank_field 3 (cstr ''c'')
    \<and> ramdisk_fat16_filename_to_native (cstr ''longfilename'' @ 0 # [5]) = blank_field 8 (cstr ''longfilename'') @ blank_field 3 []"
  by (rule fat16_native_name) (simp_all add: cstr_def)

end
