(* ===== verification/Vmem.thy ===== *)
theory Vmem
  imports Fat16_Files
begin

text \<open>
  Paging (\<open>drivers/memory/vmem.c\<close>): page directories and tables in physical pages, their software
  walk, and the identity map the kernel installs. Loading the directory into the processor is an
  assembly routine, an argument here.
\<close>

section \<open>Definitions\<close>

text \<open>The processor's paging registers belong to the state: an assembly routine loads them.\<close>

record vmem_state = fat16_state +
  vmem_page_directory :: u32
  cr0 :: u32
  cr3 :: u32

definition store_word :: "u32 \<Rightarrow> nat \<Rightarrow> u32 \<Rightarrow> ('z machine_scheme, unit) kM" where
  "store_word ptr i v = kmod (\<lambda>s. s\<lparr>mem := store32 (mem s) (slot ptr i) v\<rparr>)"

definition vmem_ptable_new :: "('z pmem_state_scheme, u32) kM" where
  "vmem_ptable_new =
     kbind pmem_alloc (\<lambda>ptr.
     if ptr AND 0xFFF \<noteq> 0 then panic ''vmem_alloc_pmem: page directory needs to be 4096 aligned!''
     else if PHYS_BLOCK_SIZE < 4 * 1024 then panic ''vmem_alloc_pmem: physical block page size isn't large enough''
     else kseq (kfor [0..<1024] (\<lambda>i. store_word ptr i 0)) (kret ptr))"

definition vmem_get_phys_addr :: "u32 \<Rightarrow> u32 \<Rightarrow> ('z stdio_state_scheme, u32) kM" where
  "vmem_get_phys_addr proc_page_directory virtual_addr =
     (let page_dir_entry = drop_bit 22 virtual_addr;
          page_table_entry = drop_bit 12 virtual_addr AND 0x03FF
      in
      if page_dir_entry > 1024 then panic ''vmem_get_phys_addr: page_dir_entry will overflow''
      else if page_table_entry > 1024 then panic ''vmem_get_phys_addr: page_table_entry will overflow''
      else if proc_page_directory = 0 then panic ''vmem_get_phys_addr: page_directory was never declared!''
      else
        kseq (printf (cstr ''vmem_get_phys_addr: v_addr %x | Dir %d | Table %d\<newline>'')
                [ArgInt virtual_addr, ArgInt page_dir_entry, ArgInt page_table_entry])
       (kseq (printf (cstr ''vmem_get_phys_addr: page directory location: %x\<newline>'') [ArgInt proc_page_directory])
       (kbind (kget (\<lambda>s. load32 (mem s) (slot proc_page_directory (unat page_dir_entry)))) (\<lambda>dir_value.
        if dir_value = 0 then
          kseq (printf (cstr ''vmem_get_phys_addr: page directory entry %d does not exist\<newline>'') [ArgInt page_dir_entry])
               (kret 0)
        else
          kseq (printf (cstr ''vmem_get_phys_addr: page directory entry %d exists \<newline>'') [ArgInt page_dir_entry])
         (kbind (kget (\<lambda>s. load32 (mem s) (slot proc_page_directory (unat page_dir_entry)))) (\<lambda>dir_value.
          let page_table_addr = dir_value AND NOT 0xFFF in
          kbind (kget (\<lambda>s. load32 (mem s) (slot page_table_addr (unat page_table_entry)))) (\<lambda>table_value.
          if table_value = 0 then
            kseq (printf (cstr ''vmem_get_phys_addr: page table entry %d does not exist\<newline>'') [ArgInt page_dir_entry])
                 (kret 0)
          else
            let phys_addr = (table_value AND NOT 0xFFF) + (virtual_addr AND 0xFFF) in
            kseq (printf (cstr ''vmem_get_phys_addr: physical address for %x is %x\<newline>'')
                    [ArgInt virtual_addr, ArgInt phys_addr])
                 (kret phys_addr)))))))) "

text \<open>The entry of the identity map: present, writable, open to user code.\<close>

definition virt_addr_entry :: "nat \<Rightarrow> nat \<Rightarrow> u32" where
  "virt_addr_entry i j = (push_bit 22 (of_nat i) OR push_bit 12 (of_nat j)) AND NOT 0xFFF"

definition vmem_enable_page_dir :: "u32 \<Rightarrow> ('z vmem_state_scheme, unit) kM" where
  "vmem_enable_page_dir page_dir =
     kseq (kmod (\<lambda>s. s\<lparr>cr3 := page_dir\<rparr>))
    (kseq (printf (cstr ''Page Directory Address %x\<newline>'') [ArgInt page_dir])
          (kmod (\<lambda>s. s\<lparr>cr0 := cr0 s OR 0x80000001\<rparr>)))"

definition vmem_init :: "('z vmem_state_scheme, unit) kM" where
  "vmem_init =
     kbind vmem_ptable_new (\<lambda>base_ptr.
     kseq (kfor [0..<1024] (\<lambda>i.
       kbind vmem_ptable_new (\<lambda>kernel_pt.
       kseq (store_word base_ptr i (kernel_pt OR 7))
            (kfor [0..<1024] (\<lambda>j. store_word kernel_pt j (virt_addr_entry i j OR 7))))))
    (kseq (kmod (\<lambda>s. s\<lparr>vmem_page_directory := base_ptr\<rparr>))
    (kseq (vmem_enable_page_dir base_ptr)
          (printf (cstr ''Paging Enabled for the entire kernel.\<newline>'') []))))"

section \<open>Taking pages\<close>

text \<open>
  A client took the pages \<open>P\<close> out of the free ones and wrote in them only; all pages that were in
  use, and every variable but the allocator's own position, are as before.
\<close>

definition took :: "u32 set \<Rightarrow> 'z pmem_state_scheme \<Rightarrow> 'z pmem_state_scheme \<Rightarrow> bool" where
  "took P s s' \<longleftrightarrow> pmem_ok s' \<and> pmem_pages s' = pmem_pages s \<and> used_pages s' = used_pages s \<union> P
     \<and> P \<subseteq> pmem_pages s - used_pages s \<and> pmem_same s s' \<and> (\<forall>a. page_of a \<in> used_pages s \<longrightarrow> mem s' a = mem s a)"

lemma tookD:
  assumes "took P s s'"
  shows "pmem_ok s'" "pmem_pages s' = pmem_pages s" "used_pages s' = used_pages s \<union> P" "P \<subseteq> pmem_pages s - used_pages s"
    "pmem_same s s'" "\<And>a. page_of a \<in> used_pages s \<Longrightarrow> mem s' a = mem s a"
  using assms by (auto simp: took_def)

lemma took_empty: "pmem_ok s \<Longrightarrow> took {} s s"
  by (simp add: took_def pm.same_refl)

lemma took_trans:
  assumes "took P s t" "took Q t u"
  shows "took (P \<union> Q) s u"
  using tookD [OF assms(1)] tookD [OF assms(2)] pm.same_trans [of s t u] by (auto simp: took_def)

lemma took_write:
  assumes "took P s t" "\<And>a. page_of a \<notin> P \<Longrightarrow> m a = mem t a"
  shows "took P s (t\<lparr>mem := m\<rparr>)"
proof -
  note t = tookD [OF assms(1)]
  have "pmem_ok (t\<lparr>mem := m\<rparr>)" "pmem_pages (t\<lparr>mem := m\<rparr>) = pmem_pages t" "used_pages (t\<lparr>mem := m\<rparr>) = used_pages t"
    using pmem_write_frame [OF t(1), of m] assms(2) t(2,4) by blast+
  moreover have "pmem_same s (t\<lparr>mem := m\<rparr>)" using pm.same_trans [OF t(5) pm.same_write] .
  moreover have "m a = mem s a" if "page_of a \<in> used_pages s" for a
    using that t(4,6) assms(2) [of a] by auto
  ultimately show ?thesis using t by (simp add: took_def)
qed

lemma took_card:
  assumes "pmem_ok s" "took P s s'" "finite P"
  shows "card (pmem_pages s' - used_pages s') = card (pmem_pages s - used_pages s) - card P"
proof -
  have "pmem_pages s' - used_pages s' = (pmem_pages s - used_pages s) - P" using tookD [OF assms(2)] by auto
  then show ?thesis using tookD(4) [OF assms(2)] assms(3) by (simp add: card_Diff_subset)
qed

lemma took_alloc:
  assumes "pmem_ok s" "2 \<le> card (pmem_pages s - used_pages s)" "\<And>p s'. p \<in> pmem_pages s \<Longrightarrow> took {p} s s' \<Longrightarrow> Q p s'"
  shows "wp pmem_alloc Q s"
proof (rule wp_mono [OF pm.alloc_ok [OF assms(1,2)]])
  fix p s'
  assume "pmem_ok s' \<and> p \<in> pmem_pages s - used_pages s \<and> pmem_pages s' = pmem_pages s \<and> used_pages s' = insert p (used_pages s)
    \<and> pmem_same s s' \<and> (\<forall>a. page_of a \<in> pmem_pages s \<longrightarrow> mem s' a = mem s a)"
  then have "p \<in> pmem_pages s" "took {p} s s'" using pm.used_pages [OF assms(1)] by (auto simp: took_def)
  then show "Q p s'" by (rule assms(3))
qed

lemma took_stdio:
  assumes "took P s s'" "stdio_ok s"
  shows "stdio_ok s'" "stream i s' = stream i s" "std_buf i s' = std_buf i s" "hw_byte s' = hw_byte s"
proof -
  note t = tookD [OF assms(1)]
  obtain c m where s': "s' = s\<lparr>pmem_curr_alloc_record := c, mem := m\<rparr>" using t(5) by (auto simp: pmem_same_def)
  have buf: "std_buf i s' = std_buf i s" for i by (cases i) (simp_all add: s')
  have cont: "buf_contents (mem s') (std_buf i s) = buf_contents (mem s) (std_buf i s)" if "is_init (std_buf i s)" for i
    using buf_ok_ready [OF assms(2) that] t(6) by (intro buf_contents_cong) auto
  have "buf_ok i s'" for i
    using stdio_okD(2) [OF assms(2), of i] cont [of i] t(3) by (auto simp: buf_ok_def Let_def buf)
  then show "stdio_ok s'"
    using stdio_okD(3,4) [OF assms(2)] t(1) by (intro stdio_okI) (simp_all add: buf)
  show "std_buf i s' = std_buf i s" by (rule buf)
  show "stream i s' = stream i s" using cont [of i] by (simp add: stream_def buf)
  show "hw_byte s' = hw_byte s" by (simp add: s')
qed

section \<open>Filling a page with words\<close>

lemma fill_words:
  assumes "4096 dvd unat p" "n \<le> 1024"
  obtains m where "kfor [0..<n] (\<lambda>i. store_word p i (f i)) s = Ok () (s\<lparr>mem := m\<rparr>)"
    "\<And>i. i < n \<Longrightarrow> load32 m (slot p i) = f i" "\<And>a. page_of a \<noteq> p \<Longrightarrow> m a = mem s a"
  using assms(2)
proof (induction n arbitrary: thesis)
  case 0
  show ?case by (rule 0(1) [of "mem s"]) (simp_all add: kret_def)
next
  case (Suc n)
  then have n: "n \<le> 1024" "n < 1024" by simp_all
  obtain m where m: "kfor [0..<n] (\<lambda>i. store_word p i (f i)) s = Ok () (s\<lparr>mem := m\<rparr>)"
    "\<And>i. i < n \<Longrightarrow> load32 m (slot p i) = f i" "\<And>a. page_of a \<noteq> p \<Longrightarrow> m a = mem s a"
    using Suc.IH [OF _ n(1)] by blast
  show ?case
  proof (rule Suc.prems(1) [of "store32 m (slot p n) (f n)"])
    show "kfor [0..<Suc n] (\<lambda>i. store_word p i (f i)) s = Ok () (s\<lparr>mem := store32 m (slot p n) (f n)\<rparr>)"
      by (simp add: kfor_append kseq_def kbind_def m(1)) (simp add: store_word_def kernel_defs)
    show "load32 (store32 m (slot p n) (f n)) (slot p i) = f i" if "i < Suc n" for i
      using load32_store32_slot [OF assms(1) n(2), of i] m(2) [of i] that n(2) by (auto simp: less_Suc_eq)
    show "store32 m (slot p n) (f n) a = mem s a" if "page_of a \<noteq> p" for a
      using store32_slot_other_page [OF assms(1) n(2) that] m(3) [OF that] by simp
  qed
qed

lemma wp_fill_words:
  assumes "4096 dvd unat p" "\<And>m. (\<And>i. i < 1024 \<Longrightarrow> load32 m (slot p i) = f i) \<Longrightarrow>
    (\<And>a. page_of a \<noteq> p \<Longrightarrow> m a = mem s a) \<Longrightarrow> Q () (s\<lparr>mem := m\<rparr>)"
  shows "wp (kfor [0..<1024] (\<lambda>i. store_word p i (f i))) Q s"
proof -
  obtain m where m: "kfor [0..<1024] (\<lambda>i. store_word p i (f i)) s = Ok () (s\<lparr>mem := m\<rparr>)"
    "\<And>i. i < 1024 \<Longrightarrow> load32 m (slot p i) = f i" "\<And>a. page_of a \<noteq> p \<Longrightarrow> m a = mem s a"
    using fill_words [OF assms(1) order_refl, of f s] by blast
  show ?thesis by (rule wpI, rule m(1), rule assms(2)) (rule m(2,3), assumption)+
qed

lemma wp_ptable_new:
  assumes "pmem_ok s" "2 \<le> card (pmem_pages s - used_pages s)"
    and "\<And>p s'. took {p} s s' \<Longrightarrow> 4096 dvd unat p \<Longrightarrow> (\<And>i. i < 1024 \<Longrightarrow> load32 (mem s') (slot p i) = 0) \<Longrightarrow> Q p s'"
  shows "wp vmem_ptable_new Q s"
  unfolding vmem_ptable_new_def wp_kbind
proof (rule took_alloc [OF assms(1,2)])
  fix p t
  assume p: "p \<in> pmem_pages s" and t: "took {p} s t"
  have al: "4096 dvd unat p" by (rule pm.pages_aligned [OF assms(1) p])
  have "wp (kfor [0..<1024] (\<lambda>i. store_word p i 0)) (\<lambda>_. Q p) t"
    by (rule wp_fill_words [OF al], rule assms(3)) (use took_write [OF t] al in auto)
  then show "wp (if p AND 0xFFF \<noteq> 0 then panic ''vmem_alloc_pmem: page directory needs to be 4096 aligned!''
     else if PHYS_BLOCK_SIZE < 4 * 1024 then panic ''vmem_alloc_pmem: physical block page size isn't large enough''
     else kseq (kfor [0..<1024] (\<lambda>i. store_word p i 0)) (kret p)) Q t"
    using al by (simp add: page_aligned_iff)
qed

section \<open>The walk\<close>

text \<open>
  What the processor does with an address: the directory entry and the table entry must be marked
  present; the result is the physical address and the rights (writable, open to user code), which
  both levels must grant.
\<close>

definition mmu_walk :: "memory \<Rightarrow> u32 \<Rightarrow> u32 \<Rightarrow> (u32 \<times> bool \<times> bool) option" where
  "mmu_walk m dir va =
     (let d = load32 m (slot dir (unat (drop_bit 22 va))) in
      if \<not> bit d 0 then None
      else let t = load32 m (slot (page_of d) (unat (drop_bit 12 va AND 0x3FF))) in
      if \<not> bit t 0 then None
      else Some (page_of t + (va AND 0xFFF), bit d 1 \<and> bit t 1, bit d 2 \<and> bit t 2))"

text \<open>What the software walk computes; it takes every entry that is not zero as present.\<close>

definition soft_walk :: "memory \<Rightarrow> u32 \<Rightarrow> u32 \<Rightarrow> u32" where
  "soft_walk m dir va =
     (let d = load32 m (slot dir (unat (drop_bit 22 va))) in
      if d = 0 then 0
      else let t = load32 m (slot (page_of d) (unat (drop_bit 12 va AND 0x3FF))) in
      if t = 0 then 0 else page_of t + (va AND 0xFFF))"

lemma dir_index_less: "unat (drop_bit 22 (va :: u32)) < 1024"
proof -
  have "unat va div 4194304 < 1024" using unat_u32_less [of va] by (simp add: less_mult_imp_div_less)
  then show ?thesis by (simp add: unat_drop_bit_eq drop_bit_nat_def)
qed

lemma table_index: "unat (drop_bit 12 (va :: u32) AND 0x3FF) < 1024"
proof -
  have "(0x3FF :: u32) = mask 10" by (simp add: mask_eq_exp_minus_1)
  then have "drop_bit 12 va AND 0x3FF = take_bit 10 (drop_bit 12 va)" by (simp only: take_bit_eq_mask)
  then have "unat (drop_bit 12 va AND 0x3FF) = unat (drop_bit 12 va) mod 1024"
    by (simp add: unsigned_take_bit_eq take_bit_nat_def)
  then show ?thesis by simp
qed

text \<open>The walk prints, and it reads tables that printing does not touch.\<close>

lemma wp_get_phys_addr:
  assumes "console_ok s" "dir \<noteq> 0" "4096 dvd unat dir" "b_addr (std_output_buf s) \<noteq> dir"
    and "load32 (mem s) (slot dir (unat (drop_bit 22 va))) \<noteq> 0 \<Longrightarrow>
      b_addr (std_output_buf s) \<noteq> page_of (load32 (mem s) (slot dir (unat (drop_bit 22 va))))"
  shows "wp (vmem_get_phys_addr dir va) (\<lambda>r s'. r = soft_walk (mem s) dir va \<and> console_frame s s') s"
proof -
  define di ti where "di = unat (drop_bit 22 va)" and "ti = unat (drop_bit 12 va AND 0x3FF)"
  have idx: "di < 1024" "ti < 1024" using dir_index_less table_index by (simp_all add: di_def ti_def)
  have no: "\<not> drop_bit 22 va > 1024" "\<not> drop_bit 12 va AND 0x3FF > 1024"
    using idx by (simp_all add: word_less_nat_alt di_def ti_def)
  have same: "load32 (mem t) (slot p i) = load32 (mem s) (slot p i)"
    if "console_frame s t" "4096 dvd unat p" "i < 1024" "b_addr (std_output_buf s) \<noteq> p" for t :: "'a stdio_state_scheme" and p i
    using console_frameD(1) [OF that(1)] that(4) by (intro load32_slot_cong [OF that(2,3)]) auto
  have al: "4096 dvd unat (page_of d)" for d by (simp add: unat_page_of)
  have dir: "load32 (mem t) (slot dir di) = load32 (mem s) (slot dir di)" if "console_frame s t" for t :: "'a stdio_state_scheme"
    by (rule same [OF that assms(3) idx(1) assms(4)])
  show ?thesis
    unfolding vmem_get_phys_addr_def Let_def if_not_P [OF no(1)] if_not_P [OF no(2)] if_not_P [OF assms(2)] wp_kseq wp_kbind wp_kget
      di_def [symmetric] ti_def [symmetric] page_of_def [symmetric]
    apply (rule wp_printf_frame [OF assms(1)], simp)
    subgoal premises t for t
      apply (rule wp_printf_frame [OF console_ok_frame [OF assms(1) t]], simp)
      subgoal premises u for u
      proof -
        have su: "console_frame s u" by (rule console_frame_trans [OF t u])
        have ok: "console_ok u" by (rule console_ok_frame [OF assms(1) su])
        show ?thesis
        proof (cases "load32 (mem s) (slot dir di) = 0")
          case True
          then have "soft_walk (mem s) dir va = 0" by (simp add: soft_walk_def di_def)
          then show ?thesis
            using True dir [OF su] console_frame_trans [OF su] by (auto intro!: wp_printf_frame [OF ok])
        next
          case False
          let ?p = "page_of (load32 (mem s) (slot dir di))"
          have p: "b_addr (std_output_buf s) \<noteq> ?p" using assms(5) False by (simp add: di_def)
          have walk: "soft_walk (mem s) dir va = (if load32 (mem s) (slot ?p ti) = 0 then 0
              else page_of (load32 (mem s) (slot ?p ti)) + (va AND 0xFFF))"
            using False by (simp add: soft_walk_def di_def ti_def)
          show ?thesis
            unfolding dir [OF su] if_not_P [OF False] wp_kseq wp_kbind wp_kget
            apply (rule wp_printf_frame [OF ok], simp)
            subgoal premises v for v
            proof -
              have sv: "console_frame s v" by (rule console_frame_trans [OF su v])
              have okv: "console_ok v" by (rule console_ok_frame [OF assms(1) sv])
              show ?thesis
                unfolding dir [OF sv] same [OF sv al idx(2) p] walk
                using console_frame_trans [OF sv] by (auto intro!: wp_printf_frame [OF okv])
            qed
            done
        qed
      qed
      done
    done
qed

section \<open>The identity map\<close>

lemma masks: "(0xFFF :: u32) = mask 12" "(0x3FF :: u32) = mask 10" "(7 :: u32) = mask 3"
  by (simp_all add: mask_eq_exp_minus_1)

lemma page_of_flags: "page_of (w OR 7) = page_of w"
  unfolding page_of_def masks by (rule bit_word_eqI) (auto simp: bit_simps)

lemma page_of_aligned: "4096 dvd unat p \<Longrightarrow> page_of p = p"
  using page_offset(2) [of p 0] by simp

lemma flags_present: "bit (w OR 7 :: u32) 0" "bit (w OR 7 :: u32) 1" "bit (w OR 7 :: u32) 2" "w OR 7 \<noteq> (0 :: u32)"
proof -
  show b: "bit (w OR 7 :: u32) 0" "bit (w OR 7 :: u32) 1" "bit (w OR 7 :: u32) 2"
    unfolding masks by (simp_all add: bit_simps)
  then show "w OR 7 \<noteq> (0 :: u32)" by (metis bit_0_eq bot_apply bot_bool_def)
qed

lemma split_address:
  fixes va :: u32
  shows "virt_addr_entry (unat (drop_bit 22 va)) (unat (drop_bit 12 va AND 0x3FF)) = page_of va"
    and "page_of va + (va AND 0xFFF) = va"
proof -
  show "virt_addr_entry (unat (drop_bit 22 va)) (unat (drop_bit 12 va AND 0x3FF)) = page_of va"
  proof (rule bit_word_eqI)
    fix n
    assume "n < LENGTH(32)"
    then show "bit (virt_addr_entry (unat (drop_bit 22 va)) (unat (drop_bit 12 va AND 0x3FF))) n = bit (page_of va) n"
      unfolding virt_addr_entry_def page_of_def masks
      by (cases "n < 12"; cases "n < 22") (auto simp: bit_simps)
  qed
  have "page_of va + (va AND 0xFFF) = page_of va OR (va AND 0xFFF)"
    unfolding page_of_def by (rule disjunctive_add) (auto simp: bit_simps)
  also have "\<dots> = va" unfolding page_of_def masks by (rule bit_word_eqI) (auto simp: bit_simps)
  finally show "page_of va + (va AND 0xFFF) = va" .
qed

text \<open>A directory whose first \<open>n\<close> entries lead to identity tables.\<close>

definition identity_upto :: "nat \<Rightarrow> memory \<Rightarrow> u32 \<Rightarrow> u32 list \<Rightarrow> bool" where
  "identity_upto n m dir T \<longleftrightarrow> length T = n \<and> (\<forall>i < n. 4096 dvd unat (T ! i) \<and> load32 m (slot dir i) = T ! i OR 7
     \<and> (\<forall>j < 1024. load32 m (slot (T ! i) j) = virt_addr_entry i j OR 7))"

lemma identity_walks:
  assumes "identity_upto 1024 m dir T"
  shows "mmu_walk m dir va = Some (va, True, True)" "soft_walk m dir va = va"
    "page_of (load32 m (slot dir (unat (drop_bit 22 va)))) \<in> set T"
proof -
  let ?i = "unat (drop_bit 22 va)" and ?j = "unat (drop_bit 12 va AND 0x3FF)"
  have i: "?i < 1024" "?j < 1024" using dir_index_less table_index by blast+
  have T: "4096 dvd unat (T ! ?i)" "load32 m (slot dir ?i) = T ! ?i OR 7"
    "load32 m (slot (T ! ?i) ?j) = virt_addr_entry ?i ?j OR 7"
    using assms i by (simp_all add: identity_upto_def)
  have p: "page_of (load32 m (slot dir ?i)) = T ! ?i" by (simp add: T(2) page_of_flags page_of_aligned [OF T(1)])
  have f: "page_of (virt_addr_entry ?i ?j OR 7) = page_of va"
  proof -
    have "page_of (page_of va) = page_of va" by (rule page_of_aligned) (simp add: unat_page_of)
    then show ?thesis by (simp add: page_of_flags split_address(1))
  qed
  show "mmu_walk m dir va = Some (va, True, True)"
    unfolding mmu_walk_def Let_def p T(3) f split_address(2) unfolding T(2) by (simp add: flags_present flags_present(2) [unfolded One_nat_def])
  show "soft_walk m dir va = va"
    unfolding soft_walk_def Let_def p T(3) f split_address(2) unfolding T(2) by (simp add: flags_present flags_present(2) [unfolded One_nat_def])
  show "page_of (load32 m (slot dir ?i)) \<in> set T"
    using p i assms by (simp add: identity_upto_def)
qed

lemma identity_cong:
  assumes "identity_upto n m dir T" "n \<le> 1024" "4096 dvd unat dir" "\<And>a. page_of a = dir \<Longrightarrow> m' a = m a"
    "\<And>a. page_of a \<in> set T \<Longrightarrow> m' a = m a"
  shows "identity_upto n m' dir T"
  unfolding identity_upto_def
proof (intro conjI allI impI)
  show "length T = n" using assms(1) by (simp add: identity_upto_def)
  fix i
  assume i: "i < n"
  then have T: "4096 dvd unat (T ! i)" "load32 m (slot dir i) = T ! i OR 7" "T ! i \<in> set T"
    "\<And>j. j < 1024 \<Longrightarrow> load32 m (slot (T ! i) j) = virt_addr_entry i j OR 7"
    using assms(1) by (auto simp: identity_upto_def)
  show "4096 dvd unat (T ! i)" by (rule T(1))
  show "load32 m' (slot dir i) = T ! i OR 7"
    using load32_slot_cong [OF assms(3), of i m' m] assms(2,4) i T(2) by simp
  fix j :: nat
  assume "j < 1024"
  moreover have "m' a = m a" if "page_of a = T ! i" for a using assms(5) T(3) that by simp
  ultimately show "load32 m' (slot (T ! i) j) = virt_addr_entry i j OR 7"
    using load32_slot_cong [OF T(1), of j m' m] T(4) by simp
qed

text \<open>One turn of the loop: a fresh table, its directory entry, and its contents.\<close>

lemma wp_identity_step:
  assumes s: "pmem_ok s" "2 \<le> card (pmem_pages s - used_pages s)" and dir: "dir \<in> used_pages s" "i < 1024"
    and T: "identity_upto i (mem s) dir T" "set T \<subseteq> used_pages s" "dir \<notin> set T"
    and Q: "\<And>pt t m. took {pt} s t \<Longrightarrow> (\<And>a. page_of a \<noteq> pt \<Longrightarrow> page_of a \<noteq> dir \<Longrightarrow> m a = mem t a) \<Longrightarrow>
       identity_upto (Suc i) m dir (T @ [pt]) \<Longrightarrow> Q () (t\<lparr>mem := m\<rparr>)"
  shows "wp (kbind vmem_ptable_new (\<lambda>pt. kseq (store_word dir i (pt OR 7))
    (kfor [0..<1024] (\<lambda>j. store_word pt j (virt_addr_entry i j OR 7))))) Q s"
  unfolding wp_kbind wp_kseq
proof (rule wp_ptable_new [OF s], unfold store_word_def [of dir] wp_kmod)
  fix pt t
  assume t: "took {pt} s t" and al: "4096 dvd unat pt"
  note tk = tookD [OF t]
  have ald: "4096 dvd unat dir" using pm.pages_aligned [OF s(1)] pm.used_pages [OF s(1)] dir(1) by blast
  have fresh: "pt \<notin> used_pages s" "pt \<noteq> dir" "pt \<notin> set T" using tk(4) dir(1) T(2) by auto
  let ?u = "t\<lparr>mem := store32 (mem t) (slot dir i) (pt OR 7)\<rparr>"
  show "wp (kfor [0..<1024] (\<lambda>j. store_word pt j (virt_addr_entry i j OR 7))) Q ?u"
  proof (rule wp_fill_words [OF al])
    fix m
    assume m: "\<And>j. j < 1024 \<Longrightarrow> load32 m (slot pt j) = virt_addr_entry i j OR 7" "\<And>a. page_of a \<noteq> pt \<Longrightarrow> m a = mem ?u a"
    have out: "m a = mem t a" if "page_of a \<noteq> pt" "page_of a \<noteq> dir" for a
      using m(2) [OF that(1)] store32_slot_other_page [OF ald dir(2) that(2)] by simp
    have dir_new: "load32 m (slot dir k) = (if k = i then pt OR 7 else load32 (mem s) (slot dir k))" if "k < 1024" for k
    proof -
      have "m a = store32 (mem t) (slot dir i) (pt OR 7) a" if "page_of a = dir" for a
        using m(2) [of a] that fresh(2) by simp
      then have "load32 m (slot dir k) = load32 (store32 (mem t) (slot dir i) (pt OR 7)) (slot dir k)"
        by (rule load32_slot_cong [OF ald that])
      moreover have "load32 (mem t) (slot dir k) = load32 (mem s) (slot dir k)"
        using tk(6) dir(1) by (intro load32_slot_cong [OF ald that]) simp
      ultimately show ?thesis using load32_store32_slot [OF ald dir(2) that] by auto
    qed
    have old: "m a = mem s a" if "page_of a \<in> set T" for a
    proof -
      have "page_of a \<noteq> pt" "page_of a \<noteq> dir" "page_of a \<in> used_pages s" using that fresh T(2,3) by auto
      then show ?thesis using out [of a] tk(6) [of a] by simp
    qed
    have len: "length T = i" using T(1) by (simp add: identity_upto_def)
    have "identity_upto (Suc i) m dir (T @ [pt])"
      unfolding identity_upto_def
    proof (intro conjI allI impI)
      fix k
      assume k: "k < Suc i"
      show "4096 dvd unat ((T @ [pt]) ! k)" using k al T(1) len by (auto simp: identity_upto_def nth_append less_Suc_eq)
      show "load32 m (slot dir k) = (T @ [pt]) ! k OR 7"
        using k dir_new [of k] T(1) len dir(2) by (auto simp: identity_upto_def nth_append less_Suc_eq)
      fix j :: nat
      assume j: "j < 1024"
      show "load32 m (slot ((T @ [pt]) ! k) j) = virt_addr_entry k j OR 7"
      proof (cases "k = i")
        case True
        then show ?thesis using m(1) [OF j] len by (simp add: nth_append)
      next
        case False
        then have k': "k < i" "T ! k \<in> set T" "4096 dvd unat (T ! k)" "load32 (mem s) (slot (T ! k) j) = virt_addr_entry k j OR 7"
          using k T(1) len j by (auto simp: identity_upto_def)
        have "m a = mem s a" if "page_of a = T ! k" for a using old that k'(2) by simp
        then have "load32 m (slot (T ! k) j) = load32 (mem s) (slot (T ! k) j)"
          by (rule load32_slot_cong [OF k'(3) j])
        then show ?thesis using k' len by (simp add: nth_append)
      qed
    qed (simp add: len)
    then have "Q () (t\<lparr>mem := m\<rparr>)" by (rule Q [OF t, rotated]) (rule out)
    then show "Q () (?u\<lparr>mem := m\<rparr>)" by simp
  qed
qed

lemma wp_identity_loop:
  assumes s: "pmem_ok s" "1025 < card (pmem_pages s - used_pages s)" and t: "took {dir} s t"
  shows "wp (kfor [0..<1024] (\<lambda>i. kbind vmem_ptable_new (\<lambda>pt. kseq (store_word dir i (pt OR 7))
    (kfor [0..<1024] (\<lambda>j. store_word pt j (virt_addr_entry i j OR 7))))))
    (\<lambda>_ u. \<exists>T. took (insert dir (set T)) s u \<and> identity_upto 1024 (mem u) dir T \<and> distinct (dir # T)) t"
proof -
  define I where "I i u \<longleftrightarrow> (\<exists>T. took (insert dir (set T)) s u \<and> identity_upto i (mem u) dir T \<and> distinct (dir # T))" for i u
  have "wp (kfor [0..<1024] (\<lambda>i. kbind vmem_ptable_new (\<lambda>pt. kseq (store_word dir i (pt OR 7))
    (kfor [0..<1024] (\<lambda>j. store_word pt j (virt_addr_entry i j OR 7)))))) (\<lambda>_. I 1024) t"
  proof (rule wp_kfor_upt)
    show "I 0 t" unfolding I_def using t by (intro exI [of _ "[]"]) (simp add: identity_upto_def)
  next
    fix i u
    assume i: "i < 1024" and "I i u"
    then obtain T where T: "took (insert dir (set T)) s u" "identity_upto i (mem u) dir T" "distinct (dir # T)"
      unfolding I_def by blast
    note tk = tookD [OF T(1)]
    have "card (insert dir (set T)) = Suc i"
      using T(2,3) distinct_card [of T] by (simp add: identity_upto_def)
    then have "card (pmem_pages u - used_pages u) = card (pmem_pages s - used_pages s) - Suc i"
      using took_card [OF s(1) T(1)] by simp
    then have free: "2 \<le> card (pmem_pages u - used_pages u)" using s(2) i by linarith
    show "wp (kbind vmem_ptable_new (\<lambda>pt. kseq (store_word dir i (pt OR 7))
      (kfor [0..<1024] (\<lambda>j. store_word pt j (virt_addr_entry i j OR 7))))) (\<lambda>_. I (Suc i)) u"
    proof (rule wp_identity_step [OF tk(1) free _ i T(2)])
      show "dir \<in> used_pages u" "set T \<subseteq> used_pages u" "dir \<notin> set T" using tk(3) T(3) by auto
      fix pt v m
      assume v: "took {pt} u v" "\<And>a. page_of a \<noteq> pt \<Longrightarrow> page_of a \<noteq> dir \<Longrightarrow> m a = mem v a"
        "identity_upto (Suc i) m dir (T @ [pt])"
      have "took (insert dir (set T) \<union> {pt}) s v" by (rule took_trans [OF T(1) v(1)])
      then have "took (insert dir (set T) \<union> {pt}) s (v\<lparr>mem := m\<rparr>)" by (rule took_write) (use v(2) in auto)
      moreover have "insert dir (set T) \<union> {pt} = insert dir (set (T @ [pt]))" by auto
      moreover have "distinct (dir # T @ [pt])" using T(3) tookD(4) [OF v(1)] tk(3) by auto
      ultimately show "I (Suc i) (v\<lparr>mem := m\<rparr>)"
        unfolding I_def using v(3) by (intro exI [of _ "T @ [pt]"]) simp
    qed
  qed simp
  then show ?thesis by (rule wp_mono) (auto simp: I_def)
qed

section \<open>The page tables stay while the kernel prints\<close>

definition tables_mapped :: "u32 list \<Rightarrow> 'z vmem_state_scheme \<Rightarrow> bool" where
  "tables_mapped T s \<longleftrightarrow> console_ok s \<and> vmem_page_directory s \<noteq> 0 \<and> 4096 dvd unat (vmem_page_directory s)
     \<and> identity_upto 1024 (mem s) (vmem_page_directory s) T \<and> b_addr (std_output_buf s) \<notin> insert (vmem_page_directory s) (set T)"

definition identity_mapped :: "'z vmem_state_scheme \<Rightarrow> bool" where
  "identity_mapped s \<longleftrightarrow> (\<exists>T. tables_mapped T s) \<and> cr3 s = vmem_page_directory s \<and> bit (cr0 s) 31"

lemma paging_fields:
  "stdio_state.truncate (s\<lparr>vmem_page_directory := x\<rparr>) = stdio_state.truncate s"
  "stdio_state.truncate (s\<lparr>cr0 := x\<rparr>) = stdio_state.truncate s"
  "stdio_state.truncate (s\<lparr>cr3 := x\<rparr>) = stdio_state.truncate s"
  by (simp_all add: stdio_state.truncate_def)

lemmas directory_stdio [simp] = stdio_cong [OF paging_fields(1)]
lemmas cr0_stdio [simp] = stdio_cong [OF paging_fields(2)]
lemmas cr3_stdio [simp] = stdio_cong [OF paging_fields(3)]

lemma tables_registers [simp]:
  "tables_mapped T (s\<lparr>cr0 := x\<rparr>) = tables_mapped T s" "tables_mapped T (s\<lparr>cr3 := x\<rparr>) = tables_mapped T s"
  by (simp_all add: tables_mapped_def)

lemma vmem_registers_frame:
  assumes "console_frame s t"
  shows "vmem_page_directory t = vmem_page_directory s" "cr0 t = cr0 s" "cr3 t = cr3 s"
  using assms unfolding console_frame_def by auto

lemma tables_mapped_frame:
  assumes "tables_mapped T s" "console_frame s t"
  shows "tables_mapped T t"
proof -
  let ?dir = "vmem_page_directory s"
  have T: "identity_upto 1024 (mem s) ?dir T" "4096 dvd unat ?dir" "b_addr (std_output_buf s) \<notin> insert ?dir (set T)"
    using assms(1) by (simp_all add: tables_mapped_def)
  have same: "mem t a = mem s a" if "page_of a \<in> insert ?dir (set T)" for a
  proof -
    have "page_of a \<noteq> b_addr (std_output_buf s)" using T(3) that by metis
    then show ?thesis by (rule console_frameD(1) [OF assms(2)])
  qed
  have "identity_upto 1024 (mem t) ?dir T" by (rule identity_cong [OF T(1) order_refl T(2)]) (simp_all add: same)
  then show ?thesis
    using assms(1) console_ok_frame [OF _ assms(2)] console_frameD(3) [OF assms(2)]
    by (simp add: tables_mapped_def vmem_registers_frame [OF assms(2)])
qed

lemma identity_mapped_frame: "identity_mapped s \<Longrightarrow> console_frame s t \<Longrightarrow> identity_mapped t"
  using tables_mapped_frame [of _ s t] vmem_registers_frame [of s t] by (auto simp: identity_mapped_def)

lemma wp_table_lookup:
  assumes "tables_mapped T s" "\<And>t. console_frame s t \<Longrightarrow> Q va t"
  shows "wp (vmem_get_phys_addr (vmem_page_directory s) va) Q s"
proof -
  let ?dir = "vmem_page_directory s"
  have T: "identity_upto 1024 (mem s) ?dir T" "b_addr (std_output_buf s) \<notin> insert ?dir (set T)"
    using assms(1) by (simp_all add: tables_mapped_def)
  have "b_addr (std_output_buf s) \<noteq> page_of (load32 (mem s) (slot ?dir (unat (drop_bit 22 va))))"
    using identity_walks(3) [OF T(1), of va] T(2) by auto
  then have "wp (vmem_get_phys_addr ?dir va) (\<lambda>r t. r = soft_walk (mem s) ?dir va \<and> console_frame s t) s"
    using assms(1) by (intro wp_get_phys_addr) (auto simp: tables_mapped_def)
  then show ?thesis by (rule wp_mono) (use assms(2) identity_walks(2) [OF T(1)] in auto)
qed

lemma wp_mapped_lookup:
  assumes "identity_mapped s" "\<And>t. identity_mapped t \<Longrightarrow> Q va t"
  shows "wp (vmem_get_phys_addr (vmem_page_directory s) va) Q s"
  using assms(1) unfolding identity_mapped_def by (auto intro: wp_table_lookup assms(2) identity_mapped_frame [OF assms(1)])

text \<open>The console works and there is room for the directory and its tables.\<close>

definition vmem_ready :: "'z vmem_state_scheme \<Rightarrow> bool" where
  "vmem_ready s \<longleftrightarrow> stdio_ok s \<and> is_init (std_output_buf s) \<and> serial_responsive (hw_byte s) PORT_COM1
     \<and> 0 \<notin> pmem_pages s \<and> 1025 < card (pmem_pages s - used_pages s)"

lemma wp_enable_page_dir:
  assumes "tables_mapped T s"
  shows "wp (kseq (vmem_enable_page_dir (vmem_page_directory s)) (printf (cstr ''Paging Enabled for the entire kernel.\<newline>'') []))
    (\<lambda>_ t. identity_mapped t \<and> tables_mapped T t \<and> vmem_page_directory t = vmem_page_directory s
      \<and> used_pages t = used_pages s \<and> pmem_pages t = pmem_pages s) s"
proof -
  let ?dir = "vmem_page_directory s"
  have con: "console_ok t" if "tables_mapped T t" for t :: "'a vmem_state_scheme" using that by (simp add: tables_mapped_def)
  have fin: "wp (printf (cstr ''Paging Enabled for the entire kernel.\<newline>'') []) (\<lambda>_ t. identity_mapped t \<and> tables_mapped T t
      \<and> vmem_page_directory t = vmem_page_directory s
      \<and> used_pages t = used_pages s \<and> pmem_pages t = pmem_pages s) u"
    if u: "tables_mapped T u" "vmem_page_directory u = ?dir" "cr3 u = ?dir" "bit (cr0 u) 31" "used_pages u = used_pages s" "pmem_pages u = pmem_pages s"
    for u :: "'a vmem_state_scheme"
  proof (rule wp_printf_frame [OF con [OF u(1)]])
    fix t
    assume t: "console_frame u t"
    show "identity_mapped t \<and> tables_mapped T t \<and> vmem_page_directory t = vmem_page_directory s
      \<and> used_pages t = used_pages s \<and> pmem_pages t = pmem_pages s"
      using tables_mapped_frame [OF u(1) t] vmem_registers_frame [OF t] console_frameD(6,7) [OF t] u(2-6)
      by (auto simp: identity_mapped_def)
  qed simp
  have on: "bit (x OR 0x80000001 :: u32) 31" for x by (simp add: bit_or_iff)
  show ?thesis
    unfolding vmem_enable_page_dir_def wp_kseq wp_kmod
  proof (rule wp_printf_frame, goal_cases)
    case 1 show ?case using con [OF assms] by simp
  next
    case 2 show ?case by simp
  next
    case (3 t)
    have "tables_mapped T t" by (rule tables_mapped_frame [OF _ 3]) (simp add: assms)
    then show ?case
      using vmem_registers_frame [OF 3] console_frameD(6,7) [OF 3] on by (intro fin) simp_all
  qed
qed

lemma wp_vmem_init:
  assumes "vmem_ready s"
  shows "wp vmem_init (\<lambda>_ s'. identity_mapped s' \<and> pmem_pages s' = pmem_pages s
    \<and> (\<exists>T. tables_mapped T s' \<and> used_pages s' = used_pages s \<union> insert (vmem_page_directory s') (set T))) s"
proof -
  have r: "stdio_ok s" "is_init (std_output_buf s)" "serial_responsive (hw_byte s) PORT_COM1" "0 \<notin> pmem_pages s"
    "1025 < card (pmem_pages s - used_pages s)" "pmem_ok s"
    using assms stdio_okD(1) [of s] by (simp_all add: vmem_ready_def)
  have mapped: "tables_mapped T (u\<lparr>vmem_page_directory := dir\<rparr>)"
    if u: "took (insert dir (set T)) s u" "identity_upto 1024 (mem u) dir T" for dir T u
  proof -
    note tk = tookD [OF u(1)] and st = took_stdio [OF u(1) r(1)]
    have out: "std_output_buf u = std_output_buf s" using st(3) [of StdOutput] by simp
    have "console_ok (u\<lparr>vmem_page_directory := dir\<rparr>)" using st(1,4) r(2,3) out by (simp add: console_ok_def)
    moreover have "b_addr (std_output_buf s) \<notin> insert dir (set T)"
      using buf_ok_ready(2) [OF r(1), of StdOutput] r(2) tk(4) by auto
    moreover have "4096 dvd unat dir" "dir \<noteq> 0" using tk(4) pm.pages_aligned [OF r(6)] r(4) by auto
    ultimately show ?thesis using u(2) out by (simp add: tables_mapped_def)
  qed
  have fin: "wp (kseq (vmem_enable_page_dir dir) (printf (cstr ''Paging Enabled for the entire kernel.\<newline>'') []))
      (\<lambda>_ s'. identity_mapped s' \<and> pmem_pages s' = pmem_pages s
        \<and> (\<exists>T. tables_mapped T s' \<and> used_pages s' = used_pages s \<union> insert (vmem_page_directory s') (set T)))
      (u\<lparr>vmem_page_directory := dir\<rparr>)"
    if u: "took (insert dir (set T)) s u" "identity_upto 1024 (mem u) dir T" for dir T u
  proof -
    note tk = tookD [OF u(1)] and m = mapped [OF u]
    have "wp (kseq (vmem_enable_page_dir dir) (printf (cstr ''Paging Enabled for the entire kernel.\<newline>'') []))
      (\<lambda>_ t. identity_mapped t \<and> tables_mapped T t \<and> vmem_page_directory t = dir \<and> used_pages t = used_pages u
        \<and> pmem_pages t = pmem_pages u) (u\<lparr>vmem_page_directory := dir\<rparr>)"
      using wp_enable_page_dir [OF m] by simp
    then show ?thesis by (rule wp_mono) (use tk(2,3) in auto)
  qed
  show ?thesis
    unfolding vmem_init_def wp_kbind wp_kseq [of "kfor _ _"] wp_kseq [of "kmod _"] wp_kmod
    apply (rule wp_ptable_new [OF r(6)], use r(5) in linarith)
    subgoal premises p for dir t
      by (rule wp_mono [OF wp_identity_loop [OF r(6,5) p(1)]]) (use fin in blast)
    done
qed

section \<open>Properties\<close>

text \<open>C8: after \<open>vmem_init\<close> paging is on and every virtual address is its own physical address: the
  processor's walk of the directory it was given maps each of the 2^32 addresses to itself, and so does \<open>vmem_get_phys_addr\<close>. Both levels
  also grant write access and access from user code, to all memory.\<close>

theorem vmem_init_identity:
  assumes "vmem_ready s"
  shows "wp vmem_init (\<lambda>_ s'. bit (cr0 s') 31 \<and> (\<forall>va. mmu_walk (mem s') (cr3 s') va = Some (va, True, True))
    \<and> (\<forall>va. wp (vmem_get_phys_addr (vmem_page_directory s') va) (\<lambda>r _. r = va) s')) s"
proof (rule wp_mono [OF wp_vmem_init [OF assms]])
  fix u s'
  assume "identity_mapped s' \<and> pmem_pages s' = pmem_pages s
    \<and> (\<exists>T. tables_mapped T s' \<and> used_pages s' = used_pages s \<union> insert (vmem_page_directory s') (set T))"
  then obtain T where m: "identity_mapped s'" "tables_mapped T s'" by blast
  have "identity_upto 1024 (mem s') (vmem_page_directory s') T" using m(2) by (simp add: tables_mapped_def)
  then show "bit (cr0 s') 31 \<and> (\<forall>va. mmu_walk (mem s') (cr3 s') va = Some (va, True, True))
    \<and> (\<forall>va. wp (vmem_get_phys_addr (vmem_page_directory s') va) (\<lambda>r _. r = va) s')"
    using m(1) identity_walks(1) wp_mapped_lookup [OF m(1)] by (simp add: identity_mapped_def)
qed

definition vmem_machine :: vmem_state where
  "vmem_machine = fat16_state.extend fat_machine \<lparr>vmem_page_directory = 0, cr0 = 1, cr3 = 0\<rparr>"

lemma vmem_machine_ready: "vmem_ready vmem_machine"
proof -
  have eq: "pmem_ok vmem_machine = pmem_ok fat_machine" "pmem_pages vmem_machine = pmem_pages fat_machine"
    "used_pages vmem_machine = used_pages fat_machine"
    by (simp_all add: vmem_machine_def fat16_state.extend_def pmem_ok_def pmem_pages_def used_pages_def pmem_used_def
        entry_addr_def [abs_def] entry_used_def record_addr_def pmem_blocks_def)
  have st: "stdio_ok vmem_machine = stdio_ok fat_machine"
    by (simp add: stdio_ok_def buf_ok_def eq) (simp add: vmem_machine_def fat16_state.extend_def)
  have pm: "pmem_ok fat_machine" using fat_machine_ready stdio_okD(1) by (auto simp: fat16_ready_def)
  have "0 \<noteq> entry_addr fat_machine e" if "e \<le> pmem_blocks fat_machine" for e
    using unat_entry_addr [OF pm that] by (auto simp: fat_machine_defs)
  then have "0 \<notin> pmem_pages fat_machine" by (auto simp: pmem_pages_def)
  then show ?thesis
    using fat_machine_ready by (simp add: vmem_ready_def fat16_ready_def eq st) (simp add: vmem_machine_def fat16_state.extend_def)
qed

theorem vmem_init_identity_witness:
  "wp vmem_init (\<lambda>_ s'. bit (cr0 s') 31 \<and> (\<forall>va. mmu_walk (mem s') (cr3 s') va = Some (va, True, True))
    \<and> (\<forall>va. wp (vmem_get_phys_addr (vmem_page_directory s') va) (\<lambda>r _. r = va) s')) vmem_machine"
  by (rule vmem_init_identity [OF vmem_machine_ready])

text \<open>C37: on any directory whose non-zero entries are marked present, \<open>vmem_get_phys_addr\<close> agrees with the
  processor: it returns the physical address of a mapped address and zero for one that would fault,
  and changes nothing but the console.\<close>

theorem vmem_walk_agrees:
  assumes "console_ok s" "dir \<noteq> 0" "4096 dvd unat dir" "b_addr (std_output_buf s) \<noteq> dir"
    and "\<forall>i < 1024. load32 (mem s) (slot dir i) = 0 \<or> bit (load32 (mem s) (slot dir i)) 0
      \<and> b_addr (std_output_buf s) \<noteq> page_of (load32 (mem s) (slot dir i))
      \<and> (\<forall>j < 1024. load32 (mem s) (slot (page_of (load32 (mem s) (slot dir i))) j) = 0
          \<or> bit (load32 (mem s) (slot (page_of (load32 (mem s) (slot dir i))) j)) 0)"
  shows "wp (vmem_get_phys_addr dir va) (\<lambda>r s'. r = (case mmu_walk (mem s) dir va of None \<Rightarrow> 0 | Some (pa, _) \<Rightarrow> pa)
    \<and> console_frame s s') s"
proof -
  let ?d = "load32 (mem s) (slot dir (unat (drop_bit 22 va)))"
  have d: "?d = 0 \<or> bit ?d 0 \<and> b_addr (std_output_buf s) \<noteq> page_of ?d
    \<and> (\<forall>j < 1024. load32 (mem s) (slot (page_of ?d) j) = 0 \<or> bit (load32 (mem s) (slot (page_of ?d) j)) 0)"
    using assms(5) dir_index_less [of va] by blast
  have "soft_walk (mem s) dir va = (case mmu_walk (mem s) dir va of None \<Rightarrow> 0 | Some (pa, _) \<Rightarrow> pa)"
    using d table_index [of va] by (auto simp: soft_walk_def mmu_walk_def Let_def)
  then show ?thesis
    using wp_get_phys_addr [OF assms(1-4), of va] d by auto
qed

text \<open>A directory at 0x203000 with one table, at 0x204000, that maps one page, to 0xABC000.\<close>

definition walk_console :: stdio_state where
  "walk_console = small_console\<lparr>mem := store32 (store32 (mem small_console) (slot 0x203000 0x48) 0x204007)
     (slot 0x204000 0x345) 0xABC007\<rparr>"

lemma walk_pages: "page_of 0x204007 = 0x204000" "page_of 0x200000 = 0x200000" "page_of 0xABC007 = 0xABC000"
  by (simp_all add: page_of_def)

lemma empty_table:
  assumes "p \<noteq> 0x200000" "4096 dvd unat p" "i < 1024"
  shows "load32 (mem small_console) (slot p i) = 0"
proof -
  have "load32 (mem small_console) (slot p i) = load32 (\<lambda>_. 0) (slot p i)"
    using assms(1) walk_pages(2) by (intro load32_slot_cong [OF assms(2,3)]) (auto simp: small_console_def)
  then show ?thesis by (simp add: load32_def le32_of_def)
qed

lemma walk_entries:
  assumes "i < 1024"
  shows "load32 (mem walk_console) (slot 0x203000 i) = (if i = 0x48 then 0x204007 else 0)"
    and "load32 (mem walk_console) (slot 0x204000 i) = (if i = 0x345 then 0xABC007 else 0)"
proof -
  let ?m = "store32 (mem small_console) (slot 0x203000 0x48) 0x204007"
  have "load32 (mem walk_console) (slot 0x203000 i) = load32 ?m (slot 0x203000 i)"
    by (rule load32_slot_cong [OF _ assms]) (simp_all add: walk_console_def store32_slot_other_page)
  then show "load32 (mem walk_console) (slot 0x203000 i) = (if i = 0x48 then 0x204007 else 0)"
    using assms by (simp add: load32_store32_slot empty_table)
  have "load32 ?m (slot 0x204000 i) = load32 (mem small_console) (slot 0x204000 i)"
    by (rule load32_slot_cong [OF _ assms]) (simp_all add: store32_slot_other_page)
  then show "load32 (mem walk_console) (slot 0x204000 i) = (if i = 0x345 then 0xABC007 else 0)"
    using assms by (simp add: walk_console_def load32_store32_slot empty_table)
qed

lemma walk_console_ok: "console_ok walk_console" "b_addr (std_output_buf walk_console) = 0x201000"
proof -
  have "entry_addr small_console 3 = 0x204000" "3 < pmem_blocks small_console"
    by (simp_all add: entry_addr_def pmem_blocks_def small_console_def)
  then have pages: "0x203000 \<in> pmem_pages small_console" "0x204000 \<in> pmem_pages small_console"
    using small_console_pages(4) by (force simp: pmem_pages_def)+
  have other: "mem walk_console a = mem small_console a" if "page_of a \<noteq> 0x203000" "page_of a \<noteq> 0x204000" for a
    using that by (simp add: walk_console_def store32_slot_other_page)
  have bufs: "is_init (std_buf i small_console) \<Longrightarrow> b_addr (std_buf i small_console) = 0x201000" for i
    by (cases i) (simp_all add: small_console_def)
  have "stdio_ok (small_console\<lparr>mem := mem walk_console\<rparr>)"
    using pages bufs by (intro stdio_write_frame(1) [OF small_console_ok(1)] other) auto
  then show "console_ok walk_console"
    using small_console_ok(2) by (simp add: console_ok_def walk_console_def)
  show "b_addr (std_output_buf walk_console) = 0x201000" by (simp add: walk_console_def small_console_def)
qed

theorem vmem_walk_agrees_witness:
  "wp (vmem_get_phys_addr 0x203000 0x12345678) (\<lambda>r s'. r = 0xABC678 \<and> console_frame walk_console s') walk_console
   \<and> wp (vmem_get_phys_addr 0x203000 0x12346678) (\<lambda>r s'. r = 0 \<and> console_frame walk_console s') walk_console
   \<and> wp (vmem_get_phys_addr 0x203000 0x678) (\<lambda>r s'. r = 0 \<and> console_frame walk_console s') walk_console"
proof -
  have agrees: "wp (vmem_get_phys_addr 0x203000 va) (\<lambda>r s'.
      r = (case mmu_walk (mem walk_console) 0x203000 va of None \<Rightarrow> 0 | Some (pa, _) \<Rightarrow> pa) \<and> console_frame walk_console s') walk_console" for va
    by (rule vmem_walk_agrees [OF walk_console_ok(1)]) (simp_all add: walk_console_ok(2) walk_entries walk_pages)
  have "mmu_walk (mem walk_console) 0x203000 0x12345678 = Some (0xABC678, True, True)"
    "mmu_walk (mem walk_console) 0x203000 0x12346678 = None" "mmu_walk (mem walk_console) 0x203000 0x678 = None"
    by (simp_all add: mmu_walk_def walk_entries walk_pages)
  with agrees [of "0x12345678"] agrees [of "0x12346678"] agrees [of "0x678"] show ?thesis by simp
qed

end
