(* ===== verification/Process.thy ===== *)
theory Process
  imports Vmem
begin

text \<open>
  The process table (\<open>drivers/process/process.c\<close>, without \<open>process_execve\<close>, which needs the
  scheduler): a fixed array of 64 process records; process 0 is the idle process.
\<close>

section \<open>Definitions\<close>

abbreviation (input) "PROCESS_NAME_SIZE \<equiv> (16 :: nat)"
abbreviation (input) "MAX_PROCESSES \<equiv> (64 :: nat)"
abbreviation (input) "PRINT_BUFFER_SIZE \<equiv> (64 :: nat)"

record process_registers =
  eax :: u32
  ebx :: u32
  ecx :: u32
  edx :: u32
  esi :: u32
  edi :: u32
  ebp :: u32
  eip :: u32

datatype process_state = UNUSED | RUNNABLE | RUNNING | INTERRRUPTABLE_SLEEP | UNINTERRUPTABLE_SLEEP | STOPPED | ZOMBIE

record process =
  p_name :: bytes
  p_pid :: u32
  cpu_time_ms :: u32
  current_priority :: u32
  p_state :: process_state
  killed :: u32
  registers :: process_registers
  process_memory_start :: u32
  process_memory_size :: u32

record processes_state = vmem_state +
  processes :: "process list"

definition zero_registers :: process_registers where
  "zero_registers = \<lparr>eax = 0, ebx = 0, ecx = 0, edx = 0, esi = 0, edi = 0, ebp = 0, eip = 0\<rparr>"

definition upd_process :: "nat \<Rightarrow> (process \<Rightarrow> process) \<Rightarrow> ('z processes_state_scheme, unit) kM" where
  "upd_process pid f = kseq (kguard (pid < MAX_PROCESSES))
     (kmod (\<lambda>s. s\<lparr>processes := (processes s)[pid := f (processes s ! pid)]\<rparr>))"

text \<open>The bytes of a record from its name on: the \<open>pid\<close> field follows the 16 bytes of the name.\<close>

definition name_and_pid :: "process \<Rightarrow> bytes" where
  "name_and_pid p = p_name p @ le32_bytes (p_pid p)"

definition set_name_and_pid :: "bytes \<Rightarrow> process \<Rightarrow> process" where
  "set_name_and_pid b p = p\<lparr>p_name := take PROCESS_NAME_SIZE b, p_pid := le32_of (drop PROCESS_NAME_SIZE b)\<rparr>"

definition process_init_process :: "bytes \<Rightarrow> nat \<Rightarrow> ('z processes_state_scheme, unit) kM" where
  "process_init_process process_name pid =
     kseq (kguard (pid < MAX_PROCESSES))
    (kbind (kget (\<lambda>s. strcpy (name_and_pid (processes s ! pid)) process_name PROCESS_NAME_SIZE)) (\<lambda>copied.
     case copied of None \<Rightarrow> (\<lambda>s. Undefined)
     | Some b \<Rightarrow>
         kseq (upd_process pid (set_name_and_pid b))
        (kseq (upd_process pid (\<lambda>p. p\<lparr>current_priority := 0, cpu_time_ms := 0, killed := 0\<rparr>))
        (kseq (upd_process pid (\<lambda>p. p\<lparr>registers := zero_registers\<rparr>))
        (kbind (kget (\<lambda>s. process_memory_start (processes s ! pid))) (\<lambda>start.
         if start \<noteq> 0 then panic ''Memory leak for process memory!''
         else
           kbind pmem_alloc (\<lambda>page.
           upd_process pid (\<lambda>p. p\<lparr>process_memory_start := page, process_memory_size := PHYS_BLOCK_SIZE\<rparr>))))))))"

definition process_get :: "int \<Rightarrow> ('z processes_state_scheme, nat option) kM" where
  "process_get pid =
     (if pid \<le> 0 \<or> pid \<ge> 64 then kret None
      else kbind (kget (\<lambda>s. p_state (processes s ! nat pid))) (\<lambda>state.
        if state = UNUSED then kret None else kret (Some (nat pid))))"

definition process_init :: "('z processes_state_scheme, unit) kM" where
  "process_init =
     kseq (kfor [0..<MAX_PROCESSES] (\<lambda>i.
       upd_process i (\<lambda>p. p\<lparr>p_pid := of_nat i, p_state := UNUSED, process_memory_start := 0\<rparr>)))
    (kseq (process_init_process (cstr ''Idle'' @ [0]) 0)
          (upd_process 0 (\<lambda>p. p\<lparr>p_state := RUNNABLE\<rparr>)))"

fun process_state_to_str :: "process_state \<Rightarrow> bytes" where
  "process_state_to_str UNUSED = cstr ''Unused'' @ [0]"
| "process_state_to_str RUNNABLE = cstr ''Runnable'' @ [0]"
| "process_state_to_str RUNNING = cstr ''Running'' @ [0]"
| "process_state_to_str INTERRRUPTABLE_SLEEP = cstr ''Interruptable Sleep'' @ [0]"
| "process_state_to_str UNINTERRUPTABLE_SLEEP = cstr ''Uninterruptable Sleep'' @ [0]"
| "process_state_to_str STOPPED = cstr ''Stopped'' @ [0]"
| "process_state_to_str ZOMBIE = cstr ''Zombie'' @ [0]"

text \<open>A print buffer: the bytes on the stack, a string copied in, then padded with blanks.\<close>

definition padded :: "'z fat16_state_scheme \<Rightarrow> bytes \<Rightarrow> nat \<Rightarrow> bytes option" where
  "padded s src width =
     (case strcpy (map (in_entry (garbage s)) [0..<PRINT_BUFFER_SIZE]) src PRINT_BUFFER_SIZE of
        None \<Rightarrow> None | Some buf \<Rightarrow> rpad buf 0x20 width)"

definition print_process :: "nat \<Rightarrow> ('z processes_state_scheme, unit) kM" where
  "print_process i =
     kbind (kget (\<lambda>s. processes s ! i)) (\<lambda>p.
     if p_state p \<noteq> UNUSED then
       kbind (kget (\<lambda>s. (padded s (name_and_pid p) 16, padded s (process_state_to_str (p_state p)) 12))) (\<lambda>bufs.
       case bufs of
         (Some buf_name, Some buf_state) \<Rightarrow>
           printf (cstr ''%d | %s | %s | %d | %x\<newline>'')
             [ArgInt (of_nat i), ArgStr buf_name, ArgStr buf_state, ArgInt (cpu_time_ms p), ArgInt (process_memory_start p)]
       | _ \<Rightarrow> (\<lambda>s. Undefined))
     else kret ())"

definition process_printlist :: "('z processes_state_scheme, unit) kM" where
  "process_printlist =
     kseq (printf (cstr ''PID | Process Name    | State       | Time  | Memory \<newline>'') [])
    (kseq (kfor [0..<MAX_PROCESSES] print_process)
          (printf (cstr ''\<newline>'') []))"

definition process_get_next_free_pid :: "('z processes_state_scheme, int) kM" where
  "process_get_next_free_pid = kget (\<lambda>s.
     case find (\<lambda>i. p_state (processes s ! i) = UNUSED) [1..<MAX_PROCESSES] of
       None \<Rightarrow> - 1 | Some i \<Rightarrow> int i)"

definition process_kill :: "int \<Rightarrow> ('z processes_state_scheme, u32) kM" where
  "process_kill pid =
     kseq (kguard (0 \<le> pid)) (kseq (upd_process (nat pid) (\<lambda>p. p\<lparr>killed := 1\<rparr>)) (kret 0))"

end
