(* ===== verification/Sim_Spec.thy ===== *)
theory Sim_Spec
  imports Prelude
begin

text \<open>
  The interface between a component and its abstract specification: every operation of the component
  simulates the abstract one. The client lemmas, proved here once, are about sequences of operations.
\<close>

primrec run_ops :: "('o \<Rightarrow> ('s, unit) kM) \<Rightarrow> 'o list \<Rightarrow> ('s, unit) kM" where
  "run_ops f [] = kret ()"
| "run_ops f (x # xs) = kseq (f x) (run_ops f xs)"

text \<open>A sequence in which every operation is allowed when its turn comes.\<close>

primrec admissible :: "('o \<Rightarrow> 'a \<Rightarrow> bool) \<Rightarrow> ('o \<Rightarrow> 'a \<Rightarrow> 'a) \<Rightarrow> 'o list \<Rightarrow> 'a \<Rightarrow> bool" where
  "admissible ok g [] A \<longleftrightarrow> True"
| "admissible ok g (x # xs) A \<longleftrightarrow> ok x A \<and> admissible ok g xs (g x A)"

locale simulation =
  fixes conc :: "'o \<Rightarrow> ('s, unit) kM"
    and abstr :: "'o \<Rightarrow> 'a \<Rightarrow> 'a"
    and allowed :: "'o \<Rightarrow> 'a \<Rightarrow> bool"
    and rel :: "'s \<Rightarrow> 'a \<Rightarrow> bool"
  assumes sim: "rel s A \<Longrightarrow> allowed x A \<Longrightarrow> wp (conc x) (\<lambda>_ s'. rel s' (abstr x A)) s"
begin

lemma run_simulates:
  assumes "rel s A" "admissible allowed abstr xs A"
  shows "wp (run_ops conc xs) (\<lambda>_ s'. rel s' (fold abstr xs A)) s"
  using assms
proof (induction xs arbitrary: s A)
  case (Cons x xs)
  have "wp (conc x) (\<lambda>_ s'. rel s' (abstr x A)) s" using Cons.prems by (intro sim) simp_all
  then show ?case
    using Cons by (auto elim: wp_mono)
qed simp

text \<open>What holds of the abstract result holds of every concrete run.\<close>

lemma run_property:
  assumes "rel s A" "admissible allowed abstr xs A" "\<And>s'. rel s' (fold abstr xs A) \<Longrightarrow> P s'"
  shows "wp (run_ops conc xs) (\<lambda>_. P) s"
  using run_simulates [OF assms(1,2)] by (rule wp_mono) (rule assms(3))

end

end
