(* ===== verification/Sched.thy ===== *)
theory Sched
  imports Process Sim_Spec
begin

text \<open>
  The scheduler (\<open>drivers/process/sched.c\<close>): a multi-level feedback queue. Each level is a linked
  list through a static array that has one entry per process; pointers into the arrays are indices.
\<close>

section \<open>Definitions\<close>

abbreviation (input) "MAX_PRIORITY_QUEUES \<equiv> (3 :: nat)"
abbreviation (input) "STARTING_TICKETS \<equiv> (2000 :: int)"
abbreviation (input) "FULL_TIMESLICE_COST \<equiv> (10 :: int)"

record mlfq_entry =
  ptr :: "nat option"
  priority :: nat
  tickets_remaining :: int
  next_process :: "nat option"

record sched_state = processes_state +
  proc_list :: "mlfq_entry list"
  proc_priority_list :: "nat option list"
  current_process :: "nat option"

definition upd_entry :: "nat \<Rightarrow> (mlfq_entry \<Rightarrow> mlfq_entry) \<Rightarrow> 'z sched_state_scheme \<Rightarrow> 'z sched_state_scheme" where
  "upd_entry p f s = s\<lparr>proc_list := (proc_list s)[p := f (proc_list s ! p)]\<rparr>"

definition set_head :: "nat \<Rightarrow> nat option \<Rightarrow> 'z sched_state_scheme \<Rightarrow> 'z sched_state_scheme" where
  "set_head i h s = s\<lparr>proc_priority_list := (proc_priority_list s)[i := h]\<rparr>"

definition sched_init :: "('z sched_state_scheme, unit) kM" where
  "sched_init =
     kseq (kfor [0..<MAX_PRIORITY_QUEUES] (\<lambda>i. kmod (set_head i None)))
          (printf (cstr ''Initialized Process Scheduler\<newline>'') [])"

text \<open>The message for a missing process has a conversion without an argument.\<close>

definition sched_addpid :: "int \<Rightarrow> ('z sched_state_scheme, unit) kM" where
  "sched_addpid pid =
     kbind (process_get pid) (\<lambda>p.
     case p of None \<Rightarrow>
         kseq (printf (cstr ''Tried to add PID %d to scheduler but is null process!\<newline>'') [])
              (panic ''Tried to schedule null process!'')
     | Some i \<Rightarrow>
         kseq (kmod (upd_entry i (\<lambda>e. e\<lparr>ptr := Some i, priority := 0\<rparr>)))
        (kseq (kmod (upd_entry i (\<lambda>e. e\<lparr>tickets_remaining := STARTING_TICKETS\<rparr>)))
        (kseq (kmod (\<lambda>s. upd_entry i (\<lambda>e. e\<lparr>next_process := proc_priority_list s ! 0\<rparr>) s))
        (kseq (kmod (set_head 0 (Some i)))
        (kbind (kget (\<lambda>s. processes s ! i)) (\<lambda>q.
         printf (cstr ''Schduler: Added new PID %d to scheduler. Name: %s \<newline>'')
           [ArgInt (of_int pid), ArgStr (name_and_pid q)]))))))"

text \<open>
  The lists have at most 64 nodes. A walk that has not ended after 64 nodes goes round a cycle and
  never ends; so 64 is enough fuel, and running out of it is the outcome \<open>Hang\<close>.
\<close>

primrec print_queue :: "nat \<Rightarrow> nat option \<Rightarrow> ('z sched_state_scheme, unit) kM" where
  "print_queue 0 cptr = (case cptr of None \<Rightarrow> kret () | Some p \<Rightarrow> khang)"
| "print_queue (Suc fuel) cptr = (case cptr of None \<Rightarrow> kret ()
     | Some p \<Rightarrow>
         kbind (kget (\<lambda>s. proc_list s ! p)) (\<lambda>e.
         case ptr e of None \<Rightarrow> panic ''There exists a null process in the scheduler!\<newline>''
         | Some q \<Rightarrow>
             kbind (kget (\<lambda>s. p_pid (processes s ! q))) (\<lambda>pid.
             kseq (printf (cstr '' %d (%d) -> '') [ArgInt pid, ArgInt (of_int (tickets_remaining e))])
                  (print_queue fuel (next_process e)))))"

definition sched_printinfo :: "('z sched_state_scheme, unit) kM" where
  "sched_printinfo =
     kseq (printf (cstr ''Current Process: '') [])
    (kseq (kbind (kget current_process) (\<lambda>cur.
        case cur of None \<Rightarrow> printf (cstr ''<empty>\<newline>'') []
        | Some p \<Rightarrow>
            kbind (kget (\<lambda>s. ptr (proc_list s ! p))) (\<lambda>r.
            case r of None \<Rightarrow> panic ''There exists a null process in the scheduler!\<newline>''
            | Some q \<Rightarrow>
                kbind (kget (\<lambda>s. p_pid (processes s ! q))) (\<lambda>pid. printf (cstr ''%d\<newline>'') [ArgInt pid]))))
    (kfor [0..<MAX_PRIORITY_QUEUES] (\<lambda>i.
       kseq (printf (cstr ''P%d:'') [ArgInt (of_nat i)])
      (kbind (kget (\<lambda>s. proc_priority_list s ! i)) (\<lambda>h.
       if h = None then printf (cstr ''<empty>\<newline>'') []
       else kseq (print_queue MAX_PROCESSES h) (printf (cstr ''\<newline>'') []))))))"

text \<open>The first non-empty level, and the head of its list.\<close>

definition first_head :: "'z sched_state_scheme \<Rightarrow> nat option" where
  "first_head s = (case find (\<lambda>h. h \<noteq> None) (proc_priority_list s) of None \<Rightarrow> None | Some h \<Rightarrow> h)"

text \<open>The node whose successor is \<open>p\<close>, in the list that starts at \<open>node\<close>.\<close>

primrec find_pred :: "nat \<Rightarrow> nat \<Rightarrow> nat option \<Rightarrow> ('z sched_state_scheme, nat option) kM" where
  "find_pred 0 p node = (case node of None \<Rightarrow> kret None | Some c \<Rightarrow> khang)"
| "find_pred (Suc fuel) p node = (case node of None \<Rightarrow> kret None
     | Some c \<Rightarrow>
         kbind (kget (\<lambda>s. next_process (proc_list s ! c))) (\<lambda>n.
         if n \<noteq> None \<and> n = Some p then kret (Some c) else find_pred fuel p n))"

text \<open>Taking \<open>p\<close> out of the list of its level, and moving it down one level.\<close>

definition dequeue :: "nat \<Rightarrow> nat \<Rightarrow> nat option \<Rightarrow> ('z sched_state_scheme, unit) kM" where
  "dequeue p cprior head =
     (if head = Some p
      then kmod (\<lambda>s. set_head cprior (next_process (proc_list s ! p)) s)
      else kbind (kget (\<lambda>s. next_process (proc_list s ! p))) (\<lambda>nxt.
           kbind (find_pred MAX_PROCESSES p head) (\<lambda>node.
           case node of None \<Rightarrow> panic ''Cannot find current process in priority!''
           | Some c \<Rightarrow> kmod (upd_entry c (\<lambda>e. e\<lparr>next_process := nxt\<rparr>)))))"

definition sched_demote :: "nat \<Rightarrow> ('z sched_state_scheme, unit) kM" where
  "sched_demote p =
     kbind (kget (\<lambda>s. priority (proc_list s ! p))) (\<lambda>cprior.
     if cprior < MAX_PRIORITY_QUEUES - 1 then
       kbind (kget (\<lambda>s. proc_priority_list s ! cprior)) (\<lambda>head.
       if head = None then panic ''Head of current priority list is empty!''
       else
         kseq (dequeue p cprior head)
        (kbind (kget (\<lambda>s. priority (proc_list s ! p) + 1)) (\<lambda>newprior.
         if newprior \<ge> MAX_PRIORITY_QUEUES then panic ''Moved to an out of bounds priority!''
         else
           kseq (kmod (upd_entry p (\<lambda>e. e\<lparr>priority := newprior\<rparr>)))
          (kseq (kmod (upd_entry p (\<lambda>e. e\<lparr>tickets_remaining := STARTING_TICKETS\<rparr>)))
          (kseq (kmod (\<lambda>s. upd_entry p (\<lambda>e. e\<lparr>next_process := proc_priority_list s ! newprior\<rparr>) s))
                (kmod (set_head newprior (Some p))))))))
     else kret ())"

text \<open>Charging the time slice to the process that ran.\<close>

definition sched_charge :: "nat \<Rightarrow> ('z sched_state_scheme, unit) kM" where
  "sched_charge p =
     kseq (kmod (upd_entry p (\<lambda>e. e\<lparr>tickets_remaining := tickets_remaining e - FULL_TIMESLICE_COST\<rparr>)))
          (kbind (kget (\<lambda>s. tickets_remaining (proc_list s ! p))) (\<lambda>t.
             if t < 0 then
               kseq (kmod (upd_entry p (\<lambda>e. e\<lparr>tickets_remaining := 0\<rparr>))) (sched_demote p)
             else kret ()))"

text \<open>The next process on the same level.\<close>

definition sched_rotate :: "nat \<Rightarrow> nat \<Rightarrow> 'z sched_state_scheme \<Rightarrow> 'z sched_state_scheme" where
  "sched_rotate p cpr s = (case next_process (proc_list s ! p) of
      Some n \<Rightarrow> s\<lparr>current_process := Some n\<rparr>
    | None \<Rightarrow> (case proc_priority_list s ! cpr of
          Some h \<Rightarrow> s\<lparr>current_process := Some h\<rparr>
        | None \<Rightarrow> s))"

definition sched_update :: "('z sched_state_scheme, unit) kM" where
  "sched_update =
     kbind (kget current_process) (\<lambda>cur.
     case cur of None \<Rightarrow>
         kmod (\<lambda>s. case first_head s of None \<Rightarrow> s | Some h \<Rightarrow> s\<lparr>current_process := Some h\<rparr>)
     | Some p \<Rightarrow>
         kbind (kget (\<lambda>s. ptr (proc_list s ! p))) (\<lambda>r.
         if r = None then panic ''There exists a null process in the scheduler!\<newline>''
         else
           kseq (sched_charge p)
          (kbind (kget (\<lambda>s. (priority (proc_list s ! p), case first_head s of None \<Rightarrow> p | Some h \<Rightarrow> h))) (\<lambda>(cpr, new_process).
           kbind (kget (\<lambda>s. priority (proc_list s ! new_process))) (\<lambda>npr.
           if cpr \<noteq> 0 \<and> npr < cpr then kmod (\<lambda>s. s\<lparr>current_process := Some new_process\<rparr>)
           else
             kmod (sched_rotate p cpr))))))"

section \<open>Linked lists in the array\<close>

primrec chain :: "mlfq_entry list \<Rightarrow> nat option \<Rightarrow> nat list \<Rightarrow> bool" where
  "chain L h [] \<longleftrightarrow> h = None"
| "chain L h (p # ps) \<longleftrightarrow> h = Some p \<and> p < length L \<and> chain L (next_process (L ! p)) ps"

definition head_of :: "nat list \<Rightarrow> nat option" where
  "head_of xs = (case xs of [] \<Rightarrow> None | x # _ \<Rightarrow> Some x)"

lemma head_of_simps [simp]: "head_of [] = None" "head_of (x # xs) = Some x" "head_of xs = None \<longleftrightarrow> xs = []"
  by (simp_all add: head_of_def split: list.splits)

lemma chain_head: "chain L h xs \<Longrightarrow> h = head_of xs"
  by (cases xs) auto

lemma chain_bound: "chain L h xs \<Longrightarrow> x \<in> set xs \<Longrightarrow> x < length L"
  by (induction xs arbitrary: h) auto

lemma chain_update:
  assumes "p \<notin> set xs \<or> next_process e = next_process (L ! p)" "p < length L"
  shows "chain (L[p := e]) h xs = chain L h xs"
  using assms(1)
proof (induction xs arbitrary: h)
  case (Cons x xs)
  then show ?case using assms(2) by (cases "x = p") (auto simp: nth_list_update)
qed simp

lemma chain_append: "chain L h (as @ p # bs) \<Longrightarrow> p < length L \<and> chain L (next_process (L ! p)) bs"
  by (induction as arbitrary: h) auto

lemma chain_next: "chain L h (as @ p # bs) \<Longrightarrow> next_process (L ! p) = head_of bs"
  using chain_append chain_head by blast

text \<open>Taking the node after \<open>c\<close> out of the list.\<close>

lemma chain_remove:
  assumes "chain L h (as @ c # p # bs)" "distinct (as @ c # p # bs)"
  shows "chain (L[c := (L ! c)\<lparr>next_process := next_process (L ! p)\<rparr>]) h (as @ c # bs)"
  using assms
proof (induction as arbitrary: h)
  case Nil
  then have "chain (L[c := (L ! c)\<lparr>next_process := next_process (L ! p)\<rparr>]) (next_process (L ! p)) bs"
    by (subst chain_update) auto
  with Nil show ?case by simp
next
  case (Cons a as)
  then show ?case by (auto simp: nth_list_update)
qed

lemma find_pred_Ok:
  assumes "chain (proc_list s) h (as @ c # p # bs)" "distinct (as @ c # p # bs)" "length as < fuel"
  shows "find_pred fuel p h s = Ok (Some c) s"
  using assms
proof (induction as arbitrary: h fuel)
  case Nil
  then obtain k where "fuel = Suc k" by (cases fuel) auto
  with Nil show ?case by (auto simp: kernel_defs)
next
  case (Cons a as)
  then obtain k where "fuel = Suc k" "length as < k" by (cases fuel) auto
  moreover have "next_process (proc_list s ! a) \<noteq> Some p"
    using Cons.prems chain_head [of "proc_list s" "next_process (proc_list s ! a)" "as @ c # p # bs"]
    by (cases as) auto
  ultimately show ?case using Cons by (auto simp: kernel_defs)
qed

section \<open>The abstract scheduler\<close>

text \<open>
  What the scheduler promises: three lists of processes, a ticket count for each process, and the
  process that runs. A time slice costs ten tickets; a process that cannot pay moves to the front of
  the next lower level with a full count (on the lowest level its count stays at zero); then a
  process of a higher level runs, if there is one, and otherwise the next one on the same level.
\<close>

record mlfq =
  levels :: "nat list list"
  credit :: "nat \<Rightarrow> int"
  running :: "nat option"

definition level_of :: "nat list list \<Rightarrow> nat \<Rightarrow> nat" where
  "level_of Q p = (if p \<in> set (Q ! 0) then 0 else if p \<in> set (Q ! 1) then 1 else 2)"

definition top_process :: "nat list list \<Rightarrow> nat option" where
  "top_process Q = (case find (\<lambda>xs. xs \<noteq> []) Q of None \<Rightarrow> None | Some xs \<Rightarrow> head_of xs)"

fun successor :: "nat \<Rightarrow> nat list \<Rightarrow> nat option" where
  "successor p [] = None"
| "successor p (x # xs) = (if x = p then head_of xs else successor p xs)"

definition mlfq_add :: "nat \<Rightarrow> mlfq \<Rightarrow> mlfq" where
  "mlfq_add p A = A\<lparr>levels := (levels A)[0 := p # levels A ! 0], credit := (credit A)(p := 2000)\<rparr>"

definition mlfq_charge :: "nat \<Rightarrow> mlfq \<Rightarrow> mlfq" where
  "mlfq_charge p A =
     (let l = level_of (levels A) p in
      if 10 \<le> credit A p then A\<lparr>credit := (credit A)(p := credit A p - 10)\<rparr>
      else if l < 2 then
        A\<lparr>levels := (levels A)[l := remove1 p (levels A ! l), l + 1 := p # levels A ! (l + 1)],
          credit := (credit A)(p := 2000)\<rparr>
      else A\<lparr>credit := (credit A)(p := 0)\<rparr>)"

definition mlfq_next :: "nat list list \<Rightarrow> nat \<Rightarrow> nat option" where
  "mlfq_next Q p =
     (let l = level_of Q p in
      case top_process Q of None \<Rightarrow> Some p
      | Some h \<Rightarrow>
          if level_of Q h < l then Some h
          else case successor p (Q ! l) of Some n \<Rightarrow> Some n | None \<Rightarrow> head_of (Q ! l))"

definition mlfq_update :: "mlfq \<Rightarrow> mlfq" where
  "mlfq_update A = (case running A of
      None \<Rightarrow> A\<lparr>running := top_process (levels A)\<rparr>
    | Some p \<Rightarrow> (let A' = mlfq_charge p A in A'\<lparr>running := mlfq_next (levels A') p\<rparr>))"

text \<open>When the arrays implement the abstract scheduler.\<close>

definition entry_rel :: "mlfq_entry \<Rightarrow> nat \<Rightarrow> mlfq \<Rightarrow> nat \<Rightarrow> bool" where
  "entry_rel e i A p \<longleftrightarrow> ptr e = Some p \<and> priority e = i \<and> tickets_remaining e = credit A p
     \<and> 0 \<le> credit A p \<and> credit A p \<le> 2000"

definition queues_rel :: "'z sched_state_scheme \<Rightarrow> mlfq \<Rightarrow> bool" where
  "queues_rel s A \<longleftrightarrow> length (proc_list s) = 64 \<and> length (proc_priority_list s) = 3 \<and> length (levels A) = 3
     \<and> (\<forall>i < 3. chain (proc_list s) (proc_priority_list s ! i) (levels A ! i)
          \<and> (\<forall>p \<in> set (levels A ! i). entry_rel (proc_list s ! p) i A p))
     \<and> distinct (concat (levels A))"

definition mlfq_rel :: "'z sched_state_scheme \<Rightarrow> mlfq \<Rightarrow> bool" where
  "mlfq_rel s A \<longleftrightarrow> queues_rel s A \<and> running A = current_process s
     \<and> (\<forall>p. running A = Some p \<longrightarrow> p \<in> set (concat (levels A)))"

lemma less_3: "i < (3 :: nat) \<longleftrightarrow> i = 0 \<or> i = 1 \<or> i = 2"
  by auto

lemma three_levels:
  assumes "length Q = 3"
  shows "Q = [Q ! 0, Q ! 1, Q ! 2]"
  using assms by (auto intro!: nth_equalityI simp: less_3)

lemma three_concat:
  assumes "length Q = 3"
  shows "concat Q = Q ! 0 @ Q ! 1 @ Q ! 2"
  by (subst three_levels [OF assms]) simp

lemma queues_relD:
  assumes "queues_rel s A"
  shows "length (proc_list s) = 64" "length (proc_priority_list s) = 3" "length (levels A) = 3"
    "\<And>i. i < 3 \<Longrightarrow> chain (proc_list s) (proc_priority_list s ! i) (levels A ! i)"
    "\<And>i p. i < 3 \<Longrightarrow> p \<in> set (levels A ! i) \<Longrightarrow> entry_rel (proc_list s ! p) i A p"
    "distinct (concat (levels A))" "proc_priority_list s = map head_of (levels A)"
proof -
  show r: "length (proc_list s) = 64" "length (proc_priority_list s) = 3" "length (levels A) = 3"
    "\<And>i. i < 3 \<Longrightarrow> chain (proc_list s) (proc_priority_list s ! i) (levels A ! i)"
    "\<And>i p. i < 3 \<Longrightarrow> p \<in> set (levels A ! i) \<Longrightarrow> entry_rel (proc_list s ! p) i A p"
    "distinct (concat (levels A))"
    using assms by (auto simp: queues_rel_def)
  show "proc_priority_list s = map head_of (levels A)"
    using r(2,3) chain_head [OF r(4)] by (auto intro!: nth_equalityI)
qed

lemma level_member: "length Q = 3 \<Longrightarrow> i < 3 \<Longrightarrow> p \<in> set (Q ! i) \<Longrightarrow> p \<in> set (concat Q)"
  by (auto simp: three_concat less_3)

lemma level_distinct: "length Q = 3 \<Longrightarrow> distinct (concat Q) \<Longrightarrow> i < 3 \<Longrightarrow> distinct (Q ! i)"
  by (auto simp: three_concat less_3)

lemma level_disjoint:
  "length Q = 3 \<Longrightarrow> distinct (concat Q) \<Longrightarrow> i < 3 \<Longrightarrow> j < 3 \<Longrightarrow> p \<in> set (Q ! i) \<Longrightarrow> p \<in> set (Q ! j) \<Longrightarrow> i = j"
  by (auto simp: three_concat less_3)

lemma queues_bound: "queues_rel s A \<Longrightarrow> i < 3 \<Longrightarrow> p \<in> set (levels A ! i) \<Longrightarrow> p < 64"
  using chain_bound queues_relD(1,4) by metis

lemma level_of_eq:
  assumes "length Q = 3" "distinct (concat Q)" "i < 3" "p \<in> set (Q ! i)"
  shows "level_of Q p = i"
  using assms by (auto simp: three_concat [OF assms(1)] less_3 level_of_def)

lemma level_of_mem:
  assumes "length Q = 3" "p \<in> set (concat Q)"
  shows "level_of Q p < 3" "p \<in> set (Q ! level_of Q p)"
  using assms by (auto simp: three_concat [OF assms(1)] level_of_def)

lemma first_head_top: "queues_rel s A \<Longrightarrow> first_head s = top_process (levels A)"
proof -
  assume "queues_rel s A"
  then have heads: "proc_priority_list s = map head_of (levels A)" by (rule queues_relD(7))
  have "(case find (\<lambda>h. h \<noteq> None) (map head_of Q) of None \<Rightarrow> None | Some h \<Rightarrow> h)
      = (case find (\<lambda>xs. xs \<noteq> []) Q of None \<Rightarrow> None | Some xs \<Rightarrow> head_of xs)" for Q
    by (induction Q) (auto simp: head_of_def split: list.splits)
  then show ?thesis by (simp add: first_head_def top_process_def heads)
qed

lemma successor_split: "distinct (as @ p # bs) \<Longrightarrow> successor p (as @ p # bs) = head_of bs"
  by (induction as) auto

lemma next_successor:
  assumes "chain L h xs" "distinct xs" "p \<in> set xs"
  shows "next_process (L ! p) = successor p xs"
proof -
  obtain as bs where "xs = as @ p # bs" using assms(3) by (auto simp: in_set_conv_decomp)
  then show ?thesis using assms chain_next successor_split by metis
qed

section \<open>The operations on the queues\<close>

text \<open>A change of the ticket count.\<close>

lemma queues_credit:
  assumes "queues_rel s A" "p < 64" "0 \<le> t" "t \<le> 2000"
  shows "queues_rel (upd_entry p (\<lambda>e. e\<lparr>tickets_remaining := t\<rparr>) s) (A\<lparr>credit := (credit A)(p := t)\<rparr>)"
proof -
  note q = queues_relD [OF assms(1)]
  have "chain ((proc_list s)[p := (proc_list s ! p)\<lparr>tickets_remaining := t\<rparr>]) (proc_priority_list s ! i) (levels A ! i)" if "i < 3" for i
    using q(1) q(4) [OF that] assms(2) by (subst chain_update) simp_all
  moreover have "entry_rel ((proc_list s)[p := (proc_list s ! p)\<lparr>tickets_remaining := t\<rparr>] ! x) i (A\<lparr>credit := (credit A)(p := t)\<rparr>) x"
    if "i < 3" "x \<in> set (levels A ! i)" for i x
    using q(5) [OF that] q(1) assms(2-4) by (auto simp: entry_rel_def nth_list_update)
  ultimately show ?thesis using q by (simp add: queues_rel_def upd_entry_def)
qed

text \<open>Putting a process that is in no queue at the front of one.\<close>

lemma queues_push:
  assumes "queues_rel s A" "p < 64" "p \<notin> set (concat (levels A))" "i < 3"
    and e: "ptr e = Some p" "priority e = i" "tickets_remaining e = 2000" "next_process e = proc_priority_list s ! i"
  shows "queues_rel (s\<lparr>proc_list := (proc_list s)[p := e], proc_priority_list := (proc_priority_list s)[i := Some p]\<rparr>)
    (A\<lparr>levels := (levels A)[i := p # levels A ! i], credit := (credit A)(p := 2000)\<rparr>)"
proof -
  note q = queues_relD [OF assms(1)]
  let ?L = "(proc_list s)[p := e]" and ?H = "(proc_priority_list s)[i := Some p]" and ?Q = "(levels A)[i := p # levels A ! i]"
  have out: "p \<notin> set (levels A ! j)" if "j < 3" for j using assms(3) level_member [OF q(3) that] by blast
  have keep: "chain ?L (proc_priority_list s ! j) (levels A ! j)" if "j < 3" for j
    using q(1) q(4) [OF that] out [OF that] assms(2) by (subst chain_update) simp_all
  have "chain ?L (?H ! j) (?Q ! j)" if "j < 3" for j
    using keep [OF that] keep [OF assms(4)] that q(1,2,3) assms(2,4) e(4) by (cases "j = i") simp_all
  moreover have "entry_rel (?L ! x) j (A\<lparr>levels := ?Q, credit := (credit A)(p := 2000)\<rparr>) x"
    if "j < 3" "x \<in> set (?Q ! j)" for j x
  proof (cases "x = p")
    case True
    then have "j = i" using that out [of j] q(3) by (cases "j = i") auto
    then show ?thesis using True e q(1) assms(2) by (simp add: entry_rel_def)
  next
    case False
    then have "x \<in> set (levels A ! j)" using that q(3) by (cases "j = i") auto
    then show ?thesis using q(5) [OF that(1)] False by (simp add: entry_rel_def)
  qed
  moreover have "distinct (concat ?Q)"
    using q(3,6) assms(3,4) by (auto simp: three_concat less_3)
  ultimately show ?thesis using q(1-3) by (simp add: queues_rel_def)
qed

text \<open>Taking a process out of its queue.\<close>

lemma dequeue_Ok:
  assumes "queues_rel s A" "i < 3" "p \<in> set (levels A ! i)"
  obtains L H where "dequeue p i (proc_priority_list s ! i) s = Ok () (s\<lparr>proc_list := L, proc_priority_list := H\<rparr>)"
    "queues_rel (s\<lparr>proc_list := L, proc_priority_list := H\<rparr>) (A\<lparr>levels := (levels A)[i := remove1 p (levels A ! i)]\<rparr>)"
    "L ! p = proc_list s ! p"
proof -
  note q = queues_relD [OF assms(1)]
  have d: "distinct (levels A ! i)" by (rule level_distinct [OF q(3,6) assms(2)])
  have p64: "p < 64" by (rule queues_bound [OF assms])
  obtain as bs where split: "levels A ! i = as @ p # bs" using assms(3) by (auto simp: in_set_conv_decomp)
  have rem: "remove1 p (levels A ! i) = as @ bs" using d split by (simp add: remove1_append)
  have others: "distinct (concat ((levels A)[i := as @ bs]))" "length ((levels A)[i := as @ bs]) = 3"
    using q(3,6) assms(2) split by (auto simp: three_concat less_3)
  have ch: "chain (proc_list s) (proc_priority_list s ! i) (as @ p # bs)" using q(4) [OF assms(2)] split by simp
  show thesis
  proof (cases as rule: rev_cases)
    case Nil
    let ?H = "(proc_priority_list s)[i := next_process (proc_list s ! p)]"
    have "dequeue p i (proc_priority_list s ! i) s = Ok () (s\<lparr>proc_list := proc_list s, proc_priority_list := ?H\<rparr>)"
      using ch Nil by (simp add: dequeue_def kernel_defs set_head_def)
    moreover have "queues_rel (s\<lparr>proc_list := proc_list s, proc_priority_list := ?H\<rparr>) (A\<lparr>levels := (levels A)[i := remove1 p (levels A ! i)]\<rparr>)"
      unfolding rem using q others ch Nil assms(2) split
      by (auto simp: queues_rel_def nth_list_update entry_rel_def)
    ultimately show thesis by (rule that) simp
  next
    case (snoc cs c)
    let ?L = "(proc_list s)[c := (proc_list s ! c)\<lparr>next_process := next_process (proc_list s ! p)\<rparr>]"
    have c: "c \<in> set (levels A ! i)" "c \<noteq> p" "c < 64"
      using split snoc d queues_bound [OF assms(1,2)] by auto
    have ch': "chain (proc_list s) (proc_priority_list s ! i) (cs @ c # p # bs)" "distinct (cs @ c # p # bs)"
      using ch d split snoc by simp_all
    have len: "length cs < 64"
    proof -
      have "set (levels A ! i) \<subseteq> {..<64}" using queues_bound [OF assms(1,2)] by auto
      then have "card (set (levels A ! i)) \<le> 64" using card_mono [of "{..<64}"] by fastforce
      then show ?thesis using distinct_card [OF d] split snoc by simp
    qed
    have "proc_priority_list s ! i \<noteq> Some p" using ch' by (cases cs) auto
    then have "dequeue p i (proc_priority_list s ! i) s = Ok () (s\<lparr>proc_list := ?L, proc_priority_list := proc_priority_list s\<rparr>)"
      using find_pred_Ok [OF ch' len] by (simp add: dequeue_def kernel_defs upd_entry_def)
    moreover have "queues_rel (s\<lparr>proc_list := ?L, proc_priority_list := proc_priority_list s\<rparr>) (A\<lparr>levels := (levels A)[i := remove1 p (levels A ! i)]\<rparr>)"
    proof -
      have "chain ?L (proc_priority_list s ! j) ((levels A)[i := as @ bs] ! j)" if "j < 3" for j
      proof (cases "j = i")
        case True
        then show ?thesis using chain_remove [OF ch'] snoc that q(3) by simp
      next
        case False
        then have "c \<notin> set (levels A ! j)" using level_disjoint [OF q(3,6) assms(2) that c(1)] by blast
        then show ?thesis using False q(1) q(4) [OF that] c(3) by (simp add: chain_update)
      qed
      moreover have "entry_rel (?L ! x) j (A\<lparr>levels := (levels A)[i := as @ bs]\<rparr>) x"
        if "j < 3" "x \<in> set ((levels A)[i := as @ bs] ! j)" for j x
      proof -
        have "x \<in> set (levels A ! j)" using that split q(3) by (cases "j = i") auto
        then have "entry_rel (proc_list s ! x) j A x" by (rule q(5) [OF that(1)])
        then show ?thesis using q(1) c(3) by (auto simp: entry_rel_def nth_list_update)
      qed
      ultimately show ?thesis unfolding rem using q(1,2) others by (simp add: queues_rel_def)
    qed
    ultimately show thesis by (rule that) (use c(2) in simp)
  qed
qed

text \<open>Only the scheduler's own variables change.\<close>

definition sched_only :: "'z sched_state_scheme \<Rightarrow> 'z sched_state_scheme \<Rightarrow> bool" where
  "sched_only s s' \<longleftrightarrow> (\<exists>L H c. s' = s\<lparr>proc_list := L, proc_priority_list := H, current_process := c\<rparr>)"

lemma sched_onlyI: "sched_only s (s\<lparr>proc_list := L, proc_priority_list := H, current_process := c\<rparr>)"
  unfolding sched_only_def by blast

lemma demote_Ok:
  assumes "queues_rel s A" "i < 3" "p \<in> set (levels A ! i)"
  obtains L H where "sched_demote p s = Ok () (s\<lparr>proc_list := L, proc_priority_list := H\<rparr>)"
    "queues_rel (s\<lparr>proc_list := L, proc_priority_list := H\<rparr>)
      (if i < 2 then A\<lparr>levels := (levels A)[i := remove1 p (levels A ! i), i + 1 := p # levels A ! (i + 1)],
         credit := (credit A)(p := 2000)\<rparr> else A)"
proof -
  note q = queues_relD [OF assms(1)]
  have p64: "p < 64" by (rule queues_bound [OF assms])
  have e: "ptr (proc_list s ! p) = Some p" "priority (proc_list s ! p) = i"
    using q(5) [OF assms(2,3)] by (simp_all add: entry_rel_def)
  show thesis
  proof (cases "i < 2")
    case False
    have "sched_demote p s = Ok () (s\<lparr>proc_list := proc_list s, proc_priority_list := proc_priority_list s\<rparr>)"
      using e(2) False by (simp add: sched_demote_def kernel_defs)
    then show thesis by (rule that) (use assms(1) False in simp)
  next
    case True
    obtain L H where LH: "dequeue p i (proc_priority_list s ! i) s = Ok () (s\<lparr>proc_list := L, proc_priority_list := H\<rparr>)"
      "queues_rel (s\<lparr>proc_list := L, proc_priority_list := H\<rparr>) (A\<lparr>levels := (levels A)[i := remove1 p (levels A ! i)]\<rparr>)"
      "L ! p = proc_list s ! p"
      using dequeue_Ok [OF assms] by blast
    let ?u = "s\<lparr>proc_list := L, proc_priority_list := H\<rparr>" and ?B = "A\<lparr>levels := (levels A)[i := remove1 p (levels A ! i)]\<rparr>"
    let ?e = "(L ! p)\<lparr>priority := i + 1, tickets_remaining := 2000, next_process := H ! (i + 1)\<rparr>"
    note u = queues_relD [OF LH(2)]
    have len: "p < length L" using u(1) p64 by simp
    have head: "proc_priority_list s ! i \<noteq> None"
      using q(4) [OF assms(2)] assms(3) by (cases "levels A ! i") auto
    have out: "p \<notin> set (concat (levels ?B))"
      using q(3,6) assms(2,3) by (auto simp: three_concat less_3)
    have push: "queues_rel (?u\<lparr>proc_list := (proc_list ?u)[p := ?e], proc_priority_list := (proc_priority_list ?u)[i + 1 := Some p]\<rparr>)
      (?B\<lparr>levels := (levels ?B)[i + 1 := p # levels ?B ! (i + 1)], credit := (credit ?B)(p := 2000)\<rparr>)"
      using e LH(3) True by (intro queues_push [OF LH(2) p64 out]) simp_all
    have "sched_demote p s = Ok () (s\<lparr>proc_list := L[p := ?e], proc_priority_list := H[i + 1 := Some p]\<rparr>)"
      using LH(1,3) e(2) True head len
      by (auto simp: sched_demote_def kernel_defs upd_entry_def set_head_def)
    moreover have "queues_rel (s\<lparr>proc_list := L[p := ?e], proc_priority_list := H[i + 1 := Some p]\<rparr>)
      (if i < 2 then A\<lparr>levels := (levels A)[i := remove1 p (levels A ! i), i + 1 := p # levels A ! (i + 1)],
         credit := (credit A)(p := 2000)\<rparr> else A)"
      using push True by simp
    ultimately show thesis by (rule that)
  qed
qed

lemma charge_Ok:
  assumes "queues_rel s A" "i < 3" "p \<in> set (levels A ! i)"
  obtains L H where "sched_charge p s = Ok () (s\<lparr>proc_list := L, proc_priority_list := H\<rparr>)"
    "queues_rel (s\<lparr>proc_list := L, proc_priority_list := H\<rparr>) (mlfq_charge p A)"
proof -
  note q = queues_relD [OF assms(1)]
  have p64: "p < 64" by (rule queues_bound [OF assms])
  have l: "level_of (levels A) p = i" by (rule level_of_eq [OF q(3,6) assms(2,3)])
  have t: "tickets_remaining (proc_list s ! p) = credit A p" "0 \<le> credit A p" "credit A p \<le> 2000"
    using q(5) [OF assms(2,3)] by (simp_all add: entry_rel_def)
  show thesis
  proof (cases "10 \<le> credit A p")
    case True
    let ?L = "(proc_list s)[p := (proc_list s ! p)\<lparr>tickets_remaining := credit A p - 10\<rparr>]"
    have "sched_charge p s = Ok () (s\<lparr>proc_list := ?L, proc_priority_list := proc_priority_list s\<rparr>)"
      using True t(1) p64 q(1) by (simp add: sched_charge_def kernel_defs upd_entry_def)
    moreover have "queues_rel (s\<lparr>proc_list := ?L, proc_priority_list := proc_priority_list s\<rparr>) (mlfq_charge p A)"
      using queues_credit [OF assms(1) p64, of "credit A p - 10"] True t by (simp add: mlfq_charge_def upd_entry_def)
    ultimately show thesis by (rule that)
  next
    case False
    let ?s = "upd_entry p (\<lambda>e. e\<lparr>tickets_remaining := 0\<rparr>) s" and ?B = "A\<lparr>credit := (credit A)(p := 0)\<rparr>"
    have B: "queues_rel ?s ?B" using queues_credit [OF assms(1) p64, of 0] by simp
    have pB: "p \<in> set (levels ?B ! i)" using assms(3) by simp
    obtain L H where LH: "sched_demote p ?s = Ok () (?s\<lparr>proc_list := L, proc_priority_list := H\<rparr>)"
      "queues_rel (?s\<lparr>proc_list := L, proc_priority_list := H\<rparr>)
        (if i < 2 then ?B\<lparr>levels := (levels ?B)[i := remove1 p (levels ?B ! i), i + 1 := p # levels ?B ! (i + 1)],
           credit := (credit ?B)(p := 2000)\<rparr> else ?B)"
      using demote_Ok [OF B assms(2) pB] by blast
    have "sched_charge p s = sched_demote p ?s"
      using False t(1) p64 q(1) by (simp add: sched_charge_def kernel_defs upd_entry_def)
    then have "sched_charge p s = Ok () (s\<lparr>proc_list := L, proc_priority_list := H\<rparr>)"
      using LH(1) by (simp add: upd_entry_def)
    moreover have "queues_rel (s\<lparr>proc_list := L, proc_priority_list := H\<rparr>) (mlfq_charge p A)"
      using LH(2) False l by (simp add: mlfq_charge_def upd_entry_def Let_def split: if_splits)
    ultimately show thesis by (rule that)
  qed
qed

lemma charge_keeps_process:
  assumes "length (levels A) = 3" "p \<in> set (concat (levels A))"
  shows "p \<in> set (concat (levels (mlfq_charge p A)))" "length (levels (mlfq_charge p A)) = 3"
    "running (mlfq_charge p A) = running A"
proof -
  let ?l = "level_of (levels A) p"
  show len: "length (levels (mlfq_charge p A)) = 3" and "running (mlfq_charge p A) = running A"
    using assms(1) by (simp_all add: mlfq_charge_def Let_def)
  show "p \<in> set (concat (levels (mlfq_charge p A)))"
  proof (cases "credit A p < 10 \<and> ?l < 2")
    case True
    then have "p \<in> set (levels (mlfq_charge p A) ! (?l + 1))" using assms(1) by (simp add: mlfq_charge_def Let_def)
    moreover have "?l + 1 < 3" using True by simp
    ultimately show ?thesis by (intro level_member [OF len])
  next
    case False
    then show ?thesis using assms(2) by (auto simp: mlfq_charge_def Let_def)
  qed
qed

section \<open>Refinement\<close>

lemma top_process_mem: "top_process Q = Some h \<Longrightarrow> h \<in> set (concat Q)"
  by (induction Q) (auto simp: top_process_def head_of_def split: list.splits if_splits)

lemma top_process_ex: "p \<in> set (concat Q) \<Longrightarrow> \<exists>h. top_process Q = Some h"
  by (induction Q) (auto simp: top_process_def head_of_def split: list.splits)

lemma mlfq_next_in:
  assumes "length Q = 3" "distinct (concat Q)" "p \<in> set (concat Q)" "mlfq_next Q p = Some n"
  shows "n \<in> set (concat Q)"
proof -
  let ?l = "level_of Q p"
  have l: "?l < 3" "p \<in> set (Q ! ?l)" using level_of_mem [OF assms(1,3)] by auto
  have suc: "n \<in> set xs" if "successor x xs = Some n" for x xs
    using that by (induction x xs rule: successor.induct) (auto simp: head_of_def split: if_splits list.splits)
  have hd: "n \<in> set xs" if "head_of xs = Some n" for xs
    using that by (auto simp: head_of_def split: list.splits)
  show ?thesis
    using assms(4) top_process_mem suc [of p "Q ! ?l"] hd [of "Q ! ?l"] level_member [OF assms(1) l(1)] assms(3)
    by (auto simp: mlfq_next_def Let_def split: option.splits if_splits)
qed

lemma update_refines:
  assumes "mlfq_rel s A"
  shows "wp sched_update (\<lambda>_ s'. mlfq_rel s' (mlfq_update A) \<and> sched_only s s') s"
proof (cases "current_process s")
  case None
  have q: "queues_rel s A" and r: "running A = None" using assms None by (auto simp: mlfq_rel_def)
  have "sched_update s = Ok () (s\<lparr>current_process := top_process (levels A)\<rparr>)"
    using None first_head_top [OF q] by (cases "top_process (levels A)") (simp_all add: sched_update_def kernel_defs)
  moreover have "mlfq_rel (s\<lparr>current_process := top_process (levels A)\<rparr>) (mlfq_update A)"
    using q r top_process_mem by (simp add: mlfq_rel_def mlfq_update_def queues_rel_def entry_rel_def)
  moreover have "sched_only s (s\<lparr>current_process := top_process (levels A)\<rparr>)"
    using sched_onlyI [where s = s and L = "proc_list s" and H = "proc_priority_list s"] by simp
  ultimately show ?thesis by (simp add: wp_def)
next
  case (Some p)
  have q: "queues_rel s A" and r: "running A = Some p" and p: "p \<in> set (concat (levels A))"
    using assms Some by (auto simp: mlfq_rel_def)
  note D = queues_relD [OF q]
  have l: "level_of (levels A) p < 3" "p \<in> set (levels A ! level_of (levels A) p)"
    using level_of_mem [OF D(3) p] by auto
  obtain L H where LH: "sched_charge p s = Ok () (s\<lparr>proc_list := L, proc_priority_list := H\<rparr>)"
    "queues_rel (s\<lparr>proc_list := L, proc_priority_list := H\<rparr>) (mlfq_charge p A)"
    using charge_Ok [OF q l] by blast
  let ?u = "s\<lparr>proc_list := L, proc_priority_list := H\<rparr>" and ?A = "mlfq_charge p A"
  let ?Q = "levels ?A"
  note U = queues_relD [OF LH(2)]
  have pQ: "p \<in> set (concat ?Q)" using charge_keeps_process(1) [OF D(3) p] .
  define l' where "l' = level_of ?Q p"
  have l': "l' < 3" "p \<in> set (?Q ! l')" using level_of_mem [OF U(3) pQ] by (auto simp: l'_def)
  have prio: "priority (L ! x) = level_of ?Q x" if "x \<in> set (concat ?Q)" for x
    using U(5) level_of_mem [OF U(3) that] by (auto simp: entry_rel_def)
  obtain h where h: "top_process ?Q = Some h" "h \<in> set (concat ?Q)"
    using top_process_ex [OF pQ] top_process_mem by blast
  have nxt: "next_process (L ! p) = successor p (?Q ! l')"
    using next_successor [OF U(4) [OF l'(1)] level_distinct [OF U(3,6) l'(1)] l'(2)] by simp
  have head: "H ! l' = head_of (?Q ! l')" using chain_head [OF U(4) [OF l'(1)]] by simp
  have ne: "head_of (?Q ! l') \<noteq> None" using l'(2) by auto
  have ptr: "ptr (proc_list s ! p) = Some p" using D(5) [OF l] by (simp add: entry_rel_def)
  obtain hd where hd: "head_of (?Q ! l') = Some hd" using ne by (metis option.exhaust)
  define n where "n = (if level_of ?Q h < l' then h else case successor p (?Q ! l') of Some n \<Rightarrow> n | None \<Rightarrow> hd)"
  have n: "mlfq_next ?Q p = Some n"
    by (simp add: mlfq_next_def Let_def l'_def [symmetric] h(1) hd n_def split: option.split)
  have pr: "priority (L ! p) = l'" "priority (L ! h) = level_of ?Q h" using prio pQ h(2) by (simp_all add: l'_def)
  have fh: "first_head ?u = Some h" using first_head_top [OF LH(2)] h(1) by simp
  have "sched_update s = (if l' \<noteq> 0 \<and> level_of ?Q h < l' then Ok () (?u\<lparr>current_process := Some h\<rparr>)
      else Ok () (sched_rotate p l' ?u))"
    unfolding sched_update_def kseq_def kbind_def kget_def kmod_def
    using Some ptr by (simp add: LH(1) fh pr)
  moreover have "sched_rotate p l' ?u = ?u\<lparr>current_process := Some (case successor p (?Q ! l') of Some n \<Rightarrow> n | None \<Rightarrow> hd)\<rparr>"
    by (cases "successor p (?Q ! l')") (simp_all add: sched_rotate_def nxt head hd)
  ultimately have next_eq: "sched_update s = Ok () (?u\<lparr>current_process := Some n\<rparr>)"
    by (auto simp: n_def)
  have "mlfq_rel (?u\<lparr>current_process := Some n\<rparr>) (mlfq_update A)"
    using LH(2) mlfq_next_in [OF U(3,6) pQ n] n r
    by (simp add: mlfq_rel_def mlfq_update_def queues_rel_def entry_rel_def)
  then show ?thesis using next_eq sched_onlyI by (simp add: wp_def)
qed

text \<open>Printing leaves the scheduler and the process table alone.\<close>

lemma console_frame_sched:
  assumes "console_frame s s'"
  shows "proc_list s' = proc_list s" "proc_priority_list s' = proc_priority_list s" "current_process s' = current_process s"
    "processes s' = processes s" "mlfq_rel s' A = mlfq_rel s A"
proof -
  obtain v l m b where s': "s' = s\<lparr>vidmem := v, io_log := l, mem := m, std_output_buf := b\<rparr>"
    using assms by (auto simp: console_frame_def)
  show "proc_list s' = proc_list s" "proc_priority_list s' = proc_priority_list s" "current_process s' = current_process s"
    "processes s' = processes s" by (simp_all add: s')
  then show "mlfq_rel s' A = mlfq_rel s A" by (simp add: mlfq_rel_def queues_rel_def)
qed

lemma sched_fields_console:
  "console_ok (s\<lparr>proc_list := L, proc_priority_list := H, current_process := c\<rparr>) = console_ok s"
proof -
  let ?t = "s\<lparr>proc_list := L, proc_priority_list := H, current_process := c\<rparr>"
  have "pmem_ok ?t = pmem_ok s" "used_pages ?t = used_pages s"
    by (simp_all add: pmem_ok_def used_pages_def pmem_used_def entry_addr_def [abs_def] entry_used_def record_addr_def pmem_blocks_def)
  then show ?thesis by (simp add: console_ok_def stdio_ok_def buf_ok_def)
qed

lemma sched_only_console: "sched_only s s' \<Longrightarrow> console_ok s' = console_ok s"
  "sched_only s s' \<Longrightarrow> processes s' = processes s"
  by (auto simp: sched_only_def sched_fields_console)

lemma process_get_Some:
  assumes "0 < p" "p < 64" "p_state (processes s ! p) \<noteq> UNUSED"
  shows "process_get (int p) s = Ok (Some p) s"
  using assms by (simp add: process_get_def kernel_defs)

lemma addpid_refines:
  assumes "mlfq_rel s A" "console_ok s" "0 < p" "p < 64" "p_state (processes s ! p) \<noteq> UNUSED" "p \<notin> set (concat (levels A))"
  shows "wp (sched_addpid (int p)) (\<lambda>_ s'. mlfq_rel s' (mlfq_add p A) \<and> (\<exists>t. sched_only s t \<and> console_frame t s')) s"
proof -
  have q: "queues_rel s A" using assms(1) by (simp add: mlfq_rel_def)
  note D = queues_relD [OF q]
  let ?e = "(proc_list s ! p)\<lparr>ptr := Some p, priority := 0, tickets_remaining := 2000, next_process := proc_priority_list s ! 0\<rparr>"
  let ?t = "s\<lparr>proc_list := (proc_list s)[p := ?e], proc_priority_list := (proc_priority_list s)[0 := Some p]\<rparr>"
  have "queues_rel ?t (mlfq_add p A)"
    unfolding mlfq_add_def by (rule queues_push [OF q assms(4,6)]) simp_all
  then have rel: "mlfq_rel ?t (mlfq_add p A)"
    using assms(1) D(3) by (auto simp: mlfq_rel_def mlfq_add_def three_concat)
  have only: "sched_only s ?t" using sched_onlyI [where s = s and c = "current_process s"] by simp
  have con: "console_ok ?t" using sched_only_console(1) [OF only] assms(2) by simp
  have run: "sched_addpid (int p) s = printf (cstr ''Schduler: Added new PID %d to scheduler. Name: %s \<newline>'')
           [ArgInt (of_int (int p)), ArgStr (name_and_pid (processes s ! p))] ?t"
    unfolding sched_addpid_def kbind_def process_get_Some [OF assms(3-5)]
    using D(1) assms(4) by (simp add: kernel_defs upd_entry_def set_head_def)
  have "wp (printf (cstr ''Schduler: Added new PID %d to scheduler. Name: %s \<newline>'')
           [ArgInt (of_int (int p)), ArgStr (name_and_pid (processes s ! p))])
        (\<lambda>_ s'. mlfq_rel s' (mlfq_add p A) \<and> (\<exists>t. sched_only s t \<and> console_frame t s')) ?t"
    by (rule wp_printf_frame [OF con]) (use console_frame_sched(5) rel only in auto)
  then show ?thesis by (simp add: wp_def run)
qed

section \<open>Sequences of scheduler operations\<close>

datatype sched_op = Add nat | Tick

fun sched_conc :: "sched_op \<Rightarrow> ('z sched_state_scheme, unit) kM" where
  "sched_conc (Add p) = sched_addpid (int p)"
| "sched_conc Tick = sched_update"

fun sched_abs :: "sched_op \<Rightarrow> mlfq \<Rightarrow> mlfq" where
  "sched_abs (Add p) = mlfq_add p"
| "sched_abs Tick = mlfq_update"

text \<open>Processes of the set \<open>V\<close> are added, each while it is in no queue.\<close>

fun sched_allowed :: "nat set \<Rightarrow> sched_op \<Rightarrow> mlfq \<Rightarrow> bool" where
  "sched_allowed V (Add p) A \<longleftrightarrow> p \<in> V \<and> p \<notin> set (concat (levels A))"
| "sched_allowed V Tick A \<longleftrightarrow> True"

definition sched_rel :: "nat set \<Rightarrow> 'z sched_state_scheme \<Rightarrow> mlfq \<Rightarrow> bool" where
  "sched_rel V s A \<longleftrightarrow> mlfq_rel s A \<and> console_ok s
     \<and> (\<forall>p \<in> V. 0 < p \<and> p < 64 \<and> p_state (processes s ! p) \<noteq> UNUSED)"

interpretation sched: simulation sched_conc sched_abs "sched_allowed V" "sched_rel V"
proof
  fix s :: "'a sched_state_scheme" and A x
  assume r: "sched_rel V s A" and a: "sched_allowed V x A"
  have rel: "mlfq_rel s A" "console_ok s" "\<And>p. p \<in> V \<Longrightarrow> 0 < p \<and> p < 64 \<and> p_state (processes s ! p) \<noteq> UNUSED"
    using r by (auto simp: sched_rel_def)
  show "wp (sched_conc x) (\<lambda>_ s'. sched_rel V s' (sched_abs x A)) s"
  proof (cases x)
    case (Add p)
    have "wp (sched_addpid (int p)) (\<lambda>_ s'. mlfq_rel s' (mlfq_add p A) \<and> (\<exists>t. sched_only s t \<and> console_frame t s')) s"
      using a Add rel by (intro addpid_refines) auto
    then have "wp (sched_addpid (int p)) (\<lambda>_ s'. sched_rel V s' (mlfq_add p A)) s"
      by (rule wp_mono) (use rel sched_only_console console_ok_frame console_frame_sched(4) in \<open>fastforce simp: sched_rel_def\<close>)
    then show ?thesis using Add by simp
  next
    case Tick
    have "wp sched_update (\<lambda>_ s'. sched_rel V s' (mlfq_update A)) s"
      by (rule wp_mono [OF update_refines [OF rel(1)]]) (use rel sched_only_console in \<open>fastforce simp: sched_rel_def\<close>)
    then show ?thesis using Tick by simp
  qed
qed

section \<open>What the abstract scheduler does\<close>

text \<open>After a time slice, the process that runs is one of the highest level that is not empty.\<close>

lemma top_process_level:
  assumes "length Q = 3" "top_process Q = Some h" "q \<in> set (concat Q)"
  shows "level_of Q h \<le> level_of Q q"
proof -
  obtain a b c where "Q = [a, b, c]" using three_levels [OF assms(1)] by blast
  then show ?thesis
    using assms(2,3) by (auto simp: top_process_def head_of_def level_of_def split: list.splits if_splits)
qed

lemma mlfq_runs_highest:
  assumes "mlfq_rel s A" "running (mlfq_update A) = Some n" "q \<in> set (concat (levels (mlfq_update A)))"
  shows "level_of (levels (mlfq_update A)) n \<le> level_of (levels (mlfq_update A)) q"
proof -
  have q: "queues_rel s A" using assms(1) by (simp add: mlfq_rel_def)
  note D = queues_relD [OF q]
  show ?thesis
  proof (cases "running A")
    case None
    then show ?thesis using assms(2,3) top_process_level [OF D(3)] by (simp add: mlfq_update_def)
  next
    case (Some p)
    have p: "p \<in> set (concat (levels A))" using assms(1) Some by (simp add: mlfq_rel_def)
    let ?Q = "levels (mlfq_charge p A)"
    note c = charge_keeps_process [OF D(3) p]
    have Q: "levels (mlfq_update A) = ?Q" "mlfq_next ?Q p = Some n"
      using Some assms(2) by (simp_all add: mlfq_update_def Let_def)
    obtain h where h: "top_process ?Q = Some h" using top_process_ex [OF c(1)] by blast
    have low: "level_of ?Q h \<le> level_of ?Q x" if "x \<in> set (concat ?Q)" for x
      by (rule top_process_level [OF c(2) h that])
    have "distinct (concat ?Q)"
      using charge_Ok [OF q level_of_mem [OF D(3) p]] queues_relD(6) by metis
    then have same: "level_of ?Q n = level_of ?Q p" if "n \<in> set (?Q ! level_of ?Q p)"
      using level_of_eq [OF c(2)] level_of_mem(1) [OF c(2,1)] that by blast
    have suc: "n \<in> set xs" if "successor x xs = Some n" for x xs
      using that by (induction x xs rule: successor.induct) (auto simp: head_of_def split: if_splits list.splits)
    have hd: "n \<in> set xs" if "head_of xs = Some n" for xs
      using that by (auto simp: head_of_def split: list.splits)
    have "n = h \<or> level_of ?Q n = level_of ?Q p \<and> level_of ?Q p \<le> level_of ?Q h"
      using Q(2) h same suc hd by (auto simp: mlfq_next_def Let_def split: if_splits option.splits)
    then have "level_of ?Q n \<le> level_of ?Q h" by auto
    then show ?thesis using low [of q] assms(3) Q(1) by simp
  qed
qed

text \<open>Round robin: on a level above which all levels are empty, the turn goes round the list.\<close>

lemma successor_nth:
  assumes "distinct xs" "k < length xs"
  shows "successor (xs ! k) xs = (if Suc k < length xs then Some (xs ! Suc k) else None)"
proof -
  have "xs = take k xs @ xs ! k # drop (Suc k) xs" using assms(2) by (rule id_take_nth_drop)
  then have "successor (xs ! k) xs = head_of (drop (Suc k) xs)"
    using successor_split [of "take k xs" "xs ! k" "drop (Suc k) xs"] assms(1) by simp
  then show ?thesis by (cases "Suc k < length xs") (simp_all add: Cons_nth_drop_Suc [symmetric])
qed

definition top_level :: "nat list list \<Rightarrow> nat \<Rightarrow> nat list \<Rightarrow> bool" where
  "top_level Q l xs \<longleftrightarrow> length Q = 3 \<and> l < 3 \<and> Q ! l = xs \<and> xs \<noteq> [] \<and> distinct (concat Q) \<and> (\<forall>i < l. Q ! i = [])"

lemma top_level_next:
  assumes "top_level Q l xs" "k < length xs"
  shows "mlfq_next Q (xs ! k) = Some (xs ! (Suc k mod length xs))" "level_of Q (xs ! k) = l"
proof -
  have t: "length Q = 3" "l < 3" "Q ! l = xs" "distinct (concat Q)" "\<forall>i < l. Q ! i = []"
    using assms(1) by (simp_all add: top_level_def)
  have d: "distinct xs" using level_distinct [OF t(1,4,2)] t(3) by simp
  show lev: "level_of Q (xs ! k) = l" by (rule level_of_eq [OF t(1,4,2)]) (use t(3) assms(2) in simp)
  have "xs ! k \<in> set (concat Q)" using level_member [OF t(1,2)] t(3) assms(2) by simp
  then obtain h where h: "top_process Q = Some h" using top_process_ex by blast
  have "h \<in> set (concat Q)" by (rule top_process_mem [OF h])
  then have "\<not> level_of Q h < l" using level_of_mem [OF t(1)] t(5) by fastforce
  then have "mlfq_next Q (xs ! k) = (case successor (xs ! k) xs of Some n \<Rightarrow> Some n | None \<Rightarrow> head_of xs)"
    using h lev by (simp add: mlfq_next_def Let_def t(3) split: option.split)
  moreover have "head_of xs = Some (xs ! 0)" using assms(2) by (cases xs) simp_all
  moreover have "Suc k mod length xs = (if Suc k < length xs then Suc k else 0)"
    using assms(2) by (cases "Suc k = length xs") simp_all
  ultimately show "mlfq_next Q (xs ! k) = Some (xs ! (Suc k mod length xs))"
    using successor_nth [OF d assms(2)] by simp
qed

lemma round_robin:
  assumes "top_level (levels A) l xs" "running A = Some (xs ! k)" "k < length xs" "j \<le> length xs"
    and "\<forall>p \<in> set xs. 10 \<le> credit A p"
  shows "let B = (mlfq_update ^^ j) A in levels B = levels A \<and> running B = Some (xs ! ((k + j) mod length xs))
    \<and> (\<forall>i < length xs. credit B (xs ! i) = credit A (xs ! i) - (if (\<exists>d < j. i = (k + d) mod length xs) then 10 else 0))"
  using assms(4)
proof (induction j)
  case 0
  then show ?case using assms(2,3) by simp
next
  case (Suc j)
  define B where "B = (mlfq_update ^^ j) A"
  let ?n = "length xs"
  let ?i = "(k + j) mod ?n"
  have IH: "levels B = levels A" "running B = Some (xs ! ?i)"
    "\<And>i. i < ?n \<Longrightarrow> credit B (xs ! i) = credit A (xs ! i) - (if (\<exists>d < j. i = (k + d) mod ?n) then 10 else 0)"
    using Suc by (simp_all add: B_def Let_def)
  have n0: "0 < ?n" using assms(3) by linarith
  then have n: "0 < ?n" "?i < ?n" by simp_all
  have fresh: "\<not> (\<exists>d < j. ?i = (k + d) mod ?n)"
  proof
    assume "\<exists>d < j. ?i = (k + d) mod ?n"
    then obtain d where d: "d < j" "(k + j) mod ?n = (k + d) mod ?n" by blast
    then have "?n dvd j - d" using mod_eq_dvd_iff_nat [of "k + d" "k + j" ?n] by simp
    then have "?n \<le> j - d" using d(1) by (intro dvd_imp_le) simp_all
    then show False using Suc.prems d(1) by linarith
  qed
  have cr: "10 \<le> credit B (xs ! ?i)" using IH(3) [OF n(2)] fresh assms(5) n(2) by simp
  have charge: "mlfq_charge (xs ! ?i) B = B\<lparr>credit := (credit B)(xs ! ?i := credit B (xs ! ?i) - 10)\<rparr>"
    using cr by (simp add: mlfq_charge_def Let_def)
  have "mlfq_next (levels A) (xs ! ?i) = Some (xs ! (Suc ?i mod ?n))" by (rule top_level_next(1) [OF assms(1) n(2)])
  then have step: "mlfq_update B = B\<lparr>credit := (credit B)(xs ! ?i := credit B (xs ! ?i) - 10), running := Some (xs ! ((k + Suc j) mod ?n))\<rparr>"
    using IH(1,2) by (simp add: mlfq_update_def charge mod_Suc_eq)
  have d: "distinct xs" using assms(1) level_distinct by (auto simp: top_level_def)
  have "credit (mlfq_update B) (xs ! i) = credit A (xs ! i) - (if (\<exists>d < Suc j. i = (k + d) mod ?n) then 10 else 0)" if "i < ?n" for i
  proof (cases "i = ?i")
    case True
    then show ?thesis using step IH(3) [OF n(2)] fresh by auto
  next
    case False
    then have "xs ! i \<noteq> xs ! ?i" using nth_eq_iff_index_eq [OF d that n(2)] by simp
    moreover have "(\<exists>d < Suc j. i = (k + d) mod ?n) \<longleftrightarrow> (\<exists>d < j. i = (k + d) mod ?n)" using False by (auto simp: less_Suc_eq)
    ultimately show ?thesis using step IH(3) [OF that] by simp
  qed
  then show ?case using step IH(1) by (simp add: B_def Let_def)
qed

section \<open>Properties\<close>

text \<open>A machine on which process 1 and process 2 are runnable and nothing is scheduled.\<close>

definition idle_process :: process where
  "idle_process = \<lparr>p_name = replicate 16 0, p_pid = 0, cpu_time_ms = 0, current_priority = 0, p_state = UNUSED, killed = 0,
     registers = zero_registers, process_memory_start = 0, process_memory_size = 0\<rparr>"

definition sched_machine :: sched_state where
  "sched_machine = processes_state.extend (vmem_state.extend vmem_machine
       \<lparr>processes = (replicate 64 idle_process)[1 := idle_process\<lparr>p_state := RUNNABLE\<rparr>, 2 := idle_process\<lparr>p_state := RUNNABLE\<rparr>]\<rparr>)
     \<lparr>proc_list = replicate 64 \<lparr>ptr = None, priority = 0, tickets_remaining = 0, next_process = None\<rparr>,
      proc_priority_list = [None, None, None], current_process = None\<rparr>"

definition no_processes :: mlfq where
  "no_processes = \<lparr>levels = [[], [], []], credit = (\<lambda>_. 0), running = None\<rparr>"

lemma vmem_machine_console: "console_ok vmem_machine"
  using vmem_machine_ready by (simp add: vmem_ready_def console_ok_def)

lemma sched_machine_rel: "sched_rel {1, 2} sched_machine no_processes"
proof -
  have eq: "pmem_ok sched_machine = pmem_ok vmem_machine" "used_pages sched_machine = used_pages vmem_machine"
    by (simp_all add: sched_machine_def processes_state.extend_def vmem_state.extend_def pmem_ok_def used_pages_def pmem_used_def
        entry_addr_def [abs_def] entry_used_def record_addr_def pmem_blocks_def)
  have "console_ok sched_machine = console_ok vmem_machine"
    by (simp add: console_ok_def stdio_ok_def buf_ok_def eq)
      (simp add: sched_machine_def processes_state.extend_def vmem_state.extend_def)
  then show ?thesis
    using vmem_machine_console
    by (simp add: sched_rel_def mlfq_rel_def queues_rel_def no_processes_def less_3)
      (auto simp: sched_machine_def processes_state.extend_def vmem_state.extend_def less_3 idle_process_def)
qed

text \<open>C6: the linked lists implement the abstract multi-level feedback queue. Started in related states,
  every sequence of additions (each of an existing process that is in no queue) and time slices runs
  without a panic and without an endless walk, and ends in related states: the three lists are free
  of cycles and duplicates, every entry is on the list of its priority, and its tickets are between
  0 and 2000.\<close>

theorem sched_refines_mlfq:
  assumes "sched_rel V s A" "admissible (sched_allowed V) sched_abs ops A"
  shows "wp (run_ops sched_conc ops) (\<lambda>_ s'. sched_rel V s' (fold sched_abs ops A)) s"
  using assms by (rule sched.run_simulates)

theorem sched_refines_mlfq_witness:
  "wp (run_ops sched_conc [Add 1, Add 2, Tick, Tick])
    (\<lambda>_ s'. sched_rel {1, 2} s' (fold sched_abs [Add 1, Add 2, Tick, Tick] no_processes)) sched_machine"
  by (rule sched_refines_mlfq [OF sched_machine_rel])
    (simp add: no_processes_def mlfq_add_def mlfq_update_def)

text \<open>C35: after a time slice the running process is one of the highest level that is not empty: no
  scheduled process has a smaller priority number; and while anything is scheduled, something runs.\<close>

theorem sched_runs_highest:
  assumes "mlfq_rel s A" "p \<in> set (concat (levels A))"
  shows "wp sched_update (\<lambda>_ s'. \<exists>n. current_process s' = Some n
    \<and> (\<forall>q \<in> set (concat (levels (mlfq_update A))). priority (proc_list s' ! n) \<le> priority (proc_list s' ! q))) s"
proof (rule wp_mono [OF update_refines [OF assms(1)]])
  fix u s'
  assume s': "mlfq_rel s' (mlfq_update A) \<and> sched_only s s'"
  let ?B = "mlfq_update A"
  have r: "queues_rel s' ?B" "running ?B = current_process s'" "\<And>x. running ?B = Some x \<Longrightarrow> x \<in> set (concat (levels ?B))"
    using s' by (auto simp: mlfq_rel_def)
  note D = queues_relD [OF r(1)]
  have q3: "length (levels A) = 3" using assms(1) queues_relD(3) by (auto simp: mlfq_rel_def)
  obtain n where n: "running ?B = Some n"
  proof (cases "running A")
    case None
    then show thesis using that top_process_ex [OF assms(2)] by (auto simp: mlfq_update_def)
  next
    case (Some x)
    then have x: "x \<in> set (concat (levels A))" using assms(1) by (simp add: mlfq_rel_def)
    let ?Q = "levels (mlfq_charge x A)"
    note c = charge_keeps_process [OF q3 x]
    obtain h where "top_process ?Q = Some h" using top_process_ex [OF c(1)] by blast
    moreover have "head_of (?Q ! level_of ?Q x) \<noteq> None" using level_of_mem(2) [OF c(2,1)] by auto
    ultimately have "\<exists>n. mlfq_next ?Q x = Some n"
      by (auto simp: mlfq_next_def Let_def neq_Nil_conv split: option.split)
    then show thesis using that Some by (auto simp: mlfq_update_def Let_def)
  qed
  have prio: "priority (proc_list s' ! x) = level_of (levels ?B) x" if "x \<in> set (concat (levels ?B))" for x
    using D(5) level_of_mem [OF D(3) that] by (auto simp: entry_rel_def)
  show "\<exists>n. current_process s' = Some n
    \<and> (\<forall>q \<in> set (concat (levels ?B)). priority (proc_list s' ! n) \<le> priority (proc_list s' ! q))"
    using n r prio mlfq_runs_highest [OF assms(1) n] by auto
qed

text \<open>A process that runs alone until it is moved to the second level; then a second one comes.\<close>

definition demoting :: "sched_op list" where
  "demoting = Add 1 # replicate 202 Tick @ [Add 2]"

lemmas mlfq_eval = mlfq_add_def mlfq_update_def mlfq_charge_def mlfq_next_def level_of_def top_process_def Let_def

lemma lone_process:
  assumes "10 * int m \<le> c"
  shows "(mlfq_update ^^ m) \<lparr>levels = [[p], [], []], credit = f(p := c), running = Some p\<rparr>
    = \<lparr>levels = [[p], [], []], credit = f(p := c - 10 * int m), running = Some p\<rparr>"
  using assms by (induction m) (simp_all add: mlfq_eval algebra_simps)

lemma lone_process_demoted:
  "mlfq_update \<lparr>levels = [[p], [], []], credit = f(p := 0), running = Some p\<rparr>
    = \<lparr>levels = [[], [p], []], credit = f(p := 2000), running = Some p\<rparr>"
  by (simp add: mlfq_eval)

lemma demoted:
  "fold sched_abs demoting no_processes = \<lparr>levels = [[2], [1], []], credit = (\<lambda>_. 0)(1 := 2000, 2 := 2000), running = Some 1\<rparr>"
  "admissible (sched_allowed {1, 2}) sched_abs demoting no_processes"
proof -
  let ?A = "\<lparr>levels = [[1], [], []], credit = (\<lambda>_. 0)(1 := 2000), running = Some 1\<rparr>"
  let ?B = "\<lparr>levels = [[], [1], []], credit = (\<lambda>_. 0)(1 := 2000), running = Some 1\<rparr>"
  have ticks: "fold sched_abs (replicate m Tick) A = (mlfq_update ^^ m) A" for m A
    by (induction m arbitrary: A) (simp_all add: funpow_swap1)
  have first: "mlfq_update (mlfq_add 1 no_processes) = ?A"
    by (simp add: mlfq_eval no_processes_def)
  have "(mlfq_update ^^ 202) B = mlfq_update ((mlfq_update ^^ 200) (mlfq_update B))" for B
    using funpow_add [of 1 "200 + 1" mlfq_update] funpow_add [of 200 1 mlfq_update] by simp
  then have B: "(mlfq_update ^^ 202) (mlfq_add 1 no_processes) = ?B"
    using first lone_process [of 200 2000 1 "\<lambda>_. 0"] lone_process_demoted [of 1 "\<lambda>_. 0"] by simp
  then show "fold sched_abs demoting no_processes
      = \<lparr>levels = [[2], [1], []], credit = (\<lambda>_. 0)(1 := 2000, 2 := 2000), running = Some 1\<rparr>"
    by (simp add: demoting_def ticks) (simp add: mlfq_add_def)
  have "admissible (sched_allowed {1, 2}) sched_abs (replicate m Tick @ ops) A
      = admissible (sched_allowed {1, 2}) sched_abs ops ((mlfq_update ^^ m) A)" for m ops A
    by (induction m arbitrary: A) (simp_all add: funpow_swap1)
  then show "admissible (sched_allowed {1, 2}) sched_abs demoting no_processes"
    using B by (simp add: demoting_def) (simp add: no_processes_def)
qed

theorem sched_runs_highest_witness:
  "wp (run_ops sched_conc demoting) (\<lambda>_ s. wp sched_update (\<lambda>_ s'. \<exists>n. current_process s' = Some n
    \<and> (\<forall>q \<in> {1, 2}. priority (proc_list s' ! n) \<le> priority (proc_list s' ! q))) s) sched_machine"
proof (rule sched.run_property [OF sched_machine_rel demoted(2)])
  fix s :: sched_state
  let ?A = "fold sched_abs demoting no_processes"
  assume "sched_rel {1, 2} s ?A"
  then have rel: "mlfq_rel s ?A" by (simp add: sched_rel_def)
  have "set (concat (levels (mlfq_update ?A))) = {1, 2}" "1 \<in> set (concat (levels ?A))"
    by (auto simp: demoted(1) mlfq_update_def mlfq_charge_def level_of_def Let_def)
  with sched_runs_highest [OF rel, of 1]
  show "wp sched_update (\<lambda>_ s'. \<exists>n. current_process s' = Some n
      \<and> (\<forall>q \<in> {1, 2}. priority (proc_list s' ! n) \<le> priority (proc_list s' ! q))) s" by metis
qed

text \<open>C36: the processes of the highest level that is not empty take turns: when each of them can still pay
  for a time slice, then after \<open>j\<close> time slices the one \<open>j\<close> places further round the list runs; so each
  of them runs within as many time slices as the list is long, and pays for one slice.\<close>

theorem sched_round_robin:
  assumes "sched_rel V s A" "top_level (levels A) l xs" "running A = Some (xs ! k)" "k < length xs" "j \<le> length xs"
    and "\<forall>p \<in> set xs. 20 \<le> credit A p"
  shows "wp (run_ops sched_conc (replicate j Tick))
    (\<lambda>_ s'. current_process s' = Some (xs ! ((k + j) mod length xs)) \<and> (\<forall>p \<in> set xs. 0 < tickets_remaining (proc_list s' ! p))) s"
proof (rule sched.run_property [OF assms(1)])
  have "admissible (sched_allowed V) sched_abs (replicate m Tick) B" for m B by (induction m arbitrary: B) simp_all
  then show "admissible (sched_allowed V) sched_abs (replicate j Tick) A" .
  fix s' :: "'a sched_state_scheme"
  let ?B = "(mlfq_update ^^ j) A"
  have fold: "fold sched_abs (replicate m Tick) B = (mlfq_update ^^ m) B" for m B
    by (induction m arbitrary: B) (simp_all add: funpow_swap1)
  assume "sched_rel V s' (fold sched_abs (replicate j Tick) A)"
  then have rel: "mlfq_rel s' ?B" by (simp add: fold sched_rel_def)
  have rr: "levels ?B = levels A" "running ?B = Some (xs ! ((k + j) mod length xs))"
    "\<And>i. i < length xs \<Longrightarrow> credit A (xs ! i) - 10 \<le> credit ?B (xs ! i)"
    using round_robin [OF assms(2-5)] assms(6) by (force simp: Let_def)+
  have "0 < tickets_remaining (proc_list s' ! p)" if p: "p \<in> set xs" for p
  proof -
    obtain i where i: "i < length xs" "p = xs ! i" using p by (metis in_set_conv_nth)
    have "p \<in> set (levels ?B ! l)" "l < 3" using p rr(1) assms(2) by (auto simp: top_level_def)
    then have "tickets_remaining (proc_list s' ! p) = credit ?B p"
      using rel queues_relD(5) by (fastforce simp: mlfq_rel_def entry_rel_def)
    moreover have "20 \<le> credit A p" using assms(6) p by blast
    ultimately show ?thesis using rr(3) [OF i(1)] i(2) by simp
  qed
  then show "current_process s' = Some (xs ! ((k + j) mod length xs)) \<and> (\<forall>p \<in> set xs. 0 < tickets_remaining (proc_list s' ! p))"
    using rel rr(2) by (simp add: mlfq_rel_def)
qed

theorem sched_round_robin_witness:
  "wp (run_ops sched_conc [Add 1, Add 2, Tick]) (\<lambda>_ s. wp (run_ops sched_conc (replicate 2 Tick))
    (\<lambda>_ s'. current_process s' = Some 2 \<and> (\<forall>p \<in> {1, 2}. 0 < tickets_remaining (proc_list s' ! p))) s) sched_machine"
proof (rule sched.run_property [OF sched_machine_rel])
  let ?A = "fold sched_abs [Add 1, Add 2, Tick] no_processes"
  show "admissible (sched_allowed {1, 2}) sched_abs [Add 1, Add 2, Tick] no_processes"
    by (simp add: no_processes_def mlfq_add_def)
  have A: "levels ?A = [[2, 1], [], []]" "running ?A = Some 2" "credit ?A 1 = 2000" "credit ?A 2 = 2000"
    by (simp_all add: no_processes_def mlfq_add_def mlfq_update_def top_process_def)
  fix s :: sched_state
  assume "sched_rel {1, 2} s ?A"
  then show "wp (run_ops sched_conc (replicate 2 Tick))
      (\<lambda>_ s'. current_process s' = Some 2 \<and> (\<forall>p \<in> {1, 2}. 0 < tickets_remaining (proc_list s' ! p))) s"
    using sched_round_robin [of "{1, 2}" s ?A 0 "[2, 1]" 0 2] A by (simp add: top_level_def insert_commute)
qed

end
