(* ===== verification/Idt.thy ===== *)
theory Idt
  imports Sched
begin

text \<open>
  The interrupt descriptor table (\<open>drivers/irq/idt_setup.c\<close>): the gates for interrupts 0--51 get the
  addresses of the service routines. The routines and the table itself are assembly code: their
  addresses are arguments, the table is a variable of the state.
\<close>

section \<open>Definitions\<close>

abbreviation (input) "INTERRUPT_COUNT \<equiv> (52 :: nat)"

record interrupt_descriptor_t =
  offset_low :: u16
  selector :: u16
  unused :: u8
  flags :: u8
  offset_high :: u16

record idt_state = sched_state +
  idt_start :: "interrupt_descriptor_t list"

text \<open>The \<open>switch\<close>: one case for each of the routines \<open>isr_0\<close> to \<open>isr_51\<close>.\<close>

definition isr_addr :: "(nat \<Rightarrow> u32) \<Rightarrow> nat \<Rightarrow> u32 option" where
  "isr_addr isr i = (if i \<le> 51 then Some (isr i) else None)"

definition upd_gate :: "nat \<Rightarrow> (interrupt_descriptor_t \<Rightarrow> interrupt_descriptor_t) \<Rightarrow> 'z idt_state_scheme \<Rightarrow> 'z idt_state_scheme" where
  "upd_gate i f s = s\<lparr>idt_start := (idt_start s)[i := f (idt_start s ! i)]\<rparr>"

definition setup_gate :: "(nat \<Rightarrow> u32) \<Rightarrow> nat \<Rightarrow> ('z idt_state_scheme, unit) kM" where
  "setup_gate isr i = (case isr_addr isr i of
      None \<Rightarrow> panic ''Improperly configured IDT Table!!''
    | Some addr \<Rightarrow>
        kseq (printf (cstr ''ISR %d function location: %x\<newline>'') [ArgInt (of_nat i), ArgInt addr])
       (kseq (kmod (upd_gate i (\<lambda>g. g\<lparr>offset_high := ucast (drop_bit 16 addr AND 0xFFFF)\<rparr>)))
       (kseq (kmod (upd_gate i (\<lambda>g. g\<lparr>offset_low := ucast (addr AND 0xFFFF)\<rparr>)))
       (kbind (kget (\<lambda>s. idt_start s ! i)) (\<lambda>g.
        printf (cstr ''Interrupt %d: Offset High/Low: %x %x | Selector: %x | Flags: %x \<newline>'')
          [ArgInt (of_nat i), ArgInt (ucast (offset_high g)), ArgInt (ucast (offset_low g)),
           ArgInt (ucast (selector g)), ArgInt (ucast (flags g))])))))"

definition setup_idt :: "u32 \<Rightarrow> (nat \<Rightarrow> u32) \<Rightarrow> ('z idt_state_scheme, unit) kM" where
  "setup_idt idt_info isr =
     kseq (printf (cstr ''IDT Info %x!\<newline>'') [ArgInt idt_info])
          (kfor [0..<INTERRUPT_COUNT] (setup_gate isr))"

section \<open>Gates\<close>

text \<open>The entry point the processor reads out of a gate.\<close>

definition gate_offset :: "interrupt_descriptor_t \<Rightarrow> u32" where
  "gate_offset g = push_bit 16 (ucast (offset_high g)) OR ucast (offset_low g)"

definition gate_set :: "u32 \<Rightarrow> interrupt_descriptor_t \<Rightarrow> interrupt_descriptor_t" where
  "gate_set addr g = g\<lparr>offset_high := ucast (drop_bit 16 addr AND 0xFFFF), offset_low := ucast (addr AND 0xFFFF)\<rparr>"

lemma gate_offset_set: "gate_offset (gate_set addr g) = addr"
proof -
  have m: "(0xFFFF :: u32) = mask 16" by (simp add: mask_eq_exp_minus_1)
  have "bit (gate_offset (gate_set addr g)) n = bit addr n" if "n < 32" for n
    using that unfolding gate_offset_def gate_set_def m by (cases "n < 16") (auto simp: bit_simps)
  then show ?thesis by (intro bit_word_eqI) simp
qed

lemma gate_set_other [simp]: "selector (gate_set addr g) = selector g" "flags (gate_set addr g) = flags g"
  by (simp_all add: gate_set_def)

lemma idt_start_frame [simp]: "console_frame s s' \<Longrightarrow> idt_start s' = idt_start s"
  unfolding console_frame_def by auto

lemma console_idt [simp]: "console_ok (s\<lparr>idt_start := x\<rparr>) = console_ok s"
  by (rule stdio_cong) (simp add: stdio_state.truncate_def)

lemma wp_setup_gate:
  assumes "console_ok s" "i < length (idt_start s)" "i < 52"
    and Q: "\<And>s'. console_ok s' \<Longrightarrow> idt_start s' = (idt_start s)[i := gate_set (isr i) (idt_start s ! i)] \<Longrightarrow> Q () s'"
  shows "wp (setup_gate isr i) Q s"
proof -
  have "isr_addr isr i = Some (isr i)" using assms(3) by (simp add: isr_addr_def)
  then show ?thesis
    unfolding setup_gate_def
    apply (simp only: option.case wp_kseq)
    apply (rule wp_printf_frame [OF assms(1)], simp)
    subgoal premises f for t
    proof -
      let ?u = "t\<lparr>idt_start := (idt_start s)[i := gate_set (isr i) (idt_start s ! i)]\<rparr>"
      have con: "console_ok ?u" using console_ok_frame [OF assms(1)] f by simp
      have u: "upd_gate i (\<lambda>g. g\<lparr>offset_low := ucast (isr i AND 0xFFFF)\<rparr>)
          (upd_gate i (\<lambda>g. g\<lparr>offset_high := ucast (drop_bit 16 (isr i) AND 0xFFFF)\<rparr>) t) = ?u"
        using f assms(2) by (simp add: upd_gate_def gate_set_def)
      show ?thesis
        unfolding wp_kmod u wp_kbind wp_kget
        by (rule wp_printf_frame [OF con]) (use Q console_ok_frame [OF con] in simp_all)
    qed
    done
qed

section \<open>Properties\<close>

text \<open>C25: \<open>_setup_idt\<close> makes each of the 52 gates point to its service routine and leaves the segment
  selectors and the flags as they were.\<close>

theorem setup_idt_gates:
  assumes "console_ok s" "length (idt_start s) = 52"
  shows "wp (setup_idt idt_info isr) (\<lambda>_ s'. console_ok s' \<and> length (idt_start s') = 52
    \<and> (\<forall>i < 52. gate_offset (idt_start s' ! i) = isr i \<and> selector (idt_start s' ! i) = selector (idt_start s ! i)
        \<and> flags (idt_start s' ! i) = flags (idt_start s ! i))) s"
proof -
  define I where "I n s' \<longleftrightarrow> console_ok s' \<and> length (idt_start s') = 52
    \<and> (\<forall>i < 52. idt_start s' ! i = (if i < n then gate_set (isr i) (idt_start s ! i) else idt_start s ! i))"
    for n and s' :: "'a idt_state_scheme"
  have "wp (kfor [0..<52] (setup_gate isr)) (\<lambda>_. I 52) t" if t: "console_frame s t" for t
  proof (rule wp_kfor_upt)
    show "I 0 t" using console_ok_frame [OF assms(1) t] t assms(2) by (simp add: I_def)
    fix i u
    assume i: "i < (52 :: nat)" and u: "I i u"
    then show "wp (setup_gate isr i) (\<lambda>_. I (Suc i)) u"
      by (intro wp_setup_gate) (auto simp: I_def nth_list_update less_Suc_eq)
  qed simp
  then have "wp (setup_idt idt_info isr) (\<lambda>_. I 52) s"
    unfolding setup_idt_def wp_kseq by (intro wp_printf_frame [OF assms(1)]) simp_all
  then show ?thesis by (rule wp_mono) (simp add: I_def gate_offset_set)
qed

definition blank_gate :: interrupt_descriptor_t where
  "blank_gate = \<lparr>offset_low = 0xDEAD, selector = 8, unused = 0, flags = 0xEE, offset_high = 0xDEAD\<rparr>"

definition idt_machine :: idt_state where
  "idt_machine = sched_state.extend sched_machine \<lparr>idt_start = replicate 52 blank_gate\<rparr>"

lemma idt_machine_console: "console_ok idt_machine"
proof -
  have "console_ok sched_machine" using sched_machine_rel by (simp add: sched_rel_def)
  moreover have "console_ok idt_machine = console_ok sched_machine"
    by (rule stdio_cong) (simp add: stdio_state.truncate_def idt_machine_def sched_state.extend_def)
  ultimately show ?thesis by simp
qed

theorem setup_idt_gates_witness:
  "wp (setup_idt 0x1000 (\<lambda>i. 0x123450 + of_nat i)) (\<lambda>_ s'. console_ok s' \<and> length (idt_start s') = 52
    \<and> (\<forall>i < 52. gate_offset (idt_start s' ! i) = 0x123450 + of_nat i \<and> selector (idt_start s' ! i) = selector (idt_start idt_machine ! i)
        \<and> flags (idt_start s' ! i) = flags (idt_start idt_machine ! i))) idt_machine"
  by (rule setup_idt_gates [OF idt_machine_console]) (simp add: idt_machine_def sched_state.extend_def)

end
