(* ===== verification/Tss.thy ===== *)
theory Tss
  imports Idt
begin

text \<open>
  The task state segment (\<open>drivers/tss/tss.c\<close>) and the system call entry
  (\<open>drivers/syscall/syscall.c\<close>). The addresses of the variables and the assembly routine that loads
  the task register are arguments. The segment's fields carry the prefix \<open>tss_\<close>.
\<close>

section \<open>Definitions\<close>

record tss_entry =
  tss_prevTss :: u32
  tss_esp0 :: u32
  tss_ss0 :: u32
  tss_esp1 :: u32
  tss_ss1 :: u32
  tss_esp2 :: u32
  tss_ss2 :: u32
  tss_cr3 :: u32
  tss_eip :: u32
  tss_eflags :: u32
  tss_eax :: u32
  tss_ecx :: u32
  tss_edx :: u32
  tss_ebx :: u32
  tss_esp :: u32
  tss_ebp :: u32
  tss_esi :: u32
  tss_edi :: u32
  tss_es :: u32
  tss_cs :: u32
  tss_ss :: u32
  tss_ds :: u32
  tss_fs :: u32
  tss_gs :: u32
  tss_ldt :: u32
  tss_trap :: u16
  tss_iomap :: u16

abbreviation (input) "sizeof_tss_entry \<equiv> (104 :: u16)"

record gdt_entry_tss =
  limit :: u16
  base_0 :: u16
  base_16_23 :: u8
  access_byte :: u8
  limit_and_flags :: u8
  base_24_31 :: u8

record tss_state = idt_state +
  TSS :: tss_entry
  gdt_tss :: gdt_entry_tss
  task_register :: u16

definition zero_tss :: tss_entry where
  "zero_tss = \<lparr>tss_prevTss = 0, tss_esp0 = 0, tss_ss0 = 0, tss_esp1 = 0, tss_ss1 = 0, tss_esp2 = 0, tss_ss2 = 0,
     tss_cr3 = 0, tss_eip = 0, tss_eflags = 0, tss_eax = 0, tss_ecx = 0, tss_edx = 0, tss_ebx = 0,
     tss_esp = 0, tss_ebp = 0, tss_esi = 0, tss_edi = 0, tss_es = 0, tss_cs = 0, tss_ss = 0,
     tss_ds = 0, tss_fs = 0, tss_gs = 0, tss_ldt = 0, tss_trap = 0, tss_iomap = 0\<rparr>"

text \<open>The descriptor of a segment of the given size at the given address.\<close>

definition tss_descriptor :: "u32 \<Rightarrow> u16 \<Rightarrow> gdt_entry_tss" where
  "tss_descriptor entryAddrBig entrySize =
     \<lparr>limit = entrySize, base_0 = ucast (entryAddrBig AND 0xFFFF),
      base_16_23 = ucast (drop_bit 16 entryAddrBig AND 0xFF), access_byte = 0x89, limit_and_flags = 0x40,
      base_24_31 = ucast (drop_bit 24 entryAddrBig AND 0xFF)\<rparr>"

text \<open>The assembly routine that loads the selector of the descriptor.\<close>

definition tss_flush :: "('z tss_state_scheme, unit) kM" where
  "tss_flush = kmod (\<lambda>s. s\<lparr>task_register := 0x28\<rparr>)"

definition load_tss :: "u32 \<Rightarrow> u32 \<Rightarrow> u32 \<Rightarrow> ('z tss_state_scheme, unit) kM" where
  "load_tss TSS_addr local_addr gdt_tss_addr =
     (let entryAddrBig = TSS_addr in
      kseq (printf (cstr ''TSS Address: %x\<newline>'') [ArgInt local_addr])
     (kseq (printf (cstr ''GDT TSS Entry Location: %x\<newline>'') [ArgInt gdt_tss_addr])
     (kseq (kmod (\<lambda>s. s\<lparr>gdt_tss := tss_descriptor entryAddrBig sizeof_tss_entry\<rparr>))
     (kbind (kget gdt_tss) (\<lambda>g.
      kseq (printf (cstr ''New GDT TSS Entry Values: %x | %x\<newline>'') [ArgInt (ucast (limit g)), ArgInt (ucast (base_16_23 g))])
     (kseq (kmod (\<lambda>s. s\<lparr>TSS := zero_tss\<rparr>))
     (kseq (kmod (\<lambda>s. s\<lparr>TSS := (TSS s)\<lparr>tss_ss0 := 0x10, tss_esp0 := 0, tss_cs := 0x0b, tss_ss := 0x13, tss_es := 0x13,
                tss_ds := 0x13, tss_fs := 0x13, tss_gs := 0x13\<rparr>\<rparr>))
           tss_flush)))))))"

definition set_kernel_stack :: "u32 \<Rightarrow> ('z tss_state_scheme, unit) kM" where
  "set_kernel_stack stack_addr = kmod (\<lambda>s. s\<lparr>TSS := (TSS s)\<lparr>tss_esp0 := stack_addr\<rparr>\<rparr>)"

text \<open>System calls are accepted and ignored.\<close>

definition syscall_handler :: "u32 \<Rightarrow> u32 \<Rightarrow> u32 \<Rightarrow> u32 \<Rightarrow> ('s, unit) kM" where
  "syscall_handler r_eax r_ebx r_ecx r_edx = kret ()"

section \<open>The descriptor\<close>

text \<open>The base address the processor reads out of a descriptor.\<close>

definition descriptor_base :: "gdt_entry_tss \<Rightarrow> u32" where
  "descriptor_base g = push_bit 24 (ucast (base_24_31 g)) OR push_bit 16 (ucast (base_16_23 g)) OR ucast (base_0 g)"

lemma tss_descriptor_base: "descriptor_base (tss_descriptor a n) = a"
proof -
  have m: "(0xFFFF :: u32) = mask 16" "(0xFF :: u32) = mask 8" by (simp_all add: mask_eq_exp_minus_1)
  have "bit (descriptor_base (tss_descriptor a n)) k = bit a k" if "k < 32" for k
    using that unfolding descriptor_base_def tss_descriptor_def m
    by (cases "k < 16"; cases "k < 24") (auto simp: bit_simps)
  then show ?thesis by (intro bit_word_eqI) simp
qed

lemma console_tss [simp]: "console_ok (s\<lparr>TSS := x\<rparr>) = console_ok s" "console_ok (s\<lparr>gdt_tss := y\<rparr>) = console_ok s"
  "console_ok (s\<lparr>task_register := z\<rparr>) = console_ok s"
  by (rule stdio_cong; simp add: stdio_state.truncate_def)+

lemma tss_frame: "console_frame s s' \<Longrightarrow> gdt_tss s' = gdt_tss s \<and> TSS s' = TSS s"
  unfolding console_frame_def by auto

section \<open>Properties\<close>

text \<open>\<open>load_tss\<close> and then \<open>set_kernel_stack\<close>: the descriptor in the global table is a present, available
  32-bit task segment that lies at the address of the \<open>TSS\<close> variable. Its limit is the size of the
  variable, 104, where a limit is the size minus one. The segment names the kernel's stack segment
  and the given kernel stack for entries from user code. The task register selects the descriptor,
  entry 5 of the table, with the selector 0x28 that \<open>tss_flush\<close> loads.\<close>

theorem load_tss_installs:
  assumes "console_ok s"
  shows "wp (kseq (load_tss TSS_addr local_addr gdt_tss_addr) (set_kernel_stack stack_addr)) (\<lambda>_ s'. console_ok s'
    \<and> descriptor_base (gdt_tss s') = TSS_addr \<and> limit (gdt_tss s') = 104 \<and> access_byte (gdt_tss s') = 0x89 \<and> task_register s' = 0x28
    \<and> tss_ss0 (TSS s') = 0x10 \<and> tss_esp0 (TSS s') = stack_addr
    \<and> TSS s' = zero_tss\<lparr>tss_ss0 := 0x10, tss_esp0 := stack_addr, tss_cs := 0x0b, tss_ss := 0x13, tss_es := 0x13,
         tss_ds := 0x13, tss_fs := 0x13, tss_gs := 0x13\<rparr>) s"
  unfolding load_tss_def Let_def wp_kseq
  apply (rule wp_printf_frame [OF assms], simp)
  subgoal premises f1 for s1
    apply (rule wp_printf_frame [OF console_ok_frame [OF assms f1]], simp)
    subgoal premises f2 for s2
      unfolding wp_kmod wp_kbind wp_kget wp_kseq
      apply (rule wp_printf_frame)
      subgoal using console_ok_frame [OF console_ok_frame [OF assms f1] f2] by simp
      subgoal by simp
      subgoal premises f3 for s3
        using tss_frame [OF f3] console_ok_frame [OF console_ok_frame [OF assms f1] f2] console_ok_frame [OF _ f3]
        by (simp add: tss_flush_def set_kernel_stack_def tss_descriptor_base) (simp add: tss_descriptor_def)
      done
    done
  done

definition tss_machine :: tss_state where
  "tss_machine = idt_state.extend idt_machine \<lparr>TSS = zero_tss, gdt_tss = tss_descriptor 0 0, task_register = 0\<rparr>"

lemma tss_machine_console: "console_ok tss_machine"
proof -
  have "console_ok tss_machine = console_ok idt_machine"
    by (rule stdio_cong) (simp add: stdio_state.truncate_def tss_machine_def idt_state.extend_def)
  then show ?thesis using idt_machine_console by simp
qed

theorem load_tss_installs_witness:
  "wp (kseq (load_tss 0x109ABC 0x10F000 0x1080) (set_kernel_stack 0x200000)) (\<lambda>_ s'. console_ok s'
    \<and> descriptor_base (gdt_tss s') = 0x109ABC \<and> limit (gdt_tss s') = 104 \<and> access_byte (gdt_tss s') = 0x89 \<and> task_register s' = 0x28
    \<and> tss_ss0 (TSS s') = 0x10 \<and> tss_esp0 (TSS s') = 0x200000
    \<and> TSS s' = zero_tss\<lparr>tss_ss0 := 0x10, tss_esp0 := 0x200000, tss_cs := 0x0b, tss_ss := 0x13, tss_es := 0x13,
         tss_ds := 0x13, tss_fs := 0x13, tss_gs := 0x13\<rparr>) tss_machine"
  by (rule load_tss_installs [OF tss_machine_console])

end
