(* ===== verification/Fs.thy ===== *)
theory Fs
  imports Fat16_Files
begin

text \<open>
  The file system layer (\<open>fs/fs.c\<close>) the shell and the process loader use, and reading a file
  straight into memory.
\<close>

section \<open>Definitions\<close>

definition fs_list_files :: "('z fat16_state_scheme, u32) kM" where
  "fs_list_files = kseq ramdisk_fat16_list_info (kret 0)"

definition fs_file_write :: "bytes \<Rightarrow> buffer \<Rightarrow> u32 \<Rightarrow> ('z fat16_state_scheme, u32) kM" where
  "fs_file_write file_name data data_size = ramdisk_fat16_file_write file_name data data_size"

definition fs_file_exists :: "bytes \<Rightarrow> ('z fat16_state_scheme, u32) kM" where
  "fs_file_exists file_name = ramdisk_fat16_file_exists file_name"

definition fs_file_read :: "bytes \<Rightarrow> buffer \<Rightarrow> u16 \<Rightarrow> ('z fat16_state_scheme, u32 \<times> buffer) kM" where
  "fs_file_read file_name sector_buffer sector_index = ramdisk_fat16_file_read file_name sector_buffer sector_index"

definition test_program :: bytes where
  "test_program = [0x66, 0xbf, 0x1c, 0x00, 0x00, 0x00, 0x66, 0xb8, 0x01, 0x00, 0x00, 0x00, 0xcd, 0x33,
     0x66, 0xbf, 0x00, 0x00, 0x00, 0x00, 0x66, 0xb8, 0x02, 0x00, 0x00, 0x00, 0xcd, 0x33,
     0x48, 0x65, 0x6c, 0x6c, 0x6f, 0x20, 0x66, 0x72, 0x6f, 0x6d, 0x20, 0x74, 0x65, 0x73, 0x74, 0x20,
     0x70, 0x72, 0x6f, 0x67, 0x72, 0x61, 0x6d, 0x21, 0x0a, 0x00]"

definition fs_load_starting_files :: "('z fat16_state_scheme, u32) kM" where
  "fs_load_starting_files =
     kbind (ramdisk_fat16_file_write (cstr ''test.bin'' @ [0]) (Local test_program) (of_nat (length test_program))) (\<lambda>res.
     kseq (if res \<noteq> 0 then panic ''Failed to write starting file test.bin!'' else kret ())
    (kseq (printf (cstr ''Loaded starting files to disk!\<newline>'') [])
          (kret 0)))"

section \<open>Reading into memory\<close>

text \<open>Writing in a page in use that is neither the disk's nor a stream buffer's.\<close>

definition private_page :: "u32 \<Rightarrow> 'z fat16_state_scheme \<Rightarrow> bool" where
  "private_page p s \<longleftrightarrow> p \<in> used_pages s \<and> p \<notin> disk_pages s
     \<and> (\<forall>i. is_init (std_buf i s) \<longrightarrow> b_addr (std_buf i s) \<noteq> p)"

lemma console_frame_bufs:
  assumes "console_frame s t"
  shows "b_addr (std_buf i t) = b_addr (std_buf i s)" "is_init (std_buf i t) = is_init (std_buf i s)"
proof -
  obtain v l m b where "t = s\<lparr>vidmem := v, io_log := l, mem := m, std_output_buf := b\<rparr>"
    using assms by (auto simp: console_frame_def)
  then have "std_input_buf t = std_input_buf s" by simp
  then show "b_addr (std_buf i t) = b_addr (std_buf i s)" "is_init (std_buf i t) = is_init (std_buf i s)"
    using console_frameD(3,4) [OF assms] by (cases i; simp)+
qed

lemma private_page_aligned: "fat16_ok s \<Longrightarrow> private_page p s \<Longrightarrow> 4096 dvd unat p"
  using pm.pages_aligned [of s p] pm.used_pages [of s] ramdisk_okD(1) [of s] fat16_okD(1) [of s]
  by (auto simp: private_page_def)

lemma private_write:
  assumes "fat16_ok s" "private_page p s" "\<And>a. page_of a \<noteq> p \<Longrightarrow> m a = mem s a"
  shows "fat16_ok (s\<lparr>mem := m\<rparr>)" "disk (s\<lparr>mem := m\<rparr>) = disk s" "private_page p (s\<lparr>mem := m\<rparr>)"
    "disk_table (s\<lparr>mem := m\<rparr>) = disk_table s" "used_pages (s\<lparr>mem := m\<rparr>) = used_pages s" "pmem_pages (s\<lparr>mem := m\<rparr>) = pmem_pages s"
    "stream i (s\<lparr>mem := m\<rparr>) = stream i s"
proof -
  note d = fat16_okD [OF assms(1)]
  have p: "p \<in> used_pages s" "p \<notin> disk_pages s" "\<And>i. is_init (std_buf i s) \<Longrightarrow> b_addr (std_buf i s) \<noteq> p"
    using assms(2) by (auto simp: private_page_def)
  have "p \<in> pmem_pages s" using p(1) pm.used_pages [OF ramdisk_okD(1) [OF d(1)]] by blast
  then have out: "m a = mem s a" if "page_of a \<notin> pmem_pages s" for a using assms(3) that by metis
  have dk: "m a = mem s a" if "page_of a \<in> disk_pages s" for a using assms(3) that p(2) by metis
  have dp: "m a = mem s a" if "page_of a = ramdisk_block_pointers s" for a using dk that by (simp add: disk_pages_def)
  note f = ramdisk_write_frame [OF d(1), of m, OF out dp]
  show disk: "disk (s\<lparr>mem := m\<rparr>) = disk s" using disk_write_frame [OF d(1), of m] out dk by blast
  have bf: "m a = mem s a" if "is_init (std_buf i s)" "page_of a = b_addr (std_buf i s)" for i a
    using assms(3) that p(3) by metis
  have st: "stdio_ok (s\<lparr>mem := m\<rparr>)" "\<And>i. stream i (s\<lparr>mem := m\<rparr>) = stream i s"
    using stdio_write_frame [OF d(2), of m] out bf by blast+
  show "fat16_ok (s\<lparr>mem := m\<rparr>)"
    using f st(1) d assms(1) disk by (simp add: fat16_ok_def)
  show "private_page p (s\<lparr>mem := m\<rparr>)" using p f by (simp add: private_page_def)
  show "disk_table (s\<lparr>mem := m\<rparr>) = disk_table s" "used_pages (s\<lparr>mem := m\<rparr>) = used_pages s" "pmem_pages (s\<lparr>mem := m\<rparr>) = pmem_pages s"
    "stream i (s\<lparr>mem := m\<rparr>) = stream i s" using f st(2) by simp_all
qed

lemma io_loop_append:
  "ramdisk_io_loop t start (xs @ ys) data s = kbind (ramdisk_io_loop t start xs data) (\<lambda>d. ramdisk_io_loop t start ys d) s"
  by (induction xs arbitrary: data s) (auto simp: kernel_defs split: outcome.splits)

lemma read_into_page:
  assumes "fat16_ok s" "private_page p s" "unat start + n \<le> length (disk s)" "n \<le> 4096"
  obtains m where "ramdisk_io_loop 0 start [0..<n] (Mem p) s = Ok (Mem p) (s\<lparr>mem := m\<rparr>)"
    "\<And>i. i < n \<Longrightarrow> m (p + of_nat i) = disk s ! (unat start + i)" "\<And>a. page_of a \<noteq> p \<Longrightarrow> m a = mem s a"
  using assms(3,4)
proof (induction n arbitrary: thesis)
  case 0
  show ?case by (rule 0(1) [of "mem s"]) (simp_all add: kret_def)
next
  case (Suc n)
  obtain m where m: "ramdisk_io_loop 0 start [0..<n] (Mem p) s = Ok (Mem p) (s\<lparr>mem := m\<rparr>)"
    "\<And>i. i < n \<Longrightarrow> m (p + of_nat i) = disk s ! (unat start + i)" "\<And>a. page_of a \<noteq> p \<Longrightarrow> m a = mem s a"
    using Suc.IH [OF _ _] Suc.prems by (metis Suc_leD add_Suc_right)
  let ?t = "s\<lparr>mem := m\<rparr>"
  have al: "4096 dvd unat p" by (rule private_page_aligned [OF assms(1,2)])
  note w = private_write [OF assms(1,2) m(3)]
  have b: "unat start + n < 4096 * disk_blocks ?t"
    using Suc.prems(2) w(2) length_disk [of s] length_disk [of ?t] by simp
  have byte: "mem ?t (disk_addr ?t (unat start + n)) = disk s ! (unat start + n)"
    using b w(2) nth_map [of "unat start + n" "[0..<4096 * disk_blocks ?t]" "\<lambda>k. mem ?t (disk_addr ?t k)"]
    by (simp add: disk_def)
  let ?m = "m(p + of_nat n := disk s ! (unat start + n))"
  have step: "ramdisk_io_byte 0 start n (Mem p) ?t = Ok (Mem p) (s\<lparr>mem := ?m\<rparr>)"
    using ramdisk_io_addr [OF fat16_okD(1) [OF w(1)] b] byte by (simp add: ramdisk_io_byte_def kernel_defs Let_def)
  show ?case
  proof (rule Suc.prems(1) [of ?m])
    show "ramdisk_io_loop 0 start [0..<Suc n] (Mem p) s = Ok (Mem p) (s\<lparr>mem := ?m\<rparr>)"
      using m(1) step by (simp add: io_loop_append kbind_def) (simp add: kernel_defs)
    show "?m (p + of_nat i) = disk s ! (unat start + i)" if "i < Suc n" for i
    proof (cases "i = n")
      case False
      then have "(of_nat i :: u32) \<noteq> of_nat n" using of_nat_u32_eq_iff [of i n] that Suc.prems(3) by simp
      then show ?thesis using False m(2) that by simp
    qed simp
    show "?m a = mem s a" if "page_of a \<noteq> p" for a
      using m(3) [OF that] that page_offset(2) [OF al, of n] Suc.prems(3) by auto
  qed
qed

lemma wp_read_into_page:
  assumes "fat16_ok s" "private_page p s" "unat start + unat n \<le> length (disk s)" "unat n \<le> 4096"
    and "\<And>m. (\<And>i. i < unat n \<Longrightarrow> m (p + of_nat i) = disk s ! (unat start + i)) \<Longrightarrow> (\<And>a. page_of a \<noteq> p \<Longrightarrow> m a = mem s a) \<Longrightarrow>
      Q (0, Mem p) (s\<lparr>mem := m\<rparr>)"
  shows "wp (ramdisk_read start (Mem p) n) Q s"
proof -
  obtain m where m: "ramdisk_io_loop 0 start [0..<unat n] (Mem p) s = Ok (Mem p) (s\<lparr>mem := m\<rparr>)"
    "\<And>i. i < unat n \<Longrightarrow> m (p + of_nat i) = disk s ! (unat start + i)" "\<And>a. page_of a \<noteq> p \<Longrightarrow> m a = mem s a"
    using read_into_page [OF assms(1-4)] by blast
  have "ramdisk_read start (Mem p) n s = Ok (0, Mem p) (s\<lparr>mem := m\<rparr>)"
    using in_bounds [OF fat16_okD(1) [OF assms(1)], of start n] assms(3) m(1)
    by (simp add: ramdisk_read_def ramdisk_internal_io_def kernel_defs)
  then show ?thesis by (rule wpI, intro assms(5)) (rule m(2,3), assumption)+
qed

text \<open>Reading a file into a private page: its first cluster arrives at the start of the page, and
  nothing changes but that page and the console.\<close>

lemma wp_file_read_page:
  assumes "fat16_ok s" "private_page p s" "first_or_zero (root_match f (disk s)) [1..<32] = e" "e \<noteq> 0"
    and c: "entry_low_cluster_number (entry_of_bytes (root_bytes (disk s) e)) = of_nat c" "c < 415"
    and Q: "\<And>t m. fat16_ok t \<Longrightarrow> console_frame s t \<Longrightarrow> (\<And>i. i < 512 \<Longrightarrow> m (p + of_nat i) = cluster_data (disk s) c ! i) \<Longrightarrow>
      (\<And>a. page_of a \<noteq> p \<Longrightarrow> m a = mem t a) \<Longrightarrow> private_page p t \<Longrightarrow> Q (0, Mem p) (t\<lparr>mem := m\<rparr>)"
  shows "wp (fs_file_read f (Mem p) 0) Q s"
proof -
  have e32: "e < 32" using first_or_zero_range [of "root_match f (disk s)" "[1..<32]"] assms(3) by auto
  have e0: "(of_nat e :: u32) \<noteq> 0" "unat (of_nat e :: u32) = e"
    using of_nat_u32_eq_iff [of e 0] e32 assms(4) by (simp_all add: word_facts)
  have a: "unat ((FIRST_DATA_SECTOR + ucast (of_nat c :: u16)) * 512) = 512 * (97 + c)"
    using c(2) unat_ucast_small [of c] by (simp add: word_facts)
  note d = fat16_okD [OF assms(1)]
  show ?thesis
    unfolding fs_file_read_def ramdisk_fat16_file_read_def Let_def wp_kbind
    apply (rule wp_file_exists [OF assms(1)])
    unfolding assms(3)
    apply (simp only: e0 if_False wp_kbind wp_kget)
    apply (rule wpI, rule read_root [OF assms(1) e32 length_raw_entry])
    apply (simp only: prod.case local_bytes.simps c(1) wp_kbind wp_kget wp_kseq read_sector_def)
    apply (rule wp_printf_frame [OF d(4)], simp)
    subgoal premises t for t
    proof -
      note f = fs_print_frame [OF assms(1) t] and cf = console_frameD [OF t]
      have "disk_table t = disk_table s" "ramdisk_block_pointers t = ramdisk_block_pointers s"
        using f(2) by (auto simp: fs_same_def)
      then have priv: "private_page p t"
        using assms(2) cf(7) console_frame_bufs [OF t] by (simp add: private_page_def disk_pages_def)
      have len: "512 * (97 + c) + 512 \<le> length (disk t)" using f(3) d(5) c(2) by simp
      show ?thesis
      proof (rule wp_read_into_page [OF f(1) priv])
        show "unat ((FIRST_DATA_SECTOR + ucast (of_nat c :: u16)) * 512) + unat (512 :: u32) \<le> length (disk t)" unfolding a using len by simp
        fix m
        assume m: "\<And>i. i < unat (512 :: u32) \<Longrightarrow> m (p + of_nat i) = disk t ! (unat ((FIRST_DATA_SECTOR + ucast (of_nat c :: u16)) * 512) + i)"
          "\<And>a. page_of a \<noteq> p \<Longrightarrow> m a = mem t a"
        have "m (p + of_nat i) = cluster_data (disk s) c ! i" if "i < 512" for i
          using m(1) [of i] that nth_slice [OF len that] unfolding a f(3) cluster_data_def by simp
        then have "Q (0, Mem p) (t\<lparr>mem := m\<rparr>)" by (rule Q [OF f(1) t _ m(2) priv])
        then show "wp (case (0, Mem p) of (_, sector_buffer) \<Rightarrow> if (0 :: u16) \<noteq> 0 then kret (5, sector_buffer) else kret (0, sector_buffer)) Q (t\<lparr>mem := m\<rparr>)"
          by simp
      qed simp
    qed
    done
qed

section \<open>States that agree on the file system\<close>

lemma fat16_truncate:
  "disk_table (fat16_state.truncate s) = disk_table s" "disk_pages (fat16_state.truncate s) = disk_pages s"
  "ramdisk_ok (fat16_state.truncate s) = ramdisk_ok s" "disk (fat16_state.truncate s) = disk s"
  "fat16_ok (fat16_state.truncate s) = fat16_ok s" "private_page p (fat16_state.truncate s) = private_page p s"
proof -
  let ?t = "fat16_state.truncate s"
  note t = fat16_state.truncate_def
  have "stdio_state.truncate ?t = stdio_state.truncate s" by (simp add: t stdio_state.truncate_def)
  note c = stdio_cong [OF this]
  show tb: "disk_table ?t = disk_table s" by (simp add: disk_table_def disk_blocks_def) (simp add: t)
  show pg: "disk_pages ?t = disk_pages s" unfolding disk_pages_def tb by (simp add: t)
  have bl: "disk_blocks ?t = disk_blocks s" "mem ?t = mem s" by (simp_all add: disk_blocks_def t)
  show rd: "ramdisk_ok ?t = ramdisk_ok s" unfolding ramdisk_ok_def tb pg bl c by (simp add: t)
  show dk: "disk ?t = disk s" unfolding disk_def disk_addr_def tb bl ..
  show "fat16_ok ?t = fat16_ok s" unfolding fat16_ok_def rd dk pg c by (simp add: t)
  show "private_page p ?t = private_page p s" unfolding private_page_def pg c ..
qed

lemma fat16_cong:
  assumes "fat16_state.truncate s = fat16_state.truncate s'"
  shows "fat16_ok s = fat16_ok s'" "disk s = disk s'" "private_page p s = private_page p s'"
    "disk_table s = disk_table s'" "disk_pages s = disk_pages s'"
  by (simp_all only: fat16_truncate [where s = s, symmetric] assms, simp_all only: fat16_truncate)

end
