(* ===== verification/Exec.thy ===== *)
theory Exec
  imports Sched Fs
begin

text \<open>
  Starting a program (\<open>process_execve\<close> of \<open>drivers/process/process.c\<close>): the process table, the page
  allocator, the file system and the scheduler work together. The \<open>argv\<close> and \<open>envp\<close> parameters,
  which the function does not use, are left out.
\<close>

section \<open>Definitions\<close>

definition process_execve :: "bytes \<Rightarrow> ('z sched_state_scheme, u32) kM" where
  "process_execve file_name =
     kseq (printf (cstr ''Loading process %s \<newline>'') [ArgStr file_name])
    (kbind (fs_file_exists file_name) (\<lambda>exists.
     if exists = 0 then
       kseq (printf (cstr ''Error! Program %s not found!\<newline>'') [ArgStr file_name]) (kret 0)
     else
       kbind process_get_next_free_pid (\<lambda>pid.
       if pid \<le> 0 then
         kseq (printf (cstr ''No free processes available!\<newline>'') [ArgStr file_name]) (kret 0)
       else
         kseq (process_init_process file_name (nat pid))
        (kbind (kget (\<lambda>s. process_memory_start (processes s ! nat pid))) (\<lambda>start.
         if start = 0 then
           kseq (printf (cstr ''Memory not allocated for process. Stopping.'') [])
          (kseq (upd_process (nat pid) (\<lambda>p. p\<lparr>p_state := UNUSED\<rparr>)) (kret 0))
         else
           kbind (fs_file_read file_name (Mem start) 0) (\<lambda>(res, _).
           kseq (if res \<noteq> 0 then
                   kseq (printf (cstr ''Failed to copy process to memory. Stopping'') [])
                        (upd_process (nat pid) (\<lambda>p. p\<lparr>p_state := UNUSED\<rparr>))
                 else kret ())
          (kseq (printf (cstr ''Loaded process %s to memory with pid %d\<newline>'') [ArgStr file_name, ArgInt (of_int pid)])
          (kseq (upd_process (nat pid) (\<lambda>p. p\<lparr>p_state := RUNNABLE\<rparr>))
          (kseq (sched_addpid pid) (kret 1))))))))))"

section \<open>Taking a page beside the file system\<close>

lemma fat16_took:
  assumes "took P s s'" "fat16_ok s"
  shows "fat16_ok s'" "disk s' = disk s" "\<And>p. p \<in> P \<Longrightarrow> private_page p s'" "disk_pages s' = disk_pages s"
proof -
  note t = tookD [OF assms(1)] and d = fat16_okD [OF assms(2)] and st = took_stdio [OF assms(1) fat16_okD(2) [OF assms(2)]]
  note r = ramdisk_okD [OF d(1)]
  obtain c m where s': "s' = s\<lparr>pmem_curr_alloc_record := c, mem := m\<rparr>" using t(5) by (auto simp: pmem_same_def)
  have bl: "disk_blocks s' = disk_blocks s" "ramdisk_block_pointers s' = ramdisk_block_pointers s"
    by (simp_all add: s' disk_blocks_def)
  have tab: "disk_table s' = disk_table s"
    using table_cong [OF r(8,3), of "mem s'" "mem s"] t(6) r(4) by (simp add: disk_table_def bl)
  show pg: "disk_pages s' = disk_pages s" by (simp add: disk_pages_def tab bl)
  have sub: "disk_pages s \<subseteq> used_pages s" using d(1) by (simp add: ramdisk_ok_def)
  have "mem s' (disk_addr s k) = mem s (disk_addr s k)" if "k < 4096 * disk_blocks s" for k
    using disk_addr_page(2) [OF d(1) that] r(5) t(6) by blast
  then show dk: "disk s' = disk s" by (simp add: disk_def disk_addr_def tab bl)
  have "ramdisk_ok s'" using d(1) t(1,3) by (auto simp: ramdisk_ok_def pg bl tab)
  then show "fat16_ok s'"
    using assms(2) st st(3) [of StdOutput, simplified] by (auto simp: fat16_ok_def dk pg)
  show "private_page p s'" if "p \<in> P" for p
    using that t(3,4) sub buf_ok_ready(2) [OF d(2)] st(3) by (auto simp: private_page_def pg)
qed

section \<open>Fields that the lower layers leave alone\<close>

lemma above_files:
  fixes s s' :: "'z sched_state_scheme"
  assumes "fat16_state.more s' = fat16_state.more s"
  shows "processes s' = processes s" "mlfq_rel s' A = mlfq_rel s A"
proof -
  have *: "processes s' = processes s" "proc_list s' = proc_list s" "proc_priority_list s' = proc_priority_list s"
    "current_process s' = current_process s" using assms by (cases s; cases s'; simp)+
  then show "processes s' = processes s" "mlfq_rel s' A = mlfq_rel s A" by (simp_all add: mlfq_rel_def queues_rel_def)
qed

lemma above_frames: "fs_same s s' \<Longrightarrow> fat16_state.more s' = fat16_state.more s"
  "console_frame t t' \<Longrightarrow> fat16_state.more t' = fat16_state.more t" "took P u u' \<Longrightarrow> fat16_state.more u' = fat16_state.more u"
  by (auto simp: fs_same_def console_frame_def took_def pmem_same_def)

lemma process_fields [simp]:
  "fat16_ok (s\<lparr>processes := x\<rparr>) = fat16_ok s" "disk (s\<lparr>processes := x\<rparr>) = disk s"
  "private_page p (s\<lparr>processes := x\<rparr>) = private_page p s"
  "pmem_ok (s\<lparr>processes := x\<rparr>) = pmem_ok s" "pmem_pages (s\<lparr>processes := x\<rparr>) = pmem_pages s"
  "used_pages (s\<lparr>processes := x\<rparr>) = used_pages s" "console_ok (s\<lparr>processes := x\<rparr>) = console_ok s"
  by (rule fat16_cong stdio_cong; simp add: fat16_state.truncate_def stdio_state.truncate_def)+

lemma mlfq_rel_processes [simp]: "mlfq_rel (s\<lparr>processes := x\<rparr>) A = mlfq_rel s A"
  by (simp add: mlfq_rel_def queues_rel_def)

section \<open>A process record for a new program\<close>

definition named :: "bytes \<Rightarrow> process \<Rightarrow> process" where
  "named f p = set_name_and_pid (take 16 (c_string f) @ 0 # drop (Suc (min 16 (length (c_string f)))) (name_and_pid p)) p"

definition started :: "bytes \<Rightarrow> u32 \<Rightarrow> process \<Rightarrow> process" where
  "started f page p = (named f p)\<lparr>current_priority := 0, cpu_time_ms := 0, killed := 0, registers := zero_registers,
     process_memory_start := page, process_memory_size := PHYS_BLOCK_SIZE\<rparr>"

text \<open>A record whose memory field is clear can hold a new process.\<close>

definition slot_ready :: "nat \<Rightarrow> 'z processes_state_scheme \<Rightarrow> bool" where
  "slot_ready pid s \<longleftrightarrow> length (processes s) = 64 \<and> pid < 64 \<and> length (p_name (processes s ! pid)) = 16
     \<and> process_memory_start (processes s ! pid) = 0"

lemma wp_init_process:
  assumes "pmem_ok s" "slot_ready pid s" "0 \<in> set f" "2 \<le> card (pmem_pages s - used_pages s)"
    and Q: "\<And>page t. took {page} s t \<Longrightarrow> Q () (t\<lparr>processes := (processes s)[pid := started f page (processes s ! pid)]\<rparr>)"
  shows "wp (process_init_process f pid) Q s"
proof -
  let ?p = "processes s ! pid"
  have p: "length (processes s) = 64" "pid < 64" "length (p_name ?p) = 16" "process_memory_start ?p = 0"
    using assms(2) by (simp_all add: slot_ready_def)
  have "length (name_and_pid ?p) = 20" using p(3) by (simp add: name_and_pid_def)
  then have copy: "strcpy (name_and_pid ?p) f 16
      = Some (take 16 (c_string f) @ 0 # drop (Suc (min 16 (length (c_string f)))) (name_and_pid ?p))"
    using strcpy_eq [of 16 "name_and_pid ?p" f] assms(3) by simp
  let ?x = "(processes s)[pid := (named f ?p)\<lparr>current_priority := 0, cpu_time_ms := 0, killed := 0, registers := zero_registers\<rparr>]"
  have mem0: "process_memory_start (named f ?p) = 0" using p(4) by (simp add: named_def set_name_and_pid_def)
  have start: "wp (process_init_process f pid) Q s = wp pmem_alloc (\<lambda>page. wp (upd_process pid (\<lambda>p. p\<lparr>process_memory_start := page,
      process_memory_size := PHYS_BLOCK_SIZE\<rparr>)) Q) (s\<lparr>processes := ?x\<rparr>)"
    using p copy mem0 by (simp add: process_init_process_def upd_process_def named_def [symmetric])
  show ?thesis
    unfolding start
  proof (rule took_alloc)
    show "pmem_ok (s\<lparr>processes := ?x\<rparr>)" using assms(1) by simp
    show "2 \<le> card (pmem_pages (s\<lparr>processes := ?x\<rparr>) - used_pages (s\<lparr>processes := ?x\<rparr>))" using assms(4) by simp
    fix page t
    assume t: "took {page} (s\<lparr>processes := ?x\<rparr>) t"
    obtain c m where t': "t = s\<lparr>processes := ?x, pmem_curr_alloc_record := c, mem := m\<rparr>"
      using tookD(5) [OF t] by (auto simp: pmem_same_def)
    have "took {page} s (t\<lparr>processes := processes s\<rparr>)"
    proof -
      have "t\<lparr>processes := processes s\<rparr> = s\<lparr>pmem_curr_alloc_record := c, mem := m\<rparr>" by (simp add: t')
      then have "pmem_same s (t\<lparr>processes := processes s\<rparr>)" unfolding pmem_same_def by blast
      then show ?thesis using t by (simp add: took_def)
    qed
    then have "Q () (t\<lparr>processes := processes s, processes := (processes s)[pid := started f page ?p]\<rparr>)" by (rule Q)
    moreover have "upd_process pid (\<lambda>p. p\<lparr>process_memory_start := page, process_memory_size := PHYS_BLOCK_SIZE\<rparr>) t
        = Ok () (t\<lparr>processes := (processes s)[pid := started f page ?p]\<rparr>)"
      using p by (simp add: upd_process_def kernel_defs t' started_def)
    ultimately show "wp (upd_process pid (\<lambda>p. p\<lparr>process_memory_start := page, process_memory_size := PHYS_BLOCK_SIZE\<rparr>)) Q t"
      by (simp add: wp_def)
  qed
qed

section \<open>Loading a program\<close>

text \<open>The program a file name denotes: the data of the first cluster of its directory entry.\<close>

definition program :: "bytes \<Rightarrow> bytes \<Rightarrow> nat \<Rightarrow> bool" where
  "program f d c \<longleftrightarrow> c < 415 \<and> (let e = first_or_zero (root_match f d) [1..<32] in
     e \<noteq> 0 \<and> entry_low_cluster_number (entry_of_bytes (root_bytes d e)) = of_nat c)"

definition free_pid :: "'z processes_state_scheme \<Rightarrow> nat option" where
  "free_pid s = find (\<lambda>i. p_state (processes s ! i) = UNUSED) [1..<64]"

lemma free_pidD:
  assumes "free_pid s = Some pid"
  shows "0 < pid" "pid < 64" "p_state (processes s ! pid) = UNUSED" "process_get_next_free_pid s = Ok (int pid) s"
proof -
  obtain i where "i < length [1..<64 :: nat]" "pid = [1..<64] ! i" "p_state (processes s ! pid) = UNUSED"
    using assms unfolding free_pid_def find_Some_iff by metis
  moreover from this(1,2) have "pid \<in> set [1..<64]" using nth_mem by metis
  ultimately show "0 < pid" "pid < 64" "p_state (processes s ! pid) = UNUSED" by auto
  show "process_get_next_free_pid s = Ok (int pid) s"
    using assms by (simp add: free_pid_def process_get_next_free_pid_def kernel_defs)
qed

definition loaded :: "bytes \<Rightarrow> nat \<Rightarrow> bytes \<Rightarrow> 'z sched_state_scheme \<Rightarrow> 'z sched_state_scheme \<Rightarrow> bool" where
  "loaded f pid code s s' \<longleftrightarrow> (\<exists>page \<in> pmem_pages s - used_pages s.
     used_pages s' = insert page (used_pages s)
     \<and> processes s' = (processes s)[pid := (started f page (processes s ! pid))\<lparr>p_state := RUNNABLE\<rparr>]
     \<and> load_bytes (mem s') page 512 = code \<and> private_page page s')"

lemma load_bytes_eqI: "length xs = n \<Longrightarrow> (\<And>i. i < n \<Longrightarrow> m (a + of_nat i) = xs ! i) \<Longrightarrow> load_bytes m a n = xs"
  by (simp add: load_bytes_def list_eq_iff_nth_eq)

lemma private_page_frame:
  assumes "fat16_ok s" "private_page p s" "console_frame s t"
  shows "private_page p t" "\<And>i. i < 4096 \<Longrightarrow> mem t (p + of_nat i) = mem s (p + of_nat i)"
proof -
  note f = fs_print_frame [OF assms(1,3)] and cf = console_frameD [OF assms(3)]
  have "disk_table t = disk_table s" "ramdisk_block_pointers t = ramdisk_block_pointers s"
    using f(2) by (auto simp: fs_same_def)
  then show "private_page p t"
    using assms(2) cf(7) console_frame_bufs [OF assms(3)] by (simp add: private_page_def disk_pages_def)
  show "mem t (p + of_nat i) = mem s (p + of_nat i)" if "i < 4096" for i
    using cf(1) [of "p + of_nat i"] page_offset(2) [OF private_page_aligned [OF assms(1,2)] that] assms(2)
      fat16_okD(3) [OF assms(1)] by (auto simp: private_page_def dest: spec [of _ StdOutput])
qed

text \<open>Private pages, but for those in \<open>X\<close>, stay private and keep their contents.\<close>

definition kept :: "u32 set \<Rightarrow> 'z fat16_state_scheme \<Rightarrow> 'z fat16_state_scheme \<Rightarrow> bool" where
  "kept X s s' \<longleftrightarrow> (\<forall>p. private_page p s \<longrightarrow> p \<notin> X \<longrightarrow> private_page p s' \<and> (\<forall>a. page_of a = p \<longrightarrow> mem s' a = mem s a))"

lemma kept_trans: "kept X s t \<Longrightarrow> kept Y t u \<Longrightarrow> kept (X \<union> Y) s u"
  unfolding kept_def by (metis UnCI)

lemma kept_frame:
  assumes "fat16_ok s" "console_frame s t"
  shows "kept {} s t"
  using private_page_frame(1) [OF assms(1) _ assms(2)] console_frameD(1) [OF assms(2)] fat16_okD(3) [OF assms(1)]
  by (auto simp: kept_def private_page_def dest: spec [of _ StdOutput])

lemma kept_took:
  assumes "took P s t" "fat16_ok s"
  shows "kept {} s t"
proof -
  note d = tookD [OF assms(1)] and st = took_stdio [OF assms(1) fat16_okD(2) [OF assms(2)]]
  have "disk_pages t = disk_pages s" by (rule fat16_took [OF assms])
  then show ?thesis using d(3,6) st(3) by (auto simp: kept_def private_page_def)
qed

lemma kept_fs_same:
  assumes "fat16_ok s" "fs_same s t"
  shows "kept {} s t"
proof -
  have d: "disk_pages t = disk_pages s" "used_pages t = used_pages s" "std_input_buf t = std_input_buf s"
    "b_addr (std_output_buf t) = b_addr (std_output_buf s)"
    "\<And>a. page_of a \<noteq> b_addr (std_output_buf s) \<Longrightarrow> page_of a \<notin> set (disk_table s) \<Longrightarrow> mem t a = mem s a"
    using assms(2) by (auto simp: fs_same_def disk_pages_def)
  have "private_page p t" if "private_page p s" for p
    unfolding private_page_def
  proof (intro conjI allI impI)
    show "p \<in> used_pages t" "p \<notin> disk_pages t" using that d by (simp_all add: private_page_def)
    fix i
    assume "is_init (std_buf i t)"
    then show "b_addr (std_buf i t) \<noteq> p"
      using that d(3,4) fat16_okD(3) [OF assms(1)] by (cases i) (auto simp: private_page_def dest: spec [of _ StdOutput] spec [of _ StdInput])
  qed
  moreover have "mem t a = mem s a" if "private_page (page_of a) s" for a
    using that d(5) fat16_okD(3) [OF assms(1)] by (auto simp: private_page_def disk_pages_def dest: spec [of _ StdOutput])
  ultimately show ?thesis by (auto simp: kept_def)
qed

lemma kept_write:
  assumes "fat16_ok s" "private_page p s" "\<And>a. page_of a \<noteq> p \<Longrightarrow> m a = mem s a"
  shows "kept {p} s (s\<lparr>mem := m\<rparr>)"
proof -
  note w = private_write [OF assms(1,2), of m, OF assms(3)]
  have "disk_pages (s\<lparr>mem := m\<rparr>) = disk_pages s" using w(4) by (simp add: disk_pages_def)
  then show ?thesis using w(5) assms(3) by (auto simp: kept_def private_page_def)
qed

lemma kept_load:
  assumes "kept X s t" "private_page p s" "p \<notin> X" "4096 dvd unat p"
  shows "load_bytes (mem t) p 512 = load_bytes (mem s) p 512"
proof -
  have "mem t (p + of_nat i) = mem s (p + of_nat i)" if "i < 512" for i
    using assms page_offset(2) [OF assms(4), of i] that by (auto simp: kept_def)
  then show ?thesis by (simp add: load_bytes_def)
qed

text \<open>The registers of the memory management unit.\<close>

definition paging :: "'z vmem_state_scheme \<Rightarrow> u32 \<times> u32 \<times> u32" where
  "paging s = (vmem_page_directory s, cr3 s, cr0 s)"

text \<open>Everything above the scheduler, the input, the paging and private pages not in \<open>X\<close>.\<close>

definition above_same :: "u32 set \<Rightarrow> 'z sched_state_scheme \<Rightarrow> 'z sched_state_scheme \<Rightarrow> bool" where
  "above_same X s s' \<longleftrightarrow> sched_state.more s' = sched_state.more s \<and> stream StdInput s' = stream StdInput s
     \<and> is_init (std_input_buf s') = is_init (std_input_buf s) \<and> pmem_pages s' = pmem_pages s \<and> paging s' = paging s \<and> kept X s s'"

lemma above_same_trans: "above_same X s t \<Longrightarrow> above_same Y t u \<Longrightarrow> above_same (X \<union> Y) s u"
  using kept_trans by (auto simp: above_same_def)

lemma above_same_frame:
  assumes "fat16_ok s" "console_frame s t"
  shows "above_same {} s t"
  using console_frameD(6,8) [OF assms(2)] kept_frame [OF assms] assms(2)
  unfolding console_frame_def above_same_def by (auto simp: paging_def)

text \<open>The last part of \<open>process_execve\<close>: the program is in memory, the process becomes runnable.\<close>

lemma wp_exec_finish:
  assumes "fat16_ok s" "private_page page s" "length (processes s) = 64" "0 < pid" "pid < 64" "mlfq_rel s A"
    "pid \<notin> set (concat (levels A))"
    and Q: "\<And>t. fat16_ok t \<Longrightarrow> disk t = disk s \<Longrightarrow> used_pages t = used_pages s \<Longrightarrow>
      processes t = (processes s)[pid := (processes s ! pid)\<lparr>p_state := RUNNABLE\<rparr>] \<Longrightarrow> mlfq_rel t (mlfq_add pid A) \<Longrightarrow>
      load_bytes (mem t) page 512 = load_bytes (mem s) page 512 \<Longrightarrow> above_same {} s t \<Longrightarrow> private_page page t \<Longrightarrow> Q 1 t"
  shows "wp (kseq (printf (cstr ''Loaded process %s to memory with pid %d\<newline>'') [ArgStr f, ArgInt (of_int (int pid))])
      (kseq (upd_process (nat (int pid)) (\<lambda>p. p\<lparr>p_state := RUNNABLE\<rparr>)) (kseq (sched_addpid (int pid)) (kret 1)))) Q s"
  unfolding wp_kseq
proof (rule wp_printf_frame [OF fat16_okD(4) [OF assms(1)]])
  fix t
  assume t: "console_frame s t"
  note pt = private_page_frame [OF assms(1,2) t] and ft = fs_print_frame [OF assms(1) t] and ab = above_files [OF above_frames(2) [OF t]]
  let ?P = "(processes s)[pid := (processes s ! pid)\<lparr>p_state := RUNNABLE\<rparr>]"
  let ?t = "t\<lparr>processes := ?P\<rparr>"
  have upd: "upd_process (nat (int pid)) (\<lambda>p. p\<lparr>p_state := RUNNABLE\<rparr>) t = Ok () ?t"
    using assms(5) ab(1) by (simp add: upd_process_def kernel_defs)
  have ok: "fat16_ok ?t" "private_page page ?t" "mlfq_rel ?t A" "p_state (processes ?t ! pid) \<noteq> UNUSED"
    using ft(1) pt(1) assms(3,5,6) ab(2) by simp_all
  have "wp (sched_addpid (int pid)) (\<lambda>_. Q 1) ?t"
  proof (rule wp_mono [OF addpid_refines [OF ok(3) fat16_okD(4) [OF ok(1)] assms(4,5) ok(4) assms(7)]])
    fix x s'
    assume "mlfq_rel s' (mlfq_add pid A) \<and> (\<exists>u. sched_only ?t u \<and> console_frame u s')"
    then obtain u where rel: "mlfq_rel s' (mlfq_add pid A)" and u: "sched_only ?t u" and s': "console_frame u s'" by blast
    have tr: "fat16_state.truncate u = fat16_state.truncate ?t" "mem u = mem t" "processes u = ?P"
      "stdio_state.truncate u = stdio_state.truncate t"
      using u by (auto simp: sched_only_def fat16_state.truncate_def stdio_state.truncate_def)
    note uc = fat16_cong [OF tr(1)]
    have oku: "fat16_ok u" "private_page page u" using ok uc by simp_all
    note pu = private_page_frame [OF oku s'] and fu = fs_print_frame [OF oku(1) s']
    show "Q 1 s'"
    proof (rule Q)
      show "fat16_ok s'" "disk s' = disk s" using fu uc(2) ft(3) by simp_all
      show "used_pages s' = used_pages s"
        using console_frameD(7) [OF s'] console_frameD(7) [OF t] stdio_cong(3) [OF tr(4)] by simp
      show "processes s' = ?P" using above_files(1) [OF above_frames(2) [OF s']] tr(3) by simp
      show "mlfq_rel s' (mlfq_add pid A)" by (rule rel)
      show "private_page page s'" by (rule pu(1))
      show "load_bytes (mem s') page 512 = load_bytes (mem s) page 512"
        using pu(2) pt(2) tr(2) by (simp add: load_bytes_def)
      have "kept {} t u" using uc(3) tr(2) by (simp add: kept_def)
      then have "above_same {} t u"
        using u stdio_cong(2,6) [OF tr(4)] by (auto simp: above_same_def sched_only_def paging_def)
      then show "above_same {} s s'"
        using above_same_trans [OF above_same_trans [OF above_same_frame [OF assms(1) t]] above_same_frame [OF oku(1) s']] by simp
    qed
  qed
  then show "wp (upd_process (nat (int pid)) (\<lambda>p. p\<lparr>p_state := RUNNABLE\<rparr>))
      (\<lambda>_. wp (sched_addpid (int pid)) (\<lambda>_. wp (kret 1) Q)) t"
    unfolding wp_kret by - (rule wpI, rule upd)
qed simp

lemma wp_exec_load:
  assumes "fat16_ok t" "took {page} t u" "slot_ready pid t" "0 < pid" "0 \<notin> pmem_pages t" "mlfq_rel t A" "pid \<notin> set (concat (levels A))"
    and e: "first_or_zero (root_match f (disk t)) [1..<32] = e" "e \<noteq> 0"
    and c: "entry_low_cluster_number (entry_of_bytes (root_bytes (disk t) e)) = of_nat c" "c < 415"
    and Q: "\<And>v. fat16_ok v \<Longrightarrow> disk v = disk t \<Longrightarrow> loaded f pid (cluster_data (disk t) c) t v \<Longrightarrow> mlfq_rel v (mlfq_add pid A) \<Longrightarrow>
      above_same {} t v \<Longrightarrow> Q 1 v"
  defines "u' \<equiv> u\<lparr>processes := (processes t)[pid := started f page (processes t ! pid)]\<rparr>"
  shows "wp (if process_memory_start (processes u' ! pid) = 0 then
           kseq (printf (cstr ''Memory not allocated for process. Stopping.'') [])
          (kseq (upd_process pid (\<lambda>p. p\<lparr>p_state := UNUSED\<rparr>)) (kret 0))
         else
           kbind (fs_file_read f (Mem (process_memory_start (processes u' ! pid))) 0) (\<lambda>(res, _).
           kseq (if res \<noteq> 0 then
                   kseq (printf (cstr ''Failed to copy process to memory. Stopping'') [])
                        (upd_process pid (\<lambda>p. p\<lparr>p_state := UNUSED\<rparr>))
                 else kret ())
          (kseq (printf (cstr ''Loaded process %s to memory with pid %d\<newline>'') [ArgStr f, ArgInt (of_int (int pid))])
          (kseq (upd_process pid (\<lambda>p. p\<lparr>p_state := RUNNABLE\<rparr>))
          (kseq (sched_addpid (int pid)) (kret 1)))))) Q u'"
proof -
  note k = fat16_took [OF assms(2,1)] and tk = tookD [OF assms(2)]
  have p: "length (processes t) = 64" "pid < 64" using assms(3) by (simp_all add: slot_ready_def)
  have u': "fat16_ok u'" "private_page page u'" "disk u' = disk t" "processes u' = (processes t)[pid := started f page (processes t ! pid)]"
    "used_pages u' = insert page (used_pages t)" "mlfq_rel u' A"
    using k above_files(2) [OF above_frames(3) [OF assms(2)]] assms(6) tk(3) by (simp_all add: u'_def)
  have start: "process_memory_start (processes u' ! pid) = page" using p by (simp add: u'(4) started_def)
  have page: "page \<noteq> 0" "page \<in> pmem_pages t - used_pages t" using tk(4) assms(5) by auto
  have e': "first_or_zero (root_match f (disk u')) [1..<32] = e"
    "entry_low_cluster_number (entry_of_bytes (root_bytes (disk u') e)) = of_nat c" using e(1) c(1) u'(3) by simp_all
  show ?thesis
    unfolding start if_not_P [OF page(1)] wp_kbind
  proof (rule wp_file_read_page [OF u'(1,2) e'(1) e(2) e'(2) c(2)], goal_cases)
    case (1 v m)
    let ?v = "v\<lparr>mem := m\<rparr>"
    note w = private_write [OF 1(1,5,4)]
    have m: "fat16_state.more ?v = fat16_state.more u'" using above_frames(2) [OF 1(2)] by simp
    note av = above_files [OF m]
    have ld: "load_bytes m page 512 = cluster_data (disk t) c"
      using 1(3) u'(3) c(2) fat16_okD(5) [OF assms(1)] by (intro load_bytes_eqI) (simp_all add: cluster_data_def slice_def)
    have "wp (kseq (printf (cstr ''Loaded process %s to memory with pid %d\<newline>'') [ArgStr f, ArgInt (of_int (int pid))])
          (kseq (upd_process (nat (int pid)) (\<lambda>p. p\<lparr>p_state := RUNNABLE\<rparr>)) (kseq (sched_addpid (int pid)) (kret 1)))) Q ?v"
    proof (rule wp_exec_finish [OF w(1,3) _ assms(4) p(2) _ assms(7)])
      show "length (processes ?v) = 64" using av(1) u'(4) p(1) by simp
      show "mlfq_rel ?v A" using av(2) u'(6) by simp
      fix x :: "'a sched_state_scheme"
      assume x: "fat16_ok x" "disk x = disk ?v" "used_pages x = used_pages ?v"
        "processes x = (processes ?v)[pid := (processes ?v ! pid)\<lparr>p_state := RUNNABLE\<rparr>]" "mlfq_rel x (mlfq_add pid A)"
        "load_bytes (mem x) page 512 = load_bytes (mem ?v) page 512" "above_same {} ?v x" "private_page page x"
      have "used_pages x = insert page (used_pages t)" using x(3) w(5) console_frameD(7) [OF 1(2)] u'(5) by simp
      moreover have "processes x = (processes t)[pid := (started f page (processes t ! pid))\<lparr>p_state := RUNNABLE\<rparr>]"
        using x(4) av(1) u'(4) p by simp
      ultimately have "loaded f pid (cluster_data (disk t) c) t x"
        unfolding loaded_def using page(2) x(6,8) ld by (intro bexI [of _ page]) simp_all
      moreover have "disk x = disk t" using x(2) w(2) fs_print_frame(3) [OF u'(1) 1(2)] u'(3) by simp
      moreover have "above_same {} t x"
      proof -
        have "kept {} t u'" using kept_took [OF assms(2,1)] by (simp add: kept_def u'_def)
        then have "above_same {} t u'"
          using tk(2,5) took_stdio(2) [OF assms(2) fat16_okD(2) [OF assms(1)]] stdio_cong(2,6) [of u' u]
          by (auto simp: above_same_def u'_def pmem_same_def stdio_state.truncate_def paging_def)
        moreover have "above_same {page} v ?v" using w(6,7) kept_write [OF 1(1,5,4)] by (simp add: above_same_def paging_def)
        ultimately have "above_same {page} t x"
          using above_same_trans [OF above_same_trans [OF above_same_trans [OF _ above_same_frame [OF u'(1) 1(2)]]]] x(7) by force
        then show ?thesis using page(2) by (auto simp: above_same_def kept_def private_page_def)
      qed
      ultimately show "Q 1 x" using Q x(1,5) by blast
    qed
    then show ?case by simp
  qed
qed

lemma wp_execve:
  assumes "fat16_ok s" "free_pid s = Some pid" "slot_ready pid s" "0 \<in> set f" "2 \<le> card (pmem_pages s - used_pages s)" "0 \<notin> pmem_pages s"
    "program f (disk s) c" "mlfq_rel s A" "pid \<notin> set (concat (levels A))"
    and Q: "\<And>t. fat16_ok t \<Longrightarrow> disk t = disk s \<Longrightarrow> loaded f pid (cluster_data (disk s) c) s t \<Longrightarrow> mlfq_rel t (mlfq_add pid A) \<Longrightarrow>
      above_same {} s t \<Longrightarrow> Q 1 t"
  shows "wp (process_execve f) Q s"
proof -
  obtain e where e: "first_or_zero (root_match f (disk s)) [1..<32] = e" "e \<noteq> 0"
    and c: "entry_low_cluster_number (entry_of_bytes (root_bytes (disk s) e)) = of_nat c" "c < 415"
    using assms(7) by (auto simp: program_def Let_def)
  have e32: "e < 32" using first_or_zero_range [of "root_match f (disk s)" "[1..<32]"] e by auto
  have e0: "(of_nat e :: u32) \<noteq> 0" using of_nat_u32_eq_iff [of e 0] e32 e(2) by simp
  note pid = free_pidD [OF assms(2)]
  show ?thesis
    unfolding process_execve_def wp_kseq
    apply (rule wp_printf_frame [OF fat16_okD(4) [OF assms(1)]], simp)
    subgoal premises t for t
    proof -
      note ft = fs_print_frame [OF assms(1) t] and ab = above_files [OF above_frames(2) [OF t]] and ct = console_frameD [OF t]
      have pidt: "process_get_next_free_pid t = Ok (int pid) t"
        using assms(2) ab(1) by (intro free_pidD) (simp add: free_pid_def)
      have slot: "slot_ready pid t" using assms(3) ab(1) by (simp add: slot_ready_def)
      have room: "2 \<le> card (pmem_pages t - used_pages t)" using assms(5) ct(6,7) by simp
      have pos: "\<not> int pid \<le> 0" using pid(1) by simp
      show ?thesis
        unfolding fs_file_exists_def wp_kbind
        apply (rule wp_file_exists [OF ft(1)])
        unfolding ft(3) e(1) if_not_P [OF e0] wp_kbind
        apply (rule wpI, rule pidt)
        unfolding if_not_P [OF pos] wp_kseq nat_int
        apply (rule wp_init_process [OF ramdisk_okD(1) [OF fat16_okD(1) [OF ft(1)]] slot assms(4) room])
        unfolding wp_kbind wp_kget
        by (rule wp_exec_load [OF ft(1) _ slot, where A = A and f = f and e = e and c = c])
          (use assms(6,7,8,9) pid(1) e c ab ct ft above_same_trans [OF above_same_frame [OF assms(1) t]] in \<open>auto intro!: Q simp: loaded_def\<close>)
    qed
    done
qed

section \<open>Names\<close>

lemma named_short:
  assumes "length (p_name p) = 16" "length (c_string f) < 16"
  shows "c_string (p_name (named f p)) = c_string f" "p_pid (named f p) = p_pid p"
proof -
  let ?n = "length (c_string f)"
  let ?b = "c_string f @ 0 # drop (Suc ?n) (name_and_pid p)"
  have b: "named f p = set_name_and_pid ?b p" using assms(2) by (simp add: named_def)
  have np: "name_and_pid p = p_name p @ le32_bytes (p_pid p)" by (simp add: name_and_pid_def)
  have z: "0 \<notin> set (c_string f)" by (auto simp: c_string_def dest: set_takeWhileD)
  have "take 16 ?b = c_string f @ 0 # take (15 - ?n) (drop (Suc ?n) (name_and_pid p))" using assms(2) by (simp add: take_Cons')
  then show "c_string (p_name (named f p)) = c_string f" using c_string_append [OF z] by (simp add: b set_name_and_pid_def)
  have "drop 16 ?b = drop (15 - ?n) (drop (Suc ?n) (name_and_pid p))" using assms(2) by (simp add: drop_Cons')
  also have "\<dots> = le32_bytes (p_pid p)" using assms by (simp add: np)
  finally show "p_pid (named f p) = p_pid p" by (simp add: b set_name_and_pid_def)
qed

lemma le32_of_clear_low: "le32_of (0 # tl (le32_bytes v)) = v AND NOT 0xFF"
proof -
  have m: "(0xFF :: u32) = mask 8" by (simp add: mask_eq_exp_minus_1)
  have "bit (le32_of (0 # tl (le32_bytes v))) n = bit (v AND NOT 0xFF) n" if "n < 32" for n
  proof -
    from that consider "n < 8" | "8 \<le> n" "n < 16" | "16 \<le> n" "n < 24" | "24 \<le> n" "n < 32" by fastforce
    then show ?thesis unfolding m by cases (auto simp: le32_of_def le32_bytes_def bit_simps)
  qed
  then show ?thesis by (intro bit_word_eqI) simp
qed

lemma named_long:
  assumes "length (p_name p) = 16" "16 \<le> length (c_string f)"
  shows "p_name (named f p) = take 16 (c_string f)" "p_pid (named f p) = p_pid p AND NOT 0xFF"
proof -
  have np: "drop 17 (name_and_pid p) = tl (le32_bytes (p_pid p))"
    using assms(1) by (simp add: name_and_pid_def le32_bytes_def)
  have "named f p = set_name_and_pid (take 16 (c_string f) @ 0 # tl (le32_bytes (p_pid p))) p"
    using assms(2) np by (simp add: named_def min_absorb1)
  then show "p_name (named f p) = take 16 (c_string f)" "p_pid (named f p) = p_pid p AND NOT 0xFF"
    using assms(2) le32_of_clear_low by (simp_all add: set_name_and_pid_def)
qed

section \<open>Programs that were written\<close>

lemma wp_write_program:
  assumes "can_write f s" "unat n \<le> 512" "unat n \<le> length d"
  shows "wp (ramdisk_fat16_file_write f (Local d) n) (\<lambda>r t. r = 0 \<and> fat16_ok t \<and> fs_same s t
    \<and> (\<exists>c. program f (disk t) c \<and> take (unat n) (cluster_data (disk t) c) = take (unat n) d)) s"
proof (rule wp_mono [OF wp_file_write_small [OF assms]])
  note w = can_writeD [OF assms(1)]
  let ?E = "new_file s f n (free_cluster s)" and ?x = "take (unat n) d"
  let ?D = "file_written ?E (free_root s) (free_cluster s) ?x (disk s)"
  fix r :: u32 and t
  assume t: "r = 0 \<and> fat16_ok t \<and> fs_same s t \<and> disk t = ?D"
  have x: "length ?x \<le> 512" "length ?x = unat n" using assms(2,3) by simp_all
  have E: "entry_name ?E = ramdisk_fat16_filename_to_native f" "entry_low_cluster_number ?E = of_nat (free_cluster s)"
    by (simp_all add: new_file_def)
  note v = file_written_view [OF w(5) x(1) w(8,6), of ?E, simplified]
  have "first_or_zero (root_match f (disk t)) [1..<32] = free_root s"
    using file_written_match [OF w(5) x(1) w(8,6,4) E(1) w(7)] t by simp
  moreover have "entry_low_cluster_number (entry_of_bytes (root_bytes (disk t) (free_root s))) = of_nat (free_cluster s)"
    using t v(1) E(2) by (simp add: entry_roundtrip)
  ultimately have "program f (disk t) (free_cluster s)" using w(4,5) by (simp add: program_def Let_def)
  moreover have "take (unat n) (cluster_data (disk t) (free_cluster s)) = ?x" using t v(3) x(2) by simp
  ultimately show "r = 0 \<and> fat16_ok t \<and> fs_same s t
      \<and> (\<exists>c. program f (disk t) c \<and> take (unat n) (cluster_data (disk t) c) = ?x)" using t by blast
qed

lemma above_slots:
  fixes s t :: "'z sched_state_scheme"
  assumes "fat16_state.more t = fat16_state.more s"
  shows "free_pid t = free_pid s" "slot_ready pid t = slot_ready pid s"
  using above_files(1) [OF assms] by (simp_all add: free_pid_def slot_ready_def)

lemma fs_same_pages: "fs_same s t \<Longrightarrow> pmem_pages t = pmem_pages s" "fs_same s t \<Longrightarrow> used_pages t = used_pages s"
  by (auto simp: fs_same_def)

abbreviation "test_name \<equiv> cstr ''test.bin'' @ [0]"

lemma test_program_facts: "length test_program = 54" "c_string test_name = cstr ''test.bin''" "length (cstr ''test.bin'') = 8" "0 \<in> set test_name"
  by code_simp+

lemma wp_load_starting:
  assumes "can_write test_name s"
  shows "wp fs_load_starting_files (\<lambda>r t. r = 0 \<and> fat16_ok t \<and> fs_same s t
    \<and> (\<exists>c. program test_name (disk t) c \<and> take 54 (cluster_data (disk t) c) = test_program)) s"
proof -
  have n: "unat (of_nat (length test_program) :: u32) = 54" by (simp add: test_program_facts(1))
  show ?thesis
    unfolding fs_load_starting_files_def wp_kbind
  proof (rule wp_mono [OF wp_write_program [OF assms]])
    show "unat (of_nat (length test_program) :: u32) \<le> 512" "unat (of_nat (length test_program) :: u32) \<le> length test_program"
      unfolding n by (simp_all add: test_program_facts(1))
    fix r :: u32 and t
    assume "r = 0 \<and> fat16_ok t \<and> fs_same s t \<and> (\<exists>c. program test_name (disk t) c
      \<and> take (unat (of_nat (length test_program) :: u32)) (cluster_data (disk t) c)
        = take (unat (of_nat (length test_program) :: u32)) test_program)"
    then obtain c where t: "r = 0" "fat16_ok t" "fs_same s t" "program test_name (disk t) c" "take 54 (cluster_data (disk t) c) = test_program"
      unfolding n by (auto simp: test_program_facts(1))
    have pr: "wp (printf (cstr ''Loaded starting files to disk!\<newline>'') []) (\<lambda>_ u. fat16_ok u \<and> fs_same t u \<and> disk u = disk t) t"
      by (rule wp_fs_print [OF t(2)]) simp_all
    have "wp (printf (cstr ''Loaded starting files to disk!\<newline>'') []) (\<lambda>_ u. fat16_ok u \<and> fs_same s u
      \<and> (\<exists>c. program test_name (disk u) c \<and> take 54 (cluster_data (disk u) c) = test_program)) t"
      by (rule wp_mono [OF pr]) (use t fs_same_trans [OF t(3)] in auto)
    then show "wp (kseq (if r \<noteq> 0 then panic ''Failed to write starting file test.bin!'' else kret ())
        (kseq (printf (cstr ''Loaded starting files to disk!\<newline>'') []) (kret 0)))
      (\<lambda>r t. r = 0 \<and> fat16_ok t \<and> fs_same s t
        \<and> (\<exists>c. program test_name (disk t) c \<and> take 54 (cluster_data (disk t) c) = test_program)) t"
      by (simp add: t(1))
  qed
qed

text \<open>A machine with the disk still to be made and process record 3 free.\<close>

lemma sched_machine_files:
  "fat16_ready sched_machine" "0 \<notin> pmem_pages sched_machine" "card (pmem_pages sched_machine - used_pages sched_machine) = 2047"
  "free_pid sched_machine = Some 3" "slot_ready 3 sched_machine" "mlfq_rel sched_machine no_processes"
proof -
  have tr: "stdio_state.truncate sched_machine = stdio_state.truncate fat_machine"
    "ramdisk_block_size sched_machine = ramdisk_block_size fat_machine" "ramdisk_block_pointers sched_machine = ramdisk_block_pointers fat_machine"
    "ramdisk_fat16_bootrecord sched_machine = ramdisk_fat16_bootrecord fat_machine" "hw_byte sched_machine = hw_byte fat_machine"
    "std_output_buf sched_machine = std_output_buf fat_machine"
    by (simp_all add: stdio_state.truncate_def sched_machine_def vmem_machine_def processes_state.extend_def vmem_state.extend_def fat16_state.extend_def)
  note c = stdio_cong [OF tr(1)]
  show "fat16_ready sched_machine"
    using fat_machine_ready unfolding fat16_ready_def boot_ok_def c tr .
  have v: "stdio_state.truncate sched_machine = stdio_state.truncate vmem_machine"
    by (simp add: stdio_state.truncate_def sched_machine_def processes_state.extend_def vmem_state.extend_def)
  show "0 \<notin> pmem_pages sched_machine" using vmem_machine_ready stdio_cong(2) [OF v] by (simp add: vmem_ready_def)
  have pm: "pmem_ok fat_machine" using fat_machine_ready stdio_okD(1) by (auto simp: fat16_ready_def)
  have "card (pmem_pages fat_machine - used_pages fat_machine) = 2047"
    by (simp add: card_free_pages [OF pm] fat_machine_used) (simp add: pmem_blocks_def fat_machine_defs)
  then show "card (pmem_pages sched_machine - used_pages sched_machine) = 2047" by (simp only: c)
  have pr: "processes sched_machine = (replicate 64 idle_process)[1 := idle_process\<lparr>p_state := RUNNABLE\<rparr>, 2 := idle_process\<lparr>p_state := RUNNABLE\<rparr>]"
    by (simp add: sched_machine_def processes_state.extend_def vmem_state.extend_def)
  have "[1..<64] = 1 # 2 # 3 # [4..<64 :: nat]" by (simp add: upt_rec)
  then show "free_pid sched_machine = Some 3"
    by (simp only: free_pid_def pr find.simps) (simp add: idle_process_def)
  show "slot_ready 3 sched_machine" by (simp add: slot_ready_def pr) (simp add: idle_process_def)
  show "mlfq_rel sched_machine no_processes" using sched_machine_rel by (simp add: sched_rel_def)
qed

section \<open>Properties\<close>

text \<open>C7: \<open>process_execve\<close> of an existing program with a free process record, a free page and a name that
  fits: it returns 1; the lowest free record is runnable under its own number and name; its memory is
  a page that was free, and that page holds the first cluster of the file; no other record has changed; the
  process is at the front of the highest-priority queue with full credit; the file system is intact.\<close>

theorem execve_loads:
  assumes "fat16_ok s" "free_pid s = Some pid" "slot_ready pid s" "0 \<in> set f" "length (c_string f) < 16"
    "2 \<le> card (pmem_pages s - used_pages s)" "0 \<notin> pmem_pages s" "program f (disk s) c" "mlfq_rel s A" "pid \<notin> set (concat (levels A))"
  shows "wp (process_execve f) (\<lambda>r s'. r = 1 \<and> fat16_ok s' \<and> disk s' = disk s
    \<and> p_state (processes s' ! pid) = RUNNABLE \<and> p_pid (processes s' ! pid) = p_pid (processes s ! pid)
    \<and> c_string (p_name (processes s' ! pid)) = c_string f \<and> (\<forall>i. i \<noteq> pid \<longrightarrow> processes s' ! i = processes s ! i)
    \<and> process_memory_start (processes s' ! pid) \<in> pmem_pages s - used_pages s
    \<and> used_pages s' = insert (process_memory_start (processes s' ! pid)) (used_pages s)
    \<and> load_bytes (mem s') (process_memory_start (processes s' ! pid)) 512 = cluster_data (disk s) c
    \<and> mlfq_rel s' (mlfq_add pid A)) s"
proof (rule wp_execve [OF assms(1-4,6-10)])
  fix t
  assume t: "fat16_ok t" "disk t = disk s" "loaded f pid (cluster_data (disk s) c) s t" "mlfq_rel t (mlfq_add pid A)"
  obtain page where page: "page \<in> pmem_pages s - used_pages s" "used_pages t = insert page (used_pages s)"
    "processes t = (processes s)[pid := (started f page (processes s ! pid))\<lparr>p_state := RUNNABLE\<rparr>]"
    "load_bytes (mem t) page 512 = cluster_data (disk s) c"
    using t(3) unfolding loaded_def by blast
  have "pid < length (processes s)" and n: "length (p_name (processes s ! pid)) = 16" using assms(3) by (simp_all add: slot_ready_def)
  then have at: "processes t ! pid = (started f page (processes s ! pid))\<lparr>p_state := RUNNABLE\<rparr>" by (simp add: page(3))
  show "1 = (1 :: u32) \<and> fat16_ok t \<and> disk t = disk s
    \<and> p_state (processes t ! pid) = RUNNABLE \<and> p_pid (processes t ! pid) = p_pid (processes s ! pid)
    \<and> c_string (p_name (processes t ! pid)) = c_string f \<and> (\<forall>i. i \<noteq> pid \<longrightarrow> processes t ! i = processes s ! i)
    \<and> process_memory_start (processes t ! pid) \<in> pmem_pages s - used_pages s
    \<and> used_pages t = insert (process_memory_start (processes t ! pid)) (used_pages s)
    \<and> load_bytes (mem t) (process_memory_start (processes t ! pid)) 512 = cluster_data (disk s) c
    \<and> mlfq_rel t (mlfq_add pid A)"
    unfolding at using t page named_short [OF n assms(5)] by (simp add: started_def page(3))
qed

theorem execve_loads_witness:
  "wp (kseq ramdisk_fat16_init (kbind (ramdisk_fat16_file_write (cstr ''a'' @ [0]) (Local [0xCD, 0x33]) 2) (\<lambda>_. process_execve (cstr ''a'' @ [0]))))
    (\<lambda>r s'. r = 1 \<and> p_state (processes s' ! 3) = RUNNABLE \<and> c_string (p_name (processes s' ! 3)) = cstr ''a''
      \<and> take 2 (load_bytes (mem s') (process_memory_start (processes s' ! 3)) 512) = [0xCD, 0x33]
      \<and> mlfq_rel s' (mlfq_add 3 no_processes)) sched_machine"
  unfolding wp_kseq wp_kbind
proof (rule wp_mono [OF wp_fat16_init_frame [OF sched_machine_files(1)]])
  fix x s
  assume s: "fat16_ok s \<and> formatted (disk s) \<and> fs_created sched_machine s"
  then have can: "can_write (cstr ''a'' @ [0]) s" by (simp add: formatted_can_write)
  show "wp (ramdisk_fat16_file_write (cstr ''a'' @ [0]) (Local [0xCD, 0x33]) 2) (\<lambda>_. wp (process_execve (cstr ''a'' @ [0]))
     (\<lambda>r s'. r = 1 \<and> p_state (processes s' ! 3) = RUNNABLE \<and> c_string (p_name (processes s' ! 3)) = cstr ''a''
      \<and> take 2 (load_bytes (mem s') (process_memory_start (processes s' ! 3)) 512) = [0xCD, 0x33]
      \<and> mlfq_rel s' (mlfq_add 3 no_processes))) s"
  proof (rule wp_mono [OF wp_write_program [OF can]])
    fix r t
    assume "r = 0 \<and> fat16_ok t \<and> fs_same s t \<and> (\<exists>c. program (cstr ''a'' @ [0]) (disk t) c
      \<and> take (unat (2 :: u32)) (cluster_data (disk t) c) = take (unat (2 :: u32)) [0xCD, 0x33])"
    then obtain c where t: "fat16_ok t" "fs_same s t" "program (cstr ''a'' @ [0]) (disk t) c" "take 2 (cluster_data (disk t) c) = [0xCD, 0x33]"
      by auto
    have m: "fat16_state.more t = fat16_state.more sched_machine" using s above_frames(1) [OF t(2)] by (simp add: fs_created_def)
    have pg: "pmem_pages t = pmem_pages sched_machine" "2 \<le> card (pmem_pages t - used_pages t)"
      using s fs_same_pages [OF t(2)] sched_machine_files(3) by (auto simp: fs_created_def)
    have nm: "0 \<in> set (cstr ''a'' @ [0])" "c_string (cstr ''a'' @ [0]) = cstr ''a''" "length (cstr ''a'') = 1" by code_simp+
    show "wp (process_execve (cstr ''a'' @ [0])) (\<lambda>r s'. r = 1 \<and> p_state (processes s' ! 3) = RUNNABLE \<and> c_string (p_name (processes s' ! 3)) = cstr ''a''
      \<and> take 2 (load_bytes (mem s') (process_memory_start (processes s' ! 3)) 512) = [0xCD, 0x33]
      \<and> mlfq_rel s' (mlfq_add 3 no_processes)) t"
      by (rule wp_mono [OF execve_loads [OF t(1) _ _ nm(1) _ pg(2) _ t(3), of 3 no_processes]])
        (use sched_machine_files above_slots [OF m] above_files [OF m] pg(1) nm t(4) in \<open>auto simp: no_processes_def\<close>)
  qed simp_all
qed

text \<open>C11: the boot sequence ends with a program that can run: on a machine with a console, 1027 free pages
  and a free process record, initialising the file system, loading the starting files and executing
  \<open>test.bin\<close> succeeds, and the memory of the new, runnable process starts with the 54 bytes of the program.\<close>

theorem boot_runs_test_program:
  assumes "fat16_ready s" "0 \<notin> pmem_pages s" "1026 < card (pmem_pages s - used_pages s)" "free_pid s = Some pid" "slot_ready pid s"
    "mlfq_rel s A" "pid \<notin> set (concat (levels A))"
  shows "wp (kseq ramdisk_fat16_init (kbind fs_load_starting_files (\<lambda>_. process_execve (cstr ''test.bin'' @ [0]))))
    (\<lambda>r s'. r = 1 \<and> fat16_ok s' \<and> p_state (processes s' ! pid) = RUNNABLE \<and> c_string (p_name (processes s' ! pid)) = cstr ''test.bin''
      \<and> load_bytes (mem s') (process_memory_start (processes s' ! pid)) 54 = test_program
      \<and> mlfq_rel s' (mlfq_add pid A)) s"
  unfolding wp_kseq wp_kbind
proof (rule wp_mono [OF wp_fat16_init_frame [OF assms(1)]], rule wp_mono [OF wp_load_starting])
  fix x t
  assume t: "fat16_ok t \<and> formatted (disk t) \<and> fs_created s t"
  then show "can_write test_name t" by (simp add: formatted_can_write)
  fix r u
  assume "r = 0 \<and> fat16_ok u \<and> fs_same t u \<and> (\<exists>c. program test_name (disk u) c \<and> take 54 (cluster_data (disk u) c) = test_program)"
  then obtain c where u: "fat16_ok u" "fs_same t u" "program test_name (disk u) c" "take 54 (cluster_data (disk u) c) = test_program"
    by blast
  have m: "fat16_state.more u = fat16_state.more s" using t above_frames(1) [OF u(2)] by (simp add: fs_created_def)
  have pg: "pmem_pages u = pmem_pages s" "2 \<le> card (pmem_pages u - used_pages u)"
    using t fs_same_pages [OF u(2)] assms(3) by (auto simp: fs_created_def)
  have rdy: "free_pid u = Some pid" "slot_ready pid u" "0 \<notin> pmem_pages u" "mlfq_rel u A"
    using assms above_slots [OF m] above_files [OF m] pg(1) by simp_all
  have n: "length (p_name (processes u ! pid)) = 16" "pid < length (processes u)" using rdy(2) by (simp_all add: slot_ready_def)
  show "wp (process_execve test_name) (\<lambda>r s'. r = 1 \<and> fat16_ok s' \<and> p_state (processes s' ! pid) = RUNNABLE
      \<and> c_string (p_name (processes s' ! pid)) = cstr ''test.bin''
      \<and> load_bytes (mem s') (process_memory_start (processes s' ! pid)) 54 = test_program \<and> mlfq_rel s' (mlfq_add pid A)) u"
  proof (rule wp_execve [OF u(1) rdy(1,2) test_program_facts(4) pg(2) rdy(3) u(3) rdy(4) assms(7)])
    fix v
    assume v: "fat16_ok v" "loaded test_name pid (cluster_data (disk u) c) u v" "mlfq_rel v (mlfq_add pid A)"
    then obtain page where page: "processes v = (processes u)[pid := (started test_name page (processes u ! pid))\<lparr>p_state := RUNNABLE\<rparr>]"
      "load_bytes (mem v) page 512 = cluster_data (disk u) c" unfolding loaded_def by blast
    have "load_bytes (mem v) page 54 = take 54 (load_bytes (mem v) page 512)" by (simp add: load_bytes_def take_map)
    then have "load_bytes (mem v) page 54 = test_program" using page(2) u(4) by simp
    then show "1 = (1 :: u32) \<and> fat16_ok v \<and> p_state (processes v ! pid) = RUNNABLE \<and> c_string (p_name (processes v ! pid)) = cstr ''test.bin''
      \<and> load_bytes (mem v) (process_memory_start (processes v ! pid)) 54 = test_program \<and> mlfq_rel v (mlfq_add pid A)"
      using v page(1) n named_short(1) [OF n(1), of test_name] by (simp add: started_def test_program_facts)
  qed
qed

theorem boot_runs_test_program_witness:
  "wp (kseq ramdisk_fat16_init (kbind fs_load_starting_files (\<lambda>_. process_execve (cstr ''test.bin'' @ [0]))))
    (\<lambda>r s'. r = 1 \<and> fat16_ok s' \<and> p_state (processes s' ! 3) = RUNNABLE \<and> c_string (p_name (processes s' ! 3)) = cstr ''test.bin''
      \<and> load_bytes (mem s') (process_memory_start (processes s' ! 3)) 54 = test_program
      \<and> mlfq_rel s' (mlfq_add 3 no_processes)) sched_machine"
  by (rule boot_runs_test_program) (use sched_machine_files in \<open>simp_all add: no_processes_def\<close>)

lemma wp_execve_refused:
  assumes "fat16_ok s" "first_or_zero (root_match f (disk s)) [1..<32] = 0 \<or> free_pid s = None"
  shows "wp (process_execve f) (\<lambda>r t. r = 0 \<and> console_frame s t) s"
proof -
  let ?e = "first_or_zero (root_match f (disk s)) [1..<32]"
  show ?thesis
    unfolding process_execve_def fs_file_exists_def wp_kseq
    apply (rule wp_printf_frame [OF fat16_okD(4) [OF assms(1)]], simp)
    subgoal premises t for t
    proof -
      note ok = fs_print_frame [OF assms(1) t] and same = above_files(1) [OF above_frames(2) [OF t]]
      note print = wp_printf_frame [OF fat16_okD(4) [OF ok(1)]] and stay = console_frame_trans [OF t]
      have none: "process_get_next_free_pid t = Ok (- 1) t" if "free_pid s = None"
        using that same by (simp add: process_get_next_free_pid_def kernel_defs free_pid_def)
      have range: "?e \<noteq> 0 \<Longrightarrow> ?e < 32" using first_or_zero_range [of "root_match f (disk s)" "[1..<32]"] by auto
      show ?thesis
        unfolding wp_kbind
        apply (rule wp_file_exists [OF ok(1)])
        unfolding ok(3) wp_if wp_kbind wp_kseq
        apply (rule if_split [THEN iffD2], intro conjI impI)
        subgoal by (rule print) (use stay in simp_all)
        subgoal premises e
          apply (rule wpI, rule none)
          subgoal using e assms(2) by auto
          subgoal by (simp, rule print) (use stay in simp_all)
          done
        done
    qed
    done
qed

text \<open>C29: \<open>process_execve\<close> refuses a program that does not exist, and every program when all 63 records are
  taken: it returns 0, and process table, queues, pages and disk are as before.\<close>

theorem execve_refused:
  assumes "fat16_ok s" "first_or_zero (root_match f (disk s)) [1..<32] = 0 \<or> free_pid s = None"
  shows "wp (process_execve f) (\<lambda>r s'. r = 0 \<and> fat16_ok s' \<and> disk s' = disk s \<and> used_pages s' = used_pages s
    \<and> processes s' = processes s \<and> mlfq_rel s' A = mlfq_rel s A) s"
  using fs_print_frame [OF assms(1)] console_frameD(7) above_files [OF above_frames(2)]
  by (intro wp_mono [OF wp_execve_refused [OF assms]]) blast

theorem execve_refused_witness:
  "wp (kseq ramdisk_fat16_init (process_execve (cstr ''none'' @ [0]))) (\<lambda>r s'. r = 0 \<and> processes s' = processes sched_machine) sched_machine"
  unfolding wp_kseq
proof (rule wp_mono [OF wp_fat16_init_frame [OF sched_machine_files(1)]])
  fix x s
  assume s: "fat16_ok s \<and> formatted (disk s) \<and> fs_created sched_machine s"
  then have "first_or_zero (root_match (cstr ''none'' @ [0]) (disk s)) [1..<32] = 0" using formatted_can_write [of s] can_writeD(2) by blast
  moreover have "processes s = processes sched_machine" using s by (intro above_files) (simp add: fs_created_def)
  ultimately show "wp (process_execve (cstr ''none'' @ [0])) (\<lambda>r s'. r = 0 \<and> processes s' = processes sched_machine) s"
    using s by (intro wp_mono [OF execve_refused]) auto
qed

text \<open>C30: a program name of 16 or more characters damages the record: the terminator of the copied name
  lands in the low byte of the process number, so the process is numbered 0 like the idle process,
  and the name has no terminator.\<close>

theorem long_name_loses_pid:
  assumes "pmem_ok s" "slot_ready pid s" "p_pid (processes s ! pid) = of_nat pid" "0 \<in> set f" "16 \<le> length (c_string f)"
    "2 \<le> card (pmem_pages s - used_pages s)"
  shows "wp (process_init_process f pid) (\<lambda>_ s'. p_pid (processes s' ! pid) = 0 \<and> 0 \<notin> set (p_name (processes s' ! pid))) s"
proof (rule wp_init_process [OF assms(1,2,4,6)])
  fix page t
  have p: "pid < 64" "length (processes s) = 64" "length (p_name (processes s ! pid)) = 16" using assms(2) by (simp_all add: slot_ready_def)
  note n = named_long [OF p(3) assms(5)]
  have "0 \<notin> set (c_string f)" by (auto simp: c_string_def dest: set_takeWhileD)
  then have z: "0 \<notin> set (take 16 (c_string f))" by (meson in_set_takeD)
  have "pid \<in> set [0..<64]" using p(1) by simp
  moreover have "list_all (\<lambda>i. (of_nat i :: u32) AND NOT 0xFF = 0) [0..<64]" by code_simp
  ultimately have "(of_nat pid :: u32) AND NOT 0xFF = 0" by (simp only: list_all_iff)
  then show "p_pid (processes (t\<lparr>processes := (processes s)[pid := started f page (processes s ! pid)]\<rparr>) ! pid) = 0
    \<and> 0 \<notin> set (p_name (processes (t\<lparr>processes := (processes s)[pid := started f page (processes s ! pid)]\<rparr>) ! pid))"
    using p n z assms(3) by (simp add: started_def)
qed

theorem long_name_loses_pid_witness:
  "wp (process_init_process (replicate 16 65 @ [0]) 3) (\<lambda>_ s'. p_pid (processes s' ! 3) = 0 \<and> 0 \<notin> set (p_name (processes s' ! 3)))
    (sched_machine\<lparr>processes := replicate 64 (idle_process\<lparr>p_pid := 3\<rparr>)\<rparr>)"
proof (rule long_name_loses_pid)
  show "pmem_ok (sched_machine\<lparr>processes := replicate 64 (idle_process\<lparr>p_pid := 3\<rparr>)\<rparr>)"
    using sched_machine_files(1) stdio_okD(1) by (auto simp: fat16_ready_def)
  show "16 \<le> length (c_string (replicate 16 65 @ [0]))" by code_simp
qed (use sched_machine_files in \<open>simp_all add: slot_ready_def idle_process_def\<close>)

end
