(* ===== verification/Shell.thy ===== *)
theory Shell
  imports Tss Exec
begin

text \<open>
  The command shell (\<open>shell/shell.c\<close> and the commands under \<open>shell/\<close>). A command line is collected
  from the standard input, split in place into arguments, and dispatched. An argument is a pointer
  into the working buffer, represented by its offset; a command sees the bytes from there on.
  \<open>shell.c\<close> does not include the configuration header, so its debug output is off.
\<close>

section \<open>Commands\<close>

record shell_state = tss_state +
  command_buffer :: bytes
  working_buffer :: bytes
  command_buffer_ptr :: nat

definition sh_ls :: "nat \<Rightarrow> bytes list \<Rightarrow> ('z shell_state_scheme, u32) kM" where
  "sh_ls argc argv = kbind fs_list_files (\<lambda>_. kret 0)"

definition sh_write :: "nat \<Rightarrow> bytes list \<Rightarrow> ('z shell_state_scheme, u32) kM" where
  "sh_write argc argv =
     (if argc < 3 then
        kseq (printf (cstr ''write needs 2 arguments: filename and contents'') []) (kret (- 1))
      else (case strlen (argv ! 2) of None \<Rightarrow> (\<lambda>s. Undefined)
        | Some size_of_file \<Rightarrow>
            kbind (fs_file_write (argv ! 1) (Local (argv ! 2)) (of_nat size_of_file)) (\<lambda>_.
            kseq (printf (cstr ''Wrote file %s with %d bytes\<newline>'') [ArgStr (argv ! 1), ArgInt (of_nat size_of_file)])
                 (kret 0))))"

text \<open>The string at an address; \<open>None\<close> when there is no terminator anywhere and reading never ends.\<close>

partial_function (option) mem_string :: "memory \<Rightarrow> u32 \<Rightarrow> bytes option" where
  "mem_string m p = (if m p = 0 then Some [] else
     Option.bind (mem_string m (p + 1)) (\<lambda>cs. Some (m p # cs)))"

definition sh_read :: "nat \<Rightarrow> bytes list \<Rightarrow> ('z shell_state_scheme, u32) kM" where
  "sh_read argc argv =
     (if argc < 2 then
        kseq (printf (cstr ''read needs 1 argument: filename'') []) (kret (- 1))
      else
        kbind (malloc 4096) (\<lambda>file_buffer.
        kbind (fs_file_exists (argv ! 1)) (\<lambda>exists.
        if exists = 0 then
          kseq (printf (cstr ''file does not exist\<newline>'') []) (kret (- 1))
        else
          kbind (fs_file_read (argv ! 1) (Mem file_buffer) 0) (\<lambda>_.
          kbind (kget (\<lambda>s. mem_string (mem s) file_buffer)) (\<lambda>str.
          case str of None \<Rightarrow> khang
          | Some text \<Rightarrow>
              kseq (printf (cstr ''%s\<newline>'') [ArgStr (text @ [0])])
             (kseq (free file_buffer)
                   (kret 0)))))))"

definition sh_slabinfo :: "nat \<Rightarrow> bytes list \<Rightarrow> ('z shell_state_scheme, u32) kM" where
  "sh_slabinfo argc argv = kseq kmemlist (kret 0)"

definition sh_free :: "nat \<Rightarrow> bytes list \<Rightarrow> ('z shell_state_scheme, u32) kM" where
  "sh_free argc argv = kseq pmem_list_info (kret 0)"

definition sh_ps :: "nat \<Rightarrow> bytes list \<Rightarrow> ('z shell_state_scheme, u32) kM" where
  "sh_ps argc argv = kseq process_printlist (kret 0)"

definition sh_exec :: "nat \<Rightarrow> bytes list \<Rightarrow> ('z shell_state_scheme, u32) kM" where
  "sh_exec argc argv = kseq (printf (cstr ''not implemented yet.\<newline>'') []) (kret 0)"

definition sh_execbg :: "nat \<Rightarrow> bytes list \<Rightarrow> ('z shell_state_scheme, u32) kM" where
  "sh_execbg argc argv =
     (if argc < 2 then
        kseq (printf (cstr ''exec requires an argument\<newline>'') [])
       (kseq (printf (cstr ''Usage: exec filename\<newline>'') []) (kret 1))
      else
        kbind (process_execve (argv ! 1)) (\<lambda>_.
        kseq (printf (cstr ''not implemented yet.\<newline>'') []) (kret 0)))"

definition sh_sched :: "nat \<Rightarrow> bytes list \<Rightarrow> ('z shell_state_scheme, u32) kM" where
  "sh_sched argc argv = kseq sched_printinfo (kret 0)"

section \<open>The command line\<close>

abbreviation (input) "SHELL_MAX_ARGS \<equiv> (50 :: nat)"
abbreviation (input) "COMMAND_BUFFER_SIZE \<equiv> (1024 :: nat)"

definition shell_cmds :: "(string \<times> (nat \<Rightarrow> bytes list \<Rightarrow> ('z shell_state_scheme, u32) kM)) list" where
  "shell_cmds = [(''ls'', sh_ls), (''write'', sh_write), (''read'', sh_read), (''slabinfo'', sh_slabinfo), (''free'', sh_free),
     (''ps'', sh_ps), (''exec'', sh_exec), (''execbg'', sh_execbg), (''sched'', sh_sched)]"

definition shell_print_prefix :: "('z shell_state_scheme, unit) kM" where
  "shell_print_prefix = printf (cstr ''shell# '') []"

text \<open>The local variables of the splitting loop, and one iteration.\<close>

record parse_state =
  work :: bytes
  c_argv :: "nat list"
  insideDQuoteState :: bool
  newStringState :: bool

definition parse_step :: "nat \<Rightarrow> parse_state \<Rightarrow> parse_state option" where
  "parse_step i st =
     (if work st ! i = 0x27 then Some (st\<lparr>insideDQuoteState := \<not> insideDQuoteState st\<rparr>)
      else if work st ! i = 0x20 then
        Some (if insideDQuoteState st then st
              else st\<lparr>work := (work st)[i := 0], newStringState := True\<rparr>)
      else if newStringState st then
        if length (c_argv st) < SHELL_MAX_ARGS
        then Some (st\<lparr>c_argv := c_argv st @ [i], newStringState := False\<rparr>) else None
      else Some st)"

primrec parse_loop :: "nat list \<Rightarrow> parse_state \<Rightarrow> parse_state option" where
  "parse_loop [] st = Some st"
| "parse_loop (i # is) st = (case parse_step i st of None \<Rightarrow> None | Some st' \<Rightarrow> parse_loop is st')"

definition split_line :: "bytes \<Rightarrow> nat \<Rightarrow> parse_state option" where
  "split_line buf cstr_len = parse_loop [0..<cstr_len]
     \<lparr>work = buf, c_argv = [0], insideDQuoteState = False, newStringState = False\<rparr>"

definition arguments :: "parse_state \<Rightarrow> bytes list" where
  "arguments st = map (\<lambda>k. drop k (work st)) (c_argv st)"

text \<open>The search for the command, and the message when there is none.\<close>

primrec run_command ::
  "(string \<times> (nat \<Rightarrow> bytes list \<Rightarrow> ('z shell_state_scheme, u32) kM)) list \<Rightarrow> bytes list \<Rightarrow> ('z shell_state_scheme, unit) kM" where
  "run_command [] argv = kbind (kget command_buffer) (\<lambda>buf. printf (cstr ''unknown command: %s \<newline>'') [ArgStr buf])"
| "run_command (c # cs) argv =
     (case strcmp (argv ! 0) (cstr (fst c) @ [0]) of None \<Rightarrow> (\<lambda>s. Undefined)
      | Some d \<Rightarrow> if d = 0 then kbind (snd c (length argv) argv) (\<lambda>_. kret ()) else run_command cs argv)"

definition shell_execute_command :: "('z shell_state_scheme, unit) kM" where
  "shell_execute_command =
     kbind (kget (\<lambda>s. (strlen (command_buffer s), memcpy (working_buffer s) (command_buffer s) COMMAND_BUFFER_SIZE))) (\<lambda>(len, copy).
     case (len, copy) of (Some cstr_len, Some buf) \<Rightarrow>
         (case split_line buf cstr_len of None \<Rightarrow> (\<lambda>s. Undefined)
          | Some st \<Rightarrow>
              kseq (kmod (\<lambda>s. s\<lparr>working_buffer := work st\<rparr>))
             (kseq (printf (cstr ''\<newline>'') [])
             (kseq (run_command shell_cmds (arguments st))
             (kseq shell_print_prefix
                   (kmod (\<lambda>s. s\<lparr>command_buffer_ptr := 0\<rparr>))))))
     | _ \<Rightarrow> (\<lambda>s. Undefined))"

definition shell_init :: "('z shell_state_scheme, unit) kM" where
  "shell_init =
     kseq (printf (cstr ''Koiz-OS v1.0 \<newline>'') [])
    (kseq (printf (cstr ''Number of commands: %d\<newline>'') [ArgInt 9])
          shell_print_prefix)"

definition put_command_char :: "u8 \<Rightarrow> ('z shell_state_scheme, unit) kM" where
  "put_command_char c =
     kbind (kget command_buffer_ptr) (\<lambda>p.
     kseq (kguard (p < COMMAND_BUFFER_SIZE))
          (kmod (\<lambda>s. s\<lparr>command_buffer := (command_buffer s)[p := c], command_buffer_ptr := p + 1\<rparr>)))"

text \<open>
  The loop over the waiting input. The input buffer holds at most 4095 characters and no command puts
  one there, so the loop ends after at most 4096 reads.
\<close>

primrec shell_loop :: "nat \<Rightarrow> ('z shell_state_scheme, unit) kM" where
  "shell_loop 0 = khang"
| "shell_loop (Suc fuel) =
     kbind stdlib_pop_stdio_input_char (\<lambda>next_char.
     if next_char = 0 then kret ()
     else if next_char = 0xA then
       kseq (put_command_char 0) (kseq shell_execute_command (shell_loop fuel))
     else
       kseq (put_command_char next_char)
      (kseq (printf (cstr ''%c'') [ArgInt (scast next_char)])
            (shell_loop fuel)))"

definition shell_update :: "('z shell_state_scheme, unit) kM" where
  "shell_update = shell_loop 4096"

section \<open>Splitting a line\<close>

text \<open>The reference: the first argument is everything up to the first blank, then come the words.\<close>

function words :: "bytes \<Rightarrow> bytes list" where
  "words [] = []"
| "words (c # cs) = (if c = 0x20 then words cs else takeWhile (\<lambda>x. x \<noteq> 0x20) (c # cs) # words (dropWhile (\<lambda>x. x \<noteq> 0x20) cs))"
  by pat_completeness auto
termination by (relation "measure length") (auto simp: le_imp_less_Suc length_dropWhile_le)

definition line_arguments :: "bytes \<Rightarrow> bytes list" where
  "line_arguments line = takeWhile (\<lambda>x. x \<noteq> 0x20) line # words (dropWhile (\<lambda>x. x \<noteq> 0x20) line)"

text \<open>The words that start in a list of characters, when it follows a blank or not.\<close>

primrec words_after :: "bool \<Rightarrow> bytes \<Rightarrow> bytes list" where
  "words_after b [] = []"
| "words_after b (c # cs) = (if c \<noteq> 0x20 \<and> b then [takeWhile (\<lambda>x. x \<noteq> 0x20) (c # cs)] else []) @ words_after (c = 0x20) cs"

lemma words_after_words: "words_after b xs = words (if b then xs else dropWhile (\<lambda>x. x \<noteq> 0x20) xs)"
  by (induction xs arbitrary: b) (auto simp del: takeWhile.simps)

definition word_starts :: "bytes \<Rightarrow> nat \<Rightarrow> bool" where
  "word_starts line i \<longleftrightarrow> line ! i \<noteq> 0x20 \<and> 0 < i \<and> line ! (i - 1) = 0x20"

lemma starts_words:
  assumes "k \<le> length line"
  shows "map (\<lambda>i. takeWhile (\<lambda>x. x \<noteq> 0x20) (drop i line)) (filter (word_starts line) [k..<length line])
    = words_after (0 < k \<and> line ! (k - 1) = 0x20) (drop k line)"
  using assms
proof (induction "length line - k" arbitrary: k)
  case (Suc d)
  then have k: "k < length line" by simp
  have IH: "map (\<lambda>i. takeWhile (\<lambda>x. x \<noteq> 0x20) (drop i line)) (filter (word_starts line) [Suc k..<length line])
    = words_after (line ! k = 0x20) (drop (Suc k) line)" using Suc.hyps(1) [of "Suc k"] Suc.hyps(2) k by simp
  have w: "words_after b (drop k line) = (if line ! k \<noteq> 0x20 \<and> b then [takeWhile (\<lambda>x. x \<noteq> 0x20) (drop k line)] else [])
      @ words_after (line ! k = 0x20) (drop (Suc k) line)" for b
    using words_after.simps(2) [of b "line ! k" "drop (Suc k) line"] unfolding Cons_nth_drop_Suc [OF k] .
  show ?case
    unfolding upt_conv_Cons [OF k] w using IH by (auto simp: word_starts_def)
qed simp

text \<open>The state of the loop after the first \<open>k\<close> characters of a line without quotes.\<close>

definition blanked :: "bytes \<Rightarrow> bytes" where
  "blanked line = map (\<lambda>c. if c = 0x20 then 0 else c) line"

definition parsed :: "bytes \<Rightarrow> bytes \<Rightarrow> nat \<Rightarrow> parse_state" where
  "parsed line tail k = \<lparr>work = blanked (take k line) @ drop k line @ tail, c_argv = 0 # filter (word_starts line) [0..<k],
     insideDQuoteState = False, newStringState = (0 < k \<and> line ! (k - 1) = 0x20)\<rparr>"

lemma parse_loop_append: "parse_loop (xs @ ys) st = (case parse_loop xs st of None \<Rightarrow> None | Some st' \<Rightarrow> parse_loop ys st')"
  by (induction xs arbitrary: st) (auto split: option.splits)

lemma parse_prefix:
  assumes "0x27 \<notin> set line" "length (line_arguments line) \<le> 50" "k \<le> length line"
  shows "parse_loop [0..<k] (parsed line tail 0) = Some (parsed line tail k)"
  using assms(3)
proof (induction k)
  case (Suc k)
  then have k: "k < length line" by simp
  have q: "line ! k \<noteq> 0x27" using assms(1) nth_mem [OF k] by metis
  have at: "work (parsed line tail k) ! k = line ! k" using k by (simp add: parsed_def blanked_def nth_append)
  have upd: "(blanked (take k line) @ drop k line @ tail)[k := 0] = blanked (take k line) @ 0 # drop (Suc k) line @ tail"
    using k Cons_nth_drop_Suc [OF k, symmetric] by (simp add: blanked_def list_update_append)
  have tk: "blanked (take (Suc k) line) = blanked (take k line) @ [if line ! k = 0x20 then 0 else line ! k]"
    using k by (simp add: blanked_def take_Suc_conv_app_nth)
  have room: "length (c_argv (parsed line tail k)) < 50" if "word_starts line k"
  proof -
    have "length (filter (word_starts line) [0..<Suc k]) \<le> length (filter (word_starts line) [0..<length line])"
    proof -
      have n: "Suc k + (length line - Suc k) = length line" using k by simp
      have "[0..<length line] = [0..<Suc k] @ [Suc k..<length line]"
        by (rule upt_add_eq_append [of 0 "Suc k" "length line - Suc k", unfolded n]) simp
      then show ?thesis by simp
    qed
    also have "\<dots> = length (words_after False line)" using arg_cong [OF starts_words [of 0 line], of length] by simp
    also have "\<dots> < 50" using assms(2) by (simp add: line_arguments_def words_after_words)
    finally show ?thesis using that by (simp add: parsed_def)
  qed
  have "parse_step k (parsed line tail k) = Some (parsed line tail (Suc k))"
    using q at room upd tk Cons_nth_drop_Suc [OF k, symmetric]
    by (auto simp: parse_step_def) (auto simp: parsed_def word_starts_def)
  then show ?case using Suc by (simp add: parse_loop_append)
qed simp

lemma split_line_eq:
  assumes "0 \<notin> set line" "0x27 \<notin> set line" "length (line_arguments line) \<le> 50"
  shows "\<exists>st. split_line (line @ 0 # rest) (length line) = Some st \<and> map c_string (arguments st) = line_arguments line
    \<and> (\<forall>a \<in> set (arguments st). 0 \<in> set a) \<and> length (work st) = Suc (length line + length rest)"
proof (intro exI conjI)
  let ?st = "parsed line (0 # rest) (length line)"
  have "parsed line (0 # rest) 0 = \<lparr>work = line @ 0 # rest, c_argv = [0], insideDQuoteState = False, newStringState = False\<rparr>"
    by (simp add: parsed_def blanked_def)
  then show "split_line (line @ 0 # rest) (length line) = Some ?st"
    using parse_prefix [OF assms(2,3), of "length line" "0 # rest"] by (simp add: split_line_def)
  have w: "work ?st = blanked line @ 0 # rest" by (simp add: parsed_def)
  have cut: "c_string (blanked xs @ 0 # rest) = takeWhile (\<lambda>x. x \<noteq> 0x20) xs" if "0 \<notin> set xs" for xs
    using that by (induction xs) (auto simp: c_string_def blanked_def)
  have arg: "c_string (drop i (work ?st)) = takeWhile (\<lambda>x. x \<noteq> 0x20) (drop i line)" if "i \<le> length line" for i
  proof -
    have "drop i (work ?st) = blanked (drop i line) @ 0 # rest" using that by (simp add: w blanked_def drop_map)
    moreover have "0 \<notin> set (drop i line)" using assms(1) by (meson in_set_dropD)
    ultimately show ?thesis by (simp add: cut)
  qed
  have idx: "i \<le> length line" if "i \<in> set (c_argv ?st)" for i using that by (auto simp: parsed_def)
  have "map c_string (arguments ?st) = map (\<lambda>i. takeWhile (\<lambda>x. x \<noteq> 0x20) (drop i line)) (c_argv ?st)"
    using arg idx by (simp add: arguments_def)
  also have "\<dots> = line_arguments line"
    using starts_words [of 0 line] by (simp add: parsed_def line_arguments_def words_after_words)
  finally show "map c_string (arguments ?st) = line_arguments line" .
  have "0 \<in> set (drop i (work ?st))" if "i \<le> length line" for i
    using that by (simp add: w blanked_def)
  then show "\<forall>a \<in> set (arguments ?st). 0 \<in> set a" using idx by (auto simp: arguments_def)
  show "length (work ?st) = Suc (length line + length rest)" by (simp add: w blanked_def)
qed

section \<open>What typing leaves alone\<close>

definition shell_ok :: "'z shell_state_scheme \<Rightarrow> bool" where
  "shell_ok s \<longleftrightarrow> fat16_ok s \<and> length (command_buffer s) = 1024 \<and> length (working_buffer s) = 1024"

definition shell_same :: "'z shell_state_scheme \<Rightarrow> 'z shell_state_scheme \<Rightarrow> bool" where
  "shell_same s s' \<longleftrightarrow> disk s' = disk s \<and> pmem_pages s' = pmem_pages s \<and> used_pages s' = used_pages s
     \<and> processes s' = processes s \<and> (\<forall>A. mlfq_rel s' A = mlfq_rel s A)
     \<and> is_init (std_input_buf s') = is_init (std_input_buf s) \<and> shell_state.more s' = shell_state.more s
     \<and> paging s' = paging s \<and> kept {} s s'"

lemma shell_same_refl: "shell_same s s"
  by (simp add: shell_same_def kept_def)

lemma shell_same_trans: "shell_same s t \<Longrightarrow> shell_same t u \<Longrightarrow> shell_same s u"
  using kept_trans [of "{}" s t "{}" u] by (simp add: shell_same_def)

lemma shell_fields [simp]:
  "fat16_ok (s\<lparr>command_buffer := x\<rparr>) = fat16_ok s" "fat16_ok (s\<lparr>working_buffer := x\<rparr>) = fat16_ok s"
  "fat16_ok (s\<lparr>command_buffer_ptr := n\<rparr>) = fat16_ok s"
  "stream i (s\<lparr>command_buffer := x\<rparr>) = stream i s" "stream i (s\<lparr>working_buffer := x\<rparr>) = stream i s"
  "stream i (s\<lparr>command_buffer_ptr := n\<rparr>) = stream i s"
  by (rule fat16_cong stdio_cong; simp add: fat16_state.truncate_def stdio_state.truncate_def)+

lemma shell_same_fields:
  "shell_same s (s\<lparr>command_buffer := x\<rparr>)" "shell_same s (s\<lparr>working_buffer := x\<rparr>)" "shell_same s (s\<lparr>command_buffer_ptr := n\<rparr>)"
proof -
  note c = fat16_cong(2,3) [of "s\<lparr>command_buffer := x\<rparr>" s] fat16_cong(2,3) [of "s\<lparr>working_buffer := x\<rparr>" s] fat16_cong(2,3) [of "s\<lparr>command_buffer_ptr := n\<rparr>" s]
    stdio_cong(2,3) [of "s\<lparr>command_buffer := x\<rparr>" s] stdio_cong(2,3) [of "s\<lparr>working_buffer := x\<rparr>" s] stdio_cong(2,3) [of "s\<lparr>command_buffer_ptr := n\<rparr>" s]
  show "shell_same s (s\<lparr>command_buffer := x\<rparr>)" "shell_same s (s\<lparr>working_buffer := x\<rparr>)" "shell_same s (s\<lparr>command_buffer_ptr := n\<rparr>)"
    using c by (simp_all add: shell_same_def kept_def paging_def mlfq_rel_def queues_rel_def fat16_state.truncate_def stdio_state.truncate_def)
qed

lemma shell_frame:
  assumes "fat16_ok s" "console_frame s t"
  shows "fat16_ok t" "shell_same s t" "command_buffer t = command_buffer s" "working_buffer t = working_buffer s"
    "command_buffer_ptr t = command_buffer_ptr s" "stream StdInput t = stream StdInput s"
proof -
  note f = fs_print_frame [OF assms] and c = console_frameD [OF assms(2)]
  show "fat16_ok t" by (rule f)
  have "is_init (std_input_buf t) = is_init (std_input_buf s)" "shell_state.more t = shell_state.more s" "paging t = paging s"
    using assms(2) unfolding console_frame_def by (auto simp: paging_def)
  then show "shell_same s t"
    using f(3) c(6,7) above_files [OF above_frames(2) [OF assms(2)]] kept_frame [OF assms] by (simp add: shell_same_def)
  show "command_buffer t = command_buffer s" "working_buffer t = working_buffer s" "command_buffer_ptr t = command_buffer_ptr s"
    using assms(2) unfolding console_frame_def by auto
  show "stream StdInput t = stream StdInput s" by (rule c(8))
qed

lemma wp_shell_print:
  assumes "fat16_ok s" "render format args \<noteq> None"
    and "\<And>t. fat16_ok t \<Longrightarrow> shell_same s t \<Longrightarrow> command_buffer t = command_buffer s \<Longrightarrow> working_buffer t = working_buffer s \<Longrightarrow>
      command_buffer_ptr t = command_buffer_ptr s \<Longrightarrow> stream StdInput t = stream StdInput s \<Longrightarrow> Q () t"
  shows "wp (printf (cstr format) args) Q s"
  by (rule wp_printf_frame [OF fat16_okD(4) [OF assms(1)] assms(2)], rule assms(3))
    (rule shell_frame [OF assms(1)], assumption)+

text \<open>Taking a character from the input.\<close>

lemma input_fields [simp]:
  "pmem_ok (s\<lparr>std_input_buf := b\<rparr>) = pmem_ok s" "pmem_pages (s\<lparr>std_input_buf := b\<rparr>) = pmem_pages s"
  "used_pages (s\<lparr>std_input_buf := b\<rparr>) = used_pages s"
  by (simp_all add: pmem_ok_def pmem_pages_def used_pages_def pmem_used_def entry_used_def record_addr_def
      entry_addr_def [abs_def] pmem_blocks_def)

lemma shell_same_input:
  assumes "is_init b = is_init (std_input_buf s)" "b_addr b = b_addr (std_input_buf s)"
  shows "shell_same s (s\<lparr>std_input_buf := b\<rparr>)"
proof -
  have "is_init (std_buf i (s\<lparr>std_input_buf := b\<rparr>)) = is_init (std_buf i s)"
    "b_addr (std_buf i (s\<lparr>std_input_buf := b\<rparr>)) = b_addr (std_buf i s)" for i using assms by (cases i; simp)+
  then have "private_page p (s\<lparr>std_input_buf := b\<rparr>) = private_page p s" for p
    by (simp add: private_page_def disk_pages_def disk_table_def disk_blocks_def)
  then show ?thesis
    using assms(1) by (simp add: shell_same_def kept_def paging_def disk_def disk_addr_def disk_table_def disk_blocks_def mlfq_rel_def queues_rel_def)
qed

lemma input_pop:
  assumes "fat16_ok s" "stream StdInput s = c # cs"
  obtains b where "stdlib_pop_stdio_input_char s = Ok c (s\<lparr>std_input_buf := b\<rparr>)" "stream StdInput (s\<lparr>std_input_buf := b\<rparr>) = cs"
    "fat16_ok (s\<lparr>std_input_buf := b\<rparr>)" "is_init b = is_init (std_input_buf s)" "b_addr b = b_addr (std_input_buf s)"
proof -
  let ?b = "std_input_buf s"
  let ?c = "?b\<lparr>tail_ptr := (tail_ptr ?b + 1) mod b_size ?b\<rparr>"
  let ?t = "s\<lparr>std_input_buf := ?c\<rparr>"
  note d = fat16_okD [OF assms(1)]
  have init: "is_init ?b" using assms(2) by (simp add: stream_def split: if_splits)
  have ne: "head_ptr ?b \<noteq> tail_ptr ?b"
  proof
    assume "head_ptr ?b = tail_ptr ?b"
    then have "buf_contents (mem s) ?b = []" using buf_ok_ready(1) [OF d(2), of StdInput] init by (simp add: buf_contents_empty)
    then show False using assms(2) init by (simp add: stream_def)
  qed
  have run: "io_buffer_pop StdInput s = Ok (mem s (b_addr ?b + of_nat (tail_ptr ?b))) ?t"
    using init ne by (simp add: io_buffer_pop_eq)
  then have pop: "stdio_ok ?t" "mem s (b_addr ?b + of_nat (tail_ptr ?b)) = c" "stream StdInput ?t = cs"
    using pop_stream [OF d(2), of StdInput] assms(2) by (simp_all add: wp_def)
  have run2: "stdlib_pop_stdio_input_char s = Ok c ?t"
    using run pop(2) init pmem_okD(1) [OF stdio_okD(1) [OF d(2)]]
    by (simp add: stdlib_pop_stdio_input_char_def pmem_isinit_def kernel_defs)
  have tab: "disk_table ?t = disk_table s" by (simp add: disk_table_def disk_blocks_def)
  then have pg: "disk_pages ?t = disk_pages s" "disk ?t = disk s" by (simp_all add: disk_pages_def disk_def disk_addr_def disk_blocks_def)
  have "ramdisk_ok ?t" using d(1) tab pg by (simp add: ramdisk_ok_def disk_blocks_def)
  moreover have "is_init (std_buf i ?t) = is_init (std_buf i s)" "b_addr (std_buf i ?t) = b_addr (std_buf i s)" for i
    by (cases i; simp)+
  ultimately have "fat16_ok ?t" using assms(1) pop(1) pg by (simp add: fat16_ok_def)
  with run2 show thesis using that [of ?c] pop(3) by simp
qed

section \<open>Reading a line\<close>

lemma wp_put_command:
  assumes "shell_ok s" "command_buffer_ptr s < 1024"
    and "\<And>t. shell_ok t \<Longrightarrow> shell_same s t \<Longrightarrow> stream StdInput t = stream StdInput s \<Longrightarrow>
      command_buffer t = (command_buffer s)[command_buffer_ptr s := c] \<Longrightarrow> command_buffer_ptr t = command_buffer_ptr s + 1 \<Longrightarrow> Q () t"
  shows "wp (put_command_char c) Q s"
proof -
  let ?t = "s\<lparr>command_buffer := (command_buffer s)[command_buffer_ptr s := c], command_buffer_ptr := command_buffer_ptr s + 1\<rparr>"
  have "shell_same s ?t" by (rule shell_same_trans [OF shell_same_fields(1) shell_same_fields(3)])
  then have "Q () ?t" using assms(1) by (intro assms(3)) (simp_all add: shell_ok_def)
  then show ?thesis using assms(2) by (simp add: put_command_char_def)
qed

lemma wp_shell_pop:
  assumes "shell_ok s" "stream StdInput s = c # cs"
    and "\<And>t. shell_ok t \<Longrightarrow> shell_same s t \<Longrightarrow> stream StdInput t = cs \<Longrightarrow> command_buffer t = command_buffer s \<Longrightarrow>
      command_buffer_ptr t = command_buffer_ptr s \<Longrightarrow> Q c t"
  shows "wp stdlib_pop_stdio_input_char Q s"
proof -
  have ok: "fat16_ok s" using assms(1) by (simp add: shell_ok_def)
  obtain b where b: "stdlib_pop_stdio_input_char s = Ok c (s\<lparr>std_input_buf := b\<rparr>)" "stream StdInput (s\<lparr>std_input_buf := b\<rparr>) = cs"
    "fat16_ok (s\<lparr>std_input_buf := b\<rparr>)" "is_init b = is_init (std_input_buf s)" "b_addr b = b_addr (std_input_buf s)"
    by (rule input_pop [OF ok assms(2)])
  have "Q c (s\<lparr>std_input_buf := b\<rparr>)"
    using b(2,3) assms(1) shell_same_input [OF b(4,5)] by (intro assms(3)) (simp_all add: shell_ok_def)
  then show ?thesis by - (rule wpI, rule b(1))
qed

lemma wp_shell_chars:
  assumes "shell_ok s" "stream StdInput s = cs @ rest" "0 \<notin> set cs" "0xA \<notin> set cs" "command_buffer_ptr s + length cs \<le> 1024"
    and "\<And>t. shell_ok t \<Longrightarrow> shell_same s t \<Longrightarrow> stream StdInput t = rest \<Longrightarrow>
      command_buffer t = take (command_buffer_ptr s) (command_buffer s) @ cs @ drop (command_buffer_ptr s + length cs) (command_buffer s) \<Longrightarrow>
      command_buffer_ptr t = command_buffer_ptr s + length cs \<Longrightarrow> wp (shell_loop fuel) Q t"
  shows "wp (shell_loop (length cs + fuel)) Q s"
  using assms
proof (induction cs arbitrary: s)
  case Nil
  have "wp (shell_loop fuel) Q s" using Nil.prems(1,2) shell_same_refl by (intro Nil.prems(6)) simp_all
  then show ?case by simp
next
  case (Cons c cs)
  let ?p = "command_buffer_ptr s" and ?B = "command_buffer s"
  have p: "?p < 1024" "length ?B = 1024" using Cons.prems(1,5) by (simp_all add: shell_ok_def)
  have c: "c \<noteq> 0" "c \<noteq> 0xA" using Cons.prems(3,4) by auto
  have pop: "stream StdInput s = c # (cs @ rest)" using Cons.prems(2) by simp
  show ?case
    unfolding list.size add_Suc_right add_Suc shell_loop.simps wp_kbind Nat.add_0_right
    apply (rule wp_shell_pop [OF Cons.prems(1) pop])
    subgoal premises t for t
    proof -
      have pt: "command_buffer_ptr t < 1024" using t(5) p(1) by simp
      show ?thesis
        unfolding if_not_P [OF c(1)] if_not_P [OF c(2)] wp_kseq
        apply (rule wp_put_command [OF t(1) pt])
        subgoal premises u for u
          apply (rule wp_shell_print)
          subgoal using u(1) by (simp add: shell_ok_def)
          subgoal by simp
          subgoal premises v for v
          proof (rule Cons.IH)
            have B: "command_buffer v = ?B[?p := c]" and q: "command_buffer_ptr v = ?p + 1"
              using t(4,5) u(4,5) v(3,5) by simp_all
            have sv: "shell_same s v" using shell_same_trans [OF shell_same_trans [OF t(2) u(2)] v(2)] .
            show "shell_ok v" using u(1) v(1,3,4) by (simp add: shell_ok_def)
            show "stream StdInput v = cs @ rest" using t(3) u(3) v(6) by simp
            show "0 \<notin> set cs" "0xA \<notin> set cs" "command_buffer_ptr v + length cs \<le> 1024" using Cons.prems(3-5) q by simp_all
            fix w
            assume w: "shell_ok w" "shell_same v w" "stream StdInput w = rest"
              "command_buffer w = take (command_buffer_ptr v) (command_buffer v) @ cs @ drop (command_buffer_ptr v + length cs) (command_buffer v)"
              "command_buffer_ptr w = command_buffer_ptr v + length cs"
            have "take (?p + 1) (?B[?p := c]) = take ?p ?B @ [c]" using p by (simp add: take_Suc_conv_app_nth)
            then show "wp (shell_loop fuel) Q w"
              using w q B shell_same_trans [OF sv w(2)] by (intro Cons.prems(6)) simp_all
          qed
          done
        done
    qed
    done
qed

lemma wp_shell_enter:
  assumes "shell_ok s" "stream StdInput s = 0xA # rest" "command_buffer_ptr s < 1024"
    and "\<And>t. shell_ok t \<Longrightarrow> shell_same s t \<Longrightarrow> stream StdInput t = rest \<Longrightarrow>
      command_buffer t = (command_buffer s)[command_buffer_ptr s := 0] \<Longrightarrow> wp shell_execute_command (\<lambda>_. wp (shell_loop fuel) Q) t"
  shows "wp (shell_loop (Suc fuel)) Q s"
proof -
  have nz: "(0xA :: u8) \<noteq> 0" by simp
  show ?thesis
    unfolding shell_loop.simps wp_kbind
    apply (rule wp_shell_pop [OF assms(1,2)])
    unfolding if_not_P [OF nz] if_P [OF refl] wp_kseq
    subgoal premises t for t
    proof -
      have pt: "command_buffer_ptr t < 1024" using t(5) assms(3) by simp
      show ?thesis
        by (rule wp_put_command [OF t(1) pt], rule assms(4))
          (use t shell_same_trans [OF t(2)] in simp_all)
    qed
    done
qed

section \<open>Running a command\<close>

lemma run_command_find:
  assumes "0 \<in> set (argv ! 0)" "find (\<lambda>c. cstr (fst c) = c_string (argv ! 0)) cs = Some c" "\<forall>c \<in> set cs. 0 \<notin> set (cstr (fst c))"
  shows "run_command cs argv = kbind (snd c (length argv) argv) (\<lambda>_. kret ())"
  using assms(2,3)
proof (induction cs)
  case (Cons x cs)
  have z: "c_string (cstr (fst x) @ [0]) = cstr (fst x)" using Cons.prems(2) c_string_append [of "cstr (fst x)" "[]"] by simp
  obtain d where d: "strcmp (argv ! 0) (cstr (fst x) @ [0]) = Some d" "d = 0 \<longleftrightarrow> c_string (argv ! 0) = cstr (fst x)"
    using strcmp_zero_iff [OF assms(1), of "cstr (fst x) @ [0]"] z by auto
  show ?case using d Cons by (auto split: if_splits)
qed simp

lemma run_command_none:
  assumes "0 \<in> set (argv ! 0)" "\<forall>c \<in> set cs. cstr (fst c) \<noteq> c_string (argv ! 0) \<and> 0 \<notin> set (cstr (fst c))"
  shows "run_command cs argv = kbind (kget command_buffer) (\<lambda>buf. printf (cstr ''unknown command: %s \<newline>'') [ArgStr buf])"
  using assms(2)
proof (induction cs)
  case (Cons x cs)
  have z: "c_string (cstr (fst x) @ [0]) = cstr (fst x)" using Cons.prems c_string_append [of "cstr (fst x)" "[]"] by simp
  obtain d where d: "strcmp (argv ! 0) (cstr (fst x) @ [0]) = Some d" "d = 0 \<longleftrightarrow> c_string (argv ! 0) = cstr (fst x)"
    using strcmp_zero_iff [OF assms(1), of "cstr (fst x) @ [0]"] z by auto
  show ?case using d Cons by auto
qed simp

lemma wp_execute:
  assumes "shell_ok s" "command_buffer s = line @ 0 # rest" "0 \<notin> set line" "0x27 \<notin> set line" "length (line_arguments line) \<le> 50"
    and run: "\<And>argv t. map c_string argv = line_arguments line \<Longrightarrow> (\<forall>a \<in> set argv. 0 \<in> set a) \<Longrightarrow> shell_ok t \<Longrightarrow> shell_same s t \<Longrightarrow>
      stream StdInput t = stream StdInput s \<Longrightarrow>
      wp (run_command shell_cmds argv) (\<lambda>_ u. shell_ok u \<and> stream StdInput u = stream StdInput s \<and> R u) t"
    and R: "\<And>u v. shell_ok u \<Longrightarrow> R u \<Longrightarrow> shell_ok v \<Longrightarrow> shell_same u v \<Longrightarrow> R v"
    and Q: "\<And>u. shell_ok u \<Longrightarrow> stream StdInput u = stream StdInput s \<Longrightarrow> command_buffer_ptr u = 0 \<Longrightarrow> R u \<Longrightarrow> Q () u"
  shows "wp shell_execute_command Q s"
proof -
  have len: "length (command_buffer s) = 1024" "length (working_buffer s) = 1024" "fat16_ok s" using assms(1) by (simp_all add: shell_ok_def)
  have "c_string (command_buffer s) = line" using assms(2,3) by (simp add: c_string_append)
  then have sl: "strlen (command_buffer s) = Some (length line)" using strlen_Some [of "command_buffer s"] assms(2) by simp
  have mc: "memcpy (working_buffer s) (command_buffer s) 1024 = Some (line @ 0 # rest)"
    using memcpy_eq [of 1024 "working_buffer s" "command_buffer s"] len assms(2) by simp
  obtain st where st: "split_line (line @ 0 # rest) (length line) = Some st" "map c_string (arguments st) = line_arguments line"
    "\<forall>a \<in> set (arguments st). 0 \<in> set a" "length (work st) = Suc (length line + length rest)"
    using split_line_eq [OF assms(3-5)] by blast
  let ?s = "s\<lparr>working_buffer := work st\<rparr>"
  have s': "shell_ok ?s" "fat16_ok ?s" using assms(1,2) st(4) len(1) by (simp_all add: shell_ok_def)
  show ?thesis
    unfolding shell_execute_command_def shell_print_prefix_def wp_kbind wp_kget prod.case sl mc option.case st(1) wp_kseq wp_kmod
    apply (rule wp_shell_print [OF s'(2)], simp)
    subgoal premises t for t
    proof -
      have ok: "shell_ok t" using t(1,3,4) s'(1) by (simp add: shell_ok_def)
      have same: "shell_same s t" using shell_same_trans [OF shell_same_fields(2) t(2)] .
      show ?thesis
        apply (rule wp_mono [OF run [OF st(2,3) ok same]])
        subgoal using t(6) by simp
        subgoal premises u for x u
          apply (rule wp_shell_print)
          subgoal using u by (simp add: shell_ok_def)
          subgoal by simp
          subgoal premises v for v
          proof -
            have okv: "shell_ok v" using u v(1,3,4) by (simp add: shell_ok_def)
            let ?v = "v\<lparr>command_buffer_ptr := 0\<rparr>"
            have "shell_ok ?v" using okv by (simp add: shell_ok_def)
            moreover from this have "R ?v" using R u shell_same_trans [OF v(2) shell_same_fields(3)] by blast
            ultimately show ?thesis using u v(6) by (intro Q) simp_all
          qed
          done
        done
    qed
    done
qed

lemma cmd_names: "\<forall>c \<in> set shell_cmds. 0 \<notin> set (cstr (fst c))"
  by (simp add: shell_cmds_def cstr_def)

definition command_names :: "bytes set" where
  "command_names = cstr ` {''ls'', ''write'', ''read'', ''slabinfo'', ''free'', ''ps'', ''exec'', ''execbg'', ''sched''}"

lemma wp_run_unknown:
  assumes "map c_string argv = line_arguments line" "\<forall>a \<in> set argv. 0 \<in> set a" "line_arguments line ! 0 \<notin> command_names" "shell_ok s"
  shows "wp (run_command shell_cmds argv) (\<lambda>_ t. shell_ok t \<and> shell_same s t \<and> stream StdInput t = stream StdInput s) s"
proof -
  have "argv \<noteq> []" using assms(1) by (auto simp: line_arguments_def)
  then have c: "c_string (argv ! 0) = line_arguments line ! 0" "0 \<in> set (argv ! 0)"
    using assms(2) unfolding assms(1) [symmetric] by simp_all
  have "run_command shell_cmds argv = (kbind (kget command_buffer)
      (\<lambda>buf. printf (cstr ''unknown command: %s \<newline>'') [ArgStr buf]) :: ('a shell_state_scheme, unit) kM)"
    using assms(3) cmd_names by (intro run_command_none [OF c(2)]) (auto simp: shell_cmds_def command_names_def c(1))
  moreover have "wp (printf (cstr ''unknown command: %s \<newline>'') [ArgStr (command_buffer s)])
      (\<lambda>_ t. shell_ok t \<and> shell_same s t \<and> stream StdInput t = stream StdInput s) s"
    by (rule wp_shell_print) (use assms(4) in \<open>simp_all add: shell_ok_def\<close>)
  ultimately show ?thesis by simp
qed

section \<open>File names as arguments\<close>

text \<open>Only the string of a file name matters, not the bytes after its terminator.\<close>

lemma native_c_string: "ramdisk_fat16_filename_to_native f = ramdisk_fat16_filename_to_native (c_string f)"
proof -
  have "native_loop p j n e f = native_loop p j n e (c_string f)" for p j n e
    by (induction p j n e f rule: native_loop.induct) (auto simp: c_string_def)
  then show ?thesis by (simp add: ramdisk_fat16_filename_to_native_def)
qed

lemma root_match_c_string: "root_match f = root_match (c_string f)"
  using native_c_string [of f] by (simp add: root_match_def fun_eq_iff)

lemma file_c_string: "can_write f s = can_write (c_string f) s" "program f d c = program (c_string f) d c"
  unfolding can_write_def program_def root_match_c_string [of f] by simp_all

lemma wp_sh_write:
  assumes "shell_ok s" "map c_string argv = [w, name, text]" "\<forall>a \<in> set argv. 0 \<in> set a" "can_write name s" "length text \<le> 512"
  shows "wp (sh_write (length argv) argv) (\<lambda>_ t. shell_ok t \<and> stream StdInput t = stream StdInput s
    \<and> (\<exists>c. program name (disk t) c \<and> take (length text) (cluster_data (disk t) c) = text)) s"
proof -
  obtain a0 a1 a2 where argv: "argv = [a0, a1, a2]" "c_string a1 = name" "c_string a2 = text" using assms(2) by auto
  have z: "0 \<in> set a2" using assms(3) argv(1) by simp
  have sl: "strlen a2 = Some (length text)" using strlen_Some [OF z] argv(3) by simp
  have can: "can_write a1 s" using assms(4) file_c_string(1) [of a1 s] argv(2) by simp
  have n: "unat (of_nat (length text) :: u32) = length text" using assms(5) by (simp add: word_facts)
  have len: "length text < length a2" "take (length text) a2 = text"
    using c_string_nth(1) [OF z] argv(3) takeWhile_eq_take [of "\<lambda>c. c \<noteq> 0" a2] by (auto simp: c_string_def)
  have ok: "fat16_ok s" using assms(1) by (simp add: shell_ok_def)
  have "wp (ramdisk_fat16_file_write a1 (Local a2) (of_nat (length text))) (\<lambda>r t. r = 0 \<and> fat16_ok t \<and> fs_same s t
    \<and> (\<exists>c. program a1 (disk t) c \<and> take (unat (of_nat (length text) :: u32)) (cluster_data (disk t) c) = take (unat (of_nat (length text) :: u32)) a2)) s"
    by (rule wp_write_program [OF can]) (use n assms(5) len in simp_all)
  then have wr: "wp (ramdisk_fat16_file_write a1 (Local a2) (of_nat (length text))) (\<lambda>r t. r = 0 \<and> fat16_ok t \<and> fs_same s t
    \<and> (\<exists>c. program name (disk t) c \<and> take (length text) (cluster_data (disk t) c) = text)) s"
    unfolding n len(2) file_c_string(2) [of a1] argv(2) .
  show ?thesis
    unfolding sh_write_def fs_file_write_def argv(1)
    apply (simp add: sl)
    apply (rule wp_mono [OF wr])
    subgoal premises t for r t
    proof -
      have same: "command_buffer t = command_buffer s" "working_buffer t = working_buffer s" "stream StdInput t = stream StdInput s"
        using t by (auto simp: fs_same_def)
      show ?thesis
        by (rule wp_shell_print) (use t same assms(1) in \<open>simp_all add: shell_ok_def shell_same_def\<close>)
    qed
    done
qed

text \<open>The new process of a started program, as the shell leaves it.\<close>

definition launched :: "nat \<Rightarrow> bytes \<Rightarrow> u32 set \<Rightarrow> mlfq \<Rightarrow> 'z sched_state_scheme \<Rightarrow> bool" where
  "launched pid code free_pages A s \<longleftrightarrow> p_state (processes s ! pid) = RUNNABLE
     \<and> process_memory_start (processes s ! pid) \<in> free_pages
     \<and> private_page (process_memory_start (processes s ! pid)) s
     \<and> load_bytes (mem s) (process_memory_start (processes s ! pid)) 512 = code \<and> mlfq_rel s (mlfq_add pid A)"

lemma launched_same: "fat16_ok s \<Longrightarrow> launched pid code F A s \<Longrightarrow> shell_same s t \<Longrightarrow> launched pid code F A t"
  using kept_load [of "{}" s t] private_page_aligned [of s] by (auto simp: launched_def shell_same_def kept_def)

lemma wp_sh_execbg:
  assumes "shell_ok s" "map c_string argv = [w, name]" "\<forall>a \<in> set argv. 0 \<in> set a"
    "free_pid s = Some pid" "slot_ready pid s" "2 \<le> card (pmem_pages s - used_pages s)" "0 \<notin> pmem_pages s"
    "program name (disk s) c" "mlfq_rel s A" "pid \<notin> set (concat (levels A))"
  shows "wp (sh_execbg (length argv) argv) (\<lambda>_ t. shell_ok t \<and> stream StdInput t = stream StdInput s
    \<and> launched pid (cluster_data (disk s) c) (pmem_pages s - used_pages s) A t) s"
proof -
  obtain a0 a1 where argv: "argv = [a0, a1]" "c_string a1 = name" using assms(2) by auto
  have z: "0 \<in> set a1" using assms(3) argv(1) by simp
  have ok: "fat16_ok s" using assms(1) by (simp add: shell_ok_def)
  have pr: "program a1 (disk s) c" using assms(8) file_c_string(2) [of a1] argv(2) by simp
  let ?R = "launched pid (cluster_data (disk s) c) (pmem_pages s - used_pages s) A"
  have ex: "wp (process_execve a1) (\<lambda>_ t. shell_ok t \<and> stream StdInput t = stream StdInput s \<and> ?R t) s"
  proof (rule wp_execve [OF ok assms(4,5) z assms(6,7) pr assms(9,10)])
    fix t
    assume t: "fat16_ok t" "loaded a1 pid (cluster_data (disk s) c) s t" "mlfq_rel t (mlfq_add pid A)" "above_same {} s t"
    have "command_buffer t = command_buffer s" "working_buffer t = working_buffer s"
      using t(4) unfolding above_same_def by (cases s; cases t; simp)+
    moreover have "pid < length (processes s)" using assms(5) by (simp add: slot_ready_def)
    then have "?R t" using t(2,3) by (auto simp: loaded_def launched_def started_def)
    ultimately show "shell_ok t \<and> stream StdInput t = stream StdInput s \<and> ?R t"
      using t(1,4) assms(1) by (simp add: shell_ok_def above_same_def)
  qed
  show ?thesis
    unfolding sh_execbg_def argv(1)
    apply simp
    apply (rule wp_mono [OF ex])
    subgoal premises t for r t
      by (rule wp_shell_print) (use t launched_same in \<open>auto simp: shell_ok_def\<close>)
    done
qed

lemma wp_shell_idle:
  assumes "shell_ok s" "stream StdInput s = []" "Q () s"
  shows "wp (shell_loop (Suc fuel)) Q s"
proof -
  let ?b = "std_input_buf s"
  have ok: "stdio_ok s" using assms(1) fat16_okD(2) [of s] by (simp add: shell_ok_def)
  have "head_ptr ?b = tail_ptr ?b" if "is_init ?b"
  proof (rule ccontr)
    assume "head_ptr ?b \<noteq> tail_ptr ?b"
    then have "buf_contents (mem s) ?b \<noteq> []"
      using buf_contents_pop [of ?b "mem s"] buf_ok_ready(1) [OF ok, of StdInput] that by simp
    then show False using assms(2) that by (simp add: stream_def)
  qed
  then have "stdlib_pop_stdio_input_char s = Ok 0 s"
    by (simp add: stdlib_pop_stdio_input_char_def pmem_isinit_def kernel_defs io_buffer_pop_eq)
  then have "wp stdlib_pop_stdio_input_char (\<lambda>c t. c = 0 \<and> t = s) s" by (simp add: wp_def)
  then have "wp stdlib_pop_stdio_input_char (\<lambda>c. wp (if c = 0 then kret ()
     else if c = 0xA then kseq (put_command_char 0) (kseq shell_execute_command (shell_loop fuel))
     else kseq (put_command_char c) (kseq (printf (cstr ''%c'') [ArgInt (scast c)]) (shell_loop fuel))) Q) s"
    by (rule wp_mono) (use assms(3) in simp)
  then show ?thesis by simp
qed

text \<open>A whole line, from the input stream to the end of its command.\<close>

lemma wp_shell_line:
  assumes "shell_ok s" "command_buffer_ptr s = 0" "stream StdInput s = line @ [0xA]" "0 \<notin> set line" "0xA \<notin> set line" "0x27 \<notin> set line"
    and "length line < 1024" "length (line_arguments line) \<le> 50"
    and run: "\<And>argv t. map c_string argv = line_arguments line \<Longrightarrow> (\<forall>a \<in> set argv. 0 \<in> set a) \<Longrightarrow> shell_ok t \<Longrightarrow> shell_same s t \<Longrightarrow>
      stream StdInput t = [] \<Longrightarrow> wp (run_command shell_cmds argv) (\<lambda>_ u. shell_ok u \<and> stream StdInput u = [] \<and> R u) t"
    and R: "\<And>u v. shell_ok u \<Longrightarrow> R u \<Longrightarrow> shell_ok v \<Longrightarrow> shell_same u v \<Longrightarrow> R v"
  shows "wp shell_update (\<lambda>_ u. shell_ok u \<and> stream StdInput u = [] \<and> command_buffer_ptr u = 0 \<and> R u) s"
proof -
  obtain fuel where fuel: "(4096 :: nat) = length line + Suc (Suc fuel)"
    using assms(7) le_Suc_ex [of "Suc (Suc (length line))" 4096] by auto
  show ?thesis
    unfolding shell_update_def fuel
  proof (rule wp_shell_chars [OF assms(1,3-5)])
    show "command_buffer_ptr s + length line \<le> 1024" using assms(2,7) by simp
    fix t
    assume t: "shell_ok t" "shell_same s t" "stream StdInput t = [0xA]"
      "command_buffer t = take (command_buffer_ptr s) (command_buffer s) @ line @ drop (command_buffer_ptr s + length line) (command_buffer s)"
      "command_buffer_ptr t = command_buffer_ptr s + length line"
    show "wp (shell_loop (Suc (Suc fuel))) (\<lambda>_ u. shell_ok u \<and> stream StdInput u = [] \<and> command_buffer_ptr u = 0 \<and> R u) t"
    proof (rule wp_shell_enter [OF t(1,3)])
      show "command_buffer_ptr t < 1024" using t(5) assms(2,7) by simp
      fix u
      assume u: "shell_ok u" "shell_same t u" "stream StdInput u = []" "command_buffer u = (command_buffer t)[command_buffer_ptr t := 0]"
      have B: "command_buffer u = line @ 0 # tl (drop (length line) (command_buffer s))"
        using u(4) t(4,5) assms(1,2,7) Cons_nth_drop_Suc [of "length line" "command_buffer s", symmetric]
        by (simp add: list_update_append shell_ok_def)
      have same: "shell_same s u" using shell_same_trans [OF t(2) u(2)] .
      show "wp shell_execute_command (\<lambda>_. wp (shell_loop (Suc fuel))
          (\<lambda>_ u. shell_ok u \<and> stream StdInput u = [] \<and> command_buffer_ptr u = 0 \<and> R u)) u"
      proof (rule wp_execute [OF u(1) B assms(4,6,8), where R = R])
        fix argv v
        assume "map c_string argv = line_arguments line" "\<forall>a \<in> set argv. 0 \<in> set a" "shell_ok v" "shell_same u v"
          "stream StdInput v = stream StdInput u"
        then show "wp (run_command shell_cmds argv) (\<lambda>_ w. shell_ok w \<and> stream StdInput w = stream StdInput u \<and> R w) v"
          using run shell_same_trans [OF same] u(3) by simp
      next
        fix v w
        assume "shell_ok v" "R v" "shell_ok w" "shell_same v w"
        then show "R w" by (rule R)
      next
        fix w
        assume "shell_ok w" "stream StdInput w = stream StdInput u" "command_buffer_ptr w = 0" "R w"
        then show "wp (shell_loop (Suc fuel)) (\<lambda>_ u. shell_ok u \<and> stream StdInput u = [] \<and> command_buffer_ptr u = 0 \<and> R u) w"
          using u(3) by (intro wp_shell_idle) simp_all
      qed
    qed
  qed
qed

section \<open>Properties\<close>

lemma blank_split:
  assumes "0x20 \<notin> set cs"
  shows "takeWhile (\<lambda>x. x \<noteq> 0x20) (cs @ 0x20 # r) = cs" "dropWhile (\<lambda>x. x \<noteq> 0x20) (cs @ 0x20 # r) = 0x20 # r"
    "takeWhile (\<lambda>x. x \<noteq> 0x20) cs = cs" "dropWhile (\<lambda>x. x \<noteq> 0x20) cs = []"
  using assms by (induction cs) auto

lemma words_blank_word:
  assumes "name \<noteq> []" "0x20 \<notin> set name"
  shows "words (0x20 # name @ 0x20 # rest) = name # words (0x20 # rest)" "words (0x20 # name) = [name]"
proof -
  obtain c cs where n: "name = c # cs" using assms(1) by (cases name) auto
  show "words (0x20 # name @ 0x20 # rest) = name # words (0x20 # rest)" "words (0x20 # name) = [name]"
    using assms(2) n by (auto simp: blank_split)
qed

text \<open>The line of a command with one or two arguments.\<close>

lemma command_line:
  assumes "cmd \<in> set [cstr ''write'', cstr ''execbg'']" "name \<noteq> []" "0x20 \<notin> set name"
  shows "line_arguments (cmd @ 0x20 # name) = [cmd, name]"
    "text \<noteq> [] \<Longrightarrow> 0x20 \<notin> set text \<Longrightarrow> line_arguments (cmd @ 0x20 # name @ 0x20 # text) = [cmd, name, text]"
proof -
  have c: "0x20 \<notin> set cmd" using assms(1) by (auto simp: cstr_def)
  show "line_arguments (cmd @ 0x20 # name) = [cmd, name]"
    "text \<noteq> [] \<Longrightarrow> 0x20 \<notin> set text \<Longrightarrow> line_arguments (cmd @ 0x20 # name @ 0x20 # text) = [cmd, name, text]"
    using words_blank_word [OF assms(2,3)] words_blank_word(2) [of "text"] blank_split [OF c] by (simp_all add: line_arguments_def)
qed

text \<open>A machine on which a text has been typed, with the file system still to be made.\<close>

definition typed_machine :: "bytes \<Rightarrow> shell_state" where
  "typed_machine cs = tss_state.extend (tss_machine\<lparr>
       mem := (\<lambda>a. if page_of a = 0x202000 then (if unat a - 0x202000 < length cs then cs ! (unat a - 0x202000) else 0)
                   else if a = 0x200000 \<or> a = 0x200001 then 1 else 0),
       std_input_buf := \<lparr>is_initializing = False, is_init = True, b_addr = 0x202000, head_ptr = length cs,
         tail_ptr = 0, b_size = 4096, autoflush_to_screen = False\<rparr>\<rparr>)
     \<lparr>command_buffer = replicate 1024 0, working_buffer = replicate 1024 0, command_buffer_ptr = 0\<rparr>"

lemmas typed_machine_defs = typed_machine_def tss_state.extend_def tss_machine_def idt_state.extend_def idt_machine_def
  sched_state.extend_def sched_machine_def processes_state.extend_def vmem_state.extend_def vmem_machine_def
  fat16_state.extend_def fat_machine_defs

lemma typed_machine_pages:
  "pmem_ok (typed_machine cs)" "used_pages (typed_machine cs) = {0x201000, 0x202000}"
  "pmem_pages (typed_machine cs) = pmem_pages sched_machine" "card (pmem_pages (typed_machine cs) - used_pages (typed_machine cs)) = 2046"
proof -
  let ?s = "typed_machine cs"
  have f: "pmem_blocks ?s = 2048" "pmem_main_memory_start ?s = 0x200000" "pmem_alloc_start ?s = 0x201000"
    by (simp_all add: pmem_blocks_def typed_machine_defs)
  have rec: "mem ?s (0x200000 + of_nat e) \<noteq> 0 \<longleftrightarrow> e = 0 \<or> e = 1" if "e < 2048" for e
  proof -
    have "unat (0x200000 + of_nat e :: u32) = 0x200000 + e" using that by (simp add: unat_word_ariths unat_of_nat)
    then have "page_of (0x200000 + of_nat e) \<noteq> 0x202000" using that by (auto simp: word_unat_eq_iff unat_page_of)
    then show ?thesis
      using that of_nat_u32_eq_iff [of e 0] of_nat_u32_eq_iff [of e 1] by (auto simp: typed_machine_defs)
  qed
  have "pmem_used ?s = {e. e < 2048 \<and> mem ?s (0x200000 + of_nat e) \<noteq> 0}"
    by (simp add: pmem_used_def entry_used_def record_addr_def f)
  then have u: "pmem_used ?s = {0, 1}" using rec rec [of 0] rec [of 1] by auto
  show "used_pages ?s = {0x201000, 0x202000}" by (simp add: used_pages_def u entry_addr_def f)
  show pm: "pmem_ok ?s" by (simp add: pmem_ok_def pmem_blocks_def typed_machine_defs)
  have "pmem_blocks sched_machine = 2048" "pmem_alloc_start sched_machine = 0x201000"
    by (simp_all add: pmem_blocks_def typed_machine_defs)
  then show "pmem_pages ?s = pmem_pages sched_machine"
    using f by (simp add: pmem_pages_def entry_addr_def [abs_def])
  show "card (pmem_pages ?s - used_pages ?s) = 2046" by (simp add: card_free_pages [OF pm] u f)
qed

lemma typed_machine_ok:
  assumes "length cs \<le> 4095" "0 \<notin> set cs"
  shows "fat16_ready (typed_machine cs)" "stream StdInput (typed_machine cs) = cs" "mlfq_rel (typed_machine cs) no_processes"
    "free_pid (typed_machine cs) = Some 3" "slot_ready 3 (typed_machine cs)" "0 \<notin> pmem_pages (typed_machine cs)"
    "command_buffer_ptr (typed_machine cs) = 0" "length (command_buffer (typed_machine cs)) = 1024" "length (working_buffer (typed_machine cs)) = 1024"
proof -
  let ?s = "typed_machine cs"
  note pg = typed_machine_pages [of cs]
  have out: "buf_ok StdOutput ?s"
    by (simp add: buf_ok_def pg) (simp add: typed_machine_defs buf_ready_def buf_contents_def ring_len_def)
  have addr: "unat (0x202000 + of_nat i :: u32) = 0x202000 + i" "page_of (0x202000 + of_nat i) = 0x202000" if "i < 4096" for i
    using page_offset [of "0x202000" i] that by simp_all
  have byte: "mem ?s (0x202000 + of_nat i) = cs ! i" if "i < length cs" for i
    using addr [of i] that assms(1) by (simp add: typed_machine_defs)
  have b: "std_input_buf ?s = \<lparr>is_initializing = False, is_init = True, b_addr = 0x202000, head_ptr = length cs,
         tail_ptr = 0, b_size = 4096, autoflush_to_screen = False\<rparr>" by (simp add: typed_machine_defs)
  have cont: "buf_contents (mem ?s) (std_input_buf ?s) = cs"
  proof -
    have "buf_contents (mem ?s) (std_input_buf ?s) = map (\<lambda>i. mem ?s (0x202000 + of_nat (i mod 4096))) [0..<length cs]"
      by (simp add: b buf_contents_def ring_len_def)
    also have "\<dots> = cs" by (rule nth_equalityI) (use byte assms(1) in simp_all)
    finally show ?thesis .
  qed
  have "buf_ok StdInput ?s" using assms cont by (simp add: buf_ok_def pg b buf_ready_def)
  with out have ok: "stdio_ok ?s" using pg(1) by (simp add: stdio_ok_def b) (simp add: typed_machine_defs)
  then show "fat16_ready ?s"
    using pg(4) by (simp add: fat16_ready_def boot_ok_def) (simp add: typed_machine_defs serial_responsive_def nth_append)
  show "stream StdInput ?s = cs" using cont by (simp add: stream_def b)
  have pr: "processes ?s = processes sched_machine" "proc_list ?s = proc_list sched_machine"
    "proc_priority_list ?s = proc_priority_list sched_machine" "current_process ?s = current_process sched_machine"
    by (simp_all add: typed_machine_def tss_state.extend_def tss_machine_def idt_state.extend_def idt_machine_def sched_state.extend_def)
  then show "mlfq_rel ?s no_processes" "free_pid ?s = Some 3" "slot_ready 3 ?s"
    using sched_machine_files by (simp_all add: mlfq_rel_def queues_rel_def free_pid_def slot_ready_def)
  show "0 \<notin> pmem_pages ?s" using pg(3) sched_machine_files(2) by simp
  show "command_buffer_ptr ?s = 0" "length (command_buffer ?s) = 1024" "length (working_buffer ?s) = 1024"
    by (simp_all add: typed_machine_def tss_state.extend_def)
qed

lemma above_shell:
  fixes s t :: "'z shell_state_scheme"
  assumes "fat16_state.more t = fat16_state.more s"
  shows "command_buffer t = command_buffer s" "working_buffer t = working_buffer s" "command_buffer_ptr t = command_buffer_ptr s"
  using assms by (cases s; cases t; simp)+

text \<open>The machine with its file system made and the text waiting.\<close>

lemma typed_machine_init:
  assumes "length cs \<le> 4095" "0 \<notin> set cs"
  shows "wp ramdisk_fat16_init (\<lambda>_ s. shell_ok s \<and> command_buffer_ptr s = 0 \<and> stream StdInput s = cs \<and> formatted (disk s)
    \<and> free_pid s = Some 3 \<and> slot_ready 3 s \<and> mlfq_rel s no_processes \<and> 0 \<notin> pmem_pages s \<and> 2 \<le> card (pmem_pages s - used_pages s))
    (typed_machine cs)"
proof (rule wp_mono [OF wp_fat16_init_frame [OF typed_machine_ok(1) [OF assms]]])
  note m = typed_machine_ok [OF assms]
  fix x s
  assume s: "fat16_ok s \<and> formatted (disk s) \<and> fs_created (typed_machine cs) s"
  then have more: "fat16_state.more s = fat16_state.more (typed_machine cs)" by (simp add: fs_created_def)
  have pg: "pmem_pages s = pmem_pages (typed_machine cs)"
    "card (pmem_pages s - used_pages s) + 1025 = card (pmem_pages (typed_machine cs) - used_pages (typed_machine cs))"
    using s unfolding fs_created_def by blast+
  then have room: "2 \<le> card (pmem_pages (typed_machine cs) - used_pages s)" using typed_machine_pages(4) [of cs] by simp
  show "shell_ok s \<and> command_buffer_ptr s = 0 \<and> stream StdInput s = cs \<and> formatted (disk s)
    \<and> free_pid s = Some 3 \<and> slot_ready 3 s \<and> mlfq_rel s no_processes \<and> 0 \<notin> pmem_pages s \<and> 2 \<le> card (pmem_pages s - used_pages s)"
    using s m above_shell [OF more] above_slots [OF more] above_files [OF more] room by (simp add: shell_ok_def fs_created_def)
qed

text \<open>C22: the shell splits a line into its words: for a line without quotes of at most 50 arguments, the
  pointers that the in-place loop produces denote, one for one, the part before the first blank and
  then the words, as the reference tokenizer gives them.\<close>

theorem shell_splits_words:
  assumes "0 \<notin> set line" "0x27 \<notin> set line" "length (line_arguments line) \<le> 50"
  shows "\<exists>st. split_line (line @ 0 # rest) (length line) = Some st \<and> map c_string (arguments st) = line_arguments line"
  using split_line_eq [OF assms] by blast

theorem shell_splits_words_witness:
  "\<exists>st. split_line (cstr ''write  a b'' @ 0 # [7]) (length (cstr ''write  a b'')) = Some st
    \<and> map c_string (arguments st) = [cstr ''write'', cstr ''a'', cstr ''b'']"
proof -
  have a: "line_arguments (cstr ''write  a b'') = [cstr ''write'', cstr ''a'', cstr ''b'']"
    by (simp add: line_arguments_def cstr_def)
  show ?thesis
    unfolding a [symmetric]
    by (rule shell_splits_words) (simp_all add: a, simp_all add: cstr_def)
qed

text \<open>C12: typing \<open>write name text\<close> and enter writes the file: when the name is not taken and there is
  room, one turn of the shell consumes the input, is ready for the next line, and the file is on the
  disk with the text as the start of its first cluster.\<close>

theorem shell_write_command:
  assumes "shell_ok s" "command_buffer_ptr s = 0" "stream StdInput s = cstr ''write '' @ name @ [0x20] @ text @ [0xA]"
    and "name \<noteq> []" "{0, 0xA, 0x20, 0x27} \<inter> set name = {}" "text \<noteq> []" "{0, 0xA, 0x20, 0x27} \<inter> set text = {}"
    and "length name + length text < 1017" "length text \<le> 512" "can_write name s"
  shows "wp shell_update (\<lambda>_ s'. shell_ok s' \<and> stream StdInput s' = [] \<and> command_buffer_ptr s' = 0
    \<and> (\<exists>c. program name (disk s') c \<and> take (length text) (cluster_data (disk s') c) = text)) s"
proof -
  let ?line = "cstr ''write'' @ 0x20 # name @ 0x20 # text"
  have line: "stream StdInput s = ?line @ [0xA]" using assms(3) by (simp add: cstr_def)
  have args: "line_arguments ?line = [cstr ''write'', name, text]"
    using command_line(2) [of "cstr ''write''" name "text"] assms(4-7) by auto
  have z: "0 \<notin> set ?line" "0xA \<notin> set ?line" "0x27 \<notin> set ?line" using assms(5,7) by (auto simp: cstr_def)
  have len: "length ?line < 1024" using assms(8) by (simp add: cstr_def)
  show ?thesis
  proof (rule wp_shell_line [OF assms(1,2) line z len,
        where R = "\<lambda>t. \<exists>c. program name (disk t) c \<and> take (length text) (cluster_data (disk t) c) = text"])
    show "length (line_arguments ?line) \<le> 50" by (simp add: args)
  next
    fix argv t
    assume a: "map c_string argv = line_arguments ?line" "\<forall>a \<in> set argv. 0 \<in> set a"
      and t: "shell_ok t" "shell_same s t" "stream StdInput t = []"
    have "argv \<noteq> []" using a(1) args by auto
    then have c: "c_string (argv ! 0) = cstr ''write''" "0 \<in> set (argv ! 0)" using a args by (cases argv; simp)+
    have "can_write name t" using assms(10) t(1,2) by (simp add: can_write_def shell_ok_def shell_same_def)
    then have "wp (sh_write (length argv) argv) (\<lambda>_ u. shell_ok u \<and> stream StdInput u = stream StdInput t
        \<and> (\<exists>c. program name (disk u) c \<and> take (length text) (cluster_data (disk u) c) = text)) t"
      using a args assms(9) by (intro wp_sh_write [OF t(1)]) simp_all
    moreover have "run_command shell_cmds argv = (kbind (sh_write (length argv) argv) (\<lambda>_. kret ()) :: ('a shell_state_scheme, unit) kM)"
      using run_command_find [OF c(2) _ cmd_names] by (simp add: shell_cmds_def c(1) cstr_def)
    ultimately show "wp (run_command shell_cmds argv) (\<lambda>_ u. shell_ok u \<and> stream StdInput u = []
        \<and> (\<exists>c. program name (disk u) c \<and> take (length text) (cluster_data (disk u) c) = text)) t"
      using t(3) by simp
  qed (simp add: shell_same_def)
qed

theorem shell_write_command_witness:
  "wp (kseq ramdisk_fat16_init shell_update) (\<lambda>_ s'. shell_ok s' \<and> stream StdInput s' = [] \<and> command_buffer_ptr s' = 0
    \<and> (\<exists>c. program (cstr ''a.txt'') (disk s') c \<and> take 2 (cluster_data (disk s') c) = cstr ''hi''))
    (typed_machine (cstr ''write a.txt hi'' @ [0xA]))"
  unfolding wp_kseq
proof (rule wp_mono [OF typed_machine_init])
  fix x s
  assume s: "shell_ok s \<and> command_buffer_ptr s = 0 \<and> stream StdInput s = cstr ''write a.txt hi'' @ [0xA] \<and> formatted (disk s)
    \<and> free_pid s = Some 3 \<and> slot_ready 3 s \<and> mlfq_rel s no_processes \<and> 0 \<notin> pmem_pages s \<and> 2 \<le> card (pmem_pages s - used_pages s)"
  then have can: "can_write (cstr ''a.txt'') s" by (simp add: shell_ok_def formatted_can_write)
  have hi: "length (cstr ''hi'') = 2" by (simp add: cstr_def)
  have "wp shell_update (\<lambda>_ s'. shell_ok s' \<and> stream StdInput s' = [] \<and> command_buffer_ptr s' = 0
    \<and> (\<exists>c. program (cstr ''a.txt'') (disk s') c \<and> take (length (cstr ''hi'')) (cluster_data (disk s') c) = cstr ''hi'')) s"
    by (rule shell_write_command) (use s can in simp_all, simp_all add: cstr_def)
  then show "wp shell_update (\<lambda>_ s'. shell_ok s' \<and> stream StdInput s' = [] \<and> command_buffer_ptr s' = 0
    \<and> (\<exists>c. program (cstr ''a.txt'') (disk s') c \<and> take 2 (cluster_data (disk s') c) = cstr ''hi'')) s"
    unfolding hi .
qed (simp_all add: cstr_def)

text \<open>C13: typing \<open>execbg name\<close> and enter starts the program: under the conditions of
  \<open>process_execve\<close>, one turn of the shell leaves a new runnable process whose memory is a page that
  was free and holds the first cluster of the file, at the front of the highest-priority queue.\<close>

theorem shell_execbg_command:
  assumes "shell_ok s" "command_buffer_ptr s = 0" "stream StdInput s = cstr ''execbg '' @ name @ [0xA]"
    and "name \<noteq> []" "{0, 0xA, 0x20, 0x27} \<inter> set name = {}" "length name < 1000"
    and "free_pid s = Some pid" "slot_ready pid s" "2 \<le> card (pmem_pages s - used_pages s)" "0 \<notin> pmem_pages s"
    and "program name (disk s) c" "mlfq_rel s A" "pid \<notin> set (concat (levels A))"
  shows "wp shell_update (\<lambda>_ s'. shell_ok s' \<and> stream StdInput s' = [] \<and> command_buffer_ptr s' = 0
    \<and> p_state (processes s' ! pid) = RUNNABLE \<and> process_memory_start (processes s' ! pid) \<in> pmem_pages s - used_pages s
    \<and> load_bytes (mem s') (process_memory_start (processes s' ! pid)) 512 = cluster_data (disk s) c
    \<and> mlfq_rel s' (mlfq_add pid A)) s"
proof -
  let ?line = "cstr ''execbg'' @ 0x20 # name"
  let ?R = "launched pid (cluster_data (disk s) c) (pmem_pages s - used_pages s) A"
  have line: "stream StdInput s = ?line @ [0xA]" using assms(3) by (simp add: cstr_def)
  have args: "line_arguments ?line = [cstr ''execbg'', name]"
    using command_line(1) [of "cstr ''execbg''" name] assms(4,5) by auto
  have z: "0 \<notin> set ?line" "0xA \<notin> set ?line" "0x27 \<notin> set ?line" using assms(5) by (auto simp: cstr_def)
  have len: "length ?line < 1024" using assms(6) by (simp add: cstr_def)
  have "wp shell_update (\<lambda>_ u. shell_ok u \<and> stream StdInput u = [] \<and> command_buffer_ptr u = 0 \<and> ?R u) s"
  proof (rule wp_shell_line [OF assms(1,2) line z len])
    show "length (line_arguments ?line) \<le> 50" by (simp add: args)
  next
    fix argv t
    assume a: "map c_string argv = line_arguments ?line" "\<forall>a \<in> set argv. 0 \<in> set a"
      and t: "shell_ok t" "shell_same s t" "stream StdInput t = []"
    have "argv \<noteq> []" using a(1) args by auto
    then have c: "c_string (argv ! 0) = cstr ''execbg''" "0 \<in> set (argv ! 0)" using a args by (cases argv; simp)+
    have same: "processes t = processes s" "pmem_pages t = pmem_pages s" "used_pages t = used_pages s" "disk t = disk s" "mlfq_rel t A"
      using t(2) assms(12) by (simp_all add: shell_same_def)
    have "wp (sh_execbg (length argv) argv) (\<lambda>_ u. shell_ok u \<and> stream StdInput u = stream StdInput t
        \<and> launched pid (cluster_data (disk t) c) (pmem_pages t - used_pages t) A u) t"
      using a args assms(7-13) same by (intro wp_sh_execbg [OF t(1)]) (simp_all add: free_pid_def slot_ready_def)
    moreover have "run_command shell_cmds argv = (kbind (sh_execbg (length argv) argv) (\<lambda>_. kret ()) :: ('a shell_state_scheme, unit) kM)"
      using run_command_find [OF c(2) _ cmd_names] by (simp add: shell_cmds_def c(1) cstr_def)
    ultimately show "wp (run_command shell_cmds argv) (\<lambda>_ u. shell_ok u \<and> stream StdInput u = [] \<and> ?R u) t"
      using t(3) same by simp
  qed (rule launched_same, simp_all add: shell_ok_def)
  then show ?thesis by (rule wp_mono) (simp add: launched_def)
qed

theorem shell_execbg_command_witness:
  "wp (kseq ramdisk_fat16_init (kbind fs_load_starting_files (\<lambda>_. shell_update))) (\<lambda>_ s'. stream StdInput s' = []
    \<and> p_state (processes s' ! 3) = RUNNABLE
    \<and> take 54 (load_bytes (mem s') (process_memory_start (processes s' ! 3)) 512) = test_program
    \<and> mlfq_rel s' (mlfq_add 3 no_processes)) (typed_machine (cstr ''execbg test.bin'' @ [0xA]))"
    (is "wp _ ?Q _")
  unfolding wp_kseq wp_kbind
proof (rule wp_mono [OF typed_machine_init])
  fix x :: unit and s :: shell_state
  assume s: "shell_ok s \<and> command_buffer_ptr s = 0 \<and> stream StdInput s = cstr ''execbg test.bin'' @ [0xA] \<and> formatted (disk s)
    \<and> free_pid s = Some 3 \<and> slot_ready 3 s \<and> mlfq_rel s no_processes \<and> 0 \<notin> pmem_pages s \<and> 2 \<le> card (pmem_pages s - used_pages s)"
  then have can: "can_write test_name s" by (simp add: shell_ok_def formatted_can_write)
  show "wp fs_load_starting_files (\<lambda>_. wp shell_update ?Q) s"
  proof (rule wp_mono [OF wp_load_starting [OF can]])
    fix r :: u32 and t :: shell_state
    assume "r = 0 \<and> fat16_ok t \<and> fs_same s t \<and> (\<exists>c. program test_name (disk t) c \<and> take 54 (cluster_data (disk t) c) = test_program)"
    then obtain c where t: "fat16_ok t" "fs_same s t" "program test_name (disk t) c" "take 54 (cluster_data (disk t) c) = test_program"
      by blast
    note m = above_frames(1) [OF t(2)]
    have st: "stream StdInput t = stream StdInput s" using t(2) by (simp add: fs_same_def)
    have pr: "program (cstr ''test.bin'') (disk t) c" using t(3) file_c_string(2) [of test_name] test_program_facts(2) by simp
    have "wp shell_update (\<lambda>_ s'. shell_ok s' \<and> stream StdInput s' = [] \<and> command_buffer_ptr s' = 0
      \<and> p_state (processes s' ! 3) = RUNNABLE \<and> process_memory_start (processes s' ! 3) \<in> pmem_pages t - used_pages t
      \<and> load_bytes (mem s') (process_memory_start (processes s' ! 3)) 512 = cluster_data (disk t) c
      \<and> mlfq_rel s' (mlfq_add 3 no_processes)) t"
      by (rule shell_execbg_command [OF _ _ _ _ _ _ _ _ _ _ pr])
        (use s t(1) st above_shell [OF m] above_slots [OF m] above_files [OF m] fs_same_pages [OF t(2)] in
          \<open>simp_all add: shell_ok_def no_processes_def\<close>, simp_all add: cstr_def)
    then show "wp shell_update ?Q t"
      by (rule wp_mono) (use t(4) in simp)
  qed
qed (simp_all add: cstr_def)

text \<open>A line whose first word is no command is consumed without any effect on files, processes,
  queues or pages, and the shell is ready for the next line.\<close>

theorem shell_unknown_command:
  assumes "shell_ok s" "command_buffer_ptr s = 0" "stream StdInput s = line @ [0xA]" "{0, 0xA, 0x27} \<inter> set line = {}"
    and "length line < 1024" "length (line_arguments line) \<le> 50"
    and "line_arguments line ! 0 \<notin> command_names"
  shows "wp shell_update (\<lambda>_ s'. shell_ok s' \<and> stream StdInput s' = [] \<and> command_buffer_ptr s' = 0
    \<and> disk s' = disk s \<and> used_pages s' = used_pages s \<and> processes s' = processes s \<and> mlfq_rel s' A = mlfq_rel s A) s"
proof -
  have z: "0 \<notin> set line" "0xA \<notin> set line" "0x27 \<notin> set line" using assms(4) by auto
  have "wp shell_update (\<lambda>_ u. shell_ok u \<and> stream StdInput u = [] \<and> command_buffer_ptr u = 0 \<and> shell_same s u) s"
  proof (rule wp_shell_line [OF assms(1-3) z assms(5,6)])
    fix argv t
    assume t: "map c_string argv = line_arguments line" "\<forall>a \<in> set argv. 0 \<in> set a" "shell_ok t" "shell_same s t" "stream StdInput t = []"
    show "wp (run_command shell_cmds argv) (\<lambda>_ u. shell_ok u \<and> stream StdInput u = [] \<and> shell_same s u) t"
      by (rule wp_mono [OF wp_run_unknown [OF t(1,2) assms(7) t(3)]]) (use t(5) shell_same_trans [OF t(4)] in auto)
  qed (rule shell_same_trans)
  then show ?thesis by (rule wp_mono) (simp add: shell_same_def)
qed

theorem shell_unknown_command_witness:
  "wp (kseq ramdisk_fat16_init shell_update) (\<lambda>_ s'. shell_ok s' \<and> stream StdInput s' = [] \<and> command_buffer_ptr s' = 0)
    (typed_machine (cstr ''dir'' @ [0xA]))"
  unfolding wp_kseq
proof (rule wp_mono [OF typed_machine_init])
  fix x s
  assume s: "shell_ok s \<and> command_buffer_ptr s = 0 \<and> stream StdInput s = cstr ''dir'' @ [0xA] \<and> formatted (disk s)
    \<and> free_pid s = Some 3 \<and> slot_ready 3 s \<and> mlfq_rel s no_processes \<and> 0 \<notin> pmem_pages s \<and> 2 \<le> card (pmem_pages s - used_pages s)"
  have "line_arguments (cstr ''dir'') = [cstr ''dir'']" by (simp add: line_arguments_def cstr_def)
  then show "wp shell_update (\<lambda>_ s'. shell_ok s' \<and> stream StdInput s' = [] \<and> command_buffer_ptr s' = 0) s"
    using s by (intro wp_mono [OF shell_unknown_command [of s "cstr ''dir''" no_processes]]) (auto simp: cstr_def command_names_def)
qed (simp_all add: cstr_def)

text \<open>The closing quote of a quoted argument stays in it.\<close>

lemma quoted_argument_keeps_quote:
  "map_option (\<lambda>st. map c_string (arguments st)) (split_line (cstr ''write a '' @ [0x27] @ cstr ''x y'' @ [0x27, 0]) 13)
    = Some [cstr ''write'', cstr ''a'', cstr ''x y'' @ [0x27]]"
  by code_simp

end
