(* ===== verification/Selftests.thy ===== *)
theory Selftests
  imports Shell
begin

text \<open>
  The tests the kernel runs on itself while it starts (\<open>tests/\<close>). \<open>pmem_tests.c\<close> and
  \<open>malloc_tests.c\<close> do not include the configuration header, so the parts of them that depend on it
  are off. The interrupt instructions and the timer's counter belong to assembly code and are arguments.
\<close>

section \<open>Interrupts and timer\<close>

definition test_run_idt :: "(u8 \<Rightarrow> ('z stdio_state_scheme, unit) kM) \<Rightarrow> ('z stdio_state_scheme, unit) kM" where
  "test_run_idt software_interrupt =
     kseq (printf (cstr ''Testing Interrupts\<newline>'') [])
    (kseq (software_interrupt 1)
    (kseq (software_interrupt 3)
          (printf (cstr ''Test Complete\<newline>'') [])))"

abbreviation (input) "OPERATION_TEST_AMOUNT \<equiv> (20000 :: nat)"

definition factorial :: "u32 \<Rightarrow> u32" where
  "factorial n = fold (\<lambda>i res. res * of_nat i) [2..<Suc (unat n)] 1"

text \<open>The interrupts that come in during the loop are the argument \<open>busy\<close>; \<open>count\<close> reads their counter.\<close>

definition pit_run_tests :: "('z stdio_state_scheme, unit) kM \<Rightarrow> ('z stdio_state_scheme \<Rightarrow> u32) \<Rightarrow> ('z stdio_state_scheme, unit) kM" where
  "pit_run_tests busy pit_interrupt_count =
     kseq (printf (cstr ''Testing Timer Interrupt...\<newline>'') [])
    (kseq (kfor [0..<Suc OPERATION_TEST_AMOUNT] (\<lambda>i.
       kbind (kret (factorial (of_nat i))) (\<lambda>_.
       if i * 10 mod OPERATION_TEST_AMOUNT = 0
       then printf (cstr ''Wasting Time... %d/%d\<newline>'') [ArgInt (of_nat (i * 10 div OPERATION_TEST_AMOUNT)), ArgInt 10]
       else kret ())))
    (kseq busy
    (kbind (kget pit_interrupt_count) (\<lambda>count.
     kseq (if count = 0 then panic ''Timer interrupt was never called!'' else kret ())
    (kbind (kget pit_interrupt_count) (\<lambda>count.
     kseq (printf (cstr ''Timer Interrupt Count: %d\<newline>'') [ArgInt count])
          (printf (cstr ''Test Complete!\<newline>'') [])))))))"

section \<open>Memory\<close>

definition pmem_test_record :: "u32 \<Rightarrow> ('z stdio_state_scheme, unit) kM" where
  "pmem_test_record entry_record =
     kbind (pmem_entry_to_ptr entry_record) (\<lambda>entry_test.
     kbind (pmem_ptr_to_entry entry_test) (\<lambda>reverse_test.
     kseq (printf (cstr ''pmem test: %d, addr: %x, rev entry: %d...'') [ArgInt entry_record, ArgInt entry_test, ArgInt reverse_test])
    (kseq (if reverse_test \<noteq> entry_record then panic ''entry record lookups failed!'' else kret ())
          (printf (cstr ''passed\<newline>'') []))))"

definition pmem_run_tests :: "('z stdio_state_scheme, unit) kM" where
  "pmem_run_tests =
     kseq (printf (cstr ''pmem: Testing record lookups...\<newline>'') [])
    (kseq (pmem_test_record 0)
    (kseq (pmem_test_record 5)
    (kseq (pmem_test_record 16)
          (printf (cstr ''pmem: Testing Record lookups Passed.\<newline>'') []))))"

definition vmem_run_tests :: "('z vmem_state_scheme, unit) kM" where
  "vmem_run_tests =
     (let good_ptr = 0x100FFFF in
      kseq (printf (cstr ''Running vmem address translations\<newline>'') [])
     (kseq (printf (cstr ''Looking up address for %x\<newline>'') [ArgInt good_ptr])
     (kbind (kget vmem_page_directory) (\<lambda>dir.
      kbind (vmem_get_phys_addr dir good_ptr) (\<lambda>good_ptr_phys.
      kseq (printf (cstr ''Physical address for %x is %x\<newline>'') [ArgInt good_ptr, ArgInt good_ptr_phys])
     (kseq (if good_ptr \<noteq> good_ptr_phys then panic ''do_vmem_tests: failed address lookup'' else kret ())
     (kseq (printf (cstr ''test passed\<newline>'') [])
     (kseq (printf (cstr ''Running vmem access tests\<newline>'') [])
     (kseq (printf (cstr ''Accessing memory from %x\<newline>'') [ArgInt good_ptr])
     (kbind (kget (\<lambda>s. load32 (mem s) good_ptr)) (\<lambda>v.
      kseq (printf (cstr ''Memory value: %x\<newline>'') [ArgInt v])
           (printf (cstr ''vmem tests finished\<newline>'') []))))))))))))"

definition malloc_run_tests :: "('z malloc_state_scheme, unit) kM" where
  "malloc_run_tests = kret ()"

section \<open>Ramdisk\<close>

definition fill_page :: "u32 \<Rightarrow> (nat \<Rightarrow> u32) \<Rightarrow> ('z machine_scheme, unit) kM" where
  "fill_page page f = kfor [0..<1024] (\<lambda>i. store_word page i (f i))"

definition ramdisk_create_test :: "u32 \<Rightarrow> string \<Rightarrow> ('z ramdisk_state_scheme, unit) kM" where
  "ramdisk_create_test n_blocks message =
     kseq (ramdisk_init (PHYS_BLOCK_SIZE * n_blocks))
    (kbind (kget (\<lambda>s. (ramdisk_block_pointers s, load32 (mem s) (slot (ramdisk_block_pointers s) 0),
        load32 (mem s) (slot (ramdisk_block_pointers s) (unat n_blocks - 1))))) (\<lambda>(p, first, last_block).
     kseq (printf (cstr message) [ArgInt p, ArgInt first, ArgInt last_block])
          ramdisk_destroy))"

definition ramdisk_io_check :: "string \<Rightarrow> u32 \<Rightarrow> ('z ramdisk_state_scheme, unit) kM" where
  "ramdisk_io_check message result =
     (if result \<noteq> 0 then kseq (printf (cstr message) [ArgInt result]) (panic ''test failed!'') else kret ())"

definition ramdisk_run_tests :: "('z ramdisk_state_scheme, unit) kM" where
  "ramdisk_run_tests =
     kbind pmem_alloc (\<lambda>tmp_page_write.
     kseq (fill_page tmp_page_write of_nat)
    (kbind pmem_alloc (\<lambda>tmp_page_read.
     kseq (fill_page tmp_page_read (\<lambda>_. 0))
    (kseq (printf (cstr ''ramdisk: beginning self-tests\<newline>'') [])
    (kseq (printf (cstr ''ramdisk: running test 1...\<newline>'') [])
    (kseq (ramdisk_create_test 5 ''ramdisk is at %x. block 1: %x. block 5: %x\<newline>'')
    (kseq (printf (cstr ''ramdisk: running test 2...\<newline>'') [])
    (kseq (ramdisk_create_test 20 ''ramdisk is at %x. block 1: %x. block 20: %x\<newline>'')
    (kseq (printf (cstr ''ramdisk: running test 3...\<newline>'') [])
    (kseq (ramdisk_init (PHYS_BLOCK_SIZE * 2))
    (kbind (ramdisk_write (PHYS_BLOCK_SIZE div 2) (Mem tmp_page_write) PHYS_BLOCK_SIZE) (\<lambda>result.
     kseq (ramdisk_io_check ''ramdisk_write threw error code: %d\<newline>'' result)
    (kseq ramdisk_destroy
    (kseq (printf (cstr ''ramdisk: running test 4...\<newline>'') [])
    (kseq (ramdisk_init (PHYS_BLOCK_SIZE * 2))
    (kbind (ramdisk_write (PHYS_BLOCK_SIZE div 2) (Mem tmp_page_write) PHYS_BLOCK_SIZE) (\<lambda>result.
     kseq (ramdisk_io_check ''ramdisk_write threw error code: %d\<newline>'' result)
    (kbind (ramdisk_read (PHYS_BLOCK_SIZE div 2) (Mem tmp_page_read) PHYS_BLOCK_SIZE) (\<lambda>(result, _).
     kseq (ramdisk_io_check ''ramdisk_read threw error code: %d\<newline>'' result)
    (kseq (kfor [0..<1024] (\<lambda>i.
       kbind (kget (\<lambda>s. (load32 (mem s) (slot tmp_page_read i), load32 (mem s) (slot tmp_page_write i)))) (\<lambda>(r, w).
       if r \<noteq> w then kseq (printf (cstr ''%d : %d = %d'') [ArgInt (of_nat i), ArgInt r, ArgInt w]) (panic ''test failed!'')
       else kret ())))
    (kseq (printf (cstr ''\<newline>'') [])
    (kseq ramdisk_destroy
    (kbind (pmem_free tmp_page_write) (\<lambda>_.
     kbind (pmem_free tmp_page_read) (\<lambda>_.
     printf (cstr ''ramdisk: finished self-tests\<newline>'') [])))))))))))))))))))))))))"

section \<open>File system and processes\<close>

definition fat16_test_check :: "bytes \<Rightarrow> bytes \<Rightarrow> ('s, unit) kM \<Rightarrow> ('s, unit) kM \<Rightarrow> ('s, unit) kM" where
  "fat16_test_check file_contents sector_buffer wrong_length wrong_contents =
     (case (strlen file_contents, strlen sector_buffer) of
        (Some n, Some m) \<Rightarrow>
          kseq (if n \<noteq> m then wrong_length else kret ())
               (case memcmp file_contents sector_buffer m of None \<Rightarrow> (\<lambda>s. Undefined)
                | Some d \<Rightarrow> if d \<noteq> 0 then wrong_contents else kret ())
      | _ \<Rightarrow> (\<lambda>s. Undefined))"

definition ramdisk_fat16_run_tests :: "('z fat16_state_scheme, unit) kM" where
  "ramdisk_fat16_run_tests =
     (let file_name_1 = cstr ''rawr.txt'' @ [0];
          file_contents_1 = cstr ''rawr is the'' @ [9] @ cstr '' name of this file'' @ [0];
          file_name_2 = cstr ''dragon.txt'' @ [0];
          file_contents_2 = cstr ''see rawr.txt for more information'' @ [0]
      in
      kseq (printf (cstr ''Running ramdisk.fat16 tests...\<newline>'') [])
     (kseq ramdisk_fat16_init
     (kbind (ramdisk_fat16_file_write file_name_1 (Local file_contents_1) (of_nat (length file_contents_1 - 1))) (\<lambda>_.
      kbind (ramdisk_fat16_file_write file_name_2 (Local file_contents_2) (of_nat (length file_contents_2 - 1))) (\<lambda>_.
      kbind (ramdisk_fat16_file_exists file_name_2) (\<lambda>sec_num.
      kseq (if sec_num = 0 then panic ''Test failed! File 2 doesnt exist and should'' else kret ())
     (kseq (printf (cstr ''File 2 exists and is at sector %d\<newline>'') [ArgInt sec_num])
     (kbind (ramdisk_fat16_file_read file_name_1 (Local (replicate 512 0)) 0) (\<lambda>(_, sector_buffer).
      kseq (printf (cstr ''File 1 contents: %s\<newline>'') [ArgStr (local_bytes sector_buffer)])
     (kseq (fat16_test_check file_contents_1 (local_bytes sector_buffer)
              (panic ''Test failed! File 1 contents lengths do not match!'')
              (panic ''Test failed! File 1 contents are different read than written''))
     (kseq ramdisk_fat16_list_info
     (kseq ramdisk_fat16_destroy
           (printf (cstr ''Done running ramdisk.fat16 tests...\<newline>'') [])))))))))))))"

definition process_run_tests :: "('z processes_state_scheme, unit) kM" where
  "process_run_tests =
     kseq (printf (cstr ''Testing processes...\<newline>'') [])
    (kseq process_printlist
          (printf (cstr ''Process Tests passed.\<newline>'') []))"

section \<open>Running the tests\<close>

definition record_testable :: "'z stdio_state_scheme \<Rightarrow> bool" where
  "record_testable s \<longleftrightarrow> stdio_ok s \<and> console_ok s \<and> 16 < pmem_blocks s"

lemma record_testable_frame:
  assumes "record_testable s" "console_frame s t"
  shows "record_testable t"
proof -
  have "pmem_blocks t = pmem_blocks s" using assms(2) unfolding console_frame_def by (auto simp: pmem_blocks_def)
  then show ?thesis
    using assms(1) console_frameD(9) [OF assms(2)] console_ok_frame [OF _ assms(2)] by (simp add: record_testable_def)
qed

lemma wp_testable_print:
  assumes "record_testable s" "console_frame s0 s" "render format args \<noteq> None"
    and "\<And>t. record_testable t \<Longrightarrow> console_frame s0 t \<Longrightarrow> Q () t"
  shows "wp (printf (cstr format) args) Q s"
proof (rule wp_printf_frame)
  show "console_ok s" using assms(1) by (simp add: record_testable_def)
  show "render format args \<noteq> None" by (rule assms(3))
  fix t assume t: "console_frame s t"
  show "Q () t" by (rule assms(4) [OF record_testable_frame [OF assms(1) t] console_frame_trans [OF assms(2) t]])
qed

lemma wp_record_test:
  assumes "record_testable s" "console_frame s0 s" "unat e \<le> 16"
    and Q: "\<And>t. record_testable t \<Longrightarrow> console_frame s0 t \<Longrightarrow> Q () t"
  shows "wp (pmem_test_record e) Q s"
proof -
  have lt: "unat e < pmem_blocks s" and pm: "pmem_ok s"
    using assms(1,3) stdio_okD(1) by (auto simp: record_testable_def)
  have "4096 * Suc (unat e) \<le> 4096 * pmem_blocks s" using lt by (intro mult_le_mono2) simp
  then have le: "4096 * unat e + 0 \<le> unat (pmem_main_memory_length s)" using pmem_okD(4) [OF pm] by simp
  have to: "pmem_entry_to_ptr e s = Ok (entry_addr s (unat e)) s" using lt by (intro pmem_entry_to_ptr_Ok) simp
  have from_ptr: "pmem_ptr_to_entry (entry_addr s (unat e)) s = Ok e s"
    using pmem_ptr_to_entry_Ok [OF pm _ _ le] lt by simp
  show ?thesis
    unfolding pmem_test_record_def wp_kbind
    apply (rule wpI, rule to)
    apply (rule wpI, rule from_ptr)
    unfolding wp_kseq
    apply (rule wp_testable_print [OF assms(1,2)], simp)
    apply (simp only: refl not_True_eq_False if_False wp_kret)
    by (rule wp_testable_print, assumption, assumption, simp, rule Q)
qed

end
