(* ===== verification/Pic.thy ===== *)
theory Pic
  imports Machine
begin

text \<open>
  The programmable interrupt controllers (\<open>drivers/irq/pic.c\<close>): the command sequences the kernel
  sends to the two chips. What the chips make of them is stated with a model of the 8259A's
  programming interface, from its data sheet.
\<close>

section \<open>Definitions\<close>

abbreviation (input) "PIC1 \<equiv> (0x20 :: u16)"
abbreviation (input) "PIC2 \<equiv> (0xA0 :: u16)"
abbreviation (input) "PIC1_COMMAND \<equiv> PIC1"
abbreviation (input) "PIC1_DATA \<equiv> (0x21 :: u16)"
abbreviation (input) "PIC2_COMMAND \<equiv> PIC2"
abbreviation (input) "PIC2_DATA \<equiv> (0xA1 :: u16)"
abbreviation (input) "PIC_EOI \<equiv> (0x20 :: u8)"
abbreviation (input) "PIC_ACK \<equiv> (0x20 :: u8)"
abbreviation (input) "ICW1_ICW4 \<equiv> (0x01 :: u8)"
abbreviation (input) "ICW1_INIT \<equiv> (0x10 :: u8)"
abbreviation (input) "ICW4_8086 \<equiv> (0x01 :: u8)"
abbreviation (input) "PIC1_START_INTERRUPT \<equiv> (0x20 :: u8)"
abbreviation (input) "PIC2_START_INTERRUPT \<equiv> (0x28 :: u8)"
abbreviation (input) "PIC2_END_INTERRUPT \<equiv> PIC2_START_INTERRUPT + 7"

definition pic_send_eoi :: "u8 \<Rightarrow> ('z machine_scheme, unit) kM" where
  "pic_send_eoi irq =
     kseq (if irq \<ge> 8 then io_byte_out PIC2_COMMAND PIC_EOI else kret ())
          (io_byte_out PIC1_COMMAND PIC_EOI)"

definition pic_remap :: "('z machine_scheme, unit) kM" where
  "pic_remap =
     kseq (io_byte_out PIC1_COMMAND (ICW1_INIT OR ICW1_ICW4)) (kseq io_wait
    (kseq (io_byte_out PIC2_COMMAND (ICW1_INIT OR ICW1_ICW4)) (kseq io_wait
    (kseq (io_byte_out PIC1_DATA PIC1_START_INTERRUPT) (kseq io_wait
    (kseq (io_byte_out PIC2_DATA PIC2_START_INTERRUPT) (kseq io_wait
    (kseq (io_byte_out PIC1_DATA 4) (kseq io_wait
    (kseq (io_byte_out PIC2_DATA 2) (kseq io_wait
    (kseq (io_byte_out PIC1_DATA ICW4_8086) (kseq io_wait
    (kseq (io_byte_out PIC2_DATA ICW4_8086) (kseq io_wait
    (kseq (io_byte_out PIC1_DATA 0xf8)
          (io_byte_out PIC2_DATA 0xff)))))))))))))))))"

definition pic_set_interrupt_masks :: "('z machine_scheme, unit) kM" where
  "pic_set_interrupt_masks =
     kseq (io_byte_out PIC1_DATA 0xFC)
    (kseq (io_byte_out PIC2_DATA 0xFF)
          (kmod (\<lambda>s. s\<lparr>int_enabled := True\<rparr>)))"

definition pic_acknowledge :: "u8 \<Rightarrow> ('z machine_scheme, unit) kM" where
  "pic_acknowledge interrupt =
     (if interrupt < PIC1_START_INTERRUPT \<or> interrupt > PIC2_END_INTERRUPT then kret ()
      else if interrupt < PIC2_START_INTERRUPT then io_byte_out PIC1 PIC_ACK
      else io_byte_out PIC2 PIC_ACK)"

section \<open>The 8259A\<close>

text \<open>
  A chip waits for the initialization words that ICW1 announces, on its data port: ICW3 comes unless
  ICW1 says that the chip is a single one, ICW4 only if ICW1 asks for it. Afterwards a byte
  on the data port is the interrupt mask and a command byte with bits 7--5 equal to 001 ends the
  interrupt of highest priority in service.
\<close>

datatype chip_phase = Operational | Await_icw2 bool bool | Await_icw3 bool | Await_icw4

record chip =
  phase :: chip_phase
  vector_base :: u8
  cascade :: u8
  icw4 :: u8
  imr :: u8
  in_service :: "nat list"

definition chip_command :: "u8 \<Rightarrow> chip \<Rightarrow> chip" where
  "chip_command v c =
     (if bit v 4 then c\<lparr>phase := Await_icw2 (bit v 0) (bit v 1), imr := 0, in_service := []\<rparr>
      else if v AND 0xF8 = 0x20 then c\<lparr>in_service := tl (in_service c)\<rparr>
      else c)"

definition chip_data :: "u8 \<Rightarrow> chip \<Rightarrow> chip" where
  "chip_data v c = (case phase c of
      Await_icw2 need4 single \<Rightarrow> c\<lparr>vector_base := v AND 0xF8,
        phase := (if \<not> single then Await_icw3 need4 else if need4 then Await_icw4 else Operational)\<rparr>
    | Await_icw3 need4 \<Rightarrow> c\<lparr>cascade := v, phase := (if need4 then Await_icw4 else Operational)\<rparr>
    | Await_icw4 \<Rightarrow> c\<lparr>icw4 := v, phase := Operational\<rparr>
    | Operational \<Rightarrow> c\<lparr>imr := v\<rparr>)"

definition chip_event :: "u16 \<Rightarrow> io_event \<Rightarrow> chip \<Rightarrow> chip" where
  "chip_event port e c = (case e of
      Out_b p v \<Rightarrow> if p = port then chip_command v c else if p = port + 1 then chip_data v c else c
    | _ \<Rightarrow> c)"

text \<open>The chip at a port after a history of port accesses, newest first, from its power-on state.\<close>

definition chip_after :: "u16 \<Rightarrow> chip \<Rightarrow> io_event list \<Rightarrow> chip" where
  "chip_after port c log = foldr (chip_event port) log c"

lemma chip_after_Cons [simp]: "chip_after port c (e # log) = chip_event port e (chip_after port c log)"
  by (simp add: chip_after_def)

lemma chip_event_simps [simp]:
  "chip_event port (Out_b p v) c = (if p = port then chip_command v c else if p = port + 1 then chip_data v c else c)"
  "chip_event port (In_b p v) c = c"
  by (simp_all add: chip_event_def)

text \<open>The vector that an interrupt line raises, and whether the line gets through.\<close>

definition chip_vector :: "chip \<Rightarrow> nat \<Rightarrow> u8" where
  "chip_vector c line = vector_base c + of_nat line"

definition chip_enabled :: "chip \<Rightarrow> nat \<Rightarrow> bool" where
  "chip_enabled c line \<longleftrightarrow> phase c = Operational \<and> line < 8 \<and> \<not> bit (imr c) line"

section \<open>Properties\<close>

lemma chip_command_word [simp]:
  "chip_command 0x11 c = c\<lparr>phase := Await_icw2 True False, imr := 0, in_service := []\<rparr>"
  "chip_command PIC_EOI c = c\<lparr>in_service := tl (in_service c)\<rparr>"
proof -
  have "bit (0x11 :: u8) 4" "bit (0x11 :: u8) 0" "\<not> bit (0x11 :: u8) 1" "\<not> bit (0x20 :: u8) 4" "(0x20 :: u8) AND 0xF8 = 0x20" by code_simp+
  then show "chip_command 0x11 c = c\<lparr>phase := Await_icw2 True False, imr := 0, in_service := []\<rparr>"
    "chip_command PIC_EOI c = c\<lparr>in_service := tl (in_service c)\<rparr>" by (simp_all add: chip_command_def)
qed

text \<open>C26: whatever state the chips were in, after \<open>pic_remap\<close> and \<open>pic_set_interrupt_masks\<close> both
  8259A chips are initialized in cascade (the second one on line 2) in 8086 mode, their lines raise
  the interrupts 0x20--0x27 and 0x28--0x2F, only the lines 0 (timer) and 1 (keyboard) get through,
  and interrupts are on.\<close>

theorem pic_remap_programs_chips:
  "wp (kseq pic_remap pic_set_interrupt_masks) (\<lambda>_ s'. int_enabled s'
     \<and> (\<exists>m. chip_after PIC1 c1 (io_log s') = m \<and> phase m = Operational \<and> cascade m = 4 \<and> icw4 m = ICW4_8086
          \<and> (\<forall>line < 8. chip_vector m line = 0x20 + of_nat line) \<and> (\<forall>line. chip_enabled m line \<longleftrightarrow> line < 2))
     \<and> (\<exists>m. chip_after PIC2 c2 (io_log s') = m \<and> phase m = Operational \<and> cascade m = 2 \<and> icw4 m = ICW4_8086
          \<and> (\<forall>line < 8. chip_vector m line = 0x28 + of_nat line) \<and> (\<forall>line. \<not> chip_enabled m line))) s"
proof -
  have v: "(0x20 :: u8) AND 0xF8 = 0x20" "(0x28 :: u8) AND 0xF8 = 0x28" by code_simp+
  have fc: "bit (0xFC :: u8) line \<longleftrightarrow> 2 \<le> line" "bit (0xFF :: u8) line" if "line < 8" for line
  proof -
    have "line \<in> set [0..<8]" using that by simp
    moreover have "list_all (\<lambda>line. bit (0xFC :: u8) line = (2 \<le> line) \<and> bit (0xFF :: u8) line) [0..<8]" by code_simp
    ultimately show "bit (0xFC :: u8) line \<longleftrightarrow> 2 \<le> line" "bit (0xFF :: u8) line" by (simp_all only: list_all_iff)
  qed
  show ?thesis
    by (simp add: pic_remap_def pic_set_interrupt_masks_def chip_data_def chip_vector_def chip_enabled_def v)
      (use fc in \<open>auto simp: not_le\<close>)
qed

text \<open>Acknowledging an interrupt of the second chip sends the end-of-interrupt command to that chip
  alone: the interrupt of the cascade line stays in service on the first chip, which blocks every
  line of lower priority.\<close>

theorem pic_acknowledge_follower:
  assumes "0x28 \<le> interrupt" "interrupt \<le> 0x2F"
  shows "wp (pic_acknowledge interrupt) (\<lambda>_ s'.
     in_service (chip_after PIC2 c2 (io_log s')) = tl (in_service (chip_after PIC2 c2 (io_log s)))
     \<and> chip_after PIC1 c1 (io_log s') = chip_after PIC1 c1 (io_log s)) s"
proof -
  have "\<not> interrupt < 0x20" "\<not> interrupt > 0x28 + 7" "\<not> interrupt < 0x28"
    using assms by (simp_all add: word_less_nat_alt word_le_nat_alt)
  then show ?thesis by (simp add: pic_acknowledge_def)
qed

definition follower_chip :: chip where
  "follower_chip = \<lparr>phase = Operational, vector_base = 0x28, cascade = 2, icw4 = 1, imr = 0, in_service = [4]\<rparr>"

definition bare_machine :: machine where
  "bare_machine = \<lparr>mem = (\<lambda>_. 0), vidmem = (\<lambda>_. 0), io_log = [], hw_byte = (\<lambda>_ _. 0), hw_word = (\<lambda>_ _. 0), int_enabled = False\<rparr>"

theorem pic_acknowledge_follower_witness:
  "wp (pic_acknowledge 0x2C) (\<lambda>_ s'.
     in_service (chip_after PIC2 follower_chip (io_log s')) = tl (in_service (chip_after PIC2 follower_chip (io_log bare_machine)))
     \<and> chip_after PIC1 follower_chip (io_log s') = chip_after PIC1 follower_chip (io_log bare_machine)) bare_machine"
  by (rule pic_acknowledge_follower) simp_all

theorem pic_remap_programs_chips_witness:
  "wp (kseq pic_remap pic_set_interrupt_masks) (\<lambda>_ s'. chip_vector (chip_after PIC1 follower_chip (io_log s')) 1 = 0x21
     \<and> chip_enabled (chip_after PIC1 follower_chip (io_log s')) 1 \<and> \<not> chip_enabled (chip_after PIC1 follower_chip (io_log s')) 2
     \<and> chip_vector (chip_after PIC2 follower_chip (io_log s')) 4 = 0x2C) bare_machine"
  by (rule wp_mono [OF pic_remap_programs_chips [where ?c1.0 = follower_chip and ?c2.0 = follower_chip]]) auto

end
