(* ===== verification/Keyboard.thy ===== *)
theory Keyboard
  imports Pic Stdlib
begin

text \<open>
  The keyboard driver (\<open>drivers/input/keyboard.c\<close>): the interrupt handler reads a scan code,
  acknowledges the interrupt and puts the character of the key into the standard input.
\<close>

section \<open>Definitions\<close>

abbreviation (input) "KEYBOARD_INTERRUPT \<equiv> (0x21 :: u8)"
abbreviation (input) "KBD_DATA_PORT \<equiv> (0x60 :: u16)"

definition scan_to_ascii_lookup :: bytes where
  "scan_to_ascii_lookup =
     [0, 0] @ cstr ''1234567890-='' @ [0, 0]
   @ cstr ''qwertyuiop[]'' @ [0xA, 0] @ cstr ''as''
   @ cstr ''dfghjkl;'' @ [0x27, 0x60, 0, 0x5C] @ cstr ''zxcv''
   @ cstr ''bnm,./'' @ [0, 0, 0] @ cstr '' '' @ [0, 0, 0, 0, 0, 0]
   @ [0, 0, 0, 0, 0, 0, 0] @ cstr ''789-456+1''
   @ cstr ''230.'' @ replicate 12 0
   @ replicate (16 * 10) 0"

definition scan_to_ascii :: "u8 \<Rightarrow> u8" where
  "scan_to_ascii scan_code = scan_to_ascii_lookup ! unat scan_code"

definition keyboard_interrupt_handler :: "('z stdio_state_scheme, unit) kM" where
  "keyboard_interrupt_handler =
     kbind (io_byte_in KBD_DATA_PORT) (\<lambda>scan_code.
     kseq (pic_acknowledge KEYBOARD_INTERRUPT)
    (let ascii_char = scan_to_ascii scan_code in
     if ascii_char \<noteq> 0 then stdlib_put_stdio_input_char ascii_char else kret ()))"

section \<open>Scan codes\<close>

lemma length_scan_table: "length scan_to_ascii_lookup = 256"
  by (simp add: scan_to_ascii_lookup_def cstr_def)

text \<open>
  Reference: the keys of an US keyboard that type a character, unshifted, with their scan codes of
  set 1. The keys of a row have consecutive codes, so a row is its first code and what its keys type.
  The row of Q ends with enter, the row of A with the quote and the backquote, the row of Z starts with the
  backslash. Backspace (0x0E), tab (0x0F) and the keypad's star (0x37) are not among them: this
  kernel has no character for them. A code from 0x80 on is a release.
\<close>

definition us_rows :: "(u8 \<times> bytes) list" where
  "us_rows = [(0x02, cstr ''1234567890-=''), (0x10, cstr ''qwertyuiop[]'' @ [10]),
     (0x1E, cstr ''asdfghjkl;'' @ [39, 96]), (0x2B, 92 # cstr ''zxcvbnm,./''), (0x39, cstr '' ''),
     (0x47, cstr ''789-456+1230.'')]"

definition us_keys :: "(u8 \<times> u8) list" where
  "us_keys = concat (map (\<lambda>(first, row). zip (map (\<lambda>i. first + of_nat i) [0..<length row]) row) us_rows)"

definition key_char :: "u8 \<Rightarrow> u8 option" where
  "key_char = map_of us_keys"

definition key_byte :: "u8 \<Rightarrow> u8" where
  "key_byte k = (case key_char k of None \<Rightarrow> 0 | Some c \<Rightarrow> c)"

lemma us_keys_typed: "(k, c) \<in> set us_keys \<Longrightarrow> k < 0x80 \<and> c \<noteq> 0"
proof -
  have "list_all (\<lambda>(k, c). k < 0x80 \<and> c \<noteq> 0) us_keys" by code_simp
  then show "(k, c) \<in> set us_keys \<Longrightarrow> k < 0x80 \<and> c \<noteq> 0" by (auto simp: list_all_iff)
qed

lemma key_char_typed: "key_char k = Some c \<Longrightarrow> k < 0x80 \<and> c \<noteq> 0"
  by (rule us_keys_typed) (simp add: key_char_def map_of_SomeD)

lemma key_char_release: "0x80 \<le> k \<Longrightarrow> key_char k = None"
  using key_char_typed [of k] by (cases "key_char k") (auto simp: not_less [symmetric])

lemma key_byte_0: "key_byte k = 0 \<longleftrightarrow> key_char k = None"
  using key_char_typed [of k] by (auto simp: key_byte_def split: option.splits)

text \<open>The table of the code is the reference, for all 256 codes.\<close>

lemma fold_table:
  assumes "distinct (map fst ks)" "length t = 256"
  shows "fold (\<lambda>(k, c) t. t[unat k := c]) ks t ! unat (k :: u8) = (case map_of ks k of None \<Rightarrow> t ! unat k | Some c \<Rightarrow> c)"
  using assms
proof (induction ks arbitrary: t)
  case (Cons x ks)
  obtain l c where x: "x = (l, c)" by (cases x)
  have IH: "fold (\<lambda>(k, c) t. t[unat k := c]) ks (t[unat l := c]) ! unat k
      = (case map_of ks k of None \<Rightarrow> t[unat l := c] ! unat k | Some c \<Rightarrow> c)"
    using Cons.prems by (intro Cons.IH) simp_all
  have "map_of ks k = None" if "k = l" using that Cons.prems(1) by (simp add: x map_of_eq_None_iff)
  moreover have "unat l < length t" using Cons.prems(2) unsigned_less [of l] by simp
  ultimately show ?case by (auto simp: x IH nth_list_update word_unat_eq_iff split: option.splits)
qed simp

lemma scan_to_ascii_key: "scan_to_ascii k = key_byte k"
proof -
  have "fold (\<lambda>(k, c) t. t[unat k := c]) us_keys (replicate 256 0) = scan_to_ascii_lookup"
    "distinct (map fst us_keys)" by code_simp+
  moreover have "replicate 256 (0 :: u8) ! unat k = 0"
    using unsigned_less [of k, where ?'a = nat] by (intro nth_replicate) simp
  ultimately show ?thesis
    using fold_table [of us_keys "replicate 256 0" k]
    by (simp add: scan_to_ascii_def key_byte_def key_char_def split: option.splits)
qed

section \<open>Typing\<close>

text \<open>
  A keyboard that delivers the scan codes \<open>codes\<close>, one for each read of its data port; and the
  number of reads so far.
\<close>

definition key_reads :: "io_event list \<Rightarrow> nat" where
  "key_reads l = length (filter (\<lambda>e. case e of In_b p v \<Rightarrow> p = KBD_DATA_PORT | _ \<Rightarrow> False) l)"

definition keyboard_delivers :: "(nat \<Rightarrow> u8) \<Rightarrow> (io_event list \<Rightarrow> u16 \<Rightarrow> u8) \<Rightarrow> bool" where
  "keyboard_delivers codes hw \<longleftrightarrow> (\<forall>l. hw l KBD_DATA_PORT = codes (key_reads l))"

text \<open>What a sequence of scan codes types: the characters of the keys that have one.\<close>

definition typed_text :: "u8 list \<Rightarrow> bytes" where
  "typed_text codes = List.map_filter key_char codes"

lemma typed_text_simps [simp]:
  "typed_text [] = []" "typed_text (k # ks) = (case key_char k of None \<Rightarrow> [] | Some c \<Rightarrow> [c]) @ typed_text ks"
  by (simp_all add: typed_text_def List.map_filter_simps split: option.splits)

lemma typed_text_append [simp]: "typed_text (xs @ ys) = typed_text xs @ typed_text ys"
  by (induction xs) simp_all

lemma typed_text_length: "length (typed_text ks) \<le> length ks"
  by (induction ks) (auto split: option.splits)

lemma typed_text_presses: "typed_text (filter (\<lambda>k. k < 0x80) ks) = typed_text ks"
  by (induction ks) (auto simp: key_char_release not_less)

lemma stdin_ok_io_log [simp]: "stdin_ok (s\<lparr>io_log := l\<rparr>) = stdin_ok s"
  by (simp add: stdin_ok_def can_init_def)

lemma stream_io_log [simp]: "stream i (s\<lparr>io_log := l\<rparr>) = stream i s"
  by (simp add: stream_def)

lemma wp_keyboard:
  assumes "stdin_ok s" "keyboard_delivers codes (hw_byte s)" "length (stream StdInput s) < 4095"
  shows "wp keyboard_interrupt_handler (\<lambda>_ s'. stdin_ok s' \<and> hw_byte s' = hw_byte s
    \<and> key_reads (io_log s') = Suc (key_reads (io_log s))
    \<and> stream StdInput s' = stream StdInput s @ typed_text [codes (key_reads (io_log s))]
    \<and> sent_to PIC1 (io_log s') = sent_to PIC1 (io_log s) @ [PIC_ACK]) s"
proof -
  let ?c = "codes (key_reads (io_log s))"
  let ?t = "s\<lparr>io_log := Out_b PIC1 PIC_ACK # In_b KBD_DATA_PORT ?c # io_log s\<rparr>"
  have hw: "hw_byte s (io_log s) KBD_DATA_PORT = ?c" using assms(2) by (simp add: keyboard_delivers_def)
  have start: "wp keyboard_interrupt_handler Q s =
      wp (if scan_to_ascii ?c \<noteq> 0 then stdlib_put_stdio_input_char (scan_to_ascii ?c) else kret ()) Q ?t" for Q
    by (simp add: keyboard_interrupt_handler_def pic_acknowledge_def hw Let_def)
  have log: "key_reads (io_log ?t) = Suc (key_reads (io_log s))" "sent_to PIC1 (io_log ?t) = sent_to PIC1 (io_log s) @ [PIC_ACK]"
    by (simp_all add: key_reads_def)
  show ?thesis
  proof (cases "scan_to_ascii ?c = 0")
    case True
    then show ?thesis
      using assms(1) log key_byte_0 [of ?c] unfolding start by (simp add: scan_to_ascii_key)
  next
    case False
    then have key: "key_char ?c = Some (scan_to_ascii ?c)"
      by (auto simp: scan_to_ascii_key key_byte_def split: option.splits)
    have "stdin_ok ?t" "length (stream StdInput ?t) < 4095" using assms by simp_all
    then show ?thesis
      unfolding start using False log
      by (simp only: if_True not_False_eq_True)
        (rule wp_mono [OF wp_stdin_put_io], auto simp: key)
  qed
qed

text \<open>C24: keys typed reach the standard input: after \<open>n\<close> keyboard interrupts the input stream has
  grown by the characters that the US keyboard layout gives the pressed keys, in order; the
  releases, codes from 0x80 on, and the keys without a character are left out; every interrupt has
  been acknowledged to the interrupt controller.\<close>

theorem keyboard_types:
  assumes "stdin_ok s" "keyboard_delivers codes (hw_byte s)" "length (stream StdInput s) + n \<le> 4095"
  shows "wp (kfor [0..<n] (\<lambda>_. keyboard_interrupt_handler)) (\<lambda>_ s'. stdin_ok s'
    \<and> stream StdInput s' = stream StdInput s
        @ typed_text (filter (\<lambda>k. k < 0x80) (map codes [key_reads (io_log s)..<key_reads (io_log s) + n]))
    \<and> sent_to PIC1 (io_log s') = sent_to PIC1 (io_log s) @ replicate n PIC_ACK) s"
proof -
  define I where "I i s' \<longleftrightarrow> stdin_ok s' \<and> hw_byte s' = hw_byte s \<and> key_reads (io_log s') = key_reads (io_log s) + i
    \<and> stream StdInput s' = stream StdInput s @ typed_text (map codes [key_reads (io_log s)..<key_reads (io_log s) + i])
    \<and> sent_to PIC1 (io_log s') = sent_to PIC1 (io_log s) @ replicate i PIC_ACK" for i and s' :: "'a stdio_state_scheme"
  have "wp (kfor [0..<n] (\<lambda>_. keyboard_interrupt_handler)) (\<lambda>_. I n) s"
  proof (rule wp_kfor_upt)
    show "I 0 s" using assms(1) by (simp add: I_def)
    fix i t
    assume i: "i < n" and t: "I i t"
    have "length (typed_text (map codes [key_reads (io_log s)..<key_reads (io_log s) + i])) \<le> i"
      by (rule order.trans [OF typed_text_length]) simp
    then have "length (stream StdInput t) < 4095" using t i assms(3) by (simp add: I_def)
    then show "wp keyboard_interrupt_handler (\<lambda>_. I (Suc i)) t"
      using t assms(2) by (intro wp_mono [OF wp_keyboard])
        (auto simp: I_def replicate_append_same [symmetric])
  qed simp
  then show ?thesis by (rule wp_mono) (simp add: I_def typed_text_presses)
qed

text \<open>A keyboard on which the keys l, s and enter are pressed and released.\<close>

definition ls_codes :: "nat \<Rightarrow> u8" where
  "ls_codes n = (if n < 6 then [0x26, 0xA6, 0x1F, 0x9F, 0x1C, 0x9C] ! n else 0)"

definition typing_console :: stdio_state where
  "typing_console = small_console\<lparr>hw_byte := (\<lambda>l p. if p = KBD_DATA_PORT then ls_codes (key_reads l) else 0x20)\<rparr>"

lemma typing_console_ok: "stdin_ok typing_console" "keyboard_delivers ls_codes (hw_byte typing_console)"
proof -
  have "stdin_ok (small_console\<lparr>hw_byte := h\<rparr>) = stdin_ok small_console" for h
    by (simp add: stdin_ok_def can_init_def stdio_ok_def pmem_ok_def pmem_pages_def used_pages_def pmem_used_def
        entry_used_def record_addr_def entry_addr_def pmem_blocks_def buf_ok_def Let_def)
  then show "stdin_ok typing_console" using small_console_ok(3) by (simp add: typing_console_def)
  show "keyboard_delivers ls_codes (hw_byte typing_console)"
    by (simp add: keyboard_delivers_def typing_console_def)
qed

theorem keyboard_types_witness:
  "wp (kfor [0..<6] (\<lambda>_. keyboard_interrupt_handler)) (\<lambda>_ s'. stdin_ok s'
    \<and> stream StdInput s' = cstr ''ls\<newline>'' \<and> sent_to PIC1 (io_log s') = replicate 6 PIC_ACK) typing_console"
proof -
  have "stream StdInput typing_console = []" "io_log typing_console = []"
    by (simp_all add: typing_console_def stream_def small_console_def)
  moreover have "typed_text (filter (\<lambda>k. k < 0x80) (map ls_codes [0..<6])) = cstr ''ls\<newline>''" by code_simp
  ultimately show ?thesis
    using keyboard_types [OF typing_console_ok, of 6] by (simp add: key_reads_def del: upt.simps upt_rec_numeral)
qed

end
