(* ===== verification/Kernel.thy ===== *)
theory Kernel
  imports Selftests Keyboard
begin

text \<open>
  The kernel itself: the timer, the common interrupt handler, \<open>kernel_init\<close>, \<open>kernel_update\<close> and
  \<open>kernel_main\<close>. Interrupts are disabled while a handler runs, so a handler is one step of the system.
\<close>

section \<open>Definitions\<close>

subsection \<open>Timer\<close>

record kernel_state = shell_state +
  pit_hz :: u32
  pit_interrupt_count :: u32
  idtr :: u32
  interrupt_num_as_str :: bytes
  panicmsg :: bytes

abbreviation (input) "pit_divisor \<equiv> (0xFFFF :: u16)"
abbreviation (input) "pit_hz_signal \<equiv> (1193182 :: u32)"

text \<open>
  Only the lower half of the divisor register is loaded; \<open>r_ecx\<close> is what the register held before.
\<close>

definition pit_initialize :: "u32 \<Rightarrow> ('z kernel_state_scheme, unit) kM" where
  "pit_initialize r_ecx =
     kseq (io_byte_out 0x43 0x34)
    (kseq (io_byte_out 0x40 (ucast pit_divisor))
    (kseq (io_byte_out 0x40 (ucast (drop_bit 8 pit_divisor)))
          (kmod (\<lambda>s. s\<lparr>pit_hz := pit_hz_signal div (r_ecx AND 0xFFFF0000 OR ucast pit_divisor)\<rparr>))))"

text \<open>The counter is compared as a signed number: the step to 2^31 is the overflow.\<close>

definition pit_interrupt_handler :: "('z kernel_state_scheme, unit) kM" where
  "pit_interrupt_handler =
     kbind (kget pit_interrupt_count) (\<lambda>n.
     kseq (kmod (\<lambda>s. s\<lparr>pit_interrupt_count := n + 1\<rparr>))
          (if n = 0x7FFFFFFF then panic ''Interrupt Count Overflow!''
           else io_byte_out 0x20 0x20))"

subsection \<open>Interrupts\<close>

definition kernel_update :: "('z kernel_state_scheme, unit) kM" where
  "kernel_update = kseq stdlib_update (kseq shell_update sched_update)"

definition store_interrupt_number :: "nat \<Rightarrow> ('z kernel_state_scheme, unit) kM" where
  "store_interrupt_number int_num =
     kmod (\<lambda>s. s\<lparr>interrupt_num_as_str := map (\<lambda>d. of_nat d + 0x30) [int_num div 100, int_num mod 100 div 10, int_num mod 100 mod 10]\<rparr>)"

text \<open>
  The choice of the handler. For a recoverable interrupt the message is printed with the memory word at
  the address in \<open>ecx\<close>, which by then is the number the interrupt was compared with. A page fault
  prints the faulting address and halts with interrupts disabled.
\<close>

definition dispatch_interrupt :: "u32 \<Rightarrow> nat \<Rightarrow> ('z kernel_state_scheme, unit) kM" where
  "dispatch_interrupt cr2 int_num =
     (if int_num = 1 \<or> int_num = 3 then
        kbind (kget (\<lambda>s. load32 (mem s) (of_nat int_num))) (\<lambda>word.
        printf (cstr ''Handling Interrupt %x. Error code: %x\<newline>'') [ArgInt (of_nat int_num), ArgInt word])
      else if int_num = 0xD then panic ''General Protection Fault!\<newline>''
      else if int_num = 0xE then kseq (printf (cstr ''Page fault address: %x\<newline>'') [ArgInt cr2]) khang
      else if int_num = 0x20 then kseq pit_interrupt_handler kernel_update
      else if int_num = 0x21 then kseq keyboard_interrupt_handler kernel_update
      else if int_num = 0x33 then kernel_update
      else
        kseq (kmod (\<lambda>s. s\<lparr>panicmsg := take 10 (panicmsg s) @ take 3 (interrupt_num_as_str s) @ drop 13 (panicmsg s)\<rparr>))
       (kbind (kget panicmsg) (\<lambda>m. panic (map (\<lambda>c. char_of (unat c)) (takeWhile (\<lambda>c. c \<noteq> 0) m)))))"

text \<open>
  The handler of every interrupt. It runs with interrupts disabled; the return instruction restores
  the interrupt flag.
\<close>

definition common_interrupt_handler :: "u32 \<Rightarrow> nat \<Rightarrow> ('z kernel_state_scheme, unit) kM" where
  "common_interrupt_handler cr2 int_num =
     kbind (kget int_enabled) (\<lambda>interrupt_flag.
     kseq (kmod (\<lambda>s. s\<lparr>int_enabled := False\<rparr>))
    (kseq (store_interrupt_number int_num)
    (kseq (dispatch_interrupt cr2 int_num)
          (kmod (\<lambda>s. s\<lparr>int_enabled := interrupt_flag\<rparr>)))))"

definition load_and_enable_interrupts :: "u32 \<Rightarrow> (nat \<Rightarrow> u32) \<Rightarrow> ('z kernel_state_scheme, unit) kM" where
  "load_and_enable_interrupts idt_info isr =
     kseq (setup_idt idt_info isr) (kmod (\<lambda>s. s\<lparr>idtr := idt_info\<rparr>))"

text \<open>
  The world outside: a press of a key puts its scan code on the data port of the keyboard and raises
  its interrupt; the timer ticks; user code makes a system call.
\<close>

datatype event = Tick | Key u8 | Syscall

definition press_key :: "u8 \<Rightarrow> ('z machine_scheme, unit) kM" where
  "press_key c = kmod (\<lambda>s. s\<lparr>hw_byte := (\<lambda>l p. if p = KBD_DATA_PORT then c else hw_byte s l p)\<rparr>)"

fun deliver :: "event \<Rightarrow> ('z kernel_state_scheme, unit) kM" where
  "deliver Tick = common_interrupt_handler 0 0x20"
| "deliver (Key c) = kseq (press_key c) (common_interrupt_handler 0 0x21)"
| "deliver Syscall = common_interrupt_handler 0 0x33"

subsection \<open>Boot\<close>

text \<open>
  What the linker, the stack and the world decide: addresses of variables and entry points, a
  register, and the interrupts that come in while the timer test keeps the processor busy and while
  user code runs.
\<close>

record boot_env =
  env_idt_info :: u32
  env_isr :: "nat \<Rightarrow> u32"
  env_ecx :: u32
  env_busy :: "event list"
  env_TSS :: u32
  env_local :: u32
  env_gdt_tss :: u32
  env_esp :: u32
  env_events :: "event list"

definition kernel_init :: "boot_env \<Rightarrow> ('z kernel_state_scheme, unit) kM" where
  "kernel_init env =
     kbind (serial_init PORT_COM1) (\<lambda>serial_started.
     if serial_started \<noteq> SERIAL_SUCCESS then
       kseq (printf (cstr ''error initializaing serial port COM1\<newline>'') [])
            (panic ''cannot initialize serial connection'')
     else
       kseq (printf (cstr ''using serial COM1 for logging serial...\<newline>'') [])
      (kseq (load_and_enable_interrupts (env_idt_info env) (env_isr env))
      (kseq (test_run_idt (\<lambda>n. common_interrupt_handler 0 (unat n)))
      (kseq pic_remap
      (kseq pic_set_interrupt_masks
      (kseq (pit_initialize (env_ecx env))
      (kseq (pit_run_tests (run_ops deliver (env_busy env)) pit_interrupt_count)
      (kseq pmem_initialize
      (kseq pmem_run_tests
      (kseq vmem_init
      (kseq vmem_run_tests
      (kseq ramdisk_run_tests
      (kseq ramdisk_fat16_run_tests
      (kseq ramdisk_fat16_init
      (kbind fs_load_starting_files (\<lambda>_.
       kseq malloc_run_tests
      (kseq kmemlist
      (kseq (load_tss (env_TSS env) (env_local env) (env_gdt_tss env))
      (kseq process_init
      (kseq process_run_tests
      (kseq sched_init
            (printf (cstr ''kernel init complete\<newline>'') []))))))))))))))))))))))"

text \<open>User code starts with a system call and then spins, and only interrupts run the kernel.\<close>

definition enter_usermode :: "u32 \<Rightarrow> event list \<Rightarrow> ('z kernel_state_scheme, unit) kM" where
  "enter_usermode esp events =
     kseq (set_kernel_stack esp) (kseq (deliver Syscall) (kseq (run_ops deliver events) khang))"

abbreviation (input) "MULTIBOOT_BOOTLOADER_MAGIC \<equiv> (0x2BADB002 :: u32)"

definition kernel_main :: "boot_env \<Rightarrow> multiboot_info option \<Rightarrow> u32 \<Rightarrow> u32 \<Rightarrow> ('z kernel_state_scheme, unit) kM" where
  "kernel_main env mbd magic kernel_memory_end =
     kseq (printf (cstr ''kernel memory end is: %x\<newline>'') [ArgInt kernel_memory_end])
    (kseq (if magic \<noteq> MULTIBOOT_BOOTLOADER_MAGIC then
             kseq (printf (cstr ''magic number is %x'') [ArgInt magic]) (panic ''invalid magic number!'')
           else kret ())
    (kseq (pmem_set_mbd mbd kernel_memory_end)
    (kseq (kernel_init env)
    (kseq shell_init
    (kseq stdlib_flushstdio
    (kseq (enter_usermode (env_esp env) (env_events env))
          (panic ''shouldn't reach here?'')))))))"

section \<open>Lemmas\<close>

lemma wp_flushstdio:
  assumes "stdio_ok s" "is_init (std_output_buf s)" "\<And>t. console_frame s t \<Longrightarrow> stream StdOutput t = [] \<Longrightarrow> Q () t"
  shows "wp stdlib_flushstdio Q s"
  unfolding stdlib_flushstdio_def
proof (rule io_buffer_flush_Ok)
  note r = buf_ok_ready [OF assms(1), of StdOutput, simplified, OF assms(2)]
  show "buf_ready (std_buf StdOutput s)" "0 \<notin> set (buf_contents (mem s) (std_buf StdOutput s))" using r by simp_all
  fix v l
  let ?t = "s\<lparr>vidmem := v, io_log := l\<rparr>"
  have t: "stdio_ok ?t" "is_init (std_output_buf ?t)" using console_frameD(9) [OF display_frame assms(1)] assms(2) by simp_all
  show "Q () (upd_buf StdOutput (\<lambda>b. b\<lparr>tail_ptr := head_ptr b\<rparr>) ?t)"
    using console_frame_trans [OF display_frame flush_out_frame [OF t]] flush_stream(2) [OF t(1), of StdOutput StdOutput] t(2)
    by (intro assms(3)) simp_all
qed

lemma dispatch_simps:
  "dispatch_interrupt cr2 0x20 = kseq pit_interrupt_handler kernel_update"
  "dispatch_interrupt cr2 0x21 = kseq keyboard_interrupt_handler kernel_update"
  "dispatch_interrupt cr2 0x33 = kernel_update"
  by (simp_all add: dispatch_interrupt_def)

text \<open>A machine about to make its file system, with a prompt and an empty line.\<close>

definition kernel_machine :: kernel_state where
  "kernel_machine = shell_state.extend (typed_machine []) \<lparr>pit_hz = 0, pit_interrupt_count = 0, idtr = 0,
     interrupt_num_as_str = cstr ''???'', panicmsg = cstr ''Interrupt ??? is non-recoverable!'' @ [0xA, 0]\<rparr>"

lemma kernel_machine_console: "console_ok kernel_machine"
proof -
  have "console_ok kernel_machine = console_ok (typed_machine [])"
    by (rule stdio_cong) (simp add: stdio_state.truncate_def kernel_machine_def shell_state.extend_def)
  then show ?thesis using typed_machine_ok(1) [of "[]"] by (simp add: fat16_ready_def console_ok_def)
qed

section \<open>Properties\<close>

text \<open>C27: a kernel that was not started by a Multiboot loader stops at once: it panics with its message, and
  neither the memory map it was handed nor any other part of the machine but the console is used.\<close>

theorem kernel_main_wrong_magic:
  assumes "console_ok s" "magic \<noteq> 0x2BADB002"
  shows "\<exists>t. kernel_main env mbd magic kernel_memory_end s = Panicked ''invalid magic number!'' t \<and> console_frame s t"
proof -
  have stop: "\<exists>u. kseq (printf (cstr ''magic number is %x'') [ArgInt magic]) (panic ''invalid magic number!'' :: ('a kernel_state_scheme, unit) kM) t
      = Panicked ''invalid magic number!'' u \<and> console_frame s u" if t: "console_frame s t" for t
  proof -
    have "wp (printf (cstr ''magic number is %x'') [ArgInt magic]) (\<lambda>_. console_frame t) t"
      by (rule wp_printf_frame [OF console_ok_frame [OF assms(1) t]]) simp_all
    then obtain u where u: "printf (cstr ''magic number is %x'') [ArgInt magic] t = Ok () u" "console_frame t u"
      by (auto elim: wpE)
    obtain v l where "(panic ''invalid magic number!'' :: ('a kernel_state_scheme, unit) kM) u = Panicked ''invalid magic number!'' (u\<lparr>vidmem := v, io_log := l\<rparr>)"
      by (rule panic_stops)
    then show ?thesis
      using u console_frame_trans [OF console_frame_trans [OF t u(2)] display_frame] by (auto simp: kseq_Ok)
  qed
  have "wp (printf (cstr ''kernel memory end is: %x\<newline>'') [ArgInt kernel_memory_end]) (\<lambda>_. console_frame s) s"
    by (rule wp_printf_frame [OF assms(1)]) simp_all
  then obtain t where t: "printf (cstr ''kernel memory end is: %x\<newline>'') [ArgInt kernel_memory_end] s = Ok () t" "console_frame s t"
    by (auto elim: wpE)
  obtain u where u: "kseq (printf (cstr ''magic number is %x'') [ArgInt magic]) (panic ''invalid magic number!'' :: ('a kernel_state_scheme, unit) kM) t
      = Panicked ''invalid magic number!'' u" "console_frame s u" using stop [OF t(2)] by blast
  have "kernel_main env mbd magic kernel_memory_end s = Panicked ''invalid magic number!'' u"
    unfolding kernel_main_def if_P [OF assms(2)]
    by (subst kseq_Ok, rule t(1), subst kseq_def, rule kbind_Panicked, rule u(1))
  with u(2) show ?thesis by blast
qed

definition any_env :: boot_env where
  "any_env = \<lparr>env_idt_info = 0, env_isr = (\<lambda>_. 0), env_ecx = 0, env_busy = [], env_TSS = 0, env_local = 0, env_gdt_tss = 0,
     env_esp = 0, env_events = []\<rparr>"

theorem kernel_main_wrong_magic_witness:
  "\<exists>t. kernel_main any_env None 0x1BADB002 0x200000 kernel_machine = Panicked ''invalid magic number!'' t \<and> console_frame kernel_machine t"
  by (rule kernel_main_wrong_magic) (use kernel_machine_console in simp_all)

definition decimal3 :: "nat \<Rightarrow> string" where
  "decimal3 n = map (\<lambda>d. char_of (d + 48)) [n div 100, n mod 100 div 10, n mod 10]"

text \<open>C28: an interrupt without a handler stops the kernel with a message that carries the interrupt's number
  in three decimal digits.\<close>

theorem unknown_interrupt_panics:
  assumes "n < 256" "n \<notin> {1, 3, 0xD, 0xE, 0x20, 0x21, 0x33}" "panicmsg s = cstr ''Interrupt ??? is non-recoverable!'' @ [0xA, 0]"
  shows "\<exists>t. common_interrupt_handler cr2 n s = Panicked (''Interrupt '' @ decimal3 n @ '' is non-recoverable!\<newline>'') t"
proof -
  let ?digits = "map (\<lambda>d. of_nat d + 0x30 :: u8) [n div 100, n mod 100 div 10, n mod 100 mod 10]"
  let ?msg = "''Interrupt '' @ decimal3 n @ '' is non-recoverable!\<newline>''"
  let ?s = "s\<lparr>int_enabled := False, interrupt_num_as_str := ?digits\<rparr>"
  let ?m = "cstr ''Interrupt '' @ ?digits @ cstr '' is non-recoverable!'' @ [0xA, 0]"
  let ?t = "?s\<lparr>panicmsg := ?m\<rparr>"
  have digit: "unat (of_nat d + 0x30 :: u8) = d + 48" if "d < 10" for d
    using that by (simp add: unat_word_ariths unat_of_nat)
  have d: "n div 100 < 10" "n mod 100 div 10 < 10" "n mod 100 mod 10 < 10" using assms(1) by auto
  have mod10: "n mod 100 mod 10 = n mod 10" by (simp add: mod_mod_cancel)
  have nz: "of_nat d + 0x30 \<noteq> (0 :: u8)" if "d < 10" for d using digit [OF that] by auto
  have msg: "map (\<lambda>c. char_of (unat c)) (takeWhile (\<lambda>c. c \<noteq> 0) ?m) = ?msg"
    using digit [OF d(1)] digit [OF d(2)] digit [OF d(3)] nz [OF d(1)] nz [OF d(2)] nz [OF d(3)]
    by (simp add: cstr_def decimal3_def mod10) (simp add: char_of_def bit_simps)
  have buf: "take 10 (panicmsg ?s) @ take 3 (interrupt_num_as_str ?s) @ drop 13 (panicmsg ?s) = ?m"
    using assms(3) by (simp add: cstr_def)
  have pm: "panicmsg ?t = ?m" by simp
  obtain v l where stop: "(panic ?msg :: ('a kernel_state_scheme, unit) kM) ?t = Panicked ?msg (?t\<lparr>vidmem := v, io_log := l\<rparr>)"
    by (rule panic_stops)
  have "dispatch_interrupt cr2 n = kseq (kmod (\<lambda>s. s\<lparr>panicmsg := take 10 (panicmsg s) @ take 3 (interrupt_num_as_str s) @ drop 13 (panicmsg s)\<rparr>))
       (kbind (kget panicmsg) (\<lambda>m. panic (map (\<lambda>c. char_of (unat c)) (takeWhile (\<lambda>c. c \<noteq> 0) m))) :: ('a kernel_state_scheme, unit) kM)"
    using assms(2) by (simp add: dispatch_interrupt_def)
  then have "dispatch_interrupt cr2 n ?s = Panicked ?msg (?t\<lparr>vidmem := v, io_log := l\<rparr>)"
    using stop pm by (simp only: kseq_kmod kbind_kget buf msg)
  then show ?thesis
    by (auto simp: common_interrupt_handler_def store_interrupt_number_def kseq_def kbind_Panicked kernel_defs)
qed

theorem unknown_interrupt_panics_witness:
  "\<exists>t. common_interrupt_handler 0 42 kernel_machine = Panicked ''Interrupt 042 is non-recoverable!\<newline>'' t"
proof -
  have m: "panicmsg kernel_machine = cstr ''Interrupt ??? is non-recoverable!'' @ [0xA, 0]"
    by (simp add: kernel_machine_def shell_state.extend_def)
  have "''Interrupt '' @ decimal3 42 @ '' is non-recoverable!\<newline>'' = ''Interrupt 042 is non-recoverable!\<newline>''" by code_simp
  then show ?thesis using unknown_interrupt_panics [OF _ _ m, of 42 0] by auto
qed

text \<open>The timer's counter is signed: the tick that would take it past 2^31 - 1 stops the kernel.\<close>

theorem timer_overflow_panics:
  assumes "pit_interrupt_count s = 0x7FFFFFFF"
  shows "\<exists>t. deliver Tick s = Panicked ''Interrupt Count Overflow!'' t"
proof -
  let ?s = "s\<lparr>int_enabled := False, interrupt_num_as_str := map (\<lambda>d. of_nat d + 0x30) [0, 3, 2], pit_interrupt_count := 0x80000000\<rparr>"
  obtain v l where "(panic ''Interrupt Count Overflow!'' :: ('a kernel_state_scheme, unit) kM) ?s
      = Panicked ''Interrupt Count Overflow!'' (?s\<lparr>vidmem := v, io_log := l\<rparr>)"
    by (rule panic_stops)
  then show ?thesis
    using assms by (simp add: common_interrupt_handler_def store_interrupt_number_def dispatch_simps pit_interrupt_handler_def kernel_defs)
qed

theorem timer_overflow_panics_witness:
  "\<exists>t. deliver Tick (kernel_machine\<lparr>pit_interrupt_count := 0x7FFFFFFF\<rparr>) = Panicked ''Interrupt Count Overflow!'' t"
  by (rule timer_overflow_panics) simp

text \<open>C20: flushing the output ends, for every content of the buffer: the output stream is empty afterwards
  and the input stream as before.\<close>

theorem flush_empties_output:
  assumes "stdio_ok s" "is_init (std_output_buf s)"
  shows "wp stdlib_flushstdio (\<lambda>_ t. stdio_ok t \<and> stream StdOutput t = [] \<and> stream StdInput t = stream StdInput s) s"
  by (rule wp_flushstdio [OF assms]) (use console_frameD(8,9) assms(1) in blast)

text \<open>A console with \<open>Hi\<close> in its output buffer, across the end of the buffer.\<close>

definition pending_console :: stdio_state where
  "pending_console = small_console\<lparr>mem := (mem small_console)(0x201FFF := 72, 0x201000 := 105),
     std_output_buf := (std_output_buf small_console)\<lparr>tail_ptr := 4095, head_ptr := 1\<rparr>\<rparr>"

lemma pending_console_ok: "stdio_ok pending_console" "stream StdOutput pending_console = [72, 105]"
proof -
  have "page_of 0x201FFF = 0x201000" "page_of 0x201000 = 0x201000" by (simp_all add: page_of_def)
  then have "pmem_ok (small_console\<lparr>mem := mem pending_console\<rparr>) \<and> pmem_pages (small_console\<lparr>mem := mem pending_console\<rparr>) = pmem_pages small_console
      \<and> pmem_used (small_console\<lparr>mem := mem pending_console\<rparr>) = pmem_used small_console
      \<and> used_pages (small_console\<lparr>mem := mem pending_console\<rparr>) = used_pages small_console"
    using pm.used_pages [OF small_console_pages(3)] small_console_pages(1)
    by (intro pmem_write_frame [OF small_console_pages(3)]) (auto simp: pending_console_def)
  moreover have "pmem_ok (s\<lparr>std_output_buf := b\<rparr>) = pmem_ok s" "used_pages (s\<lparr>std_output_buf := b\<rparr>) = used_pages s"
    for s :: stdio_state and b
    by (simp_all add: pmem_ok_def used_pages_def pmem_used_def entry_used_def record_addr_def entry_addr_def [abs_def] pmem_blocks_def)
  ultimately have pm: "pmem_ok pending_console" "used_pages pending_console = {0x201000}"
    using small_console_pages(1) by (simp_all add: pending_console_def)
  have contents: "buf_contents (mem pending_console) (std_output_buf pending_console) = [72, 105]"
    by (simp add: buf_contents_def ring_len_def pending_console_def small_console_def upt_rec)
  then show "stream StdOutput pending_console = [72, 105]"
    by (simp add: stream_def) (simp add: pending_console_def small_console_def)
  have "buf_ok StdOutput pending_console"
    using contents by (simp add: buf_ok_def pm(2)) (simp add: pending_console_def small_console_def buf_ready_def)
  moreover have "buf_ok StdInput pending_console"
    by (simp add: buf_ok_def pending_console_def small_console_def)
  ultimately show "stdio_ok pending_console"
    using pm(1) by (simp add: stdio_ok_def) (simp add: pending_console_def small_console_def)
qed

theorem flush_empties_output_witness:
  "stream StdOutput pending_console = [72, 105] \<and> wp stdlib_flushstdio (\<lambda>_ t. stdio_ok t
    \<and> stream StdOutput t = [] \<and> stream StdInput t = stream StdInput pending_console) pending_console"
  using flush_empties_output [OF pending_console_ok(1)] pending_console_ok(2)
  by (simp add: pending_console_def small_console_def)

end
