(* ===== verification/Fat16_Dir.thy ===== *)
theory Fat16_Dir
  imports Fat16_Files Sim_Spec
begin

text \<open>
  The file system as a directory of files. A file is never removed, so the directory of the disk is a
  list, in the order of creation; writing a small file appends to it and leaves every other file as it
  is. A name is looked up by \<open>memcmp\<close>: it is answered by the first file whose native name is nowhere
  greater.
\<close>

section \<open>The abstract directory\<close>

type_synonym directory = "(bytes \<times> bytes) list"

definition answers :: "bytes \<Rightarrow> bytes \<Rightarrow> bool" where
  "answers asked stored \<longleftrightarrow> (\<forall>j < 11. stored ! j \<le> asked ! j)"

definition dir_lookup :: "bytes \<Rightarrow> directory \<Rightarrow> (bytes \<times> bytes) option" where
  "dir_lookup f F = find (\<lambda>file. answers (ramdisk_fat16_filename_to_native f) (fst file)) F"

fun dir_abs :: "bytes \<times> bytes \<Rightarrow> directory \<Rightarrow> directory" where
  "dir_abs (f, d) F = F @ [(ramdisk_fat16_filename_to_native f, d)]"

fun dir_conc :: "bytes \<times> bytes \<Rightarrow> ('z fat16_state_scheme, unit) kM" where
  "dir_conc (f, d) = kbind (ramdisk_fat16_file_write f (Local d) (of_nat (length d))) (\<lambda>_. kret ())"

fun dir_allowed :: "bytes \<times> bytes \<Rightarrow> directory \<Rightarrow> bool" where
  "dir_allowed (f, d) F \<longleftrightarrow> length d \<le> 512 \<and> length F < 31 \<and> dir_lookup f F = None"

text \<open>When the disk implements a directory.\<close>

definition dir_entry :: "bytes \<Rightarrow> nat \<Rightarrow> nat \<Rightarrow> bytes \<times> bytes \<Rightarrow> bool" where
  "dir_entry D i c = (\<lambda>(m, d). c < 415 \<and> fat_at D c \<noteq> 0 \<and> length m = 11 \<and> m ! 0 \<noteq> 0 \<and> take 11 (root_bytes D i) = m
     \<and> entry_low_cluster_number (entry_of_bytes (root_bytes D i)) = of_nat c \<and> take (length d) (cluster_data D c) = d)"

definition free_clusters :: "bytes \<Rightarrow> nat set" where
  "free_clusters D = {c. c < 415 \<and> fat_at D c = 0}"

definition dir_disk :: "bytes \<Rightarrow> directory \<Rightarrow> bool" where
  "dir_disk D F \<longleftrightarrow> length F \<le> 31 \<and> 0 \<notin> free_clusters D \<and> 31 \<le> card (free_clusters D) + length F
     \<and> (\<forall>i < 32. length F < i \<longrightarrow> root_free D i) \<and> (\<forall>k < length F. \<exists>c. dir_entry D (Suc k) c (F ! k))"

definition dir_rel :: "'z fat16_state_scheme \<Rightarrow> directory \<Rightarrow> bool" where
  "dir_rel s F \<longleftrightarrow> fat16_ok s \<and> dir_disk (disk s) F"

section \<open>Looking up names\<close>

lemma dir_entry_match:
  assumes "dir_entry D i c (m, d)"
  shows "root_match f D i \<longleftrightarrow> answers (ramdisk_fat16_filename_to_native f) m" "\<not> root_free D i"
proof -
  have e: "length m = 11" "m ! 0 \<noteq> 0" "take 11 (root_bytes D i) = m" using assms by (simp_all add: dir_entry_def)
  have nth: "root_bytes D i ! j = m ! j" if "j < 11" for j using e(3) nth_take [OF that, of "root_bytes D i"] by simp
  from nth [of 0] e(2) show free: "\<not> root_free D i" by (simp add: root_free_def)
  with nth show "root_match f D i \<longleftrightarrow> answers (ramdisk_fat16_filename_to_native f) m" by (simp add: root_match_def answers_def)
qed

lemma dir_disk_match:
  assumes "dir_disk D F" "i \<noteq> 0" "i < 32"
  shows "root_match f D i \<longleftrightarrow> i \<le> length F \<and> answers (ramdisk_fat16_filename_to_native f) (fst (F ! (i - 1)))"
    "root_free D i \<longleftrightarrow> length F < i"
proof -
  obtain k where k: "i = Suc k" using assms(2) by (cases i) auto
  have e: "\<exists>c. dir_entry D i c (F ! k)" if "k < length F" using assms(1) that by (simp add: dir_disk_def k)
  have f: "root_free D i" if "length F < i" using assms(1,3) that by (simp add: dir_disk_def)
  show "root_match f D i \<longleftrightarrow> i \<le> length F \<and> answers (ramdisk_fat16_filename_to_native f) (fst (F ! (i - 1)))"
    "root_free D i \<longleftrightarrow> length F < i"
    using e f dir_entry_match [of D i _ "fst (F ! k)" "snd (F ! k)"]
    by (cases "k < length F"; force simp: k root_match_def)+
qed

lemma first_or_zero_least:
  assumes "P x" "a \<le> x" "x < b" "\<And>y. a \<le> y \<Longrightarrow> y < x \<Longrightarrow> \<not> P y"
  shows "first_or_zero P [a..<b] = x"
proof -
  have "[a..<b] = [a..<x] @ x # [Suc x..<b]"
    using assms(2,3) upt_add_eq_append [of a x "b - x"] by (simp add: upt_conv_Cons)
  then show ?thesis using assms(1,4) by (auto simp: first_or_zero_append)
qed

lemma dir_find:
  assumes "dir_disk D F" "dir_lookup f F = Some (m, d)"
  obtains k c where "first_or_zero (root_match f D) [1..<32] = Suc k" "dir_entry D (Suc k) c (m, d)"
proof -
  obtain k where k: "k < length F" "answers (ramdisk_fat16_filename_to_native f) (fst (F ! k))" "F ! k = (m, d)"
    "\<And>j. j < k \<Longrightarrow> \<not> answers (ramdisk_fat16_filename_to_native f) (fst (F ! j))"
    using assms(2) unfolding dir_lookup_def find_Some_iff by metis
  have len: "length F \<le> 31" using assms(1) by (simp add: dir_disk_def)
  have "first_or_zero (root_match f D) [1..<32] = Suc k"
  proof (rule first_or_zero_least)
    show "root_match f D (Suc k)" "Suc k < 32" using dir_disk_match(1) [OF assms(1), of "Suc k" f] k len by simp_all
    fix y
    assume "1 \<le> y" "y < Suc k"
    then show "\<not> root_match f D y" using dir_disk_match(1) [OF assms(1), of y f] k(1,4) len by simp
  qed simp
  moreover have "\<exists>c. dir_entry D (Suc k) c (m, d)" using assms(1) k(1,3) unfolding dir_disk_def by metis
  ultimately show thesis using that by blast
qed

lemma dir_find_none:
  assumes "dir_disk D F" "dir_lookup f F = None"
  shows "first_or_zero (root_match f D) [1..<32] = 0"
proof -
  have none: "\<not> answers (ramdisk_fat16_filename_to_native f) (fst (F ! k))" if "k < length F" for k
    using assms(2) nth_mem [OF that] unfolding dir_lookup_def find_None_iff by blast
  have "\<not> root_match f D i" if "i \<in> set [1..<32]" for i
  proof -
    have i: "i \<noteq> 0" "i < 32" using that unfolding set_upt by auto
    then show ?thesis using dir_disk_match(1) [OF assms(1) i, of f] none [of "i - 1"] by auto
  qed
  moreover have "0 \<notin> set [1..<32]" unfolding set_upt by simp
  ultimately show ?thesis using first_or_zero_none by metis
qed

section \<open>Reading\<close>

lemma dir_rel_same: "dir_rel s F \<Longrightarrow> fat16_ok t \<Longrightarrow> disk t = disk s \<Longrightarrow> dir_rel t F"
  by (simp add: dir_rel_def)

lemma wp_dir_read:
  assumes "dir_rel s F" "dir_lookup f F = Some (m, d)" "512 \<le> length buf"
  shows "wp (ramdisk_fat16_file_read f (Local buf) 0)
    (\<lambda>(q, b) t. q = 0 \<and> fs_same s t \<and> dir_rel t F \<and> take (length d) (local_bytes b) = d) s"
proof -
  have s: "fat16_ok s" "dir_disk (disk s) F" using assms(1) by (simp_all add: dir_rel_def)
  obtain k c where k: "first_or_zero (root_match f (disk s)) [1..<32] = Suc k" "dir_entry (disk s) (Suc k) c (m, d)"
    by (rule dir_find [OF s(2) assms(2)])
  have c: "entry_low_cluster_number (entry_of_bytes (root_bytes (disk s) (Suc k))) = of_nat c" "c < 415"
    "take (length d) (cluster_data (disk s) c) = d" using k(2) by (simp_all add: dir_entry_def)
  have "length d \<le> length (cluster_data (disk s) c)" using arg_cong [OF c(3), of length] by simp
  then have "take (length d) (cluster_data (disk s) c @ drop 512 buf) = d" using c(3) by simp
  then show ?thesis
    using dir_rel_same [OF assms(1)] by (intro wp_mono [OF wp_file_read [OF s(1) k(1) _ assms(3) c(1,2)]]) auto
qed

section \<open>Writing\<close>

lemma fat_at_written:
  assumes "c < 415" "i < 415" "length x \<le> 512" "262144 \<le> length D" "e < 32" "length (bytes_of_entry E) = 32"
  shows "fat_at (file_written E e c x D) i = (if i = c then 0xF8FF else fat_at D i)"
    "k < 415 \<Longrightarrow> k \<noteq> c \<Longrightarrow> cluster_data (file_written E e c x D) k = cluster_data D k"
proof -
  let ?v = "le16_bytes (eswap_uint16 0xFFF8)"
  let ?d1 = "overwrite (512 * (97 + c)) x D"
  let ?d2 = "overwrite (512 + 2 * c) ?v ?d1"
  let ?d3 = "overwrite (16385 + 2 * c) ?v ?d2"
  have v: "length ?v = 2" "le16_of ?v = 0xF8FF" by (simp add: le16_bytes_def, code_simp)
  have len: "length ?d1 = length D" "length ?d2 = length D" "length ?d3 = length D" using assms v(1) by simp_all
  have w: "file_written E e c x D = overwrite (33280 + 32 * e) (bytes_of_entry E) ?d3"
    by (simp add: file_written_def fat_written_def)
  have "fat_at (file_written E e c x D) i = fat_at ?d3 i"
    unfolding w fat_at_def using assms len by (subst slice_overwrite_disjoint) simp_all
  also have "\<dots> = fat_at ?d2 i"
    unfolding fat_at_def using assms len v(1) by (subst slice_overwrite_disjoint) simp_all
  also have "\<dots> = (if i = c then 0xF8FF else fat_at D i)"
  proof (cases "i = c")
    case True
    then show ?thesis
      using slice_overwrite_same [of "512 + 2 * c" ?v ?d1] v len(1) assms(1,4) by (simp add: fat_at_def)
  next
    case False
    then have "fat_at ?d2 i = fat_at ?d1 i"
      unfolding fat_at_def using assms len v(1) by (subst slice_overwrite_disjoint) auto
    then show ?thesis using False fat_at_data assms by simp
  qed
  finally show "fat_at (file_written E e c x D) i = (if i = c then 0xF8FF else fat_at D i)" .
  show "cluster_data (file_written E e c x D) k = cluster_data D k" if "k < 415" "k \<noteq> c"
  proof -
    have "cluster_data (file_written E e c x D) k = cluster_data (fat_written c 0xFFF8 ?d1) k"
      using slice_overwrite_disjoint [of "33280 + 32 * e" "bytes_of_entry E" ?d3 "512 * (97 + k)" 512] assms len that
      by (simp add: w fat_written_def cluster_data_def)
    also have "\<dots> = cluster_data ?d1 k" using cluster_data_fat_written [OF assms(1) that(1)] len(1) assms(4) by simp
    also have "\<dots> = cluster_data D k"
      unfolding cluster_data_def using assms that by (subst slice_overwrite_disjoint) auto
    finally show ?thesis .
  qed
qed

lemma dir_disk_written:
  assumes D: "dir_disk D F" "262144 \<le> length D" "length F < 31" and c: "c \<in> free_clusters D"
    and E: "entry_name E = ramdisk_fat16_filename_to_native f" "entry_low_cluster_number E = of_nat c" and d: "length d \<le> 512"
  shows "dir_disk (file_written E (Suc (length F)) c d D) (F @ [(ramdisk_fat16_filename_to_native f, d)])"
proof -
  let ?D = "file_written E (Suc (length F)) c d D" and ?n = "ramdisk_fat16_filename_to_native f"
  have c': "c < 415" "fat_at D c = 0" using c by (simp_all add: free_clusters_def)
  have E': "length (bytes_of_entry E) = 32" using E(1) by (simp add: length_bytes_of_entry)
  have e: "Suc (length F) < 32" using D(3) by simp
  note v = file_written_view [OF c'(1) d D(2) e E'] and a = fat_at_written [OF c'(1) _ d D(2) e E']
  have free: "free_clusters ?D = free_clusters D - {c}" using a(1) by (auto simp: free_clusters_def split: if_splits)
  have "finite (free_clusters D)" by (simp add: free_clusters_def)
  then have "Suc (card (free_clusters ?D)) = card (free_clusters D)" unfolding free using c by (rule card_Suc_Diff1)
  moreover have "31 \<le> card (free_clusters D) + length F" "0 \<notin> free_clusters D" using D(1) by (simp_all add: dir_disk_def)
  moreover have "root_free ?D i" if "i < 32" "Suc (length F) < i" for i
    using D(1) that v(2) [of i] by (simp add: dir_disk_def root_free_def)
  moreover have "\<exists>c. dir_entry ?D (Suc k) c (F ! k)" if k: "k < length F" for k
  proof -
    obtain b where b: "dir_entry D (Suc k) b (F ! k)" using D(1) k by (auto simp: dir_disk_def)
    then have ne: "b < 415" "b \<noteq> c" using c'(2) by (auto simp: dir_entry_def)
    have "root_bytes ?D (Suc k) = root_bytes D (Suc k)" using v(2) [of "Suc k"] k e by simp
    then have "dir_entry ?D (Suc k) b (F ! k)" using b a(1) [OF ne(1)] a(2) [OF c'(1) ne] ne(2) by (auto simp: dir_entry_def)
    then show ?thesis by blast
  qed
  moreover have "dir_entry ?D (Suc (length F)) c (?n, d)"
  proof -
    have "take 11 (bytes_of_entry E) = ?n" using E(1) by (simp add: bytes_of_entry_def)
    then show ?thesis
      using v(1,3) c'(1) a(1) [OF c'(1)] native_first [of f] E entry_roundtrip [of E] by (simp add: dir_entry_def)
  qed
  ultimately show ?thesis
    using D(3) free by (auto simp: dir_disk_def nth_append less_Suc_eq)
qed

lemma dir_can_write:
  assumes "dir_rel s F" "length F < 31" "dir_lookup f F = None"
  shows "can_write f s" "free_cluster s \<in> free_clusters (disk s)" "free_root s = Suc (length F)"
proof -
  have s: "fat16_ok s" "dir_disk (disk s) F" using assms(1) by (simp_all add: dir_rel_def)
  have "free_clusters (disk s) \<noteq> {}" using s(2) assms(2) by (auto simp: dir_disk_def)
  then obtain b where b: "b < 415" "fat_at (disk s) b = 0" "fat_at (disk s) 0 \<noteq> 0"
    using s(2) by (auto simp: free_clusters_def dir_disk_def)
  have fc: "free_cluster s \<noteq> 0"
    unfolding free_cluster_def by (rule first_or_zero_hit [of b]) (use b in simp_all)
  then show "free_cluster s \<in> free_clusters (disk s)"
    using first_or_zero_range [of "\<lambda>i. fat_at (disk s) i = 0" "[0..<415]"] by (auto simp: free_cluster_def free_clusters_def)
  show e: "free_root s = Suc (length F)"
    unfolding free_root_def
  proof (rule first_or_zero_least)
    show "root_free (disk s) (Suc (length F))" "Suc (length F) < 32" using dir_disk_match(2) [OF s(2), of "Suc (length F)"] assms(2) by simp_all
    fix y
    assume "1 \<le> y" "y < Suc (length F)"
    then show "\<not> root_free (disk s) y" using dir_disk_match(2) [OF s(2), of y] assms(2) by simp
  qed simp
  show "can_write f s" using s(1) dir_find_none [OF s(2) assms(3)] fc e by (simp add: can_write_def free_cluster_def free_root_def)
qed

lemma wp_dir_write:
  assumes "dir_rel s F" "unat n \<le> 512" "unat n \<le> length d" "length F < 31" "dir_lookup f F = None"
  shows "wp (ramdisk_fat16_file_write f (Local d) n) (\<lambda>r t. r = 0 \<and> fs_same s t
    \<and> dir_rel t (F @ [(ramdisk_fat16_filename_to_native f, take (unat n) d)])) s"
proof -
  have s: "fat16_ok s" "dir_disk (disk s) F" using assms(1) by (simp_all add: dir_rel_def)
  note c = dir_can_write [OF assms(1,4,5)]
  have x: "length (take (unat n) d) \<le> 512" using assms(2) by simp
  show ?thesis
    by (rule wp_mono [OF wp_file_write_small [OF c(1) assms(2,3)]])
      (use dir_disk_written [OF s(2) fat16_okD(5) [OF s(1)] assms(4) c(2) _ _ x, of "new_file s f n (free_cluster s)" f] c(3) in
        \<open>simp add: dir_rel_def new_file_def\<close>)
qed

text \<open>On a cluster that holds only zeros a short file comes back followed by zeros.\<close>

lemma overwrite_padded:
  assumes "a + n \<le> length D" "length x \<le> n" "slice a n D = replicate n z"
  shows "overwrite a x D = overwrite a (x @ replicate (n - length x) z) D"
proof (rule nth_equalityI)
  show "length (overwrite a x D) = length (overwrite a (x @ replicate (n - length x) z) D)" using assms by simp
  fix i
  have "D ! i = z" if "a \<le> i" "i < a + n"
    using nth_slice [of a n D "i - a"] assms(1,3) that by simp
  then show "overwrite a x D ! i = overwrite a (x @ replicate (n - length x) z) D ! i"
    using assms(1,2) by (auto simp: nth_overwrite nth_append)
qed

lemma wp_dir_write_padded:
  assumes "dir_rel s F" "unat n \<le> 512" "unat n \<le> length d" "length F < 31" "dir_lookup f F = None"
    and "cluster_data (disk s) (free_cluster s) = replicate 512 0"
  shows "wp (ramdisk_fat16_file_write f (Local d) n) (\<lambda>r t. r = 0 \<and> fs_same s t
    \<and> dir_rel t (F @ [(ramdisk_fat16_filename_to_native f, take (unat n) d @ replicate (512 - unat n) 0)])) s"
proof -
  have s: "fat16_ok s" "dir_disk (disk s) F" using assms(1) by (simp_all add: dir_rel_def)
  note c = dir_can_write [OF assms(1,4,5)]
  let ?x = "take (unat n) d @ replicate (512 - unat n) 0"
  have x: "length ?x \<le> 512" using assms(2,3) by simp
  have "512 * (97 + free_cluster s) + 512 \<le> length (disk s)" using can_writeD(5,8) [OF c(1)] by simp
  from overwrite_padded [OF this, of "take (unat n) d" 0]
  have "file_written E e (free_cluster s) (take (unat n) d) (disk s) = file_written E e (free_cluster s) ?x (disk s)" for E e
    using assms(2,3,6) by (simp add: file_written_def cluster_data_def)
  then show ?thesis
    by (intro wp_mono [OF wp_file_write_small [OF c(1) assms(2,3)]])
      (use dir_disk_written [OF s(2) fat16_okD(5) [OF s(1)] assms(4) c(2) _ _ x, of "new_file s f n (free_cluster s)" f] c(3) in
        \<open>simp add: dir_rel_def new_file_def\<close>)
qed

lemma wp_dir_exists:
  assumes "dir_rel s F" "dir_lookup f F \<noteq> None"
  shows "wp (ramdisk_fat16_file_write f data n) (\<lambda>r t. r = FAT16_RAMDISK_ERROR_FILE_EXISTS \<and> fs_same s t \<and> dir_rel t F) s"
proof -
  have s: "fat16_ok s" "dir_disk (disk s) F" using assms(1) by (simp_all add: dir_rel_def)
  obtain m d where md: "dir_lookup f F = Some (m, d)" using assms(2) by auto
  obtain k c where k: "first_or_zero (root_match f (disk s)) [1..<32] = Suc k" "dir_entry (disk s) (Suc k) c (m, d)"
    by (rule dir_find [OF s(2) md])
  have "Suc k \<in> set [1..<32]" using first_or_zero_range [of "root_match f (disk s)" "[1..<32]"] k(1) by (metis nat.distinct(1))
  then have "Suc k < 32" unfolding set_upt by simp
  then have nz: "(of_nat (Suc k) :: u32) \<noteq> 0" using of_nat_u32_eq_iff [of "Suc k" 0] by (simp del: of_nat_Suc)
  show ?thesis
    unfolding ramdisk_fat16_file_write_def Let_def wp_kbind wp_kseq wp_kget
    apply (rule wp_fs_print [OF s(1)], simp)
    subgoal premises t for t
      apply (rule wp_file_exists [OF t(1)])
      unfolding t(3) k(1) using nz t dir_rel_same [OF assms(1) t(1,3)] by simp
    done
qed

lemma dir_rel_write:
  assumes "dir_rel s F" "dir_allowed (f, d) F"
  shows "wp (dir_conc (f, d)) (\<lambda>_ t. dir_rel t (dir_abs (f, d) F)) s"
proof -
  let ?n = "of_nat (length d) :: u32"
  have a: "length d \<le> 512" "length F < 31" "dir_lookup f F = None" using assms(2) by simp_all
  have n: "unat ?n = length d" using a(1) by (simp add: unat_of_nat)
  show ?thesis
    unfolding dir_conc.simps dir_abs.simps wp_kbind wp_kret
    by (rule wp_mono [OF wp_dir_write [OF assms(1) _ _ a(2,3)]]) (use a(1) n in auto)
qed

interpretation dir: simulation dir_conc dir_abs dir_allowed dir_rel
proof
  fix s :: "'a fat16_state_scheme" and F x
  assume "dir_rel s F" "dir_allowed x F"
  then show "wp (dir_conc x) (\<lambda>_ t. dir_rel t (dir_abs x F)) s" by (cases x) (metis dir_rel_write)
qed

lemma formatted_dir:
  assumes "formatted D" "262144 \<le> length D"
  shows "dir_disk D []"
proof -
  have zero: "le16_of (replicate 2 0) = 0" by code_simp
  have "fat_at D c = 0" if "256 \<le> c" "c < 415" for c
  proof -
    have "slice (512 + 2 * c) 2 D = replicate 2 0"
      using assms that by (intro zeroed_slice [of 1024 "512 * 31"]) (simp_all add: formatted_def)
    then show ?thesis using zero by (simp only: fat_at_def)
  qed
  then have "{256..<415} \<subseteq> free_clusters D" by (auto simp: free_clusters_def)
  moreover have "finite (free_clusters D)" by (simp add: free_clusters_def)
  ultimately have "card {256..<415 :: nat} \<le> card (free_clusters D)" by (intro card_mono)
  moreover have "0 \<notin> free_clusters D"
  proof
    assume "0 \<in> free_clusters D"
    then have "first_or_zero (\<lambda>i. fat_at D i = 0) [0..<415] = 0" by (intro first_or_zero_least) (simp_all add: free_clusters_def)
    then show False using formatted_cluster(1) [OF assms] by (simp only: not_numeral_le_zero)
  qed
  ultimately show ?thesis using formatted_root(1) [OF assms] by (simp add: dir_disk_def)
qed

section \<open>Properties\<close>

lemma dir_admissible_lookup:
  assumes "admissible dir_allowed dir_abs files F" "(f, d) \<in> set files"
  shows "dir_lookup f (fold dir_abs files F) = Some (ramdisk_fat16_filename_to_native f, d)"
proof -
  have keep: "dir_lookup f (fold dir_abs fs G) = Some x" if "dir_lookup f G = Some x" for fs G x
    using that
  proof (induction fs arbitrary: G)
    case (Cons y fs)
    obtain g e where y: "y = (g, e)" by (cases y)
    have "find P (as @ bs) = Some x" if "find P as = Some x" for P :: "bytes \<times> bytes \<Rightarrow> bool" and as bs
      using that by (induction as) auto
    then have "dir_lookup f (dir_abs y G) = Some x" using Cons.prems by (simp add: y dir_lookup_def)
    then show ?case using Cons.IH by simp
  qed simp
  show ?thesis
    using assms
  proof (induction files arbitrary: F)
    case (Cons y files)
    show ?case
    proof (cases "y = (f, d)")
      case True
      have none: "find P (as @ [z]) = Some z" if "find P as = None" "P z" for P :: "bytes \<times> bytes \<Rightarrow> bool" and as z
        using that by (induction as) (auto split: if_splits)
      have "dir_lookup f F = None" using Cons.prems(1) True by simp
      then have "dir_lookup f (dir_abs (f, d) F) = Some (ramdisk_fat16_filename_to_native f, d)"
        unfolding dir_lookup_def dir_abs.simps by (rule none) (simp add: answers_def)
      then show ?thesis using keep True by simp
    next
      case False
      then show ?thesis using Cons.IH [of "dir_abs y F"] Cons.prems by simp
    qed
  qed simp
qed

text \<open>C2: files do not disturb each other. On a new file system up to 31 files of at most 512 bytes, none
  under a name that an older file answers to, are written one after the other; then every one of them
  is read back with its own contents.\<close>

theorem fat16_files_survive:
  assumes "fat16_ready s" "admissible dir_allowed dir_abs files []" "(f, d) \<in> set files" "512 \<le> length buf"
  shows "wp (kseq ramdisk_fat16_init (kseq (run_ops dir_conc files) (ramdisk_fat16_file_read f (Local buf) 0)))
    (\<lambda>(q, b) t. q = 0 \<and> fat16_ok t \<and> take (length d) (local_bytes b) = d) s"
  unfolding wp_kseq
proof (rule wp_mono [OF wp_fat16_init [OF assms(1)]])
  fix x t
  assume "fat16_ok t \<and> formatted (disk t)"
  then have t: "dir_rel t []" using formatted_dir [of "disk t"] fat16_okD(5) [of t] by (simp add: dir_rel_def)
  show "wp (run_ops dir_conc files) (\<lambda>_. wp (ramdisk_fat16_file_read f (Local buf) 0)
      (\<lambda>(q, b) t. q = 0 \<and> fat16_ok t \<and> take (length d) (local_bytes b) = d)) t"
  proof (rule dir.run_property [OF t assms(2)])
    fix u
    assume u: "dir_rel u (fold dir_abs files [])"
    show "wp (ramdisk_fat16_file_read f (Local buf) 0) (\<lambda>(q, b) t. q = 0 \<and> fat16_ok t \<and> take (length d) (local_bytes b) = d) u"
      by (rule wp_mono [OF wp_dir_read [OF u dir_admissible_lookup [OF assms(2,3)] assms(4)]]) (auto simp: dir_rel_def)
  qed
qed

theorem fat16_files_survive_witness:
  "wp (kseq ramdisk_fat16_init (kseq (run_ops dir_conc [(cstr ''b.txt'' @ [0], [1, 2]), (cstr ''a.txt'' @ [0], [3])])
      (ramdisk_fat16_file_read (cstr ''b.txt'' @ [0]) (Local (replicate 512 9)) 0)))
    (\<lambda>(q, b) t. q = 0 \<and> fat16_ok t \<and> take 2 (local_bytes b) = [1, 2]) fat_machine"
proof -
  let ?b = "cstr ''b.txt'' @ [0]" and ?a = "cstr ''a.txt'' @ [0]"
  have "\<not> answers (ramdisk_fat16_filename_to_native ?a) (ramdisk_fat16_filename_to_native ?b)"
    unfolding answers_def not_all by (rule exI [of _ 0]) code_simp
  then have "admissible dir_allowed dir_abs [(?b, [1, 2]), (?a, [3])] []" by (simp add: dir_lookup_def)
  moreover have "(?b, [1, 2]) \<in> set [(?b, [1, 2]), (?a, [3])]" "512 \<le> length (replicate 512 (9 :: u8))" by simp_all
  moreover have two: "length [1, 2 :: u8] = 2" by simp
  ultimately show ?thesis using fat16_files_survive [OF fat_machine_ready, of _ ?b "[1, 2]" "replicate 512 9"] unfolding two by blast
qed

end
