(* ===== verification/Shell_Info.thy ===== *)
theory Shell_Info
  imports Shell
begin

text \<open>
  The commands that only report: \<open>ls\<close>, \<open>slabinfo\<close>, \<open>free\<close>, \<open>ps\<close>, \<open>exec\<close> and \<open>sched\<close>. A computation is
  quiet when all it does is print; quiet computations compose, and reading the state, the disk or a
  list of the scheduler does not disturb them.
\<close>

section \<open>Quiet computations\<close>

definition quiet :: "'z stdio_state_scheme \<Rightarrow> ('z stdio_state_scheme, 'a) kM \<Rightarrow> bool" where
  "quiet s0 f \<longleftrightarrow> (\<forall>s. console_frame s0 s \<longrightarrow> wp f (\<lambda>_. console_frame s0) s)"

lemma quietD: "quiet s f \<Longrightarrow> wp f (\<lambda>_. console_frame s) s"
  by (simp add: quiet_def)

lemma quiet_kret: "quiet s0 (kret x)"
  by (simp add: quiet_def)

lemma quiet_kseq:
  assumes "quiet s0 f" "quiet s0 g"
  shows "quiet s0 (kseq f g)"
  unfolding quiet_def wp_kseq
proof (intro allI impI)
  fix s assume "console_frame s0 s"
  with assms(1) have "wp f (\<lambda>_. console_frame s0) s" by (simp add: quiet_def)
  then show "wp f (\<lambda>_. wp g (\<lambda>_. console_frame s0)) s"
    by (rule wp_mono) (use assms(2) in \<open>simp add: quiet_def\<close>)
qed

lemma quiet_kget:
  assumes "\<And>s. console_frame s0 s \<Longrightarrow> quiet s0 (g (f s))"
  shows "quiet s0 (kbind (kget f) g)"
  using assms by (simp add: quiet_def)

lemma quiet_kget_same:
  assumes "\<And>s. console_frame s0 s \<Longrightarrow> f s = f s0" "quiet s0 (g (f s0))"
  shows "quiet s0 (kbind (kget f) g)"
  by (rule quiet_kget) (simp only: assms)

lemma quiet_printf:
  assumes "console_ok s0" "render format args \<noteq> None"
  shows "quiet s0 (printf (cstr format) args)"
  unfolding quiet_def
proof (intro allI impI)
  fix s assume s: "console_frame s0 s"
  show "wp (printf (cstr format) args) (\<lambda>_. console_frame s0) s"
    by (rule wp_printf_frame [OF console_ok_frame [OF assms(1) s] assms(2) console_frame_trans [OF s]])
qed

lemma quiet_kfor: "(\<And>x. x \<in> set xs \<Longrightarrow> quiet s0 (body x)) \<Longrightarrow> quiet s0 (kfor xs body)"
  by (induction xs) (simp_all add: quiet_kret quiet_kseq)

lemma quiet_read:
  assumes "fat16_ok s0" "unat start + unat n \<le> 262144" "unat n \<le> length d"
    and "\<And>b. length b = length d \<Longrightarrow> quiet s0 (g (0, Local b))"
  shows "quiet s0 (kbind (ramdisk_read start (Local d) n) g)"
  unfolding quiet_def
proof (intro allI impI)
  fix s assume s: "console_frame s0 s"
  note f = fs_print_frame [OF assms(1) s]
  have "length (slice (unat start) (unat n) (disk s)) = unat n" using assms(2) fat16_okD(5) [OF f(1)] by (intro length_slice) simp
  then have "length (slice (unat start) (unat n) (disk s) @ drop (unat n) d) = length d" using assms(3) by simp
  then show "wp (kbind (ramdisk_read start (Local d) n) g) (\<lambda>_. console_frame s0) s"
    using assms(4) s unfolding wp_kbind by - (rule wpI, rule fs_read [OF f(1) assms(2,3)], simp add: quiet_def)
qed

lemmas quiet_rules = quiet_kret quiet_kseq quiet_kget quiet_printf quiet_kfor

section \<open>What the commands print\<close>

lemma quiet_kmemlist: "console_ok s0 \<Longrightarrow> quiet s0 kmemlist"
  unfolding kmemlist_def print_kmeminfo_def by (intro quiet_rules; simp)

lemma quiet_pmem_list_info: "console_ok s0 \<Longrightarrow> quiet s0 pmem_list_info"
  unfolding pmem_list_info_def by (intro quiet_rules; simp)

subsection \<open>Files\<close>

lemma quiet_count_free:
  assumes "fat16_ok s0" "\<And>i. i \<in> set is \<Longrightarrow> i < 415" "length d = 2" "\<And>n. quiet s0 (g n)"
  shows "quiet s0 (kbind (count_free_loop is d n) g)"
  using assms(2,3)
proof (induction "is" arbitrary: d n)
  case Nil
  then show ?case using assms(4) by (simp add: quiet_def)
next
  case (Cons i "is")
  have "i < 415" using Cons.prems(1) by simp
  then have i: "unat (512 + of_nat (i * 2) :: u32) + unat (2 :: u32) \<le> 262144" using unat_fat_addr [of i] by simp
  have assoc: "kbind (count_free_loop (i # is) d n) g = kbind (ramdisk_read (512 + of_nat (i * 2)) (Local d) 2)
      (\<lambda>(r, b). kbind (count_free_loop is (local_bytes b) (if le16_of (local_bytes b) = 0 then n + 1 else n)) g)"
    by (simp add: kbind_def fun_eq_iff split: outcome.splits)
  show ?case
    unfolding assoc by (rule quiet_read [OF assms(1) i]) (use Cons in \<open>simp_all add: split_def\<close>)
qed

lemma quiet_list_files:
  assumes "fat16_ok s0" "\<And>i. i \<in> set is \<Longrightarrow> i < 32" "length d = 32"
  shows "quiet s0 (list_files_loop is d)"
  using assms(2,3)
proof (induction "is" arbitrary: d)
  case (Cons i "is")
  have "i < 32" using Cons.prems(1) by simp
  then have i: "unat (root_addr i) + unat (32 :: u32) \<le> 262144" using unat_root_addr [of i] by simp
  show ?case
    unfolding list_files_loop.simps
  proof (rule quiet_read [OF assms(1) i])
    fix b :: bytes
    assume b: "length b = length d"
    have rest: "quiet s0 (list_files_loop is b)" using Cons b by simp
    show "quiet s0 (case (0, Local b) of (_, b) \<Rightarrow> let entry = entry_of_bytes (local_bytes b) in
       kbind (kget (\<lambda>s. after_name (garbage s))) (\<lambda>tail_bytes.
       kseq (if entry_name entry ! 0 \<noteq> 0
             then printf (cstr ''File %d: %s | Size: %d bytes | Cluster: %d\<newline>'')
                    [ArgInt (of_nat i), ArgStr (local_bytes b @ tail_bytes), ArgInt (file_size entry),
                     ArgInt (ucast (entry_low_cluster_number entry))]
             else kret ())
            (list_files_loop is (local_bytes b))))"
      using rest fat16_okD(4) [OF assms(1)] by (simp add: Let_def quiet_kseq quiet_kget quiet_kret quiet_printf)
  qed (use Cons.prems in simp)
qed (simp add: quiet_kret)

lemma quiet_list_info:
  assumes "fat16_ok s0"
  shows "quiet s0 ramdisk_fat16_list_info"
  unfolding ramdisk_fat16_list_info_def
  by (intro quiet_kseq quiet_printf quiet_count_free quiet_kget quiet_list_files)
    (use assms fat16_okD(4) [OF assms] in \<open>simp_all add: raw_entry_def\<close>)

subsection \<open>Processes\<close>

lemma strcpy_fits:
  assumes "0 \<in> set src" "length (c_string src) < dst_size" "dst_size \<le> length dst"
  shows "\<exists>d. strcpy dst src dst_size = Some d \<and> length d = length dst \<and> 0 \<in> set d"
proof -
  have "\<exists>d. strcpy_loop dst src dst_size i = Some d \<and> length d = length dst \<and> 0 \<in> set d"
    if "i \<le> length (c_string src)" "dst_size \<le> length dst" for i and dst :: bytes
    using that
  proof (induction "length (c_string src) - i" arbitrary: i dst)
    case 0
    then have "i = length (c_string src)" by simp
    then show ?case
      using 0 assms c_string_nth [OF assms(1)]
      by (subst strcpy_loop.simps) (auto simp: put_byte_def set_update_memI)
  next
    case (Suc k)
    then have i: "i < length (c_string src)" by simp
    then have c: "src ! i \<noteq> 0" "i < length src"
      using c_string_nth(1) [OF assms(1)] nth_mem [OF i] by (auto simp: c_string_def takeWhile_nth dest: set_takeWhileD)
    have "\<exists>d. strcpy_loop (dst[i := src ! i]) src dst_size (i + 1) = Some d \<and> length d = length (dst[i := src ! i]) \<and> 0 \<in> set d"
      using Suc i by (intro Suc.hyps(1)) simp_all
    then show ?case using i c assms(2) Suc.prems by (subst strcpy_loop.simps) (simp add: put_byte_def)
  qed
  from this [of 0 dst] show ?thesis using assms(3) by (simp add: strcpy_def)
qed

definition printable :: "process list \<Rightarrow> bool" where
  "printable P \<longleftrightarrow> length P = 64 \<and> (\<forall>p \<in> set P. 0 \<in> set (name_and_pid p) \<and> length (p_name p) = 16)"

lemma padded_Some:
  assumes "0 \<in> set src" "length (c_string src) < 64" "width \<le> 64"
  shows "padded s src width \<noteq> None"
proof -
  obtain d where d: "strcpy (map (in_entry (garbage s)) [0..<64]) src 64 = Some d" "length d = 64" "0 \<in> set d"
    using strcpy_fits [OF assms(1,2), of "map (in_entry (garbage s)) [0..<64]"] by auto
  then show ?thesis using assms(3) strlen_Some [OF d(3)] by (simp add: padded_def rpad_def)
qed

lemma quiet_print_process:
  assumes "console_ok s0" "printable (processes s0)" "i < 64"
  shows "quiet s0 (print_process i)"
proof -
  let ?p = "processes s0 ! i"
  have p: "0 \<in> set (name_and_pid ?p)" "length (p_name ?p) = 16" using assms(2,3) by (auto simp: printable_def)
  have "length (c_string (name_and_pid ?p)) \<le> length (name_and_pid ?p)" by (simp add: c_string_def length_takeWhile_le)
  also have "\<dots> = 20" using p(2) by (simp add: name_and_pid_def le32_bytes_def)
  finally have "padded s (name_and_pid ?p) 16 \<noteq> None" for s :: "'a processes_state_scheme" using p(1) by (intro padded_Some) simp_all
  moreover have "padded s (process_state_to_str st) 12 \<noteq> None" for s :: "'a processes_state_scheme" and st
    by (rule padded_Some; cases st; simp add: c_string_def cstr_def)
  ultimately have bufs: "\<exists>a b. padded s (name_and_pid ?p) 16 = Some a \<and> padded s (process_state_to_str (p_state ?p)) 12 = Some b"
    for s :: "'a processes_state_scheme" by simp
  have same: "processes s ! i = ?p" if "console_frame s0 s" for s using that by (auto simp: console_frame_def)
  have line: "quiet s0 (kbind (kget (\<lambda>s. (padded s (name_and_pid ?p) 16, padded s (process_state_to_str (p_state ?p)) 12))) (\<lambda>bufs.
       case bufs of (Some buf_name, Some buf_state) \<Rightarrow> printf (cstr ''%d | %s | %s | %d | %x\<newline>'')
         [ArgInt (of_nat i), ArgStr buf_name, ArgStr buf_state, ArgInt (cpu_time_ms ?p), ArgInt (process_memory_start ?p)]
       | _ \<Rightarrow> (\<lambda>s. Undefined)))"
  proof (rule quiet_kget)
    fix s :: "'a processes_state_scheme"
    obtain a b where "padded s (name_and_pid ?p) 16 = Some a" "padded s (process_state_to_str (p_state ?p)) 12 = Some b"
      using bufs [of s] by blast
    then show "quiet s0 (case (padded s (name_and_pid ?p) 16, padded s (process_state_to_str (p_state ?p)) 12) of
        (Some buf_name, Some buf_state) \<Rightarrow> printf (cstr ''%d | %s | %s | %d | %x\<newline>'')
         [ArgInt (of_nat i), ArgStr buf_name, ArgStr buf_state, ArgInt (cpu_time_ms ?p), ArgInt (process_memory_start ?p)]
       | _ \<Rightarrow> (\<lambda>s. Undefined))"
      by (simp add: quiet_printf [OF assms(1)])
  qed
  show ?thesis
    unfolding print_process_def by (rule quiet_kget_same, erule same) (simp add: line quiet_kret)
qed

lemma quiet_process_printlist:
  assumes "console_ok s0" "printable (processes s0)"
  shows "quiet s0 process_printlist"
  unfolding process_printlist_def
  by (intro quiet_kseq quiet_printf quiet_kfor quiet_print_process assms) simp_all

subsection \<open>Queues\<close>

lemma quiet_print_queue:
  assumes "console_ok s0" "chain (proc_list s0) h ps" "length ps \<le> fuel" "\<And>p. p \<in> set ps \<Longrightarrow> ptr (proc_list s0 ! p) \<noteq> None"
  shows "quiet s0 (print_queue fuel h)"
  using assms(2-4)
proof (induction ps arbitrary: h fuel)
  case Nil
  then show ?case by (cases fuel) (simp_all add: quiet_kret)
next
  case (Cons p ps)
  then obtain k where k: "fuel = Suc k" "length ps \<le> k" by (cases fuel) auto
  have rest: "quiet s0 (print_queue k (next_process (proc_list s0 ! p)))" using Cons k(2) by simp
  have same: "proc_list s ! p = proc_list s0 ! p" if "console_frame s0 s" for s using that by (auto simp: console_frame_def)
  obtain q where q: "ptr (proc_list s0 ! p) = Some q" using Cons.prems(3) [of p] by auto
  have h: "h = Some p" using Cons.prems(1) by simp
  have "quiet s0 (kbind (kget (\<lambda>s. p_pid (processes s ! q))) (\<lambda>pid.
      kseq (printf (cstr '' %d (%d) -> '') [ArgInt pid, ArgInt (of_int (tickets_remaining (proc_list s0 ! p)))])
        (print_queue k (next_process (proc_list s0 ! p)))))"
    by (intro quiet_kget quiet_kseq quiet_printf [OF assms(1)] rest) simp
  then show ?case
    unfolding k(1) h print_queue.simps option.case by - (rule quiet_kget_same, erule same, simp add: q)
qed

lemma quiet_sched_printinfo:
  assumes "console_ok s0" "mlfq_rel s0 A"
  shows "quiet s0 sched_printinfo"
proof -
  have q: "queues_rel s0 A" "running A = current_process s0" "\<And>p. running A = Some p \<Longrightarrow> p \<in> set (concat (levels A))"
    using assms(2) by (auto simp: mlfq_rel_def)
  note r = queues_relD [OF q(1)]
  have ptr: "ptr (proc_list s0 ! p) = Some p" if "i < 3" "p \<in> set (levels A ! i)" for i p
    using r(5) [OF that] by (simp add: entry_rel_def)
  have same: "proc_list s = proc_list s0" "proc_priority_list s = proc_priority_list s0" "current_process s = current_process s0"
    if "console_frame s0 s" for s using that by (auto simp: console_frame_def)
  have cur: "ptr (proc_list s0 ! p) = Some p" if "current_process s0 = Some p" for p
    using q(2,3) that level_of_mem [OF r(3)] ptr by auto
  have len: "length (levels A ! i) \<le> 64" if "i < 3" for i
  proof -
    have "length (levels A ! i) = card (set (levels A ! i))" using level_distinct [OF r(3,6) that] by (simp add: distinct_card)
    also have "\<dots> \<le> card {..<64 :: nat}" using queues_bound [OF q(1) that] by (intro card_mono) auto
    finally show ?thesis by simp
  qed
  have queue: "quiet s0 (print_queue 64 (proc_priority_list s0 ! i))" if "i < 3" for i
    by (rule quiet_print_queue [OF assms(1) r(4) [OF that] len [OF that]]) (use ptr [OF that] in simp)
  have running: "quiet s0 (kbind (kget current_process) (\<lambda>cur.
      case cur of None \<Rightarrow> printf (cstr ''<empty>\<newline>'') []
      | Some p \<Rightarrow>
          kbind (kget (\<lambda>s. ptr (proc_list s ! p))) (\<lambda>r.
          case r of None \<Rightarrow> panic ''There exists a null process in the scheduler!\<newline>''
          | Some q \<Rightarrow>
              kbind (kget (\<lambda>s. p_pid (processes s ! q))) (\<lambda>pid. printf (cstr ''%d\<newline>'') [ArgInt pid]))))"
  proof (rule quiet_kget_same, erule same(3), cases "current_process s0")
    case (Some p)
    have "ptr (proc_list s ! p) = ptr (proc_list s0 ! p)" if "console_frame s0 s" for s using same(1) [OF that] by simp
    then show "quiet s0 (case current_process s0 of None \<Rightarrow> printf (cstr ''<empty>\<newline>'') []
      | Some p \<Rightarrow>
          kbind (kget (\<lambda>s. ptr (proc_list s ! p))) (\<lambda>r.
          case r of None \<Rightarrow> panic ''There exists a null process in the scheduler!\<newline>''
          | Some q \<Rightarrow>
              kbind (kget (\<lambda>s. p_pid (processes s ! q))) (\<lambda>pid. printf (cstr ''%d\<newline>'') [ArgInt pid])))"
      unfolding Some option.case
      by (rule quiet_kget_same) (simp_all add: cur [OF Some] quiet_kget quiet_printf [OF assms(1)])
  qed (simp add: quiet_printf [OF assms(1)])
  have level: "quiet s0 (kbind (kget (\<lambda>s. proc_priority_list s ! i)) (\<lambda>h.
      if h = None then printf (cstr ''<empty>\<newline>'') []
      else kseq (print_queue 64 h) (printf (cstr ''\<newline>'') [])))" if "i < 3" for i
  proof (rule quiet_kget_same)
    show "proc_priority_list s ! i = proc_priority_list s0 ! i" if "console_frame s0 s" for s using same(2) [OF that] by simp
  qed (simp add: queue [OF that] quiet_kseq quiet_printf [OF assms(1)])
  show ?thesis
    unfolding sched_printinfo_def
    by (intro quiet_kseq quiet_kfor running level quiet_printf [OF assms(1)]) simp_all
qed

section \<open>The commands\<close>

definition report_commands :: "(string \<times> (nat \<Rightarrow> bytes list \<Rightarrow> ('z shell_state_scheme, u32) kM)) list" where
  "report_commands = [(''ls'', sh_ls), (''slabinfo'', sh_slabinfo), (''free'', sh_free), (''ps'', sh_ps), (''exec'', sh_exec), (''sched'', sh_sched)]"

lemma quiet_value: "quiet s0 f \<Longrightarrow> quiet s0 (kbind f (\<lambda>_. kret x))"
  using quiet_kseq [OF _ quiet_kret, of s0] by (simp add: quiet_def)

lemma quiet_report:
  assumes "shell_ok s0" "printable (processes s0)" "mlfq_rel s0 A" "(name, f) \<in> set report_commands"
  shows "quiet s0 (f argc argv)"
proof -
  have ok: "fat16_ok s0" "console_ok s0" using assms(1) fat16_okD(4) by (auto simp: shell_ok_def)
  show ?thesis
    using assms(4) ok quiet_list_info quiet_kmemlist quiet_pmem_list_info quiet_process_printlist [OF ok(2) assms(2)]
      quiet_sched_printinfo [OF ok(2) assms(3)]
    by (auto simp: report_commands_def sh_ls_def fs_list_files_def sh_slabinfo_def sh_free_def sh_ps_def sh_exec_def sh_sched_def
        intro!: quiet_value quiet_kseq quiet_kret quiet_printf)
qed

definition report_names :: "bytes set" where
  "report_names = cstr ` {''ls'', ''slabinfo'', ''free'', ''ps'', ''exec'', ''sched''}"

lemma run_report:
  assumes "0 \<in> set (argv ! 0)" "c_string (argv ! 0) \<in> report_names"
  obtains name f where "(name, f) \<in> set (report_commands :: (string \<times> (nat \<Rightarrow> bytes list \<Rightarrow> ('z shell_state_scheme, u32) kM)) list)"
    "run_command shell_cmds argv = kbind (f (length argv) argv) (\<lambda>_. kret ())"
proof -
  obtain name where name: "name \<in> {''ls'', ''slabinfo'', ''free'', ''ps'', ''exec'', ''sched''}" "c_string (argv ! 0) = cstr name"
    using assms(2) by (auto simp: report_names_def)
  then obtain f where f: "find (\<lambda>c. cstr (fst c) = c_string (argv ! 0)) (shell_cmds :: (string \<times> (nat \<Rightarrow> bytes list \<Rightarrow> ('z shell_state_scheme, u32) kM)) list)
      = Some (name, f)" "(name, f) \<in> set report_commands"
    by (auto simp: shell_cmds_def report_commands_def cstr_def)
  show thesis using that [OF f(2)] run_command_find [OF assms(1) f(1) cmd_names] by simp
qed

lemma wp_report:
  assumes "shell_ok s" "printable (processes s)" "mlfq_rel s A" "0 \<in> set (argv ! 0)" "c_string (argv ! 0) \<in> report_names"
  shows "wp (run_command shell_cmds argv) (\<lambda>_. console_frame s) s"
proof -
  obtain name f where f: "(name, f) \<in> set (report_commands :: (string \<times> (nat \<Rightarrow> bytes list \<Rightarrow> ('a shell_state_scheme, u32) kM)) list)"
    "run_command shell_cmds argv = kbind (f (length argv) argv) (\<lambda>_. kret ())" by (rule run_report [OF assms(4,5)])
  show ?thesis unfolding f(2) by (rule quietD [OF quiet_value [OF quiet_report [OF assms(1-3) f(1)]]])
qed

section \<open>Properties\<close>

text \<open>C23: the commands that report (\<open>ls\<close>, \<open>slabinfo\<close>, \<open>free\<close>, \<open>ps\<close>, \<open>exec\<close>, \<open>sched\<close>) end, for every content of the
  disk, every table of processes and every state of the queues, and touch nothing but the console.\<close>

theorem report_commands_only_print:
  assumes "shell_ok s" "printable (processes s)" "mlfq_rel s A" "0 \<in> set (argv ! 0)" "c_string (argv ! 0) \<in> report_names"
  shows "wp (run_command shell_cmds argv) (\<lambda>_. console_frame s) s"
  using assms by (rule wp_report)

lemma typed_machine_printable: "printable (processes (typed_machine cs))"
proof -
  let ?P = "processes (typed_machine cs)" and ?ok = "{p. 0 \<in> set (name_and_pid p) \<and> length (p_name p) = 16}"
  have P: "?P = (replicate 64 idle_process)[1 := idle_process\<lparr>p_state := RUNNABLE\<rparr>, 2 := idle_process\<lparr>p_state := RUNNABLE\<rparr>]"
    by (simp add: typed_machine_defs)
  have "set ?P \<subseteq> ?ok"
    unfolding P by (intro set_update_subsetI) (auto simp: idle_process_def name_and_pid_def)
  moreover have "length ?P = 64" by (simp only: P length_list_update length_replicate)
  ultimately show ?thesis by (auto simp: printable_def)
qed

theorem report_commands_only_print_witness:
  "wp (kbind ramdisk_fat16_init (\<lambda>_. run_command shell_cmds [cstr ''ps'' @ [0]])) (\<lambda>_ s. fat16_ok s) (typed_machine [])"
proof -
  let ?argv = "[cstr ''ps'' @ [0]]"
  have p: "c_string (?argv ! 0) \<in> report_names" "0 \<in> set (?argv ! 0)" by (simp_all add: report_names_def c_string_def cstr_def)
  have "wp ramdisk_fat16_init (\<lambda>_. fs_created (typed_machine [])) (typed_machine [])"
    by (rule wp_mono [OF wp_fat16_init_frame [OF typed_machine_ok(1)]]) simp_all
  from wp_conj [OF this typed_machine_init [of "[]"]]
  show ?thesis
    unfolding wp_kbind
  proof (rule wp_mono; clarsimp)
    fix s
    assume s: "fs_created (typed_machine []) s" "shell_ok s" "mlfq_rel s no_processes"
    have "processes s = processes (typed_machine [])" using above_files(1) [of s "typed_machine []"] s(1) by (simp add: fs_created_def)
    then have "printable (processes s)" using typed_machine_printable by metis
    from report_commands_only_print [OF s(2) this s(3) p(2,1)]
    show "wp (run_command shell_cmds ?argv) (\<lambda>_. fat16_ok) s"
      by (rule wp_mono) (use s(2) fs_print_frame(1) in \<open>auto simp: shell_ok_def\<close>)
  qed
qed

end
