(* ===== verification/System.thy ===== *)
theory System
  imports Kernel Fat16_Dir Shell_Info
begin

text \<open>
  The running kernel as its users see it: an abstract system of the line typed so far, the files, the
  programs started, the multi-level feedback queue, the free pages and the tick count, and the proof
  that the interrupt handlers implement it, one event at a time.
\<close>

section \<open>What the steps of the kernel leave alone\<close>

text \<open>A character placed in the input buffer, which has its own page.\<close>

lemma input_write_frame:
  assumes "fat16_ok s" "is_init (std_input_buf s)" "\<And>a. page_of a \<noteq> b_addr (std_input_buf s) \<Longrightarrow> m a = mem s a"
    and "b_addr b = b_addr (std_input_buf s)" "is_init b = is_init (std_input_buf s)" "stdio_ok (s\<lparr>mem := m, std_input_buf := b\<rparr>)"
  shows "fat16_ok (s\<lparr>mem := m, std_input_buf := b\<rparr>)" "shell_same s (s\<lparr>mem := m, std_input_buf := b\<rparr>)"
proof -
  let ?t = "s\<lparr>mem := m, std_input_buf := b\<rparr>"
  note d = fat16_okD [OF assms(1)]
  have b: "b_addr (std_input_buf s) \<notin> disk_pages s" "b_addr (std_input_buf s) \<in> pmem_pages s"
    using d(6) [of StdInput] assms(2) buf_ok_ready(2) [OF d(2), of StdInput] pm.used_pages [OF stdio_okD(1) [OF d(2)]] by auto
  have m: "m a = mem s a" if "page_of a \<in> disk_pages s \<or> page_of a \<notin> pmem_pages s" for a
  proof -
    have "page_of a \<noteq> b_addr (std_input_buf s)" using that b by metis
    then show ?thesis by (rule assms(3))
  qed
  have "m a = mem s a" if "page_of a = ramdisk_block_pointers s" for a using that by (intro m) (simp add: disk_pages_def)
  note w = ramdisk_write_frame [OF d(1), of m, OF m [OF disjI2] this]
  have tab: "disk_table ?t = disk_table s" "disk_pages ?t = disk_pages s" "used_pages ?t = used_pages s" "pmem_pages ?t = pmem_pages s"
    using w(2,4-6) by (simp_all add: disk_table_def disk_pages_def disk_blocks_def)
  have "mem ?t (disk_addr ?t k) = mem s (disk_addr s k)" if "k < 4096 * disk_blocks s" for k
    using m disk_addr_page(2) [OF d(1) that] tab(1) by (simp add: disk_addr_def disk_pages_def)
  then have disk: "disk ?t = disk s" by (simp add: disk_def disk_blocks_def)
  have "ramdisk_ok ?t" using w(1) by (simp add: ramdisk_ok_def disk_pages_def disk_table_def disk_blocks_def)
  moreover have bufs: "is_init (std_buf i ?t) = is_init (std_buf i s)" "b_addr (std_buf i ?t) = b_addr (std_buf i s)" for i
    using assms(4,5) by (cases i; simp)+
  ultimately show "fat16_ok ?t" using assms(1,6) disk tab by (simp add: fat16_ok_def)
  have priv: "private_page p ?t = private_page p s" for p unfolding private_page_def tab bufs by (rule refl)
  have "m a = mem s a" if "private_page (page_of a) s" for a
    using that assms(2) by (intro assms(3)) (auto simp: private_page_def dest: spec [of _ StdInput])
  then have "kept {} s ?t" using priv by (simp add: kept_def)
  then show "shell_same s ?t"
    using disk tab priv assms(5) by (simp add: shell_same_def paging_def mlfq_rel_def queues_rel_def)
qed

lemma wp_input_put:
  assumes "fat16_ok s" "is_init (std_input_buf s)" "c \<noteq> 0" "length (stream StdInput s) < 4095"
    and "\<And>t. fat16_ok t \<Longrightarrow> shell_same s t \<Longrightarrow> stream StdInput t = stream StdInput s @ [c] \<Longrightarrow> command_buffer t = command_buffer s \<Longrightarrow>
      working_buffer t = working_buffer s \<Longrightarrow> command_buffer_ptr t = command_buffer_ptr s \<Longrightarrow> Q () t"
  shows "wp (stdlib_put_stdio_input_char c) Q s"
proof -
  let ?b = "std_input_buf s"
  let ?a = "b_addr ?b + of_nat (head_ptr ?b)"
  let ?t = "s\<lparr>mem := (mem s)(?a := c), std_input_buf := ?b\<lparr>head_ptr := (head_ptr ?b + 1) mod 4096\<rparr>\<rparr>"
  note d = fat16_okD [OF assms(1)]
  have room: "(head_ptr ?b + 1) mod 4096 \<noteq> tail_ptr ?b" using stdin_room [OF d(2) assms(2)] assms(4) by simp
  have ready: "buf_ready ?b" "\<not> is_initializing (std_output_buf s)" "pmem_initialized s"
    using buf_ok_ready(1) [OF d(2), of StdInput] assms(2) stdio_okD(2) [OF d(2), of StdOutput] pmem_okD(1) [OF stdio_okD(1) [OF d(2)]]
    by (simp_all add: buf_ok_def Let_def)
  have t: "place_byte StdInput c s = ?t" by (simp add: place_byte_def)
  have st: "stdio_ok ?t" "stream StdInput ?t = stream StdInput s @ [c]"
    using place_byte_stream(1,2) [OF d(2), of StdInput c] assms(2,3) room unfolding t by simp_all
  have page: "page_of ?a = b_addr ?b"
    using buf_page_in_pages(1) [OF d(2), of StdInput] assms(2) buf_readyD(5) [OF ready(1)] by simp
  have w: "fat16_ok ?t" "shell_same s ?t"
    by (rule input_write_frame [OF assms(1,2) _ _ _ st(1)]; use page in auto)+
  have "Q () (place_byte StdInput c s)" unfolding t using w st(2) by (intro assms(5)) simp_all
  then have "wp (io_buffer_place_loop StdInput [c, 0]) Q s"
    using ready(1) room assms(3) by (simp, intro wp_place_char_room) simp_all
  moreover have "io_buffer_init StdInput s = Ok () s" using assms(2) by (simp add: io_buffer_init_def kernel_defs)
  ultimately have "wp (io_buffer_place StdInput [c, 0]) Q s"
    unfolding io_buffer_place_def wp_kseq by - (rule wpI)
  then show ?thesis using ready(2,3) by (simp add: stdlib_put_stdio_input_char_def pmem_isinit_def)
qed

text \<open>The keyboard's data port does not concern the serial port.\<close>

definition key_hw :: "u8 \<Rightarrow> (io_event list \<Rightarrow> u16 \<Rightarrow> u8) \<Rightarrow> io_event list \<Rightarrow> u16 \<Rightarrow> u8" where
  "key_hw c hw = (\<lambda>l p. if p = KBD_DATA_PORT then c else hw l p)"

lemma serial_key_hw: "serial_responsive (key_hw c hw) PORT_COM1 = serial_responsive hw PORT_COM1"
proof -
  have p: "PORT_COM1 + 5 \<noteq> KBD_DATA_PORT" by simp
  have "poll_log (key_hw c hw) PORT_COM1 n l = poll_log hw PORT_COM1 n l" for n l
    by (induction n) (simp_all add: key_hw_def)
  then show ?thesis unfolding serial_responsive_def using p by (simp add: key_hw_def)
qed

lemma device_frame:
  assumes "fat16_ok s" "serial_responsive h PORT_COM1"
  shows "fat16_ok (s\<lparr>hw_byte := h, int_enabled := e\<rparr>)" "shell_same s (s\<lparr>hw_byte := h, int_enabled := e\<rparr>)"
    "stream StdInput (s\<lparr>hw_byte := h, int_enabled := e\<rparr>) = stream StdInput s"
proof -
  let ?t = "s\<lparr>hw_byte := h, int_enabled := e\<rparr>"
  have pm: "pmem_ok ?t = pmem_ok s" "pmem_pages ?t = pmem_pages s" "used_pages ?t = used_pages s"
    by (simp_all add: pmem_ok_def pmem_pages_def used_pages_def pmem_used_def entry_used_def record_addr_def
        entry_addr_def [abs_def] pmem_blocks_def)
  have tab: "disk_table ?t = disk_table s" "disk_pages ?t = disk_pages s" "disk_blocks ?t = disk_blocks s"
    by (simp_all add: disk_table_def disk_pages_def disk_blocks_def)
  then have disk: "disk ?t = disk s" by (simp add: disk_def disk_addr_def)
  have bufs: "std_buf i ?t = std_buf i s" for i by (cases i) simp_all
  have "stdio_ok ?t = stdio_ok s" by (simp add: stdio_ok_def buf_ok_def pm bufs)
  then show "fat16_ok ?t"
    using assms by (simp add: fat16_ok_def ramdisk_ok_def pm tab disk bufs)
  show "shell_same s ?t"
    by (simp add: shell_same_def kept_def paging_def private_page_def pm tab disk bufs mlfq_rel_def queues_rel_def)
  show "stream StdInput ?t = stream StdInput s" by (simp add: stream_def)
qed

text \<open>The scheduler works on its own arrays.\<close>

lemma sched_only_shell:
  assumes "sched_only s t"
  shows "fat16_ok t = fat16_ok s" "disk t = disk s" "processes t = processes s" "std_input_buf t = std_input_buf s"
    "stream i t = stream i s" "command_buffer t = command_buffer s" "working_buffer t = working_buffer s"
    "command_buffer_ptr t = command_buffer_ptr s" "shell_state.more t = shell_state.more s"
    "kept {} s t" "paging t = paging s" "pmem_pages t = pmem_pages s" "used_pages t = used_pages s"
proof -
  have f: "fat16_state.truncate t = fat16_state.truncate s" "stdio_state.truncate t = stdio_state.truncate s"
    using assms by (auto simp: sched_only_def fat16_state.truncate_def stdio_state.truncate_def)
  then show "fat16_ok t = fat16_ok s" "disk t = disk s" "stream i t = stream i s"
    using fat16_cong(1,2) [of t s] stdio_cong(6) [of t s i] by simp_all
  show "kept {} s t" "pmem_pages t = pmem_pages s" "used_pages t = used_pages s"
    using f fat16_cong(3) [of t s] stdio_cong(2,3) [of t s] assms by (auto simp: kept_def sched_only_def)
  show "paging t = paging s" using assms by (auto simp: sched_only_def paging_def)
  show "processes t = processes s" "std_input_buf t = std_input_buf s" "command_buffer t = command_buffer s"
    "working_buffer t = working_buffer s" "command_buffer_ptr t = command_buffer_ptr s" "shell_state.more t = shell_state.more s"
    using assms by (auto simp: sched_only_def)
qed

text \<open>The first key: the input buffer takes a page of its own.\<close>

lemma input_init:
  assumes "fat16_ok s" "\<not> is_init (std_input_buf s)" "2 \<le> card (pmem_pages s - used_pages s)"
  obtains p c m b where "io_buffer_init StdInput s = Ok () (s\<lparr>pmem_curr_alloc_record := c, mem := m, std_input_buf := b\<rparr>)"
    "is_init b" "p \<in> pmem_pages s - used_pages s" "fat16_ok (s\<lparr>pmem_curr_alloc_record := c, mem := m, std_input_buf := b\<rparr>)"
    "disk (s\<lparr>pmem_curr_alloc_record := c, mem := m, std_input_buf := b\<rparr>) = disk s"
    "stream StdInput (s\<lparr>pmem_curr_alloc_record := c, mem := m, std_input_buf := b\<rparr>) = []"
    "pmem_pages (s\<lparr>pmem_curr_alloc_record := c, mem := m, std_input_buf := b\<rparr>) = pmem_pages s"
    "used_pages (s\<lparr>pmem_curr_alloc_record := c, mem := m, std_input_buf := b\<rparr>) = insert p (used_pages s)"
    "kept {} s (s\<lparr>pmem_curr_alloc_record := c, mem := m, std_input_buf := b\<rparr>)"
proof -
  note d = fat16_okD [OF assms(1)]
  let ?b = "(std_input_buf s)\<lparr>is_initializing := True\<rparr>"
  let ?s = "s\<lparr>std_input_buf := ?b\<rparr>"
  have "wp pmem_alloc (\<lambda>p. took {p} ?s) ?s"
    by (rule took_alloc) (use stdio_okD(1) [OF d(2)] assms(3) in simp_all)
  then obtain p u where alloc: "pmem_alloc ?s = Ok p u" and u: "took {p} ?s u" by (rule wpE)
  obtain c m where cm: "u = ?s\<lparr>pmem_curr_alloc_record := c, mem := m\<rparr>" using tookD(5) [OF u] by (auto simp: pmem_same_def)
  let ?w = "s\<lparr>pmem_curr_alloc_record := c, mem := m\<rparr>"
  let ?v = "?w\<lparr>std_input_buf := (std_input_buf s)\<lparr>b_addr := p, b_size := 4096, is_init := True, is_initializing := False\<rparr>\<rparr>"
  have w: "?w = u\<lparr>std_input_buf := std_input_buf s\<rparr>" by (simp add: cm)
  have "pmem_same s ?w" unfolding pmem_same_def by blast
  then have tw: "took {p} s ?w" using u unfolding w took_def by simp
  have uninit: "\<not> is_initializing (std_input_buf s)" using stdio_okD(2) [OF d(2), of StdInput] by (simp add: buf_ok_def Let_def)
  have run: "io_buffer_init StdInput s = Ok () ?v"
    using assms(2) alloc uninit by (simp add: io_buffer_init_def kernel_defs cm)
  have p: "p \<in> pmem_pages s - used_pages s" "used_pages ?w = insert p (used_pages s)" "pmem_pages ?w = pmem_pages s"
    using tookD(2-4) [OF tw] by auto
  note k = fat16_took [OF tw assms(1)]
  have "can_init StdInput s" using assms(3) by (simp add: can_init_def)
  from init_stream [OF d(2) this] have st: "stdio_ok ?v" "stream StdInput ?v = stream StdInput s"
    by (auto simp: run wp_def)
  have dp: "disk_pages ?v = disk_pages s" "disk_table ?v = disk_table ?w" "disk_blocks ?v = disk_blocks ?w"
    using k(4) by (simp_all add: disk_pages_def disk_table_def disk_blocks_def)
  have disk: "disk ?v = disk s" using k(2) dp by (simp add: disk_def disk_addr_def)
  have sub: "disk_pages s \<subseteq> used_pages s" using d(1) by (simp add: ramdisk_ok_def)
  have buf: "b_addr (std_buf i ?v) \<notin> disk_pages s" if "is_init (std_buf i ?v)" for i
    using that d(6) [of i] p(1) sub by (cases i) auto
  have "ramdisk_ok ?v" using fat16_okD(1) [OF k(1)] by (simp add: ramdisk_ok_def disk_pages_def disk_table_def disk_blocks_def)
  then have ok: "fat16_ok ?v" using st(1) disk buf dp(1) assms(1) by (simp add: fat16_ok_def)
  have "private_page q ?v" if q: "private_page q s" for q
    unfolding private_page_def dp(1)
  proof (intro conjI allI impI)
    show "q \<in> used_pages ?v" "q \<notin> disk_pages s" using q p(2) by (simp_all add: private_page_def)
    fix i
    assume "is_init (std_buf i ?v)"
    then show "b_addr (std_buf i ?v) \<noteq> q" using q p(1) by (cases i) (auto simp: private_page_def dest: spec [of _ StdOutput])
  qed
  moreover have "m a = mem s a" if "private_page (page_of a) s" for a using tookD(6) [OF tw] that by (simp add: private_page_def)
  ultimately have kept: "kept {} s ?v" by (simp add: kept_def)
  have "stream StdInput s = []" using assms(2) by (simp add: stream_def)
  then show thesis
    by (intro that [OF run _ p(1) ok disk _ _ _ kept]) (use p st(2) in simp_all)
qed

lemma wp_put_uninit:
  assumes "stdio_ok s" "io_buffer_init StdInput s = Ok () (s\<lparr>pmem_curr_alloc_record := c, mem := m, std_input_buf := b\<rparr>)" "is_init b"
  shows "wp (stdlib_put_stdio_input_char x) Q s
    = wp (stdlib_put_stdio_input_char x) Q (s\<lparr>pmem_curr_alloc_record := c, mem := m, std_input_buf := b\<rparr>)"
proof -
  have o: "pmem_initialized s" "\<not> is_initializing (std_output_buf s)"
    using pmem_okD(1) [OF stdio_okD(1) [OF assms(1)]] stdio_okD(2) [OF assms(1), of StdOutput] by (simp_all add: buf_ok_def Let_def)
  have "io_buffer_init StdInput (s\<lparr>pmem_curr_alloc_record := c, mem := m, std_input_buf := b\<rparr>)
      = Ok () (s\<lparr>pmem_curr_alloc_record := c, mem := m, std_input_buf := b\<rparr>)" using assms(3) by (simp add: io_buffer_init_def kernel_defs)
  then show ?thesis
    using o assms(2) by (simp add: stdlib_put_stdio_input_char_def pmem_isinit_def io_buffer_place_def wp_def kernel_defs)
qed

section \<open>The abstract system\<close>

text \<open>
  What the user sees: the line typed so far, the files, the programs started (for each process number
  the name and the code), the scheduler as a multi-level feedback queue, the number of free pages,
  whether the input buffer has its page yet, and the number of timer ticks.
\<close>

record system =
  sys_line :: bytes
  sys_files :: directory
  sys_procs :: "nat \<Rightarrow> (bytes \<times> bytes) option"
  sys_sched :: mlfq
  sys_pages :: nat
  sys_input :: bool
  sys_ticks :: nat

definition free_slot :: "(nat \<Rightarrow> (bytes \<times> bytes) option) \<Rightarrow> nat option" where
  "free_slot f = find (\<lambda>i. f i = None) [1..<64]"

text \<open>Starting a program: it gets the first free number and a page, and goes to the front of the top queue.\<close>

definition start_program :: "bytes \<Rightarrow> system \<Rightarrow> system" where
  "start_program name A = (case dir_lookup name (sys_files A) of None \<Rightarrow> A
    | Some (_, code) \<Rightarrow> (case free_slot (sys_procs A) of None \<Rightarrow> A
      | Some pid \<Rightarrow> A\<lparr>sys_procs := (sys_procs A)(pid := Some (name, code)), sys_sched := mlfq_add pid (sys_sched A),
          sys_pages := sys_pages A - 1\<rparr>))"

text \<open>
  Entering a line: \<open>execbg\<close> starts a program; \<open>write\<close> with a name and a text makes a file, unless a file
  answers to the name.
\<close>

definition run_line :: "bytes \<Rightarrow> system \<Rightarrow> system" where
  "run_line l A = (case line_arguments l of
      w # name # rest \<Rightarrow>
        if w = cstr ''execbg'' then start_program name A
        else if w = cstr ''write'' \<and> rest \<noteq> [] \<and> dir_lookup name (sys_files A) = None
        then A\<lparr>sys_files := dir_abs (name, hd rest) (sys_files A)\<rparr> else A
    | _ \<Rightarrow> A)"

definition input_ready :: "system \<Rightarrow> system" where
  "input_ready A = (if sys_input A then A else A\<lparr>sys_input := True, sys_pages := sys_pages A - 1\<rparr>)"

definition shell_char :: "u8 \<Rightarrow> system \<Rightarrow> system" where
  "shell_char c A = (if c = 0 then A else if c = 0xA then (run_line (sys_line A) A)\<lparr>sys_line := []\<rparr>
     else A\<lparr>sys_line := sys_line A @ [c]\<rparr>)"

definition type_char :: "u8 \<Rightarrow> system \<Rightarrow> system" where
  "type_char c A = (if c = 0 then A else shell_char c (input_ready A))"

definition schedule :: "system \<Rightarrow> system" where
  "schedule A = A\<lparr>sys_sched := mlfq_update (sys_sched A)\<rparr>"

fun system_step :: "event \<Rightarrow> system \<Rightarrow> system" where
  "system_step Tick A = schedule (A\<lparr>sys_ticks := Suc (sys_ticks A)\<rparr>)"
| "system_step (Key k) A = schedule (type_char (key_byte k) A)"
| "system_step Syscall A = schedule A"

text \<open>
  The runs covered: the tick counter does not overflow, the line fits its buffer, and a line that is
  entered has no quotes and at most 50 words and is no \<open>read\<close> command; a new file has at most 512 bytes
  and an entry left in the directory; a program that is started has a name of less than 16 characters,
  and there is a page for it, as there is for the input buffer when the first key is pressed.
\<close>

definition line_allowed :: "bytes \<Rightarrow> system \<Rightarrow> bool" where
  "line_allowed l A \<longleftrightarrow> 0x27 \<notin> set l \<and> length (line_arguments l) \<le> 50 \<and> line_arguments l ! 0 \<noteq> cstr ''read''
     \<and> (case line_arguments l of
          w # name # rest \<Rightarrow>
            (w = cstr ''write'' \<and> rest \<noteq> [] \<and> dir_lookup name (sys_files A) = None \<longrightarrow>
               length (hd rest) \<le> 512 \<and> length (sys_files A) < 31)
            \<and> (w = cstr ''execbg'' \<and> dir_lookup name (sys_files A) \<noteq> None \<and> free_slot (sys_procs A) \<noteq> None \<longrightarrow>
               length name < 16 \<and> 2 \<le> sys_pages A)
        | _ \<Rightarrow> True)"

definition shell_allowed :: "u8 \<Rightarrow> system \<Rightarrow> bool" where
  "shell_allowed c A \<longleftrightarrow> (if c = 0 then True else if c = 0xA then line_allowed (sys_line A) A else length (sys_line A) < 1023)"

definition type_allowed :: "u8 \<Rightarrow> system \<Rightarrow> bool" where
  "type_allowed c A \<longleftrightarrow> c = 0 \<or> (sys_input A \<or> 2 \<le> sys_pages A) \<and> shell_allowed c (input_ready A)"

fun event_allowed :: "event \<Rightarrow> system \<Rightarrow> bool" where
  "event_allowed Tick A \<longleftrightarrow> sys_ticks A < 0x7FFFFFFF"
| "event_allowed (Key k) A \<longleftrightarrow> type_allowed (key_byte k) A"
| "event_allowed Syscall A \<longleftrightarrow> True"

section \<open>When the kernel implements the system\<close>

text \<open>The line in the command buffer.\<close>

definition pending :: "bytes \<Rightarrow> 'z shell_state_scheme \<Rightarrow> bool" where
  "pending l s \<longleftrightarrow> command_buffer_ptr s = length l \<and> take (length l) (command_buffer s) = l
     \<and> length l \<le> 1023 \<and> 0 \<notin> set l \<and> 0xA \<notin> set l"

text \<open>A process record carries its number; a program started has its name, and its code at the start of a page of its own.\<close>

definition process_rel :: "'z fat16_state_scheme \<Rightarrow> nat \<Rightarrow> process \<Rightarrow> (bytes \<times> bytes) option \<Rightarrow> bool" where
  "process_rel s i p x \<longleftrightarrow> length (p_name p) = 16 \<and> p_pid p = of_nat i
     \<and> (case x of None \<Rightarrow> p_state p = UNUSED \<and> process_memory_start p = 0
        | Some (name, code) \<Rightarrow> p_state p = RUNNABLE \<and> c_string (p_name p) = name \<and> private_page (process_memory_start p) s
            \<and> take (length code) (load_bytes (mem s) (process_memory_start p) 512) = code)"

definition procs_rel :: "'z processes_state_scheme \<Rightarrow> (nat \<Rightarrow> (bytes \<times> bytes) option) \<Rightarrow> bool" where
  "procs_rel s f \<longleftrightarrow> length (processes s) = 64 \<and> (\<forall>i < 64. process_rel s i (processes s ! i) (f i))
     \<and> inj_on (\<lambda>i. process_memory_start (processes s ! i)) {i. i < 64 \<and> f i \<noteq> None}"

text \<open>The pages \<open>K\<close> belong to others and hold what they hold in \<open>m\<close>.\<close>

definition holds :: "u32 set \<Rightarrow> memory \<Rightarrow> 'z fat16_state_scheme \<Rightarrow> bool" where
  "holds K m s \<longleftrightarrow> (\<forall>p \<in> K. private_page p s \<and> (\<forall>a. page_of a = p \<longrightarrow> mem s a = m a))"

definition sys_rel :: "u32 set \<Rightarrow> memory \<Rightarrow> u32 \<times> u32 \<times> u32 \<Rightarrow> 'z shell_state_scheme \<Rightarrow> system \<Rightarrow> bool" where
  "sys_rel K m r s A \<longleftrightarrow> shell_ok s \<and> is_init (std_input_buf s) = sys_input A \<and> 0 \<notin> pmem_pages s
     \<and> card (pmem_pages s - used_pages s) = sys_pages A \<and> procs_rel s (sys_procs A) \<and> dir_rel s (sys_files A)
     \<and> mlfq_rel s (sys_sched A) \<and> (\<forall>p \<in> set (concat (levels (sys_sched A))). sys_procs A p \<noteq> None)
     \<and> holds K m s \<and> paging s = r"

definition kernel_rel :: "u32 set \<Rightarrow> memory \<Rightarrow> u32 \<times> u32 \<times> u32 \<Rightarrow> 'z kernel_state_scheme \<Rightarrow> system \<Rightarrow> bool" where
  "kernel_rel K m r s A \<longleftrightarrow> sys_rel K m r s A \<and> stream StdInput s = [] \<and> pending (sys_line A) s
     \<and> unat (pit_interrupt_count s) = sys_ticks A"

lemma sys_rel_other [simp]:
  "sys_rel K m r s (A\<lparr>sys_line := l\<rparr>) = sys_rel K m r s A" "sys_rel K m r s (A\<lparr>sys_ticks := n\<rparr>) = sys_rel K m r s A"
  by (simp_all add: sys_rel_def)

lemma sys_relD:
  assumes "sys_rel K m r s A"
  shows "shell_ok s" "fat16_ok s" "is_init (std_input_buf s) = sys_input A" "0 \<notin> pmem_pages s"
    "card (pmem_pages s - used_pages s) = sys_pages A" "procs_rel s (sys_procs A)" "dir_rel s (sys_files A)"
    "mlfq_rel s (sys_sched A)" "\<And>p. p \<in> set (concat (levels (sys_sched A))) \<Longrightarrow> sys_procs A p \<noteq> None" "holds K m s" "paging s = r"
  using assms by (auto simp: sys_rel_def shell_ok_def)

lemma holds_kept: "holds K m s \<Longrightarrow> kept {} s t \<Longrightarrow> holds K m t"
  unfolding holds_def kept_def by (metis empty_iff)

lemma process_rel_kept:
  assumes "process_rel s i p x" "fat16_ok s" "kept {} s t"
  shows "process_rel t i p x"
  using assms kept_load [OF assms(3)] private_page_aligned [OF assms(2)]
  by (auto simp: process_rel_def kept_def split: option.splits)

lemma procs_rel_kept: "procs_rel s f \<Longrightarrow> fat16_ok s \<Longrightarrow> kept {} s t \<Longrightarrow> processes t = processes s \<Longrightarrow> procs_rel t f"
  using process_rel_kept [of s _ _ _ t] by (simp add: procs_rel_def)

lemma pid_bytes_zero: "i < 64 \<Longrightarrow> 0 \<in> set (le32_bytes (of_nat i))"
proof -
  assume "i < 64"
  then have "unat (drop_bit 24 (of_nat i :: u32)) = 0" by (simp only: unat_drop_bit_eq) (simp add: drop_bit_eq_div word_facts)
  then have "drop_bit 24 (of_nat i :: u32) = 0" by (simp only: unat_eq_0)
  then show ?thesis by (simp add: le32_bytes_def)
qed

lemma procs_rel_printable: "procs_rel s f \<Longrightarrow> printable (processes s)"
  unfolding procs_rel_def printable_def process_rel_def all_set_conv_all_nth
  by (clarsimp simp: name_and_pid_def simp del: in_set_conv_nth) (use pid_bytes_zero in blast)

lemma sys_rel_same:
  assumes "sys_rel K m r s A" "shell_same s t" "shell_ok t"
  shows "sys_rel K m r t A"
proof -
  note d = sys_relD [OF assms(1)]
  have t: "disk t = disk s" "processes t = processes s" "kept {} s t" "mlfq_rel t (sys_sched A)" "fat16_ok t"
    using assms(2,3) d(8) by (simp_all add: shell_same_def shell_ok_def)
  have "procs_rel t (sys_procs A)" "holds K m t" "dir_rel t (sys_files A)"
    using procs_rel_kept [OF d(6,2) t(3,2)] holds_kept [OF d(10) t(3)] d(7) t(1,5) by (simp_all add: dir_rel_def)
  then show ?thesis using assms t(4) by (simp add: sys_rel_def shell_same_def)
qed

section \<open>Running a line\<close>

text \<open>A command has done its work: the system it leaves, with the input and the rest of the kernel as before.\<close>

definition run_done :: "u32 set \<Rightarrow> memory \<Rightarrow> u32 \<times> u32 \<times> u32 \<Rightarrow> system \<Rightarrow> 'z shell_state_scheme \<Rightarrow> 'z shell_state_scheme \<Rightarrow> bool" where
  "run_done K m r B s t \<longleftrightarrow> sys_rel K m r t B \<and> stream StdInput t = stream StdInput s \<and> shell_state.more t = shell_state.more s"

lemma run_done_refl: "sys_rel K m r s A \<Longrightarrow> run_done K m r A s s"
  by (simp add: run_done_def)

lemma run_done_same:
  assumes "run_done K m r B s t" "shell_same t u" "shell_ok u" "stream StdInput u = stream StdInput t"
  shows "run_done K m r B s u"
  using assms sys_rel_same [OF _ assms(2,3)] by (simp add: run_done_def shell_same_def)

lemma run_done_frame:
  assumes "run_done K m r B s t" "console_frame t u"
  shows "run_done K m r B s u"
proof -
  have t: "shell_ok t" using assms(1) by (simp add: run_done_def sys_rel_def)
  then have "fat16_ok t" by (simp add: shell_ok_def)
  note f = shell_frame [OF this assms(2)]
  have "shell_ok u" using f(1,3,4) t by (simp add: shell_ok_def)
  then show ?thesis by (rule run_done_same [OF assms(1) f(2) _ f(6)])
qed

lemma run_done_print:
  assumes "run_done K m r B s t" "render format args \<noteq> None"
  shows "wp (printf (cstr format) args) (\<lambda>_. run_done K m r B s) t"
proof (rule wp_mono [OF wp_printf_frame [OF _ assms(2)]])
  have "fat16_ok t" using assms(1) by (simp add: run_done_def sys_rel_def shell_ok_def)
  then show "console_ok t" by (rule fat16_okD)
qed (rule run_done_frame [OF assms(1)])

subsection \<open>Writing a file\<close>

lemma sys_rel_files:
  assumes "sys_rel K m r s A" "fs_same s t" "dir_rel t G"
  shows "run_done K m r (A\<lparr>sys_files := G\<rparr>) s t"
proof -
  note d = sys_relD [OF assms(1)]
  have f: "processes t = processes s" "is_init (std_input_buf t) = is_init (std_input_buf s)" "shell_state.more t = shell_state.more s"
    "proc_list t = proc_list s" "proc_priority_list t = proc_priority_list s" "current_process t = current_process s" "paging t = paging s"
    "stream StdInput t = stream StdInput s" "command_buffer t = command_buffer s" "working_buffer t = working_buffer s"
    using assms(2) by (auto simp: fs_same_def paging_def)
  note k = kept_fs_same [OF d(2) assms(2)]
  have "procs_rel t (sys_procs A)" "holds K m t" using procs_rel_kept [OF d(6,2) k f(1)] holds_kept [OF d(10) k] by simp_all
  then show ?thesis
    using assms(1,3) f fs_same_pages [OF assms(2)]
    by (simp add: run_done_def sys_rel_def shell_ok_def dir_rel_def mlfq_rel_def queues_rel_def)
qed

lemma dir_lookup_c_string: "dir_lookup f F = dir_lookup (c_string f) F"
  using native_c_string [of f] by (simp add: dir_lookup_def)

lemma wp_sh_write_sys:
  assumes "sys_rel K m r s A" "map c_string argv = w # name # contents # rest" "\<forall>a \<in> set argv. 0 \<in> set a"
    and "dir_lookup name (sys_files A) = None \<longrightarrow> length contents \<le> 512 \<and> length (sys_files A) < 31"
    and B: "B = (if dir_lookup name (sys_files A) = None then A\<lparr>sys_files := dir_abs (name, contents) (sys_files A)\<rparr> else A)"
  shows "wp (sh_write (length argv) argv) (\<lambda>_. run_done K m r B s) s"
proof -
  note rel = sys_relD(7) [OF assms(1)]
  obtain a0 a1 a2 as where argv: "argv = a0 # a1 # a2 # as" "c_string a1 = name" "c_string a2 = contents" using assms(2) by auto
  let ?n = "of_nat (length contents) :: u32"
  have z: "0 \<in> set a2" using assms(3) argv(1) by simp
  have sl: "strlen a2 = Some (length contents)" using strlen_Some [OF z] argv(3) by simp
  have len: "length contents < length a2" "take (length contents) a2 = contents"
    using c_string_nth(1) [OF z] argv(3) takeWhile_eq_take [of "\<lambda>c. c \<noteq> 0" a2] by (auto simp: c_string_def)
  have look: "dir_lookup a1 (sys_files A) = dir_lookup name (sys_files A)" using dir_lookup_c_string [of a1] argv(2) by simp
  have wr: "wp (ramdisk_fat16_file_write a1 (Local a2) ?n) (\<lambda>_. run_done K m r B s) s"
  proof (cases "dir_lookup name (sys_files A) = None")
    case True
    have n: "unat ?n = length contents" using assms(4) True by (simp add: word_facts)
    have "unat ?n \<le> 512" "unat ?n \<le> length a2" "length (sys_files A) < 31" "dir_lookup a1 (sys_files A) = None"
      using n assms(4) True len(1) look by simp_all
    from wp_dir_write [OF rel this] show ?thesis
      by (rule wp_mono) (use True n len(2) native_c_string [of a1] argv(2) sys_rel_files [OF assms(1)] in \<open>auto simp: B\<close>)
  next
    case False
    have "A\<lparr>sys_files := sys_files A\<rparr> = A" by simp
    then show ?thesis
      using look False sys_rel_files [OF assms(1), of _ "sys_files A"] by (intro wp_mono [OF wp_dir_exists [OF rel]]) (auto simp: B)
  qed
  have "wp (printf (cstr ''Wrote file %s with %d bytes\<newline>'') [ArgStr a1, ArgInt ?n]) (\<lambda>_. run_done K m r B s) t"
    if t: "run_done K m r B s t" for t by (rule run_done_print [OF t]) simp
  then show ?thesis
    using wp_mono [OF wr] by (simp add: sh_write_def fs_file_write_def argv(1) sl)
qed

subsection \<open>Starting a program\<close>

lemma process_unused: "process_rel s i p x \<Longrightarrow> p_state p = UNUSED \<longleftrightarrow> x = None"
  by (auto simp: process_rel_def split: option.splits)

lemma free_slot_pid: "procs_rel s f \<Longrightarrow> free_pid s = free_slot f"
  unfolding free_pid_def free_slot_def by (rule find_cong) (auto simp: procs_rel_def dest: process_unused)

lemma free_slotD:
  assumes "free_slot f = Some pid"
  shows "0 < pid" "pid < 64" "f pid = None"
  using assms unfolding free_slot_def find_Some_iff by (auto simp: nth_upt simp del: upt_Suc)

lemma named_length:
  assumes "length (p_name p) = 16"
  shows "length (p_name (named f p)) = 16"
  using assms by (simp add: named_def set_name_and_pid_def name_and_pid_def le32_bytes_def)

lemma mlfq_add_members: "length (levels M) = 3 \<Longrightarrow> set (concat (levels (mlfq_add p M))) = insert p (set (concat (levels M)))"
  by (subst three_levels [of "levels M"], assumption) (auto simp: mlfq_add_def three_concat)

lemma started_procs:
  assumes "procs_rel s f" "fat16_ok s" "kept {} s t" "free_slot f = Some pid" "loaded a pid data s t"
    "length (c_string a) < 16" "take (length code) data = code"
  shows "procs_rel t (f(pid := Some (c_string a, code)))"
proof -
  note pid = free_slotD [OF assms(4)]
  obtain page where page: "page \<in> pmem_pages s - used_pages s" "load_bytes (mem t) page 512 = data" "private_page page t"
    and procs: "processes t = (processes s)[pid := (started a page (processes s ! pid))\<lparr>p_state := RUNNABLE\<rparr>]"
    using assms(5) by (auto simp: loaded_def)
  have len: "length (processes s) = 64" and rel: "\<And>i. i < 64 \<Longrightarrow> process_rel s i (processes s ! i) (f i)"
    and inj: "inj_on (\<lambda>i. process_memory_start (processes s ! i)) {i. i < 64 \<and> f i \<noteq> None}"
    using assms(1) by (simp_all add: procs_rel_def)
  let ?p = "processes s ! pid"
  have p: "length (p_name ?p) = 16" "p_pid ?p = of_nat pid" using rel [OF pid(2)] by (simp_all add: process_rel_def)
  have new: "process_rel t pid ((started a page ?p)\<lparr>p_state := RUNNABLE\<rparr>) (Some (c_string a, code))"
    using p named_length [OF p(1), of a] named_short [OF p(1) assms(6)] page(2,3) assms(7) by (simp add: process_rel_def started_def)
  have old: "process_memory_start (processes s ! i) \<noteq> page" if "i < 64" "f i \<noteq> None" for i
    using rel [OF that(1)] that(2) page(1) by (auto simp: process_rel_def private_page_def)
  have "inj_on (\<lambda>i. process_memory_start (processes t ! i)) {i. i < 64 \<and> (f(pid := Some (c_string a, code))) i \<noteq> None}"
  proof (rule inj_onI)
    fix i j
    assume ij: "i \<in> {i. i < 64 \<and> (f(pid := Some (c_string a, code))) i \<noteq> None}" "j \<in> {i. i < 64 \<and> (f(pid := Some (c_string a, code))) i \<noteq> None}"
      "process_memory_start (processes t ! i) = process_memory_start (processes t ! j)"
    have st: "process_memory_start (processes t ! k) = (if k = pid then page else process_memory_start (processes s ! k))" if "k < 64" for k
      using that len by (simp add: procs started_def nth_list_update)
    show "i = j"
      using ij st [of i] st [of j] old [of i] old [of j] inj_onD [OF inj, of i j] by (auto split: if_splits)
  qed
  moreover have "process_rel t i (processes t ! i) ((f(pid := Some (c_string a, code))) i)" if "i < 64" for i
    using new process_rel_kept [OF rel [OF that] assms(2,3)] that len by (simp add: procs nth_list_update)
  ultimately show ?thesis using len by (simp add: procs_rel_def procs)
qed

lemma started_sys:
  assumes "sys_rel K m r s A" "free_slot (sys_procs A) = Some pid" "loaded a pid data s t" "length (c_string a) < 16" "take (length code) data = code"
    and "fat16_ok t" "disk t = disk s" "mlfq_rel t (mlfq_add pid (sys_sched A))" "above_same {} s t"
  shows "run_done K m r (A\<lparr>sys_procs := (sys_procs A)(pid := Some (c_string a, code)), sys_sched := mlfq_add pid (sys_sched A),
     sys_pages := sys_pages A - 1\<rparr>) s t" (is "run_done K m r ?B s t")
proof -
  note d = sys_relD [OF assms(1)]
  have k: "kept {} s t" "pmem_pages t = pmem_pages s" "paging t = paging s" "is_init (std_input_buf t) = is_init (std_input_buf s)"
    "stream StdInput t = stream StdInput s" "sched_state.more t = sched_state.more s"
    using assms(9) by (simp_all add: above_same_def)
  have more: "command_buffer t = command_buffer s" "working_buffer t = working_buffer s" "shell_state.more t = shell_state.more s"
    using k(6) by (cases s, cases t, simp)+
  obtain page where page: "page \<in> pmem_pages s - used_pages s" "used_pages t = insert page (used_pages s)" using assms(3) by (auto simp: loaded_def)
  have "pmem_pages s - insert page (used_pages s) = (pmem_pages s - used_pages s) - {page}" by auto
  then have "card (pmem_pages t - used_pages t) = sys_pages A - 1"
    using page d(5) k(2) by (simp add: card_Diff_singleton)
  moreover have "set (concat (levels (mlfq_add pid (sys_sched A)))) = insert pid (set (concat (levels (sys_sched A))))"
    using d(8) by (intro mlfq_add_members) (simp add: mlfq_rel_def queues_rel_def)
  then have "\<forall>p \<in> set (concat (levels (sys_sched ?B))). sys_procs ?B p \<noteq> None" using d(9) by (simp del: set_concat not_None_eq)
  ultimately have "sys_rel K m r t ?B"
    using started_procs [OF d(6,2) k(1) assms(2,3,4,5)] holds_kept [OF d(10) k(1)] d k more assms(6-8)
    by (simp add: sys_rel_def shell_ok_def dir_rel_def)
  then show ?thesis using k(5) more(3) by (simp add: run_done_def)
qed

lemma wp_execve_sys:
  assumes "sys_rel K m r s A" "0 \<in> set a" "c_string a = name"
    and "dir_lookup name (sys_files A) \<noteq> None \<and> free_slot (sys_procs A) \<noteq> None \<longrightarrow> length name < 16 \<and> 2 \<le> sys_pages A"
  shows "wp (process_execve a) (\<lambda>_. run_done K m r (start_program name A) s) s"
proof (cases "dir_lookup name (sys_files A) = None \<or> free_slot (sys_procs A) = None")
  case True
  note d = sys_relD [OF assms(1)]
  have disk: "dir_disk (disk s) (sys_files A)" using d(7) by (simp add: dir_rel_def)
  have "first_or_zero (root_match a (disk s)) [1..<32] = 0 \<or> free_pid s = None"
    using True dir_find_none [OF disk, of a] dir_lookup_c_string [of a] assms(3) free_slot_pid [OF d(6)] by auto
  moreover have "start_program name A = A" using True by (auto simp: start_program_def split: option.splits)
  ultimately show ?thesis
    using run_done_frame [OF run_done_refl [OF assms(1)]] by (intro wp_mono [OF wp_execve_refused [OF d(2)]]) simp_all
next
  case False
  note d = sys_relD [OF assms(1)]
  have disk: "dir_disk (disk s) (sys_files A)" using d(7) by (simp add: dir_rel_def)
  obtain n code pid where some: "dir_lookup name (sys_files A) = Some (n, code)" "free_slot (sys_procs A) = Some pid" using False by auto
  note pid = free_slotD [OF some(2)]
  have look: "dir_lookup a (sys_files A) = Some (n, code)" using dir_lookup_c_string [of a] assms(3) some(1) by simp
  obtain k c where e: "first_or_zero (root_match a (disk s)) [1..<32] = Suc k" "dir_entry (disk s) (Suc k) c (n, code)"
    by (rule dir_find [OF disk look])
  have prog: "program a (disk s) c" "take (length code) (cluster_data (disk s) c) = code"
    using e by (simp_all add: program_def dir_entry_def Let_def)
  have short: "length (c_string a) < 16" "2 \<le> sys_pages A" using assms(3,4) some by simp_all
  have slot: "slot_ready pid s"
    using d(6) pid by (auto simp: procs_rel_def slot_ready_def process_rel_def dest: spec [of _ pid])
  have queued: "pid \<notin> set (concat (levels (sys_sched A)))" using d(9) pid(3) by blast
  have pages: "2 \<le> card (pmem_pages s - used_pages s)" using d(5) short(2) by simp
  have start: "start_program name A = A\<lparr>sys_procs := (sys_procs A)(pid := Some (c_string a, code)), sys_sched := mlfq_add pid (sys_sched A),
     sys_pages := sys_pages A - 1\<rparr>"
    using some assms(3) by (simp add: start_program_def)
  show ?thesis
    unfolding start
    by (rule wp_execve [OF d(2) _ slot assms(2) pages d(4) prog(1) d(8) queued])
      (use free_slot_pid [OF d(6)] some(2) started_sys [OF assms(1) some(2) _ short(1) prog(2)] in simp_all)
qed

lemma wp_sh_execbg_sys:
  assumes "sys_rel K m r s A" "map c_string argv = w # name # rest" "\<forall>a \<in> set argv. 0 \<in> set a"
    and "dir_lookup name (sys_files A) \<noteq> None \<and> free_slot (sys_procs A) \<noteq> None \<longrightarrow> length name < 16 \<and> 2 \<le> sys_pages A"
  shows "wp (sh_execbg (length argv) argv) (\<lambda>_. run_done K m r (start_program name A) s) s"
proof -
  obtain a0 a1 as where argv: "argv = a0 # a1 # as" "c_string a1 = name" using assms(2) by auto
  have z: "0 \<in> set a1" using assms(3) argv(1) by simp
  note print = run_done_print [where format = "''not implemented yet.\<newline>''" and args = "[]"]
  show ?thesis
    by (simp add: sh_execbg_def argv(1)) (rule wp_mono [OF wp_execve_sys [OF assms(1) z argv(2) assms(4)]], rule print, simp_all)
qed

subsection \<open>Every command but \<open>read\<close>\<close>

lemma wp_run_line_write:
  assumes "map c_string argv = line_arguments l" "\<forall>a \<in> set argv. 0 \<in> set a" "line_allowed l A" "sys_rel K m r s A"
    and "line_arguments l ! 0 = cstr ''write''"
  shows "wp (sh_write (length argv) argv) (\<lambda>_. run_done K m r (run_line l A) s) s"
proof (cases "length argv < 3")
  case short: True
  then have "length (line_arguments l) < 3" unfolding assms(1) [symmetric] by simp
  then have "run_line l A = A" using assms(5) by (auto simp: run_line_def cstr_def split: list.splits)
  then show ?thesis using short run_done_print [OF run_done_refl [OF assms(4)]] by (simp add: sh_write_def)
next
  case False
  then have "3 \<le> length (line_arguments l)" unfolding assms(1) [symmetric] by simp
  then obtain name contents rest where args: "line_arguments l = cstr ''write'' # name # contents # rest"
    using assms(5) by (cases "line_arguments l" rule: list.exhaust; auto simp: Suc_le_length_iff numeral_3_eq_3)
  have ne: "cstr ''write'' \<noteq> cstr ''execbg''" by (simp add: cstr_def)
  show ?thesis
    by (rule wp_sh_write_sys [OF assms(4) assms(1) [unfolded args] assms(2)])
      (use assms(3) args ne in \<open>simp_all add: line_allowed_def run_line_def\<close>)
qed

lemma wp_run_line_execbg:
  assumes "map c_string argv = line_arguments l" "\<forall>a \<in> set argv. 0 \<in> set a" "line_allowed l A" "sys_rel K m r s A"
    and "line_arguments l ! 0 = cstr ''execbg''"
  shows "wp (sh_execbg (length argv) argv) (\<lambda>_. run_done K m r (run_line l A) s) s"
proof (cases "length argv < 2")
  case short: True
  then have "length (line_arguments l) < 2" unfolding assms(1) [symmetric] by simp
  then have stay: "run_line l A = A" by (auto simp: run_line_def split: list.splits)
  note print = run_done_print [where args = "[]"]
  show ?thesis
    unfolding stay using short
    by (simp add: sh_execbg_def) (rule wp_mono, rule print [OF run_done_refl [OF assms(4)]], simp, rule print, simp_all)
next
  case False
  then have "2 \<le> length (line_arguments l)" unfolding assms(1) [symmetric] by simp
  then obtain name rest where args: "line_arguments l = cstr ''execbg'' # name # rest"
    using assms(5) by (cases "line_arguments l" rule: list.exhaust; auto simp: Suc_le_length_iff numeral_2_eq_2)
  have "run_line l A = start_program name A" by (simp add: run_line_def args)
  moreover have "dir_lookup name (sys_files A) \<noteq> None \<and> free_slot (sys_procs A) \<noteq> None \<longrightarrow> length name < 16 \<and> 2 \<le> sys_pages A"
    using assms(3) unfolding line_allowed_def args by simp
  ultimately show ?thesis using wp_sh_execbg_sys [OF assms(4) assms(1) [unfolded args] assms(2)] by simp
qed

lemma wp_run_line:
  fixes s :: "'z shell_state_scheme"
  assumes "map c_string argv = line_arguments l" "\<forall>a \<in> set argv. 0 \<in> set a" "line_allowed l A" "sys_rel K m r s A"
  shows "wp (run_command shell_cmds argv) (\<lambda>_. run_done K m r (run_line l A) s) s"
proof -
  have ne: "line_arguments l \<noteq> []" by (auto simp: line_arguments_def)
  then have c: "c_string (argv ! 0) = line_arguments l ! 0" "0 \<in> set (argv ! 0)"
    using assms(1,2) unfolding assms(1) [symmetric] by simp_all
  note d = sys_relD [OF assms(4)]
  have fin: "run_done K m r A s t" if "console_frame s t" for t by (rule run_done_frame [OF run_done_refl [OF assms(4)] that])
  consider "line_arguments l ! 0 = cstr ''write''" | "line_arguments l ! 0 = cstr ''execbg''"
    | "line_arguments l ! 0 \<notin> {cstr ''write'', cstr ''execbg''}" by blast
  then show ?thesis
  proof cases
    case 1
    have "run_command shell_cmds argv = (kbind (sh_write (length argv) argv) (\<lambda>_. kret ()) :: ('z shell_state_scheme, unit) kM)"
      using run_command_find [OF c(2) _ cmd_names] by (simp add: shell_cmds_def c(1) 1 cstr_def)
    then show ?thesis using wp_run_line_write [OF assms 1] by simp
  next
    case 2
    have "run_command shell_cmds argv = (kbind (sh_execbg (length argv) argv) (\<lambda>_. kret ()) :: ('z shell_state_scheme, unit) kM)"
      using run_command_find [OF c(2) _ cmd_names] by (simp add: shell_cmds_def c(1) 2 cstr_def)
    then show ?thesis using wp_run_line_execbg [OF assms 2] by simp
  next
    case 3
    then have stay: "run_line l A = A" using ne by (auto simp: run_line_def split: list.splits)
    show ?thesis
    proof (cases "line_arguments l ! 0 \<in> report_names")
      case True
      show ?thesis
        unfolding stay by (rule wp_mono [OF wp_report [OF d(1) procs_rel_printable [OF d(6)] d(8) c(2) True [folded c(1)]]]) (rule fin)
    next
      case False
      then have "line_arguments l ! 0 \<notin> command_names"
        using 3 assms(3) by (auto simp: line_allowed_def command_names_def report_names_def)
      then show ?thesis
        unfolding stay using run_done_same [OF run_done_refl [OF assms(4)]]
        by (intro wp_mono [OF wp_run_unknown [OF assms(1,2) _ d(1)]]) auto
    qed
  qed
qed

section \<open>One event\<close>

lemma mlfq_charge_members:
  assumes "length (levels M) = 3" "p \<in> set (concat (levels M))"
  shows "set (concat (levels (mlfq_charge p M))) \<subseteq> set (concat (levels M))"
proof -
  obtain a b c where l: "levels M = [a, b, c]" using three_levels [OF assms(1)] by blast
  have "set (remove1 p a) \<subseteq> set a" "set (remove1 p b) \<subseteq> set b" by (simp_all add: set_remove1_subset)
  then show ?thesis using assms(2) by (auto simp: mlfq_charge_def level_of_def l Let_def)
qed

lemma mlfq_update_members: "mlfq_rel s M \<Longrightarrow> set (concat (levels (mlfq_update M))) \<subseteq> set (concat (levels M))"
  using mlfq_charge_members [of M] by (auto simp: mlfq_update_def mlfq_rel_def queues_rel_def Let_def simp del: set_concat split: option.splits)

lemma sys_rel_scheduled:
  assumes "sys_rel K m r s A" "mlfq_rel t (mlfq_update (sys_sched A))" "sched_only s t"
  shows "sys_rel K m r t (schedule A)"
proof -
  note d = sys_relD [OF assms(1)]
  note f = sched_only_shell [OF assms(3)]
  have "\<forall>p \<in> set (concat (levels (mlfq_update (sys_sched A)))). sys_procs A p \<noteq> None"
    using d(9) mlfq_update_members [OF d(8)] by blast
  moreover have "procs_rel t (sys_procs A)" "holds K m t" using procs_rel_kept [OF d(6,2) f(10,3)] holds_kept [OF d(10) f(10)] by simp_all
  ultimately show ?thesis
    using assms(1,2) by (simp add: sys_rel_def schedule_def shell_ok_def dir_rel_def f del: set_concat)
qed

definition key_done :: "u32 set \<Rightarrow> memory \<Rightarrow> u32 \<times> u32 \<times> u32 \<Rightarrow> system \<Rightarrow> 'z shell_state_scheme \<Rightarrow> 'z shell_state_scheme \<Rightarrow> bool" where
  "key_done K m r B s t \<longleftrightarrow> sys_rel K m r t B \<and> pending (sys_line B) t \<and> stream StdInput t = [] \<and> shell_state.more t = shell_state.more s"

lemma wp_shell_enter_line:
  assumes "sys_rel K m r s A" "pending (sys_line A) s" "stream StdInput s = [0xA]" "line_allowed (sys_line A) A"
  shows "wp shell_update (\<lambda>_. key_done K m r ((run_line (sys_line A) A)\<lparr>sys_line := []\<rparr>) s) s"
proof -
  let ?l = "sys_line A"
  let ?B = "(run_line ?l A)\<lparr>sys_line := []\<rparr>"
  have p: "command_buffer_ptr s = length ?l" "take (length ?l) (command_buffer s) = ?l" "length ?l \<le> 1023" "0 \<notin> set ?l"
    using assms(2) by (simp_all add: pending_def)
  note ok = sys_relD(1) [OF assms(1)]
  have B: "length (command_buffer s) = 1024" using ok by (simp add: shell_ok_def)
  have a: "0x27 \<notin> set ?l" "length (line_arguments ?l) \<le> 50" using assms(4) by (simp_all add: line_allowed_def)
  have in_s: "stream StdInput s = 0xA # []" "command_buffer_ptr s < 1024" using assms(3) p(1,3) by simp_all
  have fuel: "(4096 :: nat) = Suc (Suc 4094)" by simp
  show ?thesis
    unfolding shell_update_def fuel
  proof (rule wp_shell_enter [OF ok in_s])
    fix t
    assume t: "shell_ok t" "shell_same s t" "stream StdInput t = []" "command_buffer t = (command_buffer s)[command_buffer_ptr s := 0]"
    have "command_buffer t = ?l @ 0 # drop (Suc (length ?l)) (command_buffer s)"
      using t(4) p(1-3) B by (simp add: upd_conv_take_nth_drop)
    then show "wp shell_execute_command (\<lambda>_. wp (shell_loop (Suc 4094)) (\<lambda>_. key_done K m r ?B s)) t"
    proof (rule wp_execute [OF t(1) _ p(4) a, where R = "\<lambda>u. sys_rel K m r u (run_line ?l A) \<and> shell_state.more u = shell_state.more s"])
      fix argv u
      assume u: "map c_string argv = line_arguments ?l" "\<forall>a \<in> set argv. 0 \<in> set a" "shell_ok u" "shell_same t u" "stream StdInput u = stream StdInput t"
      note same = shell_same_trans [OF t(2) u(4)]
      show "wp (run_command shell_cmds argv) (\<lambda>_ v. shell_ok v \<and> stream StdInput v = stream StdInput t
          \<and> sys_rel K m r v (run_line ?l A) \<and> shell_state.more v = shell_state.more s) u"
        by (rule wp_mono [OF wp_run_line [OF u(1,2) assms(4) sys_rel_same [OF assms(1) same u(3)]]])
          (use u(5) same in \<open>auto simp: run_done_def shell_same_def dest: sys_relD(1)\<close>)
    next
      fix u v
      assume "sys_rel K m r u (run_line ?l A) \<and> shell_state.more u = shell_state.more s" "shell_ok v" "shell_same u v"
      then show "sys_rel K m r v (run_line ?l A) \<and> shell_state.more v = shell_state.more s"
        using sys_rel_same [of K m r u _ v] by (simp add: shell_same_def)
    next
      fix u
      assume "shell_ok u" "stream StdInput u = stream StdInput t" "command_buffer_ptr u = 0"
        "sys_rel K m r u (run_line ?l A) \<and> shell_state.more u = shell_state.more s"
      then show "wp (shell_loop (Suc 4094)) (\<lambda>_. key_done K m r ?B s) u"
        using t(3) by (intro wp_shell_idle) (simp_all add: key_done_def pending_def)
    qed
  qed
qed

lemma wp_shell_key:
  assumes "sys_rel K m r s A" "pending (sys_line A) s" "stream StdInput s = (if c = 0 then [] else [c])" "shell_allowed c A"
  shows "wp shell_update (\<lambda>_. key_done K m r (shell_char c A) s) s"
proof -
  let ?l = "sys_line A"
  have p: "command_buffer_ptr s = length ?l" "take (length ?l) (command_buffer s) = ?l" "length ?l \<le> 1023" "0 \<notin> set ?l" "0xA \<notin> set ?l"
    using assms(2) by (simp_all add: pending_def)
  note ok = sys_relD(1) [OF assms(1)]
  have B: "length (command_buffer s) = 1024" using ok by (simp add: shell_ok_def)
  consider "c = 0" | "c = 0xA" | "c \<noteq> 0" "c \<noteq> 0xA" by blast
  then show ?thesis
  proof cases
    case 1
    then show ?thesis
      using wp_shell_idle [of s _ 4095] ok assms(1-3) by (simp add: shell_update_def shell_char_def key_done_def)
  next
    case 2
    then show ?thesis using wp_shell_enter_line [OF assms(1,2)] assms(3,4) by (simp add: shell_char_def shell_allowed_def)
  next
    case 3
    have l: "length ?l < 1023" using 3 assms(4) by (simp add: shell_allowed_def)
    have in_s: "stream StdInput s = [c] @ []" "0 \<notin> set [c]" "0xA \<notin> set [c]" "command_buffer_ptr s + length [c] \<le> 1024"
      using 3 assms(3) p(1) l by auto
    have fuel: "(4096 :: nat) = length [c] + Suc 4094" by simp
    show ?thesis
      unfolding shell_update_def fuel
    proof (rule wp_shell_chars [OF ok in_s])
      fix t
      assume t: "shell_ok t" "shell_same s t" "stream StdInput t = []"
        "command_buffer t = take (command_buffer_ptr s) (command_buffer s) @ [c] @ drop (command_buffer_ptr s + length [c]) (command_buffer s)"
        "command_buffer_ptr t = command_buffer_ptr s + length [c]"
      then show "wp (shell_loop (Suc 4094)) (\<lambda>_. key_done K m r (shell_char c A) s) t"
        using p l 3 B sys_rel_same [OF assms(1) t(2,1)]
        by (intro wp_shell_idle) (simp_all add: key_done_def shell_char_def pending_def shell_same_def)
    qed
  qed
qed

lemma wp_kernel_update:
  assumes "sys_rel K m r s A" "pending (sys_line A) s" "stream StdInput s = (if c = 0 then [] else [c])" "shell_allowed c A"
    "unat (pit_interrupt_count s) = sys_ticks A"
  shows "wp kernel_update (\<lambda>_ t. kernel_rel K m r t (schedule (shell_char c A))) s"
  unfolding kernel_update_def stdlib_update_def wp_kseq
proof (rule wp_flushstdio)
  note ok = sys_relD(2) [OF assms(1)]
  show "stdio_ok s" "is_init (std_output_buf s)" using fat16_okD [OF ok] by simp_all
  fix t
  assume "console_frame s t"
  note t = shell_frame [OF ok this]
  have t': "shell_ok t" "pending (sys_line A) t" "stream StdInput t = (if c = 0 then [] else [c])"
    using t(1,3-6) sys_relD(1) [OF assms(1)] assms(2,3) by (simp_all add: shell_ok_def pending_def)
  show "wp shell_update (\<lambda>_. wp sched_update (\<lambda>_ u. kernel_rel K m r u (schedule (shell_char c A)))) t"
  proof (rule wp_mono [OF wp_shell_key [OF sys_rel_same [OF assms(1) t(2) t'(1)] t'(2,3) assms(4)]])
    fix x u
    assume u: "key_done K m r (shell_char c A) t u"
    then have rel: "sys_rel K m r u (shell_char c A)" by (simp add: key_done_def)
    show "wp sched_update (\<lambda>_ u. kernel_rel K m r u (schedule (shell_char c A))) u"
    proof (rule wp_mono [OF update_refines [OF sys_relD(8) [OF rel]]])
      fix y v
      assume v: "mlfq_rel v (mlfq_update (sys_sched (shell_char c A))) \<and> sched_only u v"
      note f = sched_only_shell [OF conjunct2 [OF v]]
      have "shell_state.more v = shell_state.more s" using f(9) u t(2) by (simp add: key_done_def shell_same_def)
      then have "pit_interrupt_count v = pit_interrupt_count s" by (cases v, cases s, simp)
      moreover have "sys_ticks (shell_char c A) = sys_ticks A"
        by (simp add: shell_char_def run_line_def start_program_def split: list.splits option.splits)
      ultimately show "kernel_rel K m r v (schedule (shell_char c A))"
        using u v f assms(5) sys_rel_scheduled [OF rel] by (simp add: kernel_rel_def key_done_def pending_def schedule_def)
    qed
  qed
qed

text \<open>The parts of the kernel around the shell.\<close>

lemma sys_rel_congr:
  fixes s t :: "'z shell_state_scheme"
  assumes "sys_rel K m r s A" "shell_state.truncate t = shell_state.truncate s"
  shows "sys_rel K m r t A" "stream StdInput t = stream StdInput s" "pending l t = pending l s"
proof -
  have f: "fat16_state.truncate t = fat16_state.truncate s" "stdio_state.truncate t = stdio_state.truncate s"
    "std_input_buf t = std_input_buf s" "processes t = processes s" "command_buffer t = command_buffer s"
    "working_buffer t = working_buffer s" "command_buffer_ptr t = command_buffer_ptr s" "mem t = mem s" "paging t = paging s"
    "proc_list t = proc_list s" "proc_priority_list t = proc_priority_list s" "current_process t = current_process s"
    using assms(2) by (simp_all add: shell_state.truncate_def fat16_state.truncate_def stdio_state.truncate_def paging_def)
  have pg: "pmem_pages t = pmem_pages s" "used_pages t = used_pages s" using stdio_cong(2,3) [OF f(2)] by simp_all
  have "mlfq_rel t M = mlfq_rel s M" for M by (simp add: mlfq_rel_def queues_rel_def f)
  moreover have k: "kept {} s t" by (simp add: kept_def fat16_cong(3) [OF f(1)] f)
  note d = sys_relD [OF assms(1)]
  have "procs_rel t (sys_procs A)" "holds K m t" using procs_rel_kept [OF d(6,2) k f(4)] holds_kept [OF d(10) k] by simp_all
  ultimately show "sys_rel K m r t A"
    using assms(1) fat16_cong(1,2) [OF f(1)] by (simp add: sys_rel_def shell_ok_def dir_rel_def f pg)
  show "stream StdInput t = stream StdInput s" by (rule stdio_cong(6) [OF f(2)])
  show "pending l t = pending l s" by (simp add: pending_def f)
qed

lemma kernel_rel_ext:
  fixes s t :: "'z kernel_state_scheme"
  assumes "kernel_rel K m r s A" "shell_state.truncate t = shell_state.truncate s" "unat (pit_interrupt_count t) = n"
  shows "kernel_rel K m r t (A\<lparr>sys_ticks := n\<rparr>)"
  using assms sys_rel_congr [OF _ assms(2), of K m r A] by (simp add: kernel_rel_def)

lemma kernel_rel_same:
  assumes "kernel_rel K m r s A" "fat16_ok t" "shell_same s t" "stream StdInput t = stream StdInput s" "command_buffer t = command_buffer s"
    "working_buffer t = working_buffer s" "command_buffer_ptr t = command_buffer_ptr s"
  shows "kernel_rel K m r t A"
proof -
  have rel: "sys_rel K m r s A" using assms(1) by (simp add: kernel_rel_def)
  then have ok: "shell_ok t" using sys_relD(1) [OF rel] assms(2,5,6) by (simp add: shell_ok_def)
  have "pit_interrupt_count t = pit_interrupt_count s" using assms(3) by (cases t, cases s, simp add: shell_same_def)
  then show ?thesis using assms(1,4,5,7) sys_rel_same [OF rel assms(3) ok] by (simp add: kernel_rel_def pending_def)
qed

lemma kernel_relD:
  assumes "kernel_rel K m r s A"
  shows "sys_rel K m r s A" "fat16_ok s" "stream StdInput s = []" "pending (sys_line A) s" "unat (pit_interrupt_count s) = sys_ticks A"
    "serial_responsive (hw_byte s) PORT_COM1"
  using assms by (simp_all add: kernel_rel_def sys_rel_def shell_ok_def fat16_ok_def)

lemma kernel_rel_log:
  assumes "kernel_rel K m r s A"
  shows "kernel_rel K m r (s\<lparr>io_log := l\<rparr>) A"
proof -
  have "console_frame s (s\<lparr>io_log := l\<rparr>)" using display_frame [where s = s and v = "vidmem s" and l = l] by simp
  note f = shell_frame [OF kernel_relD(2) [OF assms] this]
  show ?thesis by (rule kernel_rel_same [OF assms f(1,2,6,3,4,5)])
qed

lemma wp_rel_update:
  assumes "kernel_rel K m r s A"
  shows "wp kernel_update (\<lambda>_ t. kernel_rel K m r t (schedule A)) s"
  using wp_kernel_update [of K m r s A 0] kernel_relD [OF assms] by (simp add: shell_allowed_def shell_char_def)

lemma kernel_rel_device:
  assumes "kernel_rel K m r s A" "serial_responsive h PORT_COM1"
  shows "kernel_rel K m r (s\<lparr>hw_byte := h, int_enabled := e\<rparr>) A"
  using device_frame [OF kernel_relD(2) [OF assms(1)] assms(2), of e] by (intro kernel_rel_same [OF assms(1)]) simp_all

lemma kernel_rel_flag:
  assumes "kernel_rel K m r s A"
  shows "kernel_rel K m r (s\<lparr>int_enabled := e\<rparr>) A"
  using kernel_rel_device [OF assms kernel_relD(6) [OF assms], of e] by simp

lemma wp_rel_handler:
  fixes s :: "'z kernel_state_scheme"
  assumes "kernel_rel K m r s A"
    and "\<And>t :: 'z kernel_state_scheme. kernel_rel K m r t A \<Longrightarrow> hw_byte t = hw_byte s \<Longrightarrow> wp (dispatch_interrupt cr2 n) (\<lambda>_ u. kernel_rel K m r u B) t"
  shows "wp (common_interrupt_handler cr2 n) (\<lambda>_ u. kernel_rel K m r u B) s"
proof -
  let ?s = "s\<lparr>int_enabled := False\<rparr>"
  let ?t = "?s\<lparr>interrupt_num_as_str := map (\<lambda>d. of_nat d + 0x30) [n div 100, n mod 100 div 10, n mod 100 mod 10]\<rparr>"
  have s: "kernel_rel K m r ?s A" by (rule kernel_rel_flag [OF assms(1)])
  have "kernel_rel K m r ?t (A\<lparr>sys_ticks := sys_ticks A\<rparr>)"
    by (rule kernel_rel_ext [OF s]) (use s in \<open>simp_all add: shell_state.truncate_def kernel_rel_def\<close>)
  then have "wp (dispatch_interrupt cr2 n) (\<lambda>_ u. kernel_rel K m r u B) ?t" by (intro assms(2)) simp_all
  then have "wp (dispatch_interrupt cr2 n) (\<lambda>_. wp (kmod (\<lambda>u. u\<lparr>int_enabled := int_enabled s\<rparr>)) (\<lambda>_ u. kernel_rel K m r u B)) ?t"
    by (rule wp_mono) (simp add: kernel_rel_flag)
  then show ?thesis by (simp add: common_interrupt_handler_def store_interrupt_number_def)
qed

lemma wp_tick:
  assumes "kernel_rel K m r s A" "sys_ticks A < 0x7FFFFFFF"
  shows "wp (deliver Tick) (\<lambda>_ t. kernel_rel K m r t (system_step Tick A)) s"
proof -
  have step: "wp (kseq pit_interrupt_handler kernel_update) (\<lambda>_ t. kernel_rel K m r t (system_step Tick A)) t" if t: "kernel_rel K m r t A" for t
  proof -
    let ?n = "pit_interrupt_count t"
    have n: "unat ?n = sys_ticks A" using t by (simp add: kernel_rel_def)
    then have ne: "?n \<noteq> 0x7FFFFFFF" using assms(2) by auto
    have "unat (?n + 1) = Suc (sys_ticks A)" using n assms(2) by (simp add: unat_word_ariths)
    then have "kernel_rel K m r (t\<lparr>pit_interrupt_count := ?n + 1\<rparr>) (A\<lparr>sys_ticks := Suc (sys_ticks A)\<rparr>)"
      by (intro kernel_rel_ext [OF t]) (simp_all add: shell_state.truncate_def)
    from wp_rel_update [OF kernel_rel_log [OF this, of "Out_b 0x20 0x20 # io_log t"]]
    show ?thesis using ne by (simp add: pit_interrupt_handler_def io_byte_out_def)
  qed
  show ?thesis
    unfolding deliver.simps by (rule wp_rel_handler [OF assms(1)], unfold dispatch_simps) (rule step)
qed

text \<open>The first key makes the input buffer.\<close>

lemma kernel_rel_input_init:
  assumes "kernel_rel K m r s A" "\<not> sys_input A" "2 \<le> sys_pages A"
  obtains t where "kernel_rel K m r t (input_ready A)" "\<And>Q. wp (stdlib_put_stdio_input_char x) Q s = wp (stdlib_put_stdio_input_char x) Q t"
proof -
  note k = kernel_relD [OF assms(1)]
  note d = sys_relD [OF k(1)]
  have s: "\<not> is_init (std_input_buf s)" "2 \<le> card (pmem_pages s - used_pages s)" using assms(2,3) d(3,5) by simp_all
  obtain p c b mm t where t: "t = s\<lparr>pmem_curr_alloc_record := c, mem := mm, std_input_buf := b\<rparr>" and i: "io_buffer_init StdInput s = Ok () t"
    "is_init b" "p \<in> pmem_pages s - used_pages s" "fat16_ok t" "disk t = disk s" "stream StdInput t = []" "pmem_pages t = pmem_pages s"
    "used_pages t = insert p (used_pages s)" "kept {} s t"
    by (rule input_init [OF d(2) s]) blast
  have "pmem_pages s - insert p (used_pages s) = (pmem_pages s - used_pages s) - {p}" by auto
  then have "card (pmem_pages t - used_pages t) = sys_pages A - 1" using i(3,7,8) d(5) by (simp add: card_Diff_singleton)
  moreover have "procs_rel t (sys_procs A)" "holds K m t"
    using procs_rel_kept [OF d(6,2) i(9)] holds_kept [OF d(10) i(9)] by (simp_all add: t)
  ultimately have "sys_rel K m r t (input_ready A)"
    using d i(2,4,5,7) assms(2) by (simp add: t sys_rel_def input_ready_def shell_ok_def dir_rel_def paging_def mlfq_rel_def queues_rel_def del: set_concat)
  then have "kernel_rel K m r t (input_ready A)"
    using k i(6) assms(2) by (simp add: t kernel_rel_def pending_def input_ready_def)
  then show thesis by (rule that) (use wp_put_uninit [OF fat16_okD(2) [OF d(2)] i(1) [unfolded t] i(2)] in \<open>simp add: t\<close>)
qed

lemma wp_put_key:
  assumes "kernel_rel K m r s A" "sys_input A" "shell_allowed c A" "c \<noteq> 0"
  shows "wp (kseq (stdlib_put_stdio_input_char c) kernel_update) (\<lambda>_ t. kernel_rel K m r t (schedule (shell_char c A))) s"
proof -
  note k = kernel_relD [OF assms(1)]
  note d = sys_relD [OF k(1)]
  have i: "is_init (std_input_buf s)" using d(3) assms(2) by simp
  have "wp (stdlib_put_stdio_input_char c) (\<lambda>_. wp kernel_update (\<lambda>_ t. kernel_rel K m r t (schedule (shell_char c A)))) s"
  proof (rule wp_input_put [OF k(2) i assms(4)])
    show "length (stream StdInput s) < 4095" using k(3) by simp
    fix u
    assume u: "fat16_ok u" "shell_same s u" "stream StdInput u = stream StdInput s @ [c]" "command_buffer u = command_buffer s"
      "working_buffer u = working_buffer s" "command_buffer_ptr u = command_buffer_ptr s"
    have more: "pit_interrupt_count u = pit_interrupt_count s" using u(2) by (cases u, cases s, simp add: shell_same_def)
    have "shell_ok u" using d(1) u(1,4,5) by (simp add: shell_ok_def)
    from sys_rel_same [OF k(1) u(2) this]
    show "wp kernel_update (\<lambda>_ t. kernel_rel K m r t (schedule (shell_char c A))) u"
      by (rule wp_kernel_update) (use u k assms(3,4) more in \<open>simp_all add: pending_def\<close>)
  qed
  then show ?thesis by simp
qed

lemma wp_rel_key:
  assumes "kernel_rel K m r s A" "type_allowed (key_byte k) A" "\<And>l. hw_byte s l KBD_DATA_PORT = k"
  shows "wp (kseq keyboard_interrupt_handler kernel_update) (\<lambda>_ t. kernel_rel K m r t (system_step (Key k) A)) s"
proof -
  let ?c = "key_byte k"
  let ?t = "s\<lparr>io_log := Out_b PIC1 PIC_ACK # In_b KBD_DATA_PORT k # io_log s\<rparr>"
  have rel: "kernel_rel K m r ?t A" by (rule kernel_rel_log [OF assms(1)])
  have start: "wp keyboard_interrupt_handler Q s = wp (if ?c \<noteq> 0 then stdlib_put_stdio_input_char ?c else kret ()) Q ?t" for Q
    by (simp add: keyboard_interrupt_handler_def pic_acknowledge_def assms(3) Let_def scan_to_ascii_key)
  show ?thesis
  proof (cases "?c = 0")
    case True
    then show ?thesis using wp_rel_update [OF rel] by (simp add: start type_char_def)
  next
    case False
    have a: "sys_input A \<or> 2 \<le> sys_pages A" "shell_allowed ?c (input_ready A)" using assms(2) False by (simp_all add: type_allowed_def)
    obtain u where u: "kernel_rel K m r u (input_ready A)" "\<And>Q. wp (stdlib_put_stdio_input_char ?c) Q ?t = wp (stdlib_put_stdio_input_char ?c) Q u"
    proof (cases "sys_input A")
      case True
      then show ?thesis using rel that [of ?t] by (simp add: input_ready_def)
    next
      case new: False
      then show ?thesis using a(1) that kernel_rel_input_init [OF rel] by metis
    qed
    have "sys_input (input_ready A)" by (simp add: input_ready_def)
    from wp_put_key [OF u(1) this a(2) False] show ?thesis
      using False by (simp add: start type_char_def u(2))
  qed
qed

lemma wp_key:
  assumes "kernel_rel K m r s A" "type_allowed (key_byte k) A"
  shows "wp (deliver (Key k)) (\<lambda>_ t. kernel_rel K m r t (system_step (Key k) A)) s"
proof -
  let ?t = "s\<lparr>hw_byte := key_hw k (hw_byte s)\<rparr>"
  have "serial_responsive (key_hw k (hw_byte s)) PORT_COM1" using kernel_relD(6) [OF assms(1)] by (simp only: serial_key_hw)
  from kernel_rel_device [OF assms(1) this, of "int_enabled s"] have rel: "kernel_rel K m r ?t A" by simp
  have "wp (common_interrupt_handler 0 0x21) (\<lambda>_ t. kernel_rel K m r t (system_step (Key k) A)) ?t"
  proof (rule wp_rel_handler [OF rel], unfold dispatch_simps)
    fix u
    assume u: "kernel_rel K m r u A" "hw_byte u = hw_byte ?t"
    then have "\<And>l. hw_byte u l KBD_DATA_PORT = k" by (simp add: key_hw_def)
    then show "wp (kseq keyboard_interrupt_handler kernel_update) (\<lambda>_ t. kernel_rel K m r t (system_step (Key k) A)) u"
      by (rule wp_rel_key [OF u(1) assms(2)])
  qed
  then show ?thesis by (simp add: press_key_def key_hw_def)
qed

lemma wp_syscall:
  assumes "kernel_rel K m r s A"
  shows "wp (deliver Syscall) (\<lambda>_ t. kernel_rel K m r t (system_step Syscall A)) s"
  unfolding deliver.simps system_step.simps
  by (rule wp_rel_handler [OF assms], unfold dispatch_simps) (rule wp_rel_update)

interpretation kernel: simulation deliver system_step event_allowed "kernel_rel K m r"
proof
  fix s :: "'a kernel_state_scheme" and A x
  assume "kernel_rel K m r s A" "event_allowed x A"
  then show "wp (deliver x) (\<lambda>_ t. kernel_rel K m r t (system_step x A)) s"
    by (cases x) (auto simp del: deliver.simps system_step.simps intro: wp_tick wp_key wp_syscall)
qed

section \<open>The process table at the start\<close>

definition idle_only :: "nat \<Rightarrow> (bytes \<times> bytes) option" where
  "idle_only = (\<lambda>_. None)(0 := Some (cstr ''Idle'', []))"

definition start_system :: "directory \<Rightarrow> nat \<Rightarrow> bool \<Rightarrow> nat \<Rightarrow> system" where
  "start_system F pages i n = \<lparr>sys_line = [], sys_files = F, sys_procs = idle_only, sys_sched = no_processes,
     sys_pages = pages, sys_input = i, sys_ticks = n\<rparr>"

definition blank_table :: "process list \<Rightarrow> nat \<Rightarrow> bool" where
  "blank_table P i \<longleftrightarrow> length P = 64 \<and> (\<forall>j < 64. length (p_name (P ! j)) = 16)
     \<and> (\<forall>j < i. p_pid (P ! j) = of_nat j \<and> p_state (P ! j) = UNUSED \<and> process_memory_start (P ! j) = 0)"

lemma wp_blank_processes:
  assumes "blank_table (processes s) 0" "\<And>P. blank_table P 64 \<Longrightarrow> Q () (s\<lparr>processes := P\<rparr>)"
  shows "wp (kfor [0..<64] (\<lambda>i. upd_process i (\<lambda>p. p\<lparr>p_pid := of_nat i, p_state := UNUSED, process_memory_start := 0\<rparr>))) Q s"
proof -
  have "wp (kfor [0..<64] (\<lambda>i. upd_process i (\<lambda>p. p\<lparr>p_pid := of_nat i, p_state := UNUSED, process_memory_start := 0\<rparr>)))
      (\<lambda>_ t. \<exists>P. t = s\<lparr>processes := P\<rparr> \<and> blank_table P 64) s"
  proof (rule wp_kfor_upt)
    have "s = s\<lparr>processes := processes s\<rparr>" by simp
    then show "\<exists>P. s = s\<lparr>processes := P\<rparr> \<and> blank_table P 0" using assms(1) by blast
    fix i t
    assume i: "(i :: nat) < 64" and "\<exists>P. t = s\<lparr>processes := P\<rparr> \<and> blank_table P i"
    then obtain P where t: "t = s\<lparr>processes := P\<rparr>" and P: "blank_table P i" by blast
    have "blank_table (P[i := (P ! i)\<lparr>p_pid := of_nat i, p_state := UNUSED, process_memory_start := 0\<rparr>]) (Suc i)"
      using P i by (auto simp: blank_table_def nth_list_update less_Suc_eq)
    then show "wp (upd_process i (\<lambda>p. p\<lparr>p_pid := of_nat i, p_state := UNUSED, process_memory_start := 0\<rparr>))
        (\<lambda>_ t. \<exists>P. t = s\<lparr>processes := P\<rparr> \<and> blank_table P (Suc i)) t"
      using i unfolding upd_process_def t by simp blast
  qed simp
  then show ?thesis by (rule wp_mono) (use assms(2) in auto)
qed

lemma idle_procs:
  assumes "blank_table P 64" "private_page page t"
    "processes t = P[0 := (started (cstr ''Idle'' @ [0]) page (P ! 0))\<lparr>p_state := RUNNABLE\<rparr>]"
  shows "procs_rel t idle_only"
proof -
  have p: "length (p_name (P ! 0)) = 16" "p_pid (P ! 0) = 0" "length P = 64" using assms(1) by (simp_all add: blank_table_def)
  have idle: "c_string (cstr ''Idle'' @ [0]) = cstr ''Idle''" "length (cstr ''Idle'') = 4" by (simp_all add: c_string_def cstr_def)
  have "process_rel t 0 (processes t ! 0) (idle_only 0)"
    using p named_length [OF p(1)] named_short [OF p(1), of "cstr ''Idle'' @ [0]"] idle assms(2)
    by (simp add: assms(3) process_rel_def started_def idle_only_def)
  moreover have "process_rel t i (processes t ! i) (idle_only i)" if "0 < i" "i < 64" for i
    using assms(1) that by (simp add: assms(3) process_rel_def idle_only_def blank_table_def)
  ultimately have "process_rel t i (processes t ! i) (idle_only i)" if "i < 64" for i using that by (cases "i = 0") simp_all
  moreover have "{i. i < 64 \<and> idle_only i \<noteq> None} = {0}" by (auto simp: idle_only_def split: if_splits)
  ultimately show ?thesis using p(3) by (simp add: procs_rel_def assms(3))
qed

lemma wp_process_init:
  assumes "fat16_ok s" "blank_table (processes s) 0" "2 \<le> card (pmem_pages s - used_pages s)"
    and Q: "\<And>page u P. took {page} s u \<Longrightarrow> procs_rel (u\<lparr>processes := P\<rparr>) idle_only \<Longrightarrow> Q () (u\<lparr>processes := P\<rparr>)"
  shows "wp process_init Q s"
  unfolding process_init_def wp_kseq
proof (rule wp_blank_processes [OF assms(2)])
  fix P
  assume P: "blank_table P 64"
  let ?s = "s\<lparr>processes := P\<rparr>"
  have slot: "slot_ready 0 ?s" using P by (simp add: slot_ready_def blank_table_def)
  have ok: "pmem_ok ?s" using stdio_okD(1) [OF fat16_okD(2) [OF assms(1)]] by simp
  show "wp (process_init_process (cstr ''Idle'' @ [0]) 0) (\<lambda>_. wp (upd_process 0 (\<lambda>p. p\<lparr>p_state := RUNNABLE\<rparr>)) Q) ?s"
  proof (rule wp_init_process [OF ok slot])
    show "2 \<le> card (pmem_pages ?s - used_pages ?s)" using assms(3) by simp
    fix page t
    assume t: "took {page} ?s t"
    obtain c m where t': "t = ?s\<lparr>pmem_curr_alloc_record := c, mem := m\<rparr>" using tookD(5) [OF t] by (auto simp: pmem_same_def)
    let ?u = "s\<lparr>pmem_curr_alloc_record := c, mem := m\<rparr>"
    have eq: "?u = t\<lparr>processes := processes s\<rparr>" by (simp add: t')
    have "pmem_same s ?u" unfolding pmem_same_def by blast
    then have u: "took {page} s ?u" using t unfolding eq took_def by simp
    let ?P = "P[0 := (started (cstr ''Idle'' @ [0]) page (P ! 0))\<lparr>p_state := RUNNABLE\<rparr>]"
    have len: "length P = 64" using P by (simp add: blank_table_def)
    have "procs_rel (?u\<lparr>processes := ?P\<rparr>) idle_only"
      by (rule idle_procs [OF P, where page = page]) (use fat16_took(3) [OF u assms(1)] in simp_all)
    from Q [OF u this] show "wp (upd_process 0 (\<lambda>p. p\<lparr>p_state := RUNNABLE\<rparr>)) Q (t\<lparr>processes := (processes ?s)[0 := started (cstr ''Idle'' @ [0]) page (processes ?s ! 0)]\<rparr>)"
      using len by (simp add: upd_process_def t')
  qed simp
qed

lemma wp_process_init_sys:
  assumes "shell_ok s" "0 \<notin> pmem_pages s" "dir_rel s F" "mlfq_rel s no_processes" "holds K m s" "blank_table (processes s) 0"
    "2 \<le> card (pmem_pages s - used_pages s)"
    and Q: "\<And>t. sys_rel K m (paging s) t (start_system F (card (pmem_pages s - used_pages s) - 1) (is_init (std_input_buf s)) n) \<Longrightarrow>
      stream StdInput t = stream StdInput s \<Longrightarrow> command_buffer_ptr t = command_buffer_ptr s \<Longrightarrow> shell_state.more t = shell_state.more s \<Longrightarrow> Q () t"
  shows "wp process_init Q s"
proof -
  have ok: "fat16_ok s" using assms(1) by (simp add: shell_ok_def)
  show ?thesis
  proof (rule wp_process_init [OF ok assms(6,7)])
    fix page u P
    assume u: "took {page} s u" and procs: "procs_rel (u\<lparr>processes := P\<rparr>) idle_only"
    note k = fat16_took [OF u ok] and f = tookD [OF u]
    obtain c mm where u': "u = s\<lparr>pmem_curr_alloc_record := c, mem := mm\<rparr>" using f(5) by (auto simp: pmem_same_def)
    have "holds K m u" by (rule holds_kept [OF assms(5) kept_took [OF u ok]])
    then have h: "holds K m (u\<lparr>processes := P\<rparr>)" by (simp add: holds_def)
    have pg: "page \<in> pmem_pages s - used_pages s" "pmem_pages u = pmem_pages s" "used_pages u = insert page (used_pages s)" using f by auto
    have "pmem_pages s - insert page (used_pages s) = (pmem_pages s - used_pages s) - {page}" by auto
    then have card: "card (pmem_pages u - used_pages u) = card (pmem_pages s - used_pages s) - 1" using pg by (simp add: card_Diff_singleton)
    have "stream StdInput (u\<lparr>processes := P\<rparr>) = stream StdInput u" by (simp add: stream_def)
    then have st: "stream StdInput (u\<lparr>processes := P\<rparr>) = stream StdInput s" using took_stdio(2) [OF u fat16_okD(2) [OF ok], of StdInput] by simp
    have "sys_rel K m (paging s) (u\<lparr>processes := P\<rparr>) (start_system F (card (pmem_pages s - used_pages s) - 1) (is_init (std_input_buf s)) n)"
      unfolding sys_rel_def
      using procs h card k(1,2) assms(1-4) pg(2)
      by (simp add: start_system_def shell_ok_def dir_rel_def no_processes_def) (simp add: u' paging_def mlfq_rel_def queues_rel_def)
    then show "Q () (u\<lparr>processes := P\<rparr>)" by (rule Q [OF _ st]) (simp_all add: u')
  qed
qed

section \<open>Properties\<close>

text \<open>C4: the running kernel refines the system a user sees. For every sequence of timer ticks, key
  presses and system calls the interrupt handlers return, the command buffer holds the line as typed,
  a \<open>write\<close> command that is entered makes its file, an \<open>execbg\<close> command starts its program - with its
  name and its code in a page of its own, at the front of the top queue -, and no other line changes
  files or programs (\<open>read\<close> is not among the lines); each event makes exactly one step of the multi-level
  feedback queue, the ticks are counted, no input is left over, only the input buffer and the programs
  take pages, and the private pages of others and the paging registers stay as they are.\<close>

theorem kernel_refines_system:
  assumes "kernel_rel K m r s A" "admissible event_allowed system_step events A"
  shows "wp (run_ops deliver events) (\<lambda>_ t. kernel_rel K m r t (fold system_step events A)) s"
  using assms by (rule kernel.run_simulates)

lemma above_kernel:
  fixes s t :: "'z kernel_state_scheme"
  assumes "fat16_state.more t = fat16_state.more s"
  shows "pit_interrupt_count t = pit_interrupt_count s"
  using assms by (cases s; cases t; simp)

lemma kernel_machine_facts:
  "fat16_ready kernel_machine" "mlfq_rel kernel_machine no_processes" "stream StdInput kernel_machine = []" "is_init (std_input_buf kernel_machine)"
  "0 \<notin> pmem_pages kernel_machine" "card (pmem_pages kernel_machine - used_pages kernel_machine) = 2046" "blank_table (processes kernel_machine) 0"
  "command_buffer_ptr kernel_machine = 0" "length (command_buffer kernel_machine) = 1024" "length (working_buffer kernel_machine) = 1024"
proof -
  let ?m = "typed_machine []"
  have m: "fat16_ready ?m" "stream StdInput ?m = []" "mlfq_rel ?m no_processes" "command_buffer_ptr ?m = 0"
    "length (command_buffer ?m) = 1024" "length (working_buffer ?m) = 1024" "0 \<notin> pmem_pages ?m"
    using typed_machine_ok [of "[]"] by simp_all
  have f: "stdio_state.truncate kernel_machine = stdio_state.truncate ?m" "ramdisk_block_size kernel_machine = ramdisk_block_size ?m"
    "ramdisk_block_pointers kernel_machine = ramdisk_block_pointers ?m" "ramdisk_fat16_bootrecord kernel_machine = ramdisk_fat16_bootrecord ?m"
    "std_output_buf kernel_machine = std_output_buf ?m" "std_input_buf kernel_machine = std_input_buf ?m" "hw_byte kernel_machine = hw_byte ?m"
    "processes kernel_machine = processes ?m" "proc_list kernel_machine = proc_list ?m" "proc_priority_list kernel_machine = proc_priority_list ?m"
    "current_process kernel_machine = current_process ?m" "command_buffer kernel_machine = command_buffer ?m"
    "working_buffer kernel_machine = working_buffer ?m" "command_buffer_ptr kernel_machine = command_buffer_ptr ?m"
    by (simp_all add: kernel_machine_def shell_state.extend_def stdio_state.truncate_def)
  show "fat16_ready kernel_machine"
    using m(1) by (simp add: fat16_ready_def boot_ok_def stdio_cong [OF f(1)] f)
  show "mlfq_rel kernel_machine no_processes" using m(3) by (simp add: mlfq_rel_def queues_rel_def f)
  show "stream StdInput kernel_machine = []" "0 \<notin> pmem_pages kernel_machine" "card (pmem_pages kernel_machine - used_pages kernel_machine) = 2046"
    using m(2,7) typed_machine_pages(4) [of "[]"] by (simp_all add: stdio_cong [OF f(1)])
  show "is_init (std_input_buf kernel_machine)" by (simp add: f typed_machine_defs)
  show "blank_table (processes kernel_machine) 0"
    using typed_machine_printable [of "[]"] by (simp add: blank_table_def f printable_def)
  show "command_buffer_ptr kernel_machine = 0" "length (command_buffer kernel_machine) = 1024" "length (working_buffer kernel_machine) = 1024"
    using m(4-6) f by simp_all
qed

lemma kernel_machine_start:
  "wp (kseq ramdisk_fat16_init process_init) (\<lambda>_ t. \<exists>m r. kernel_rel {} m r t (start_system [] 1020 True 0)) kernel_machine"
  unfolding wp_kseq
proof (rule wp_mono [OF wp_fat16_init_frame [OF kernel_machine_facts(1)]])
  note m = kernel_machine_facts
  fix x s
  assume s: "fat16_ok s \<and> formatted (disk s) \<and> fs_created kernel_machine s"
  then have more: "fat16_state.more s = fat16_state.more kernel_machine" by (simp add: fs_created_def)
  have card: "card (pmem_pages s - used_pages s) = 1021" and in0: "0 \<notin> pmem_pages s" "is_init (std_input_buf s)" "stream StdInput s = []"
    using s m unfolding fs_created_def by auto
  have up: "shell_ok s" "mlfq_rel s no_processes" "blank_table (processes s) 0" "command_buffer_ptr s = 0"
    using s m above_shell [OF more] above_files [OF more] by (simp_all add: shell_ok_def)
  have ticks: "pit_interrupt_count s = 0" using above_kernel [OF more] by (simp add: kernel_machine_def shell_state.extend_def)
  have dir: "dir_rel s []" using s fat16_okD(5) [of s] formatted_dir [of "disk s"] by (simp add: dir_rel_def)
  have none: "holds {} (mem s) s" by (simp add: holds_def)
  have more_ticks: "pit_interrupt_count t = 0" if "shell_state.more t = shell_state.more s" for t :: kernel_state
    using that ticks by (cases t, cases s, simp)
  show "wp process_init (\<lambda>_ t. \<exists>m r. kernel_rel {} m r t (start_system [] 1020 True 0)) s"
    by (rule wp_process_init_sys [OF up(1) in0(1) dir up(2) none up(3), where n = 0], (use card in simp))
      (intro exI [of _ "mem s"] exI [of _ "paging s"], use card in0 up(4) more_ticks in \<open>simp add: kernel_rel_def start_system_def pending_def\<close>)
qed

text \<open>
  The user enters \<open>ls\<close>, \<open>write r hi\<close> and \<open>execbg r\<close>, with a key release, a tick and a system call in between.
\<close>

definition typed_session :: "event list" where
  "typed_session = [Key 0x26, Key 0x1F, Key 0x1C, Key 0x11, Key 0x13, Tick, Key 0x91, Key 0x17, Key 0x14, Key 0x12, Key 0x39, Key 0x13, Syscall,
     Key 0x39, Key 0x23, Key 0x17, Key 0x1C, Key 0x12, Key 0x2D, Key 0x12, Key 0x2E, Key 0x30, Key 0x22, Key 0x39, Key 0x13, Key 0x1C]"

theorem kernel_refines_system_witness:
  "wp (kseq (kseq ramdisk_fat16_init process_init) (run_ops deliver typed_session))
    (\<lambda>_ t. \<exists>m r. kernel_rel {} m r t \<lparr>sys_line = [], sys_files = [(ramdisk_fat16_filename_to_native (cstr ''r''), cstr ''hi'')],
       sys_procs = idle_only(1 := Some (cstr ''r'', cstr ''hi'')), sys_sched = mlfq_update (mlfq_add 1 no_processes),
       sys_pages = 1019, sys_input = True, sys_ticks = 1\<rparr>) kernel_machine" (is "wp _ (\<lambda>_ t. \<exists>m r. kernel_rel {} m r t ?A) _")
proof -
  have upd: "mlfq_update no_processes = no_processes" by (simp add: mlfq_update_def no_processes_def top_process_def)
  have keys: "key_byte 0x11 = 0x77" "key_byte 0x13 = 0x72" "key_byte 0x91 = 0" "key_byte 0x17 = 0x69"
    "key_byte 0x14 = 0x74" "key_byte 0x12 = 0x65" "key_byte 0x39 = 0x20" "key_byte 0x23 = 0x68"
    "key_byte 0x1C = 0xA" "key_byte 0x26 = 0x6C" "key_byte 0x1F = 0x73" "key_byte 0x2D = 0x78"
    "key_byte 0x2E = 0x63" "key_byte 0x30 = 0x62" "key_byte 0x22 = 0x67" by code_simp+
  have line: "line_arguments [0x77, 0x72, 0x69, 0x74, 0x65, 0x20, 0x72, 0x20, 0x68, 0x69]
      = [[0x77, 0x72, 0x69, 0x74, 0x65], [0x72], [0x68, 0x69]]" "line_arguments [0x6C, 0x73] = [[0x6C, 0x73]]"
    "line_arguments [0x65, 0x78, 0x65, 0x63, 0x62, 0x67, 0x20, 0x72] = [[0x65, 0x78, 0x65, 0x63, 0x62, 0x67], [0x72]]" by code_simp+
  have find: "dir_lookup [0x72] [] = None"
    "dir_lookup [0x72] [(ramdisk_fat16_filename_to_native [0x72], [0x68, 0x69])] = Some (ramdisk_fat16_filename_to_native [0x72], [0x68, 0x69])"
    by (simp_all add: dir_lookup_def answers_def)
  have slot: "free_slot idle_only = Some 1" unfolding free_slot_def idle_only_def by (subst upt_conv_Cons) simp_all
  note step = typed_session_def start_system_def keys type_allowed_def type_char_def shell_allowed_def shell_char_def input_ready_def schedule_def
    line_allowed_def run_line_def line find slot start_program_def upd cstr_def
  have adm: "admissible event_allowed system_step typed_session (start_system [] 1020 True 0)" by (simp add: step)
  have res: "fold system_step typed_session (start_system [] 1020 True 0) = ?A" by (simp add: step)
  show ?thesis
    unfolding wp_kseq [of "kseq _ _"]
  proof (rule wp_mono [OF kernel_machine_start])
    fix x and s :: kernel_state
    assume "\<exists>m r. kernel_rel {} m r s (start_system [] 1020 True 0)"
    then obtain m r where "kernel_rel {} m r s (start_system [] 1020 True 0)" by blast
    from kernel_refines_system [OF this adm] show "wp (run_ops deliver typed_session) (\<lambda>_ t. \<exists>m r. kernel_rel {} m r t ?A) s"
      unfolding res by (rule wp_mono) blast
  qed
qed

end
