(* ===== verification/Boot_Late.thy ===== *)
theory Boot_Late
  imports System
begin

text \<open>
  The end of \<open>kernel_init\<close>: from a machine with memory and without a disk to the first state of the abstract
  system, with the file system made, the test program stored and the process table set up.
\<close>

section \<open>From the file system to the shell\<close>

text \<open>A kernel with a file system, before the process table is set up.\<close>

definition disk_up :: "u32 set \<Rightarrow> memory \<Rightarrow> u32 \<times> u32 \<times> u32 \<Rightarrow> directory \<Rightarrow> nat \<Rightarrow> 'y \<Rightarrow> ('y shell_state_scheme) \<Rightarrow> bool" where
  "disk_up K m r F pages M s \<longleftrightarrow> shell_ok s \<and> 0 \<notin> pmem_pages s \<and> dir_rel s F \<and> mlfq_rel s no_processes \<and> holds K m s
     \<and> blank_table (processes s) 0 \<and> paging s = r \<and> card (pmem_pages s - used_pages s) = pages \<and> \<not> is_init (std_input_buf s)
     \<and> command_buffer_ptr s = 0 \<and> shell_state.more s = M"

lemma disk_upD:
  assumes "disk_up K m r F pages M s"
  shows "shell_ok s" "fat16_ok s" "console_ok s" "0 \<notin> pmem_pages s" "dir_rel s F" "mlfq_rel s no_processes" "holds K m s" "blank_table (processes s) 0"
    "paging s = r" "card (pmem_pages s - used_pages s) = pages" "\<not> is_init (std_input_buf s)" "command_buffer_ptr s = 0" "shell_state.more s = M"
  using assms fat16_okD(4) by (auto simp: disk_up_def shell_ok_def)

lemma disk_up_frame:
  assumes "disk_up K m r F pages M s" "console_frame s t"
  shows "disk_up K m r F pages M t"
proof -
  note d = disk_upD [OF assms(1)]
  note f = shell_frame [OF d(2) assms(2)]
  have t: "disk t = disk s" "processes t = processes s" "kept {} s t" "shell_state.more t = shell_state.more s" "mlfq_rel t no_processes"
    "pmem_pages t = pmem_pages s" "used_pages t = used_pages s" "paging t = paging s" "is_init (std_input_buf t) = is_init (std_input_buf s)"
    using f(2) d(6) by (simp_all add: shell_same_def)
  show ?thesis
    using d f t holds_kept [OF d(7) t(3)] by (simp add: disk_up_def shell_ok_def dir_rel_def)
qed

lemma wp_up_print:
  assumes "disk_up K m r F pages M s" "render format args \<noteq> None" "\<And>t. disk_up K m r F pages M t \<Longrightarrow> Q () t"
  shows "wp (printf (cstr format) args) Q s"
  by (rule wp_printf_frame [OF disk_upD(3) [OF assms(1)] assms(2)]) (rule assms(3) [OF disk_up_frame [OF assms(1)]])

lemma disk_up_tss:
  assumes "disk_up K m r F pages M s"
  shows "disk_up K m r F pages M (s\<lparr>TSS := a\<rparr>)" "disk_up K m r F pages M (s\<lparr>gdt_tss := b\<rparr>)" "disk_up K m r F pages M (s\<lparr>task_register := c\<rparr>)"
proof -
  have up: "disk_up K m r F pages M t"
    if t: "fat16_state.truncate t = fat16_state.truncate s" "processes t = processes s" "command_buffer t = command_buffer s"
      "working_buffer t = working_buffer s" "command_buffer_ptr t = command_buffer_ptr s" "paging t = paging s"
      "proc_list t = proc_list s" "proc_priority_list t = proc_priority_list s" "current_process t = current_process s"
      "shell_state.more t = shell_state.more s" for t
  proof -
    have f: "stdio_state.truncate t = stdio_state.truncate s" "mem t = mem s" "std_input_buf t = std_input_buf s"
      using t(1) by (auto simp: fat16_state.truncate_def stdio_state.truncate_def)
    show ?thesis
      using assms t f fat16_cong [OF t(1)] stdio_cong(2,3) [OF f(1)]
      by (simp add: disk_up_def shell_ok_def dir_rel_def holds_def mlfq_rel_def queues_rel_def)
  qed
  show "disk_up K m r F pages M (s\<lparr>TSS := a\<rparr>)" "disk_up K m r F pages M (s\<lparr>gdt_tss := b\<rparr>)" "disk_up K m r F pages M (s\<lparr>task_register := c\<rparr>)"
    by (rule up; simp add: fat16_state.truncate_def paging_def)+
qed

lemma wp_up_tss:
  assumes "disk_up K m r F pages M s" "\<And>t. disk_up K m r F pages M t \<Longrightarrow> Q () t"
  shows "wp (load_tss a b c) Q s"
  unfolding load_tss_def Let_def wp_kseq wp_kbind wp_kget wp_kmod tss_flush_def
  apply (rule wp_up_print [OF assms(1)], simp)
  apply (rule wp_up_print, assumption, simp)
  apply (rule wp_up_print, erule disk_up_tss, simp)
  by (rule assms(2), (rule disk_up_tss)+, assumption)

text \<open>The file system is made and holds the test program.\<close>

definition disk_ready :: "u32 set \<Rightarrow> memory \<Rightarrow> u32 \<times> u32 \<times> u32 \<Rightarrow> nat \<Rightarrow> 'y \<Rightarrow> ('y shell_state_scheme) \<Rightarrow> bool" where
  "disk_ready K m r pages M s \<longleftrightarrow> fat16_ready s \<and> 0 \<notin> pmem_pages s \<and> mlfq_rel s no_processes
     \<and> (\<forall>p \<in> K. p \<in> used_pages s \<and> p \<noteq> b_addr (std_output_buf s) \<and> (\<forall>a. page_of a = p \<longrightarrow> mem s a = m a))
     \<and> blank_table (processes s) 0 \<and> paging s = r \<and> card (pmem_pages s - used_pages s) = pages \<and> \<not> is_init (std_input_buf s)
     \<and> command_buffer_ptr s = 0 \<and> shell_state.more s = M \<and> length (command_buffer s) = 1024 \<and> length (working_buffer s) = 1024"

lemma above_boot:
  fixes s t :: "'y shell_state_scheme"
  assumes "fat16_state.more t = fat16_state.more s"
  shows "paging t = paging s" "shell_state.more t = shell_state.more s"
  using assms by (cases s; cases t; simp add: paging_def)+

lemma wp_up_init:
  assumes "disk_ready K m r pages M s"
  shows "wp ramdisk_fat16_init (\<lambda>_. disk_up K m r [] (pages - 1025) M) s"
proof -
  have ready: "fat16_ready s" using assms by (simp add: disk_ready_def)
  show ?thesis
  proof (rule wp_mono [OF wp_fat16_init_frame [OF ready]])
    fix x t
    assume t: "fat16_ok t \<and> formatted (disk t) \<and> fs_created s t"
    then have c: "fat16_state.more t = fat16_state.more s" "pmem_pages t = pmem_pages s" "std_input_buf t = std_input_buf s"
      "used_pages t = used_pages s \<union> disk_pages t" "disk_pages t \<inter> used_pages s = {}" "b_addr (std_output_buf t) = b_addr (std_output_buf s)"
      "card (pmem_pages t - used_pages t) + 1025 = card (pmem_pages s - used_pages s)"
      and fr: "\<And>a. page_of a \<in> used_pages s \<Longrightarrow> page_of a \<noteq> b_addr (std_output_buf s) \<Longrightarrow> mem t a = mem s a"
      unfolding fs_created_def by blast+
    have in0: "\<not> is_init (std_input_buf s)" using assms by (simp add: disk_ready_def)
    have "private_page p t" if "p \<in> K" for p
      unfolding private_page_def
    proof (intro conjI allI impI)
      have p: "p \<in> used_pages s" "p \<noteq> b_addr (std_output_buf s)" using assms that by (simp_all add: disk_ready_def)
      then show "p \<in> used_pages t" "p \<notin> disk_pages t" using c(4,5) by auto
      fix i
      assume "is_init (std_buf i t)"
      then show "b_addr (std_buf i t) \<noteq> p" using p(2) c(3,6) in0 by (cases i) auto
    qed
    moreover have "mem t a = m a" if "page_of a \<in> K" for a
      using assms that fr [of a] by (simp add: disk_ready_def)
    ultimately have "holds K m t" by (simp add: holds_def)
    moreover have "dir_rel t []" using t fat16_okD(5) [of t] formatted_dir [of "disk t"] by (simp add: dir_rel_def)
    moreover have "card (pmem_pages t - used_pages t) = pages - 1025" using c(7) assms by (simp add: disk_ready_def)
    ultimately show "disk_up K m r [] (pages - 1025) M t"
      using assms t c(1-3) above_boot [OF c(1)] above_shell [OF c(1)] above_files [OF c(1)]
      by (simp add: disk_ready_def disk_up_def shell_ok_def)
  qed
qed

abbreviation "starting_files \<equiv> [(ramdisk_fat16_filename_to_native test_name, test_program)]"

lemma disk_up_files:
  assumes "disk_up K m r F pages M s" "fs_same s t" "dir_rel t G"
  shows "disk_up K m r G pages M t"
proof -
  note d = disk_upD [OF assms(1)]
  have f: "processes t = processes s" "is_init (std_input_buf t) = is_init (std_input_buf s)" "shell_state.more t = shell_state.more s"
    "proc_list t = proc_list s" "proc_priority_list t = proc_priority_list s" "current_process t = current_process s" "paging t = paging s"
    "command_buffer t = command_buffer s" "working_buffer t = working_buffer s" "command_buffer_ptr t = command_buffer_ptr s"
    using assms(2) by (auto simp: fs_same_def paging_def)
  show ?thesis
    using d assms(3) f fs_same_pages [OF assms(2)] holds_kept [OF d(7) kept_fs_same [OF d(2) assms(2)]]
    by (simp add: disk_up_def shell_ok_def dir_rel_def mlfq_rel_def queues_rel_def)
qed

lemma wp_up_load:
  assumes "disk_up K m r [] pages M s" "\<And>t. disk_up K m r starting_files pages M t \<Longrightarrow> Q 0 t"
  shows "wp fs_load_starting_files Q s"
proof -
  have n: "unat (of_nat (length test_program) :: u32) = 54" by (simp add: test_program_facts(1))
  have "wp (ramdisk_fat16_file_write test_name (Local test_program) (of_nat (length test_program))) (\<lambda>res t. res = 0 \<and> disk_up K m r starting_files pages M t) s"
    using wp_dir_write [OF disk_upD(5) [OF assms(1)], of "of_nat (length test_program)" test_program test_name] n disk_up_files [OF assms(1)]
    by (auto simp: test_program_facts(1) dir_lookup_def elim: wp_mono)
  then show ?thesis
    unfolding fs_load_starting_files_def wp_kbind
  proof (rule wp_mono)
    fix res t
    assume t: "res = 0 \<and> disk_up K m r starting_files pages M t"
    then have up: "disk_up K m r starting_files pages M t" by simp
    show "wp (kseq (if res \<noteq> 0 then panic ''Failed to write starting file test.bin!'' else kret ())
        (kseq (printf (cstr ''Loaded starting files to disk!\<newline>'') []) (kret 0))) Q t"
      using t by simp (rule wp_up_print [OF up], simp_all add: assms(2))
  qed
qed

text \<open>The process table, the scheduler and the prompt.\<close>

lemma wp_sched_init_sys:
  assumes "sys_rel K m r s A" "sys_sched A = no_processes" "\<And>t. console_frame s t \<Longrightarrow> Q () t"
  shows "wp sched_init Q s"
proof -
  note d = sys_relD [OF assms(1)]
  have len: "length (proc_priority_list s) = 3" and h: "\<And>i. i < 3 \<Longrightarrow> proc_priority_list s ! i = None"
    using d(8) assms(2) by (auto simp: mlfq_rel_def queues_rel_def no_processes_def less_3)
  then have "proc_priority_list s = [None, None, None]" using three_levels [of "proc_priority_list s"] by simp
  then have same: "set_head i None s = s" if "i < 3" for i using that by (auto simp: set_head_def less_3)
  have "kfor [0..<3] (\<lambda>i. kmod (set_head i None)) s = Ok () s"
    using same by (simp add: upt_rec kernel_defs)
  then have "wp sched_init Q s = wp (printf (cstr ''Initialized Process Scheduler\<newline>'') []) Q s"
    by (simp add: sched_init_def wp_kseq wp_def)
  then show ?thesis using wp_printf_frame [OF fat16_okD(4) [OF d(2)], of "''Initialized Process Scheduler\<newline>''" "[]"] assms(3) by simp
qed
lemma wp_tables:
  assumes "disk_up K m r F pages M s" "2 \<le> pages"
    and "\<And>t. sys_rel K m r t (start_system F (pages - 1) False n) \<Longrightarrow> stream StdInput t = [] \<Longrightarrow> command_buffer_ptr t = 0 \<Longrightarrow>
      shell_state.more t = M \<Longrightarrow> Q () t"
  shows "wp (kseq process_init (kseq process_run_tests (kseq sched_init (printf (cstr ''kernel init complete\<newline>'') [])))) Q s"
proof -
  note d = disk_upD [OF assms(1)]
  have st: "stream StdInput s = []" using d(11) by (simp add: stream_def)
  note init = wp_process_init_sys [OF d(1,4,5,6,7,8), where n = n]
  show ?thesis
    unfolding wp_kseq [of process_init]
  proof (rule init)
    show "2 \<le> card (pmem_pages s - used_pages s)" using assms(2) d(10) by simp
    let ?A = "start_system F (pages - 1) False n"
    fix t
    assume "sys_rel K m (paging s) t (start_system F (card (pmem_pages s - used_pages s) - 1) (is_init (std_input_buf s)) n)"
      "stream StdInput t = stream StdInput s" "command_buffer_ptr t = command_buffer_ptr s" "shell_state.more t = shell_state.more s"
    then have t: "sys_rel K m r t ?A" "stream StdInput t = []" "command_buffer_ptr t = 0" "shell_state.more t = M"
      using d(9-13) st by simp_all
    have fin: "Q () u" if "console_frame t u" for u
    proof -
      note f = shell_frame [OF sys_relD(2) [OF t(1)] that]
      have "shell_ok u" using sys_relD(1) [OF t(1)] f(1,3,4) by (simp add: shell_ok_def)
      from sys_rel_same [OF t(1) f(2) this] show ?thesis by (rule assms(3)) (use f t in \<open>simp_all add: shell_same_def\<close>)
    qed
    have cons: "console_ok t" "printable (processes t)"
      using fat16_okD(4) [OF sys_relD(2) [OF t(1)]] procs_rel_printable [OF sys_relD(6) [OF t(1)]] by simp_all
    have tests: "quiet t process_run_tests"
      unfolding process_run_tests_def by (intro quiet_kseq quiet_printf quiet_process_printlist cons) simp_all
    show "wp (kseq process_run_tests (kseq sched_init (printf (cstr ''kernel init complete\<newline>'') []))) Q t"
      unfolding wp_kseq
    proof (rule wp_mono [OF quietD [OF tests]])
      fix x u
      assume u: "console_frame t u"
      note f = shell_frame [OF sys_relD(2) [OF t(1)] u]
      have "shell_ok u" using sys_relD(1) [OF t(1)] f(1,3,4) by (simp add: shell_ok_def)
      from sys_rel_same [OF t(1) f(2) this] have rel: "sys_rel K m r u ?A" .
      show "wp sched_init (\<lambda>_. wp (printf (cstr ''kernel init complete\<newline>'') []) Q) u"
      proof (rule wp_sched_init_sys [OF rel])
        fix v
        assume "console_frame u v"
        then have v: "console_frame t v" by (rule console_frame_trans [OF u])
        show "wp (printf (cstr ''kernel init complete\<newline>'') []) Q v"
          using fin console_frame_trans [OF v] by (intro wp_printf_frame [OF console_ok_frame [OF cons(1) v]]) simp_all
      qed (simp add: start_system_def)
    qed
  qed
qed

text \<open>The end of \<open>kernel_init\<close>, from the file system on.\<close>

abbreviation (input) late_boot :: "u32 \<Rightarrow> u32 \<Rightarrow> u32 \<Rightarrow> ('z shell_state_scheme, unit) kM" where
  "late_boot a b c \<equiv> kseq ramdisk_fat16_init (kbind fs_load_starting_files (\<lambda>_. kseq malloc_run_tests (kseq kmemlist (kseq (load_tss a b c)
     (kseq process_init (kseq process_run_tests (kseq sched_init (printf (cstr ''kernel init complete\<newline>'') []))))))))"

lemma wp_late_boot:
  assumes "disk_ready K m r pages M s" "1027 \<le> pages"
    and "\<And>t. sys_rel K m r t (start_system starting_files (pages - 1026) False n) \<Longrightarrow> stream StdInput t = [] \<Longrightarrow> command_buffer_ptr t = 0 \<Longrightarrow>
      shell_state.more t = M \<Longrightarrow> Q () t"
  shows "wp (late_boot a b c) Q s"
  unfolding wp_kseq [of ramdisk_fat16_init]
proof (rule wp_mono [OF wp_up_init [OF assms(1)]])
  fix x t
  assume t: "disk_up K m r [] (pages - 1025) M t"
  have pg: "2 \<le> pages - 1025" "pages - 1025 - 1 = pages - 1026" using assms(2) by simp_all
  show "wp (kbind fs_load_starting_files (\<lambda>_. kseq malloc_run_tests (kseq kmemlist (kseq (load_tss a b c)
      (kseq process_init (kseq process_run_tests (kseq sched_init (printf (cstr ''kernel init complete\<newline>'') [])))))))) Q t"
    unfolding wp_kbind [of fs_load_starting_files]
  proof (rule wp_up_load [OF t])
    fix u
    assume u: "disk_up K m r starting_files (pages - 1025) M u"
    have tab: "wp (kseq process_init (kseq process_run_tests (kseq sched_init (printf (cstr ''kernel init complete\<newline>'') [])))) Q v"
      if "disk_up K m r starting_files (pages - 1025) M v" for v
      by (rule wp_tables [OF that pg(1)]) (use assms(3) pg(2) in simp_all)
    show "wp (kseq malloc_run_tests (kseq kmemlist (kseq (load_tss a b c)
        (kseq process_init (kseq process_run_tests (kseq sched_init (printf (cstr ''kernel init complete\<newline>'') []))))))) Q u"
      unfolding malloc_run_tests_def wp_kseq [of "kret ()"] wp_kret wp_kseq [of kmemlist] wp_kseq [of "load_tss a b c"]
      by (rule wp_mono [OF quietD [OF quiet_kmemlist [OF disk_upD(3) [OF u]]]]) (rule wp_up_tss [OF disk_up_frame [OF u]], assumption, rule tab)
  qed
qed

end
