(* ===== verification/Boot_Memory.thy ===== *)
theory Boot_Memory
  imports Selftests Fat16_Dir
begin

text \<open>
  The kernel with memory but without a disk. The search for a free page goes forward, and the pages it has not
  reached yet are still zero; setting up paging takes the first 1025 of them, and the tests of paging pass.
\<close>

section \<open>Pages the search has not reached\<close>

definition frontier :: "'z pmem_state_scheme \<Rightarrow> u32 set" where
  "frontier s = entry_addr s ` {unat (pmem_curr_alloc_record s) <..< pmem_blocks s}"

definition ahead :: "nat \<Rightarrow> 'z pmem_state_scheme \<Rightarrow> bool" where
  "ahead k s \<longleftrightarrow> pmem_ok s \<and> unat (pmem_curr_alloc_record s) + Suc k < pmem_blocks s \<and> frontier s \<inter> used_pages s = {}
     \<and> (\<forall>a. page_of a \<in> frontier s \<longrightarrow> mem s a = 0)"

lemma aheadD:
  assumes "ahead k s"
  shows "pmem_ok s" "unat (pmem_curr_alloc_record s) + Suc k < pmem_blocks s" "frontier s \<inter> used_pages s = {}"
    "\<And>a. page_of a \<in> frontier s \<Longrightarrow> mem s a = 0" "frontier s \<subseteq> pmem_pages s"
  using assms by (auto simp: ahead_def frontier_def pmem_pages_def)

lemma ahead_room:
  assumes "ahead k s"
  shows "Suc k \<le> card (pmem_pages s - used_pages s)"
proof -
  note d = aheadD [OF assms]
  have fin: "finite (pmem_pages s)" by (simp add: pmem_pages_def)
  have inj: "inj_on (entry_addr s) {unat (pmem_curr_alloc_record s) <..< pmem_blocks s}"
    using entry_addr_inj [OF d(1)] by (auto simp: inj_on_def)
  have "Suc k \<le> card (frontier s)" unfolding frontier_def card_image [OF inj] using d(2) by simp
  also have "\<dots> \<le> card (pmem_pages s - used_pages s)" by (rule card_mono) (use fin d(3,5) in auto)
  finally show ?thesis .
qed

lemma ahead_less: "ahead k s \<Longrightarrow> j \<le> k \<Longrightarrow> ahead j s"
  by (auto simp: ahead_def)

text \<open>What leaves the allocator alone and those pages too.\<close>

lemma ahead_same:
  assumes "ahead k s" "pmem_ok t" "frontier t = frontier s" "pmem_curr_alloc_record t = pmem_curr_alloc_record s" "pmem_blocks t = pmem_blocks s"
    "used_pages t \<subseteq> used_pages s" "\<And>a. page_of a \<in> frontier s \<Longrightarrow> mem t a = mem s a"
  shows "ahead k t"
  using assms unfolding ahead_def by auto

lemma ahead_write:
  assumes "ahead k s" "\<And>a. page_of a \<notin> used_pages s \<Longrightarrow> m a = mem s a"
  shows "ahead k (s\<lparr>mem := m\<rparr>)"
proof (rule ahead_same [OF assms(1)])
  note d = aheadD [OF assms(1)]
  have "m a = mem s a" if "page_of a \<notin> pmem_pages s" for a using that pm.used_pages [OF d(1)] assms(2) by blast
  then show "pmem_ok (s\<lparr>mem := m\<rparr>)" "used_pages (s\<lparr>mem := m\<rparr>) \<subseteq> used_pages s" using pmem_write_frame [OF d(1), of m] by simp_all
  show "mem (s\<lparr>mem := m\<rparr>) a = mem s a" if "page_of a \<in> frontier s" for a using that d(3) assms(2) [of a] by auto
qed (simp_all add: frontier_def entry_addr_def [abs_def] pmem_blocks_def)

lemma ahead_frame:
  assumes "ahead k s" "console_frame s t" "stdio_ok s" "is_init (std_output_buf s)"
  shows "ahead k t"
proof (rule ahead_same [OF assms(1)])
  note f = console_frameD [OF assms(2)] and d = aheadD [OF assms(1)]
  show "pmem_ok t" using stdio_okD(1) f(9) assms(3) by blast
  show "used_pages t \<subseteq> used_pages s" using f(7) by simp
  have "b_addr (std_output_buf s) \<in> used_pages s" using buf_ok_ready(2) [OF assms(3), of StdOutput] assms(4) by simp
  then show "mem t a = mem s a" if "page_of a \<in> frontier s" for a using that d(3) f(1) [of a] by (metis disjoint_iff)
qed (use assms(2) in \<open>auto simp: console_frame_def frontier_def entry_addr_def [abs_def] pmem_blocks_def\<close>)

lemma next_free_ahead:
  assumes "ahead k s"
  shows "pmem_next_free s = Some (Suc (unat (pmem_curr_alloc_record s)))"
proof -
  let ?c = "unat (pmem_curr_alloc_record s)" and ?n = "pmem_blocks s"
  note d = aheadD [OF assms]
  have lt: "Suc ?c < ?n" using d(2) by simp
  have "entry_addr s (Suc ?c) \<in> frontier s" using lt by (auto simp: frontier_def)
  then have "entry_addr s (Suc ?c) \<notin> used_pages s" using d(3) by blast
  then have free: "\<not> entry_used s (Suc ?c)" using lt by (auto simp: used_pages_def pmem_used_def)
  have "search_order ?c ?n 1 = Suc ?c # map (\<lambda>j. (?c + j) mod ?n) [2..<?n]"
    using lt by (simp add: search_order_def upt_conv_Cons numeral_2_eq_2)
  then show ?thesis using free by (simp add: pmem_next_free_def)
qed

text \<open>The next page is the first of them: it is zero.\<close>

lemma wp_alloc_ahead:
  assumes "ahead (Suc k) s" "\<And>p t. took {p} s t \<Longrightarrow> ahead k t \<Longrightarrow> (\<And>a. page_of a = p \<Longrightarrow> mem t a = 0) \<Longrightarrow> Q p t"
  shows "wp pmem_alloc Q s"
proof -
  define e where "e = Suc (unat (pmem_curr_alloc_record s))"
  let ?p = "entry_addr s e" and ?t = "mark_used e s"
  note d = aheadD [OF assms(1)]
  have lt: "e < pmem_blocks s" using d(2) by (simp add: e_def)
  have run: "pmem_alloc s = Ok ?p ?t" using pmem_alloc_eq [OF d(1)] next_free_ahead [OF assms(1)] by (simp add: e_def)
  have "2 \<le> card (pmem_pages s - used_pages s)" using ahead_room [OF assms(1)] by simp
  then have "wp pmem_alloc (\<lambda>p. took {p} s) s" by (rule took_alloc [OF d(1)])
  then have tk: "took {?p} s ?t" using run by (simp add: wp_def)
  have "e < 4294967296" using lt less_trans [OF _ unat_u32_less] unfolding pmem_blocks_def by blast
  then have ue: "unat (of_nat e :: u32) = e" by (rule unat_of_nat_u32)
  have fr: "frontier s = insert ?p (frontier ?t)"
  proof -
    have "{unat (pmem_curr_alloc_record s) <..< pmem_blocks s} = insert e {e <..< pmem_blocks s}" using lt by (auto simp: e_def)
    then show ?thesis by (simp add: frontier_def ue)
  qed
  have "entry_addr s x \<noteq> ?p" if "e < x" "x < pmem_blocks s" for x using that entry_addr_inj [OF d(1), of x e] by simp
  then have out: "?p \<notin> frontier ?t" by (fastforce simp: frontier_def ue)
  have mem: "mem ?t a = mem s a" if "page_of a \<in> frontier s" for a
    using that d(5) record_not_in_page [OF d(1) lt] by auto
  have "ahead k ?t"
    unfolding ahead_def
  proof (intro conjI allI impI)
    show "pmem_ok ?t" by (rule tookD(1) [OF tk])
    show "unat (pmem_curr_alloc_record ?t) + Suc k < pmem_blocks ?t" using d(2) ue by (simp add: e_def)
    show "frontier ?t \<inter> used_pages ?t = {}" using tookD(3) [OF tk] d(3) fr out by auto
    show "mem ?t a = 0" if "page_of a \<in> frontier ?t" for a using that mem [of a] d(4) [of a] fr by simp
  qed
  moreover have "mem ?t a = 0" if "page_of a = ?p" for a using that mem [of a] d(4) [of a] fr by simp
  ultimately have "Q ?p ?t" by (intro assms(2) [OF tk])
  then show ?thesis using run by (simp add: wp_def)
qed

section \<open>Paging\<close>

lemma wp_ptable_ahead:
  assumes "ahead (Suc k) s" "\<And>p t. took {p} s t \<Longrightarrow> ahead k t \<Longrightarrow> 4096 dvd unat p \<Longrightarrow> Q p t"
  shows "wp vmem_ptable_new Q s"
  unfolding vmem_ptable_new_def wp_kbind
proof (rule wp_alloc_ahead [OF assms(1)])
  fix p t
  assume t: "took {p} s t" "ahead k t"
  note tk = tookD [OF t(1)]
  have al: "4096 dvd unat p" using pm.pages_aligned [OF aheadD(1) [OF assms(1)]] tk(4) by auto
  have "wp (kfor [0..<1024] (\<lambda>i. store_word p i 0)) (\<lambda>_. Q p) t"
  proof (rule wp_fill_words [OF al])
    fix m
    assume m: "\<And>a. page_of a \<noteq> p \<Longrightarrow> m a = mem t a"
    have "ahead k (t\<lparr>mem := m\<rparr>)" by (rule ahead_write [OF t(2)]) (use m tk(3) in auto)
    then show "Q p (t\<lparr>mem := m\<rparr>)" using took_write [OF t(1), of m] m al by (intro assms(2)) auto
  qed
  then show "wp (if p AND 0xFFF \<noteq> 0 then panic ''vmem_alloc_pmem: page directory needs to be 4096 aligned!''
     else if PHYS_BLOCK_SIZE < 4 * 1024 then panic ''vmem_alloc_pmem: physical block page size isn't large enough''
     else kseq (kfor [0..<1024] (\<lambda>i. store_word p i 0)) (kret p)) Q t"
    using al by (simp add: page_aligned_iff)
qed

lemma wp_table_loop_ahead:
  fixes s :: "'z pmem_state_scheme"
  assumes "ahead (1024 + k) s" "dir \<in> used_pages s"
  shows "wp (kfor [0..<1024] (\<lambda>i. kbind vmem_ptable_new (\<lambda>pt. kseq (store_word dir i (pt OR 7))
    (kfor [0..<1024] (\<lambda>j. store_word pt j (virt_addr_entry i j OR 7)))))) (\<lambda>_. ahead k) s"
proof -
  define I where "I i u \<longleftrightarrow> ahead (1024 - i + k) u \<and> dir \<in> used_pages u" for i and u :: "'z pmem_state_scheme"
  have "wp (kfor [0..<1024] (\<lambda>i. kbind vmem_ptable_new (\<lambda>pt. kseq (store_word dir i (pt OR 7))
    (kfor [0..<1024] (\<lambda>j. store_word pt j (virt_addr_entry i j OR 7)))))) (\<lambda>_. I 1024) s"
  proof (rule wp_kfor_upt)
    show "I 0 s" using assms by (simp add: I_def)
    fix i u
    assume i: "i < (1024 :: nat)" and "I i u"
    moreover have "1024 - i + k = Suc (1024 - Suc i + k)" using i by simp
    ultimately have u: "ahead (Suc (1024 - Suc i + k)) u" "dir \<in> used_pages u" by (simp_all only: I_def)
    show "wp (kbind vmem_ptable_new (\<lambda>pt. kseq (store_word dir i (pt OR 7))
      (kfor [0..<1024] (\<lambda>j. store_word pt j (virt_addr_entry i j OR 7))))) (\<lambda>_. I (Suc i)) u"
      unfolding wp_kbind wp_kseq
    proof (rule wp_ptable_ahead [OF u(1)], unfold store_word_def [of dir] wp_kmod)
      fix pt v
      assume v: "took {pt} u v" "ahead (1024 - Suc i + k) v" "4096 dvd unat pt"
      have ald: "4096 dvd unat dir" using pm.pages_aligned [OF aheadD(1) [OF u(1)]] pm.used_pages [OF aheadD(1) [OF u(1)]] u(2) by blast
      let ?v = "v\<lparr>mem := store32 (mem v) (slot dir i) (pt OR 7)\<rparr>"
      show "wp (kfor [0..<1024] (\<lambda>j. store_word pt j (virt_addr_entry i j OR 7))) (\<lambda>_. I (Suc i)) ?v"
      proof (rule wp_fill_words [OF v(3)])
        fix m
        assume m: "\<And>a. page_of a \<noteq> pt \<Longrightarrow> m a = mem ?v a"
        have used: "dir \<in> used_pages v" "pt \<in> used_pages v" using tookD(3) [OF v(1)] u(2) by auto
        have "m a = mem v a" if "page_of a \<notin> used_pages v" for a
        proof -
          have "page_of a \<noteq> pt" "page_of a \<noteq> dir" using that used by auto
          then show ?thesis using m [of a] store32_slot_other_page [OF ald i, of a] by simp
        qed
        from ahead_write [OF v(2) this] have a: "ahead (1024 - Suc i + k) (v\<lparr>mem := m\<rparr>)" .
        have "used_pages (v\<lparr>mem := m\<rparr>) = used_pages v"
          using pmem_write_frame [OF aheadD(1) [OF v(2)], of m] \<open>\<And>a. page_of a \<notin> used_pages v \<Longrightarrow> m a = mem v a\<close> pm.used_pages [OF aheadD(1) [OF v(2)]] by blast
        then show "I (Suc i) (?v\<lparr>mem := m\<rparr>)" using a used(1) by (simp add: I_def)
      qed
    qed
  qed simp
  then show ?thesis by (rule wp_mono) (simp add: I_def)
qed

text \<open>
  The kernel between the first page and the file system: the output buffer has its page, the pages \<open>K\<close> are in
  use and hold what they hold in \<open>m\<close>, and nothing else is in use; \<open>k\<close> more pages are known to be zero.
\<close>

definition mem_up :: "nat \<Rightarrow> u32 set \<Rightarrow> memory \<Rightarrow> nat \<Rightarrow> 'y \<Rightarrow> ('y fat16_state_scheme) \<Rightarrow> bool" where
  "mem_up U K m k M s \<longleftrightarrow> stdio_ok s \<and> is_init (std_output_buf s) \<and> serial_responsive (hw_byte s) PORT_COM1 \<and> ahead k s
     \<and> 0 \<notin> pmem_pages s \<and> card (pmem_pages s) = U \<and> boot_ok s \<and> ramdisk_block_size s = 0 \<and> ramdisk_block_pointers s = 0
     \<and> used_pages s = insert (b_addr (std_output_buf s)) K \<and> b_addr (std_output_buf s) \<notin> K
     \<and> (\<forall>a. page_of a \<in> K \<longrightarrow> mem s a = m a) \<and> \<not> is_init (std_input_buf s) \<and> fat16_state.more s = M"

lemma mem_upD:
  assumes "mem_up U K m k M s"
  shows "stdio_ok s" "is_init (std_output_buf s)" "serial_responsive (hw_byte s) PORT_COM1" "ahead k s" "0 \<notin> pmem_pages s" "boot_ok s"
    "ramdisk_block_size s = 0" "ramdisk_block_pointers s = 0" "used_pages s = insert (b_addr (std_output_buf s)) K" "b_addr (std_output_buf s) \<notin> K"
    "\<And>a. page_of a \<in> K \<Longrightarrow> mem s a = m a" "\<not> is_init (std_input_buf s)" "fat16_state.more s = M" "console_ok s" "pmem_ok s" "card (pmem_pages s) = U"
  using assms stdio_okD(1) [of s] by (auto simp: mem_up_def console_ok_def)

lemma mem_up_frame:
  assumes "mem_up U K m k M s" "console_frame s t"
  shows "mem_up U K m k M t"
proof -
  note d = mem_upD [OF assms(1)] and f = console_frameD [OF assms(2)]
  have t: "boot_ok t" "ramdisk_block_size t = 0" "ramdisk_block_pointers t = 0" "fat16_state.more t = M" "std_input_buf t = std_input_buf s" "hw_byte t = hw_byte s"
    using assms(2) d(6,7,8,13) unfolding console_frame_def by (auto simp: boot_ok_def)
  have "mem t a = m a" if "page_of a \<in> K" for a using f(1) [of a] d(10,11) that by metis
  then show ?thesis using d f t ahead_frame [OF d(4) assms(2) d(1,2)] by (simp add: mem_up_def)
qed

lemma wp_mem_print:
  assumes "mem_up U K m k M s" "render format args \<noteq> None" "\<And>t. mem_up U K m k M t \<Longrightarrow> Q () t"
  shows "wp (printf (cstr format) args) Q s"
  by (rule wp_printf_frame [OF mem_upD(14) [OF assms(1)] assms(2)]) (rule assms(3) [OF mem_up_frame [OF assms(1)]])

text \<open>Paging takes the first 1025 of the pages.\<close>

definition mapped_up :: "nat \<Rightarrow> u32 set \<Rightarrow> u32 list \<Rightarrow> nat \<Rightarrow> 'y \<Rightarrow> ('y vmem_state_scheme) \<Rightarrow> bool" where
  "mapped_up U K T k M s \<longleftrightarrow> mem_up U K (mem s) k (fat16_state.more s) s \<and> identity_mapped s \<and> tables_mapped T s
     \<and> K = insert (vmem_page_directory s) (set T) \<and> card K = 1025 \<and> vmem_state.more s = M"

lemma mapped_upD:
  assumes "mapped_up U K T k M s"
  shows "mem_up U K (mem s) k (fat16_state.more s) s" "identity_mapped s" "tables_mapped T s" "K = insert (vmem_page_directory s) (set T)"
    "card K = 1025" "vmem_state.more s = M"
  using assms unfolding mapped_up_def by blast+

lemma mem_up_self: "mem_up U K m k M s \<Longrightarrow> mem_up U K (mem s) k (fat16_state.more s) s"
  by (simp add: mem_up_def)

lemma mapped_up_frame:
  assumes "mapped_up U K T k M s" "console_frame s t"
  shows "mapped_up U K T k M t"
proof -
  note d = mapped_upD [OF assms(1)]
  have r: "vmem_page_directory t = vmem_page_directory s" "vmem_state.more t = vmem_state.more s"
    using assms(2) unfolding console_frame_def by auto
  show ?thesis
    unfolding mapped_up_def r
    using d mem_up_self [OF mem_up_frame [OF d(1) assms(2)]] identity_mapped_frame [OF d(2) assms(2)] tables_mapped_frame [OF d(3) assms(2)] by blast
qed

lemma took_ahead_up:
  assumes "mem_up U K m j M s" "took P s u" "ahead k u"
  shows "mem_up U (P \<union> K) (mem u) k M u" "P \<inter> insert (b_addr (std_output_buf s)) K = {}" "\<And>a. page_of a \<in> K \<Longrightarrow> mem u a = m a"
proof -
  note d = mem_upD [OF assms(1)] and tk = tookD [OF assms(2)] and st = took_stdio [OF assms(2) mem_upD(1) [OF assms(1)]]
  obtain c n where u: "u = s\<lparr>pmem_curr_alloc_record := c, mem := n\<rparr>" using tk(5) by (auto simp: pmem_same_def)
  show new: "P \<inter> insert (b_addr (std_output_buf s)) K = {}" using tk(4) d(9) by auto
  show "mem u a = m a" if "page_of a \<in> K" for a using tk(6) [of a] d(9,11) that by simp
  show "mem_up U (P \<union> K) (mem u) k M u" using d st(1,4) assms(3) tk(2,3) new by (simp add: mem_up_def) (auto simp: u boot_ok_def)
qed

lemma ahead_cong:
  fixes s t :: "'z stdio_state_scheme"
  assumes "stdio_state.truncate t = stdio_state.truncate s"
  shows "ahead k t = ahead k s"
proof -
  have f: "pmem_curr_alloc_record t = pmem_curr_alloc_record s" "pmem_mgr_reserved_size t = pmem_mgr_reserved_size s"
    "pmem_alloc_start t = pmem_alloc_start s" "mem t = mem s"
    using assms by (auto simp: stdio_state.truncate_def)
  then have "frontier t = frontier s" "pmem_blocks t = pmem_blocks s"
    by (simp_all add: frontier_def entry_addr_def [abs_def] pmem_blocks_def)
  then show ?thesis using f stdio_cong(1,3) [OF assms] by (simp add: ahead_def)
qed

lemma mem_up_cong:
  fixes s t :: "'y fat16_state_scheme"
  assumes "mem_up U K m k M s" "fat16_state.truncate t = fat16_state.truncate s"
  shows "mem_up U K m k (fat16_state.more t) t"
proof -
  have f: "stdio_state.truncate t = stdio_state.truncate s" "mem t = mem s" "std_input_buf t = std_input_buf s" "std_output_buf t = std_output_buf s"
    "hw_byte t = hw_byte s" "ramdisk_block_size t = ramdisk_block_size s" "ramdisk_block_pointers t = ramdisk_block_pointers s"
    "ramdisk_fat16_bootrecord t = ramdisk_fat16_bootrecord s"
    using assms(2) by (auto simp: fat16_state.truncate_def stdio_state.truncate_def)
  show ?thesis using assms(1) f stdio_cong [OF f(1)] ahead_cong [OF f(1)] by (simp add: mem_up_def boot_ok_def)
qed

lemma wp_mem_enable:
  fixes s :: "'z vmem_state_scheme"
  assumes "mem_up U K m k M s" "tables_mapped T s" "vmem_page_directory s = dir"
  shows "wp (kseq (vmem_enable_page_dir dir) (printf (cstr ''Paging Enabled for the entire kernel.\<newline>'') []))
      (\<lambda>_ t. mem_up U K (mem t) k (fat16_state.more t) t \<and> identity_mapped t \<and> tables_mapped T t \<and> vmem_page_directory t = dir
        \<and> vmem_state.more t = vmem_state.more s) s"
proof -
  let ?I = "\<lambda>t :: 'z vmem_state_scheme. mem_up U K (mem t) k (fat16_state.more t) t \<and> vmem_state.more t = vmem_state.more s"
  have print: "wp (printf (cstr format) args) Q t" if "?I t" "render format args \<noteq> None" "\<And>u. ?I u \<Longrightarrow> Q () u" for format args Q t
  proof (rule wp_printf_frame [OF mem_upD(14) [OF conjunct1 [OF that(1)]] that(2)])
    fix u
    assume u: "console_frame t u"
    have "vmem_state.more u = vmem_state.more t" using u unfolding console_frame_def by auto
    then show "Q () u" using that(1) that(3) [of u] mem_up_self [OF mem_up_frame [OF conjunct1 [OF that(1)] u]] by simp
  qed
  have cong: "?I (t\<lparr>cr3 := x\<rparr>)" "?I (t\<lparr>cr0 := x\<rparr>)" if "?I t" for t x
    using that mem_up_self [OF mem_up_cong [of U K "mem t" k "fat16_state.more t" t "t\<lparr>cr3 := x\<rparr>"]]
      mem_up_self [OF mem_up_cong [of U K "mem t" k "fat16_state.more t" t "t\<lparr>cr0 := x\<rparr>"]]
    by (simp_all add: fat16_state.truncate_def)
  have s: "?I s" using mem_up_self [OF assms(1)] by simp
  have "wp (kseq (vmem_enable_page_dir dir) (printf (cstr ''Paging Enabled for the entire kernel.\<newline>'') [])) (\<lambda>_. ?I) s"
    unfolding vmem_enable_page_dir_def wp_kseq wp_kmod
    by (rule print [OF cong(1) [OF s]], simp) (rule print, erule cong(2), simp_all)
  from wp_conj [OF wp_enable_page_dir [OF assms(2), unfolded assms(3)] this] show ?thesis by (rule wp_mono) simp
qed

lemma wp_mem_vmem_init:
  fixes s :: "'z vmem_state_scheme"
  assumes "mem_up U {} m (1025 + k) (fat16_state.more s) s"
  shows "wp vmem_init (\<lambda>_ t. \<exists>K T. mapped_up U K T k (vmem_state.more s) t) s"
proof -
  note d = mem_upD [OF assms]
  have card: "1025 < card (pmem_pages s - used_pages s)" using ahead_room [OF d(4)] by simp
  have start: "ahead (Suc (1024 + k)) s" using d(4) by simp
  have loop: "wp (kfor [0..<1024] (\<lambda>i. kbind vmem_ptable_new (\<lambda>pt. kseq (store_word dir i (pt OR 7))
      (kfor [0..<1024] (\<lambda>j. store_word pt j (virt_addr_entry i j OR 7))))))
      (\<lambda>_ u. (\<exists>T. took (insert dir (set T)) s u \<and> identity_upto 1024 (mem u) dir T \<and> distinct (dir # T)) \<and> ahead k u) t"
    if t: "took {dir} s t" "ahead (1024 + k) t" for dir t
    using wp_conj [OF wp_identity_loop [OF d(15) card t(1)] wp_table_loop_ahead [OF t(2)]] tookD(3) [OF t(1)] by simp
  have fin: "wp (kseq (vmem_enable_page_dir dir) (printf (cstr ''Paging Enabled for the entire kernel.\<newline>'') []))
      (\<lambda>_ t. \<exists>K T. mapped_up U K T k (vmem_state.more s) t) (u\<lparr>vmem_page_directory := dir\<rparr>)"
    if ex: "(\<exists>T. took (insert dir (set T)) s u \<and> identity_upto 1024 (mem u) dir T \<and> distinct (dir # T)) \<and> ahead k u" for dir u
  proof -
    obtain T where T: "took (insert dir (set T)) s u" "identity_upto 1024 (mem u) dir T" "distinct (dir # T)" and a: "ahead k u" using ex by blast
    let ?K = "insert dir (set T)" and ?u = "u\<lparr>vmem_page_directory := dir\<rparr>"
    have "mem_up U ?K (mem u) k (fat16_state.more s) u" using took_ahead_up(1) [OF assms T(1) a] by simp
    then have up: "mem_up U ?K (mem u) k (fat16_state.more ?u) ?u" by (rule mem_up_cong) (simp add: fat16_state.truncate_def)
    have dir: "4096 dvd unat dir" "dir \<noteq> 0" using tookD(4) [OF T(1)] pm.pages_aligned [OF d(15)] d(5) by auto
    have tab: "tables_mapped T ?u" using mem_upD(10,14) [OF up] dir T(2) by (simp add: tables_mapped_def)
    have card_K: "card ?K = 1025" using T(2,3) distinct_card [of T] by (simp add: identity_upto_def)
    have more: "vmem_state.more ?u = vmem_state.more s" using tookD(5) [OF T(1)] by (auto simp: pmem_same_def)
    show ?thesis
      by (rule wp_mono [OF wp_mem_enable [OF up tab]], simp) (intro exI [of _ ?K] exI [of _ T], use card_K more in \<open>simp add: mapped_up_def\<close>)
  qed
  show ?thesis
    unfolding vmem_init_def wp_kbind wp_kseq [of "kfor _ _"] wp_kseq [of "kmod _"] wp_kmod
    by (rule wp_ptable_ahead [OF start], rule wp_mono [OF loop], assumption, assumption) (rule fin)
qed

lemma wp_mem_vmem_tests:
  assumes "mapped_up U K T k M s" "\<And>t. mapped_up U K T k M t \<Longrightarrow> Q () t"
  shows "wp vmem_run_tests Q s"
proof -
  have print: "wp (printf (cstr format) args) R t" if "mapped_up U K T k M t" "render format args \<noteq> None" "\<And>u. mapped_up U K T k M u \<Longrightarrow> R () u" for format args R t
    by (rule wp_printf_frame [OF mem_upD(14) [OF mapped_upD(1) [OF that(1)]] that(2)]) (rule that(3) [OF mapped_up_frame [OF that(1)]])
  have look: "wp (vmem_get_phys_addr (vmem_page_directory t) 0x100FFFF) R t" if "mapped_up U K T k M t" "\<And>u. mapped_up U K T k M u \<Longrightarrow> R 0x100FFFF u" for R t
    by (rule wp_table_lookup [OF mapped_upD(3) [OF that(1)]]) (rule that(2) [OF mapped_up_frame [OF that(1)]])
  show ?thesis
    unfolding vmem_run_tests_def Let_def wp_kseq wp_kbind wp_kget
    apply (rule print [OF assms(1)], simp)
    apply (rule print, assumption, simp)
    apply (rule look, assumption)
    apply (rule print, assumption, simp)
    apply (simp only: refl not_True_eq_False if_False wp_kret)
    by (rule print, assumption, simp, (rule assms(2))?)+
qed

end
