(* ===== verification/Boot_Ramdisk.thy ===== *)
theory Boot_Ramdisk
  imports Boot_Memory
begin

text \<open>
  The self-tests of the ramdisk pass: disks of several sizes are made and given back, and a page written to the
  disk at an odd place is read back unchanged. A new disk holds only zeros as long as the search for pages has
  not come round.
\<close>

section \<open>A new disk is zero\<close>

lemma used_write:
  assumes "pmem_ok s" "\<And>a. page_of a \<notin> used_pages s \<Longrightarrow> m a = mem s a"
  shows "used_pages (s\<lparr>mem := m\<rparr>) = used_pages s"
  using pmem_write_frame [OF assms(1), of m] assms(2) pm.used_pages [OF assms(1)] by blast

lemma wp_fill_ahead:
  fixes s :: "'z pmem_state_scheme"
  assumes "ahead (n + k) s" "p \<in> used_pages s" "n \<le> 1024"
  shows "wp (kfor [0..<n] (\<lambda>i. kbind pmem_alloc (\<lambda>q. kmod (\<lambda>s. s\<lparr>mem := store32 (mem s) (slot p i) q\<rparr>))))
    (\<lambda>_ t. pmem_same s t \<and> ahead k t \<and> (\<forall>a. page_of a \<in> set (table (mem t) p n) \<longrightarrow> mem t a = 0)) s"
proof -
  define J where "J i t \<longleftrightarrow> pmem_same s t \<and> ahead (n - i + k) t \<and> p \<in> used_pages t \<and> set (table (mem t) p i) \<subseteq> used_pages t - {p}
    \<and> (\<forall>a. page_of a \<in> set (table (mem t) p i) \<longrightarrow> mem t a = 0)" for i and t :: "'z pmem_state_scheme"
  have al: "4096 dvd unat p" using pm.pages_aligned [OF aheadD(1) [OF assms(1)]] pm.used_pages [OF aheadD(1) [OF assms(1)]] assms(2) by blast
  have "wp (kfor [0..<n] (\<lambda>i. kbind pmem_alloc (\<lambda>q. kmod (\<lambda>s. s\<lparr>mem := store32 (mem s) (slot p i) q\<rparr>)))) (\<lambda>_. J n) s"
  proof (rule wp_kfor_upt)
    show "J 0 s" using assms by (simp add: J_def table_def pmem_same_refl)
    fix i t
    assume i: "i < n" and t: "J i t"
    have "n - i + k = Suc (n - Suc i + k)" using i by simp
    then have a: "ahead (Suc (n - Suc i + k)) t" using t by (simp add: J_def)
    have i1024: "i < 1024" using i assms(3) by simp
    show "wp (kbind pmem_alloc (\<lambda>q. kmod (\<lambda>s. s\<lparr>mem := store32 (mem s) (slot p i) q\<rparr>))) (\<lambda>_. J (Suc i)) t"
      unfolding wp_kbind wp_kmod
    proof (rule wp_alloc_ahead [OF a])
      fix q u
      assume u: "took {q} t u" "ahead (n - Suc i + k) u" "\<And>a. page_of a = q \<Longrightarrow> mem u a = 0"
      note tk = tookD [OF u(1)]
      let ?m = "store32 (mem u) (slot p i) q"
      have p: "p \<in> used_pages u" "p \<in> used_pages t" "q \<noteq> p" using tk(3,4) t by (auto simp: J_def)
      have out: "?m a = mem u a" if "page_of a \<noteq> p" for a by (rule store32_slot_other_page [OF al i1024 that])
      have "load32 (mem u) (slot p j) = load32 (mem t) (slot p j)" if "j < 1024" for j
        using tk(6) p(2) by (intro load32_slot_cong [OF al that]) simp
      then have "load32 ?m (slot p j) = (if j = i then q else load32 (mem t) (slot p j))" if "j < 1024" for j
        using load32_store32_slot [OF al i1024 that] that by auto
      then have tab: "table ?m p (Suc i) = table (mem t) p i @ [q]"
        using i1024 by (simp add: table_def)
      have "?m a = 0" if "page_of a \<in> set (table (mem t) p i @ [q])" for a
      proof (cases "page_of a = q")
        case True
        then show ?thesis using out [of a] p(3) u(3) by simp
      next
        case False
        then have "page_of a \<in> set (table (mem t) p i)" using that by simp
        then have "mem t a = 0" "page_of a \<noteq> p" "page_of a \<in> used_pages t" using t by (auto simp: J_def)
        then show ?thesis using out tk(6) by simp
      qed
      moreover have "used_pages (u\<lparr>mem := ?m\<rparr>) = used_pages u" by (rule used_write [OF tk(1)]) (use out p(1) in metis)
      moreover have "ahead (n - Suc i + k) (u\<lparr>mem := ?m\<rparr>)" by (rule ahead_write [OF u(2)]) (use out p(1) in metis)
      moreover have "pmem_same s (u\<lparr>mem := ?m\<rparr>)"
        using t pmem_same_trans [OF pmem_same_trans [OF _ tk(5)] pmem_same_write] by (auto simp: J_def)
      ultimately show "J (Suc i) (u\<lparr>mem := ?m\<rparr>)" using t p tk(3) by (auto simp: J_def tab)
    qed
  qed simp
  then show ?thesis by (rule wp_mono) (simp add: J_def)
qed

lemma ahead_ramdisk [simp]:
  "ahead k (s\<lparr>ramdisk_block_size := x\<rparr>) = ahead k s" "ahead k (s\<lparr>ramdisk_block_pointers := y\<rparr>) = ahead k s"
  by (rule ahead_cong; simp add: stdio_state.truncate_def)+

lemma wp_ramdisk_init_ahead:
  assumes "ahead (Suc (n + k)) s" "ramdisk_block_size s = 0" "ramdisk_block_pointers s = 0" "unat sz = 4096 * n" "0 < n" "n \<le> 1024"
  shows "wp (ramdisk_init sz) (\<lambda>_ t. disk_created n s t \<and> ahead k t \<and> (\<forall>a. page_of a \<in> set (disk_table t) \<longrightarrow> mem t a = 0)) s"
proof -
  have room: "Suc n < card (pmem_pages s - used_pages s)" using ahead_room [OF assms(1)] by simp
  have sz: "unat sz div 4096 = n" "4096 dvd unat sz" "unat sz \<le> 4194304" "0 < unat sz" using assms(4-6) by simp_all
  have words: "sz \<noteq> 0" "\<not> sz mod 4096 \<noteq> 0" "unat (sz div 4096) = n" "\<not> sz div 4096 > 4096 div 4"
    using sz assms(6) by (auto simp: word_unat_eq_iff unat_mod_distrib unat_div_distrib word_less_nat_alt)
  let ?s = "s\<lparr>ramdisk_block_size := sz div 4096\<rparr>"
  have a: "ahead (Suc (n + k)) ?s" using assms(1) by simp
  have "wp (ramdisk_init sz) (\<lambda>_ t. disk_created (unat sz div 4096) s t) s"
    by (rule wp_ramdisk_init [OF aheadD(1) [OF assms(1)] assms(2,3)]) (use sz room in simp_all)
  moreover have "wp (ramdisk_init sz) (\<lambda>_ t. ahead k t \<and> (\<forall>a. page_of a \<in> set (table (mem t) (ramdisk_block_pointers t) (unat (ramdisk_block_size t))) \<longrightarrow> mem t a = 0)) s"
  proof -
    let ?Q = "\<lambda>_ t. ahead k t \<and> (\<forall>a. page_of a \<in> set (table (mem t) (ramdisk_block_pointers t) (unat (ramdisk_block_size t))) \<longrightarrow> mem t a = 0)"
    have "wp pmem_alloc (\<lambda>p. wp (kseq (kmod (\<lambda>s. s\<lparr>ramdisk_block_pointers := p\<rparr>))
        (kfor [0..<n] (\<lambda>i. kbind pmem_alloc (\<lambda>q. kmod (\<lambda>s. s\<lparr>mem := store32 (mem s) (slot p i) q\<rparr>))))) ?Q) ?s"
    proof (rule wp_alloc_ahead [OF a])
      fix p t
      assume t: "took {p} ?s t" "ahead (n + k) t"
      let ?t = "t\<lparr>ramdisk_block_pointers := p\<rparr>"
      have f: "unat (ramdisk_block_size u) = n" "ramdisk_block_pointers u = p" if "pmem_same ?t u" for u
        using pmem_same_ramdisk [OF that] pmem_same_ramdisk(1) [OF tookD(5) [OF t(1)]] words(3) by simp_all
      have "wp (kfor [0..<n] (\<lambda>i. kbind pmem_alloc (\<lambda>q. kmod (\<lambda>s. s\<lparr>mem := store32 (mem s) (slot p i) q\<rparr>)))) ?Q ?t"
        by (rule wp_mono [OF wp_fill_ahead [where k = k]]) (use t(2) tookD(3) [OF t(1)] assms(6) f in auto)
      then show "wp (kseq (kmod (\<lambda>s. s\<lparr>ramdisk_block_pointers := p\<rparr>))
          (kfor [0..<n] (\<lambda>i. kbind pmem_alloc (\<lambda>q. kmod (\<lambda>s. s\<lparr>mem := store32 (mem s) (slot p i) q\<rparr>))))) ?Q t" by simp
    qed
    then show ?thesis using words assms(2,3) by (simp add: ramdisk_init_def)
  qed
  ultimately show ?thesis
    unfolding disk_table_def disk_blocks_def sz(1) by (rule wp_mono [OF wp_conj]) blast
qed

section \<open>Releasing a disk\<close>

definition released :: "u32 set \<Rightarrow> nat \<Rightarrow> 'z pmem_state_scheme \<Rightarrow> 'z pmem_state_scheme \<Rightarrow> bool" where
  "released P k s t \<longleftrightarrow> (\<exists>m. t = s\<lparr>mem := m\<rparr>) \<and> ahead k t \<and> used_pages t = used_pages s - P \<and> pmem_pages t = pmem_pages s
     \<and> (\<forall>a. page_of a \<in> pmem_pages s \<longrightarrow> mem t a = mem s a)"

lemma released_none: "ahead k s \<Longrightarrow> released {} k s s"
  unfolding released_def by (auto intro: exI [of _ "mem s"])

lemma released_trans: "released P k s t \<Longrightarrow> released Q k t u \<Longrightarrow> released (P \<union> Q) k s u"
  unfolding released_def by auto

lemma wp_free_ahead:
  assumes "ahead k s" "p \<in> used_pages s"
  shows "wp (pmem_free p) (\<lambda>r t. r = 0 \<and> released {p} k s t) s"
proof -
  note d = aheadD [OF assms(1)]
  obtain e where e: "e < pmem_blocks s" "entry_used s e" "p = entry_addr s e" using assms(2) by (auto simp: used_pages_def pmem_used_def)
  let ?t = "s\<lparr>mem := (mem s)(record_addr s e := 0)\<rparr>"
  note f = pmem_release_frame [OF d(1) e(1)]
  have "ahead k ?t"
  proof (rule ahead_same [OF assms(1) f(1)])
    show "mem ?t a = mem s a" if "page_of a \<in> frontier s" for a using that d(5) f(4) by blast
  qed (use f(3) in \<open>auto simp: frontier_def entry_addr_def [abs_def] pmem_blocks_def\<close>)
  then have "released {p} k s ?t" using f(2,3,4) e(3) unfolding released_def by blast
  then show ?thesis using pmem_free_used [OF d(1) e(1,2)] e(3) by (simp add: wp_def)
qed

lemma released_stdio:
  assumes "released P k s t" "stdio_ok s" "\<And>i. is_init (std_buf i s) \<Longrightarrow> b_addr (std_buf i s) \<notin> P"
  shows "stdio_ok t"
proof -
  obtain x where x: "t = s\<lparr>mem := x\<rparr>" using assms(1) by (auto simp: released_def)
  have r: "pmem_ok t" "used_pages t = used_pages s - P" "\<And>a. page_of a \<in> pmem_pages s \<Longrightarrow> x a = mem s a"
    using assms(1) aheadD(1) by (auto simp: released_def x)
  have "buf_ok i t" for i
  proof (cases "is_init (std_buf i s)")
    case True
    note b = buf_ok_ready [OF assms(2) True]
    have "b_addr (std_buf i s) \<in> pmem_pages s" using b(2) pm.used_pages [OF stdio_okD(1) [OF assms(2)]] by blast
    then have "buf_contents x (std_buf i s) = buf_contents (mem s) (std_buf i s)" using b r(3) by (intro buf_contents_cong) auto
    then show ?thesis using stdio_okD(2) [OF assms(2), of i] assms(3) [OF True] r(2) by (cases i) (simp_all add: buf_ok_def Let_def x)
  next
    case False
    then show ?thesis using stdio_okD(2) [OF assms(2), of i] by (cases i) (simp_all add: buf_ok_def Let_def x)
  qed
  then show ?thesis using r(1) assms(2) by (simp add: stdio_ok_def) (simp add: x)
qed

lemma wp_destroy_ahead:
  assumes "ramdisk_ok s" "ramdisk_block_pointers s \<noteq> 0" "ahead k s"
    and "\<And>t. released (disk_pages s) k s t \<Longrightarrow> Q () (t\<lparr>ramdisk_block_size := 0, ramdisk_block_pointers := 0\<rparr>)"
  shows "wp ramdisk_destroy Q s"
proof -
  note d = ramdisk_okD [OF assms(1)]
  let ?p = "ramdisk_block_pointers s" and ?n = "disk_blocks s"
  have p: "?p \<in> pmem_pages s" using d(1,4) pm.used_pages [of s] by blast
  have loop: "wp (kfor [0..<?n] (\<lambda>i. kbind (kget (\<lambda>s. load32 (mem s) (slot ?p i))) (\<lambda>q. kbind (pmem_free q) (\<lambda>_. kret ()))))
      (\<lambda>_. released (set (take ?n (disk_table s))) k s) s"
  proof (rule wp_kfor_upt)
    show "released (set (take 0 (disk_table s))) k s s" using released_none [OF assms(3)] by simp
    fix i t
    assume i: "i < ?n" and t: "released (set (take i (disk_table s))) k s t"
    have mem: "mem t a = mem s a" if "page_of a = ?p" for a using t p that by (auto simp: released_def)
    have q: "load32 (mem t) (slot ?p i) = disk_table s ! i"
      using load32_slot_cong [OF d(8), of i, OF _ mem] i d(3) by (simp add: disk_table_def nth_table)
    have "disk_table s ! i \<notin> set (take i (disk_table s))" using d(7) i by (simp add: distinct_conv_nth in_set_conv_nth)
    moreover have "disk_table s ! i \<in> set (disk_table s)" using i by simp
    ultimately have "disk_table s ! i \<in> used_pages t" using t d(5) by (auto simp: released_def)
    then have "wp (pmem_free (disk_table s ! i)) (\<lambda>r u. r = 0 \<and> released {disk_table s ! i} k t u) t"
      using t by (intro wp_free_ahead) (simp_all add: released_def)
    then have "wp (pmem_free (disk_table s ! i)) (\<lambda>_. released (set (take (Suc i) (disk_table s))) k s) t"
    proof (rule wp_mono)
      fix x u
      assume "x = 0 \<and> released {disk_table s ! i} k t u"
      from released_trans [OF t conjunct2 [OF this]] show "released (set (take (Suc i) (disk_table s))) k s u"
        using i by (simp add: take_Suc_conv_app_nth Un_commute)
    qed
    then show "wp (kbind (kget (\<lambda>s. load32 (mem s) (slot ?p i))) (\<lambda>q. kbind (pmem_free q) (\<lambda>_. kret ())))
        (\<lambda>_. released (set (take (Suc i) (disk_table s))) k s) t"
      by (simp add: q)
  qed simp
  have last: "wp (kbind (pmem_free ?p) (\<lambda>_. kmod (\<lambda>s. s\<lparr>ramdisk_block_size := 0, ramdisk_block_pointers := 0\<rparr>))) Q t"
    if t: "released (set (take ?n (disk_table s))) k s t" for t
  proof -
    have "?p \<in> used_pages t" "ahead k t" using t d(4,6) by (auto simp: released_def)
    from wp_free_ahead [OF this(2,1)] show ?thesis
      unfolding wp_kbind wp_kmod
    proof (rule wp_mono)
      fix x u
      assume "x = 0 \<and> released {?p} k t u"
      from released_trans [OF t conjunct2 [OF this]] have "released (disk_pages s) k s u" by (simp add: disk_pages_def)
      then show "Q () (u\<lparr>ramdisk_block_size := 0, ramdisk_block_pointers := 0\<rparr>)" by (rule assms(4))
    qed
  qed
  have "ramdisk_destroy s = kseq (kfor [0..<?n] (\<lambda>i. kbind (kget (\<lambda>s. load32 (mem s) (slot ?p i))) (\<lambda>q. kbind (pmem_free q) (\<lambda>_. kret ()))))
      (kbind (pmem_free ?p) (\<lambda>_. kmod (\<lambda>s. s\<lparr>ramdisk_block_size := 0, ramdisk_block_pointers := 0\<rparr>))) s"
    using d(2) assms(2) by (auto simp: ramdisk_destroy_def disk_blocks_def)
  moreover have "wp (kseq (kfor [0..<?n] (\<lambda>i. kbind (kget (\<lambda>s. load32 (mem s) (slot ?p i))) (\<lambda>q. kbind (pmem_free q) (\<lambda>_. kret ()))))
      (kbind (pmem_free ?p) (\<lambda>_. kmod (\<lambda>s. s\<lparr>ramdisk_block_size := 0, ramdisk_block_pointers := 0\<rparr>)))) Q s"
    unfolding wp_kseq by (rule wp_mono [OF loop]) (rule last)
  ultimately show ?thesis by (simp only: wp_def)
qed

section \<open>The tests of the ramdisk\<close>

text \<open>The same kernel with a disk of \<open>n\<close> blocks.\<close>

definition rd_up :: "nat \<Rightarrow> nat \<Rightarrow> u32 set \<Rightarrow> memory \<Rightarrow> nat \<Rightarrow> 'y \<Rightarrow> ('y fat16_state_scheme) \<Rightarrow> bool" where
  "rd_up U n K m k M s \<longleftrightarrow> ramdisk_ok s \<and> disk_blocks s = n \<and> stdio_ok s \<and> is_init (std_output_buf s) \<and> serial_responsive (hw_byte s) PORT_COM1
     \<and> ahead k s \<and> 0 \<notin> pmem_pages s \<and> card (pmem_pages s) = U \<and> boot_ok s \<and> used_pages s = insert (b_addr (std_output_buf s)) K \<union> disk_pages s
     \<and> disk_pages s \<inter> insert (b_addr (std_output_buf s)) K = {} \<and> b_addr (std_output_buf s) \<notin> K
     \<and> (\<forall>a. page_of a \<in> K \<longrightarrow> mem s a = m a) \<and> \<not> is_init (std_input_buf s) \<and> fat16_state.more s = M"

lemma rd_upD:
  assumes "rd_up U n K m k M s"
  shows "ramdisk_ok s" "disk_blocks s = n" "stdio_ok s" "is_init (std_output_buf s)" "serial_responsive (hw_byte s) PORT_COM1"
    "ahead k s" "0 \<notin> pmem_pages s" "boot_ok s" "used_pages s = insert (b_addr (std_output_buf s)) K \<union> disk_pages s"
    "disk_pages s \<inter> insert (b_addr (std_output_buf s)) K = {}" "b_addr (std_output_buf s) \<notin> K"
    "\<And>a. page_of a \<in> K \<Longrightarrow> mem s a = m a" "\<not> is_init (std_input_buf s)" "fat16_state.more s = M" "console_ok s" "pmem_ok s" "card (pmem_pages s) = U"
  using assms stdio_okD(1) [of s] by (auto simp: rd_up_def console_ok_def)

text \<open>Writing in the pages of \<open>K\<close> and of the disk.\<close>

lemma rd_up_write:
  assumes "rd_up U n K m k M s" "\<And>a. page_of a \<notin> K \<union> set (disk_table s) \<Longrightarrow> x a = mem s a"
  shows "rd_up U n K x k M (s\<lparr>mem := x\<rparr>)" "disk_table (s\<lparr>mem := x\<rparr>) = disk_table s" "disk_addr (s\<lparr>mem := x\<rparr>) = disk_addr s"
proof -
  note d = rd_upD [OF assms(1)] and r = ramdisk_okD [OF rd_upD(1) [OF assms(1)]]
  have sub: "K \<union> set (disk_table s) \<subseteq> used_pages s" using d(9) by (auto simp: disk_pages_def)
  have "used_pages s \<subseteq> pmem_pages s" using pm.used_pages [OF d(16)] .
  then have out: "x a = mem s a" if "page_of a \<notin> pmem_pages s" for a using that sub assms(2) by blast
  have "ramdisk_block_pointers s \<notin> K \<union> set (disk_table s)" using r(6) d(10) by (auto simp: disk_pages_def)
  then have ptr: "x a = mem s a" if "page_of a = ramdisk_block_pointers s" for a using that assms(2) by metis
  note w = ramdisk_write_frame [OF d(1), of x, OF out ptr]
  have "b_addr (std_output_buf s) \<notin> K \<union> set (disk_table s)" using d(10,11) by (auto simp: disk_pages_def)
  then have buf: "x a = mem s a" if "is_init (std_buf i s)" "page_of a = b_addr (std_buf i s)" for i a
    using that d(13) assms(2) [of a] by (cases i) auto
  have "stdio_ok (s\<lparr>mem := x\<rparr>)" using stdio_write_frame(1) [OF d(3), of x] out buf by blast
  moreover have "ahead k (s\<lparr>mem := x\<rparr>)" using ahead_write [OF d(6), of x] sub assms(2) by blast
  ultimately show "rd_up U n K x k M (s\<lparr>mem := x\<rparr>)"
    using d w by (simp add: rd_up_def boot_ok_def disk_blocks_def)
  show "disk_table (s\<lparr>mem := x\<rparr>) = disk_table s" "disk_addr (s\<lparr>mem := x\<rparr>) = disk_addr s" using w by simp_all
qed

lemma rd_up_less: "rd_up U n K m k M s \<Longrightarrow> (\<And>a. page_of a \<in> K \<Longrightarrow> m' a = mem s a) \<Longrightarrow> rd_up U n K m' k M s"
  by (simp add: rd_up_def)

lemma rd_up_frame:
  assumes "rd_up U n K m k M s" "console_frame s t"
  shows "rd_up U n K m k M t" "disk t = disk s"
proof -
  note d = rd_upD [OF assms(1)] and f = console_frameD [OF assms(2)]
  obtain v l x b where t: "t = s\<lparr>vidmem := v, io_log := l, mem := x, std_output_buf := b\<rparr>" using assms(2) unfolding console_frame_def by blast
  have "b_addr (std_output_buf s) \<in> pmem_pages s" using d(9) pm.used_pages [OF d(16)] by auto
  then have out: "x a = mem s a" if "page_of a \<notin> pmem_pages s" for a using that f(1) [of a] unfolding t by simp metis
  have dk: "x a = mem s a" if "page_of a \<in> disk_pages s" for a using that f(1) [of a] d(10) unfolding t by simp metis
  have ptr: "x a = mem s a" if "page_of a = ramdisk_block_pointers s" for a using that dk by (simp add: disk_pages_def)
  note w = ramdisk_write_frame [OF d(1), of x, OF out ptr]
  have tab: "disk_table t = disk_table (s\<lparr>mem := x\<rparr>)" "disk_blocks t = disk_blocks s" "disk_addr t = disk_addr (s\<lparr>mem := x\<rparr>)"
    by (simp_all add: t disk_table_def disk_blocks_def disk_addr_def fun_eq_iff)
  have "disk t = disk (s\<lparr>mem := x\<rparr>)" by (simp add: disk_def tab(2,3)) (simp add: t disk_blocks_def)
  then show "disk t = disk s" using disk_write_frame [OF d(1), of x] out dk by simp
  have ok: "ramdisk_ok t" using d(1) f(7) stdio_okD(1) [OF f(9) [OF d(3)]]
    by (simp add: ramdisk_ok_def disk_pages_def tab w) (simp add: t)
  have pages: "disk_pages t = disk_pages s" using w(4) by (simp add: disk_pages_def tab) (simp add: t)
  have "mem t a = m a" if "page_of a \<in> K" for a using f(1) [of a] d(11,12) that by metis
  then show "rd_up U n K m k M t"
    using d f ok pages tab(2) ahead_frame [OF d(6) assms(2) d(3,4)] by (simp add: rd_up_def) (simp add: t boot_ok_def)
qed

lemma wp_rd_print:
  assumes "rd_up U n K m k M s" "render format args \<noteq> None" "\<And>t. rd_up U n K m k M t \<Longrightarrow> disk t = disk s \<Longrightarrow> Q () t"
  shows "wp (printf (cstr format) args) Q s"
  by (rule wp_printf_frame [OF rd_upD(15) [OF assms(1)] assms(2)]) (rule assms(3) [OF rd_up_frame [OF assms(1)]])

lemma created_rd_up:
  assumes "mem_up U K m j M s" "disk_created n s t" "ahead k t"
  shows "rd_up U n K m k M t"
proof -
  note d = mem_upD [OF assms(1)]
  have c: "ramdisk_ok t" "disk_blocks t = n" "pmem_pages t = pmem_pages s" "used_pages t = used_pages s \<union> disk_pages t" "disk_pages t \<inter> used_pages s = {}"
    and mem: "\<And>a. page_of a \<in> used_pages s \<Longrightarrow> mem t a = mem s a"
    and "\<exists>c m x y. t = s\<lparr>pmem_curr_alloc_record := c, mem := m, ramdisk_block_size := x, ramdisk_block_pointers := y\<rparr>"
    using assms(2) unfolding disk_created_def by blast+
  then obtain c x y z where t: "t = s\<lparr>pmem_curr_alloc_record := c, mem := x, ramdisk_block_size := y, ramdisk_block_pointers := z\<rparr>" by blast
  have buf: "std_buf i t = std_buf i s" for i by (cases i) (simp_all add: t)
  have "buf_ok i t" for i
  proof -
    have ok: "buf_ok i s" by (rule stdio_okD(2) [OF d(1)])
    show ?thesis
    proof (cases "is_init (std_buf i s)")
      case True
      note r = buf_ok_ready [OF d(1) True]
      have "buf_contents (mem t) (std_buf i s) = buf_contents (mem s) (std_buf i s)" using r mem by (intro buf_contents_cong) auto
      then show ?thesis using ok c(4) by (simp add: buf_ok_def buf Let_def)
    next
      case False
      then show ?thesis using ok by (simp add: buf_ok_def buf Let_def)
    qed
  qed
  then have "stdio_ok t" using d(1) ramdisk_okD(1) [OF c(1)] by (simp add: stdio_ok_def) (simp add: t)
  then show ?thesis
    using d c assms(3) mem by (simp add: rd_up_def) (auto simp: t boot_ok_def)
qed

lemma wp_rd_init:
  assumes "mem_up U K m (Suc (n + k)) M s" "unat sz = 4096 * n" "0 < n" "n \<le> 1024"
    and "\<And>t. rd_up U n K m k M t \<Longrightarrow> (\<And>a. page_of a \<in> set (disk_table t) \<Longrightarrow> mem t a = 0) \<Longrightarrow> Q () t"
  shows "wp (ramdisk_init sz) Q s"
proof -
  note d = mem_upD [OF assms(1)]
  show ?thesis
    by (rule wp_mono [OF wp_ramdisk_init_ahead [OF d(4,7,8) assms(2-4)]])
      (use assms(5) created_rd_up [OF assms(1)] in auto)
qed

lemma wp_rd_destroy:
  assumes "rd_up U n K m k M s" "\<And>t. mem_up U K m k M t \<Longrightarrow> Q () t"
  shows "wp ramdisk_destroy Q s"
proof -
  note d = rd_upD [OF assms(1)]
  have "ramdisk_block_pointers s \<noteq> 0" using d(7) ramdisk_okD(4) [OF d(1)] pm.used_pages [OF d(16)] by auto
  then show ?thesis
  proof (rule wp_destroy_ahead [OF d(1) _ d(6)])
    fix t
    assume t: "released (disk_pages s) k s t"
    then obtain x where x: "t = s\<lparr>mem := x\<rparr>" by (auto simp: released_def)
    let ?t = "t\<lparr>ramdisk_block_size := 0, ramdisk_block_pointers := 0\<rparr>"
    have r: "ahead k t" "used_pages t = used_pages s - disk_pages s" "pmem_pages t = pmem_pages s" and mem: "\<And>a. page_of a \<in> pmem_pages s \<Longrightarrow> x a = mem s a"
      using t by (auto simp: released_def x)
    have used: "used_pages t = insert (b_addr (std_output_buf s)) K" using r(2) d(9,10) by blast
    have sub: "insert (b_addr (std_output_buf s)) K \<subseteq> pmem_pages s" using d(9) pm.used_pages [OF d(16)] by blast
    have "b_addr (std_buf i s) \<notin> disk_pages s" if "is_init (std_buf i s)" for i using that d(10,13) by (cases i) auto
    then have "stdio_ok t" by (rule released_stdio [OF t d(3)])
    moreover have "stdio_state.truncate ?t = stdio_state.truncate t" by (simp add: stdio_state.truncate_def)
    note c = stdio_cong [OF this]
    ultimately have "mem_up U K m k M ?t"
      using d r used mem sub by (simp add: mem_up_def c) (auto simp: x boot_ok_def)
    then show "Q () ?t" by (rule assms(2))
  qed
qed

lemma wp_create_test:
  assumes "mem_up U K m (Suc (n + k)) M s" "unat nb = n" "0 < n" "n \<le> 1024" "\<And>x y z. render message [ArgInt x, ArgInt y, ArgInt z] \<noteq> None"
    and "\<And>t. mem_up U K m k M t \<Longrightarrow> Q () t"
  shows "wp (ramdisk_create_test nb message) Q s"
proof -
  have sz: "unat (4096 * nb) = 4096 * n" using assms(2,4) by (simp add: word_facts)
  show ?thesis
    unfolding ramdisk_create_test_def wp_kseq wp_kbind wp_kget prod.case
    by (rule wp_rd_init [OF assms(1) sz assms(3,4)]) (rule wp_rd_print, assumption, rule assms(5), erule wp_rd_destroy, rule assms(6))
qed

text \<open>Transfers between the disk and a page of \<open>K\<close>.\<close>

lemma rd_up_poke:
  assumes "rd_up U n K m k M s" "j < 4096 * n"
  shows "rd_up U n K m k M (s\<lparr>mem := (mem s)(disk_addr s j := v)\<rparr>)" "disk (s\<lparr>mem := (mem s)(disk_addr s j := v)\<rparr>) = (disk s)[j := v]"
    "\<And>a. page_of a \<in> K \<Longrightarrow> ((mem s)(disk_addr s j := v)) a = mem s a"
proof -
  note d = rd_upD [OF assms(1)]
  have j: "j < 4096 * disk_blocks s" using assms(2) d(2) by simp
  note p = disk_addr_page [OF d(1) j]
  show keep: "((mem s)(disk_addr s j := v)) a = mem s a" if "page_of a \<in> K" for a
    using that p(2) d(10) by (auto simp: disk_pages_def)
  have "rd_up U n K ((mem s)(disk_addr s j := v)) k M (s\<lparr>mem := (mem s)(disk_addr s j := v)\<rparr>)"
    by (rule rd_up_write [OF assms(1)]) (use p(2) in auto)
  then show "rd_up U n K m k M (s\<lparr>mem := (mem s)(disk_addr s j := v)\<rparr>)"
    by (rule rd_up_less) (use keep d(12) in simp)
  show "disk (s\<lparr>mem := (mem s)(disk_addr s j := v)\<rparr>) = (disk s)[j := v]" by (rule disk_poke(3) [OF d(1) j])
qed

lemma wp_write_page:
  assumes "rd_up U n K m k M s" "p \<in> K" "unat start + unat l \<le> 4096 * n" "unat l \<le> 4096"
    and "\<And>t. rd_up U n K m k M t \<Longrightarrow> disk t = overwrite (unat start) (map (\<lambda>i. m (p + of_nat i)) [0..<unat l]) (disk s) \<Longrightarrow> Q 0 t"
  shows "wp (ramdisk_write start (Mem p) l) Q s"
proof -
  note d = rd_upD [OF assms(1)]
  let ?d = "map (\<lambda>i. m (p + of_nat i)) [0..<unat l]"
  have al: "4096 dvd unat p" using pm.pages_aligned [OF d(16)] pm.used_pages [OF d(16)] d(9) assms(2) by blast
  have loop: "wp (ramdisk_io_loop 1 start [j..<unat l] (Mem p)) R t"
    if "rd_up U n K m k M t" "j \<le> unat l" "\<And>u. rd_up U n K m k M u \<Longrightarrow> disk u = overwrite (unat start + j) (drop j ?d) (disk t) \<Longrightarrow> R (Mem p) u" for j t R
    using that
  proof (induction "unat l - j" arbitrary: j t)
    case 0
    then have "R (Mem p) t" by (auto simp: overwrite_def)
    with 0 show ?case by simp
  next
    case (Suc x)
    have j: "j < unat l" "unat start + j < 4096 * n" using Suc.hyps(2) assms(3) by simp_all
    note u = rd_upD [OF Suc.prems(1)]
    let ?v = "m (p + of_nat j)"
    let ?t = "t\<lparr>mem := (mem t)(disk_addr t (unat start + j) := ?v)\<rparr>"
    note w = rd_up_poke [OF Suc.prems(1) j(2), where v = ?v]
    have "page_of (p + of_nat j) = p" using page_offset(2) [OF al, of j] j(1) assms(4) by simp
    then have get: "mem t (p + of_nat j) = ?v" using u(12) assms(2) by simp
    have jb: "unat start + j < 4096 * disk_blocks t" using j(2) u(2) by simp
    have run: "ramdisk_io_byte 1 start j (Mem p) t = Ok (Mem p) ?t"
      using ramdisk_io_addr [OF u(1) jb] get by (simp add: ramdisk_io_byte_def kernel_defs Let_def)
    have "drop j ?d = ?v # drop (Suc j) ?d" using j(1) by (simp add: Cons_nth_drop_Suc [symmetric])
    then have over: "overwrite (unat start + Suc j) (drop (Suc j) ?d) ((disk t)[unat start + j := ?v]) = overwrite (unat start + j) (drop j ?d) (disk t)"
      using jb by (simp add: overwrite_def take_Suc_conv_app_nth)
    have "wp (ramdisk_io_loop 1 start [Suc j..<unat l] (Mem p)) R ?t"
      by (rule Suc.hyps(1)) (use Suc.hyps(2) w j(1) Suc.prems(3) over in simp_all)
    then show ?case using run j(1) by (simp add: upt_conv_Cons wp_def kbind_def)
  qed
  have "wp (ramdisk_io_loop 1 start [0..<unat l] (Mem p)) (\<lambda>b. Q 0) s"
    by (rule loop [OF assms(1)]) (use assms(5) in simp_all)
  moreover have "\<not> start + l > ramdisk_block_size s * 4096" "\<not> start > 0xFFFFFFFF - l" "ramdisk_block_size s \<noteq> 0"
    using in_bounds [OF d(1), of start l] assms(3) d(2) by simp_all
  ultimately show ?thesis by (simp add: ramdisk_write_def ramdisk_internal_io_def)
qed

lemma disk_cong:
  assumes "disk_addr t = disk_addr s" "\<And>i. i < 4096 * disk_blocks s \<Longrightarrow> mem t (disk_addr s i) = mem s (disk_addr s i)" "disk_blocks t = disk_blocks s"
  shows "disk t = disk s"
  using assms by (simp add: disk_def)

lemma wp_read_page:
  assumes "rd_up U n K m k M s" "p \<in> K" "unat start + unat l \<le> 4096 * n" "unat l \<le> 4096"
    and "\<And>x t. rd_up U n K x k M t \<Longrightarrow> disk t = disk s \<Longrightarrow> (\<And>i. i < unat l \<Longrightarrow> x (p + of_nat i) = disk s ! (unat start + i)) \<Longrightarrow>
      (\<And>a. page_of a \<noteq> p \<Longrightarrow> x a = m a) \<Longrightarrow> Q (0, Mem p) t"
  shows "wp (ramdisk_read start (Mem p) l) Q s"
proof -
  note d = rd_upD [OF assms(1)]
  have al: "4096 dvd unat p" using pm.pages_aligned [OF d(16)] pm.used_pages [OF d(16)] d(9) assms(2) by blast
  define got where "got j x \<longleftrightarrow> (\<forall>i < j. x (p + of_nat i) = disk s ! (unat start + i)) \<and> (\<forall>a. page_of a \<noteq> p \<longrightarrow> x a = m a)" for j x
  have loop: "wp (ramdisk_io_loop 0 start [j..<unat l] (Mem p)) R t"
    if "rd_up U n K x k M t" "disk t = disk s" "got j x" "j \<le> unat l"
      "\<And>y u. rd_up U n K y k M u \<Longrightarrow> disk u = disk s \<Longrightarrow> got (unat l) y \<Longrightarrow> R (Mem p) u" for j x t R
    using that
  proof (induction "unat l - j" arbitrary: j x t)
    case 0
    then have "R (Mem p) t" by simp
    with 0 show ?case by simp
  next
    case (Suc z)
    have j: "j < unat l" "unat start + j < 4096 * n" using Suc.hyps(2) assms(3) by simp_all
    note u = rd_upD [OF Suc.prems(1)]
    have jb: "unat start + j < 4096 * disk_blocks t" using j(2) u(2) by simp
    let ?v = "disk s ! (unat start + j)" and ?a = "p + of_nat j :: u32"
    let ?t = "t\<lparr>mem := (mem t)(?a := ?v)\<rparr>"
    have pa: "page_of ?a = p" using page_offset(2) [OF al, of j] j(1) assms(4) by simp
    have "mem t (disk_addr t (unat start + j)) = disk t ! (unat start + j)"
      using jb nth_map [of "unat start + j" "[0..<4096 * disk_blocks t]" "\<lambda>k. mem t (disk_addr t k)"] by (simp add: disk_def)
    then have run: "ramdisk_io_byte 0 start j (Mem p) t = Ok (Mem p) ?t"
      using ramdisk_io_addr [OF u(1) jb] Suc.prems(2) by (simp add: ramdisk_io_byte_def kernel_defs Let_def)
    have w: "rd_up U n K ((mem t)(?a := ?v)) k M ?t" "disk_table ?t = disk_table t" "disk_addr ?t = disk_addr t"
      by (rule rd_up_write [OF Suc.prems(1)]; use pa assms(2) in auto)+
    have "mem ?t (disk_addr t i) = mem t (disk_addr t i)" if "i < 4096 * disk_blocks t" for i
      using disk_addr_page(2) [OF u(1) that] pa assms(2) u(10) by (auto simp: disk_pages_def)
    then have "disk ?t = disk t" by (rule disk_cong [OF w(3)]) (simp_all add: disk_blocks_def)
    then have disk: "disk ?t = disk s" using Suc.prems(2) by simp
    have up: "rd_up U n K (x(?a := ?v)) k M ?t" by (rule rd_up_less [OF w(1)]) (use u(12) in simp)
    have "(x(?a := ?v)) (p + of_nat i) = disk s ! (unat start + i)" if "i < Suc j" for i
    proof (cases "i = j")
      case False
      then have "(of_nat i :: u32) \<noteq> of_nat j" using of_nat_u32_eq_iff [of i j] that j(1) assms(4) by simp
      then show ?thesis using False that Suc.prems(3) by (simp add: got_def)
    qed simp
    moreover have "(x(?a := ?v)) a = m a" if "page_of a \<noteq> p" for a using that pa Suc.prems(3) by (auto simp: got_def)
    ultimately have "got (Suc j) (x(?a := ?v))" by (simp add: got_def)
    then have "wp (ramdisk_io_loop 0 start [Suc j..<unat l] (Mem p)) R ?t"
      by (intro Suc.hyps(1) [OF _ up disk]) (use Suc.hyps(2) j(1) Suc.prems(5) in auto)
    then show ?case using run j(1) by (simp add: upt_conv_Cons wp_def kbind_def)
  qed
  have "wp (ramdisk_io_loop 0 start [0..<unat l] (Mem p)) (\<lambda>b. Q (0, b)) s"
    by (rule loop [OF assms(1)]) (use assms(5) in \<open>auto simp: got_def\<close>)
  moreover have "\<not> start + l > ramdisk_block_size s * 4096" "\<not> start > 0xFFFFFFFF - l" "ramdisk_block_size s \<noteq> 0"
    using in_bounds [OF d(1), of start l] assms(3) d(2) by simp_all
  ultimately show ?thesis by (simp add: ramdisk_read_def ramdisk_internal_io_def)
qed

text \<open>The pages of the test.\<close>

lemma wp_mem_alloc:
  assumes "mem_up U K m (Suc k) M s"
    and "\<And>p t. p \<notin> K \<Longrightarrow> mem_up U (insert p K) (mem t) k M t \<Longrightarrow> (\<And>a. page_of a \<in> K \<Longrightarrow> mem t a = m a) \<Longrightarrow> Q p t"
  shows "wp pmem_alloc Q s"
proof (rule wp_alloc_ahead [OF mem_upD(4) [OF assms(1)]])
  fix p t
  assume "took {p} s t" "ahead k t"
  note u = took_ahead_up [OF assms(1) this]
  show "Q p t" by (rule assms(2)) (use u in simp_all)
qed

lemma mem_up_write:
  assumes "mem_up U K m k M s" "\<And>a. page_of a \<notin> K \<Longrightarrow> x a = mem s a"
  shows "mem_up U K x k M (s\<lparr>mem := x\<rparr>)"
proof -
  note d = mem_upD [OF assms(1)]
  have sub: "K \<subseteq> used_pages s" "used_pages s \<subseteq> pmem_pages s" using d(9) pm.used_pages [OF d(15)] by auto
  have out: "x a = mem s a" if "page_of a \<notin> pmem_pages s" for a using that sub assms(2) by blast
  have buf: "x a = mem s a" if "is_init (std_buf i s)" "page_of a = b_addr (std_buf i s)" for i a
    using that d(10,12) assms(2) [of a] by (cases i) auto
  have "stdio_ok (s\<lparr>mem := x\<rparr>)" using stdio_write_frame(1) [OF d(1), of x] out buf by blast
  moreover have "ahead k (s\<lparr>mem := x\<rparr>)" using ahead_write [OF d(4), of x] sub assms(2) by blast
  moreover have "used_pages (s\<lparr>mem := x\<rparr>) = used_pages s" "pmem_pages (s\<lparr>mem := x\<rparr>) = pmem_pages s"
    using pmem_write_frame [OF d(15), of x] out by blast+
  ultimately show ?thesis using d by (simp add: mem_up_def boot_ok_def)
qed

lemma mem_up_less: "mem_up U K m k M s \<Longrightarrow> (\<And>a. page_of a \<in> K \<Longrightarrow> m' a = mem s a) \<Longrightarrow> mem_up U K m' k M s"
  by (simp add: mem_up_def)

lemma wp_mem_fill:
  assumes "mem_up U K m k M s" "p \<in> K"
    and "\<And>x t. mem_up U K x k M t \<Longrightarrow> (\<And>i. i < 1024 \<Longrightarrow> load32 x (slot p i) = f i) \<Longrightarrow> (\<And>a. page_of a \<noteq> p \<Longrightarrow> x a = m a) \<Longrightarrow> Q () t"
  shows "wp (fill_page p f) Q s"
proof -
  note d = mem_upD [OF assms(1)]
  have al: "4096 dvd unat p" using pm.pages_aligned [OF d(15)] pm.used_pages [OF d(15)] d(9) assms(2) by blast
  show ?thesis
    unfolding fill_page_def
  proof (rule wp_fill_words [OF al])
    fix x
    assume x: "\<And>i. i < 1024 \<Longrightarrow> load32 x (slot p i) = f i" "\<And>a. page_of a \<noteq> p \<Longrightarrow> x a = mem s a"
    let ?y = "\<lambda>a. if page_of a = p then x a else m a"
    have "mem_up U K x k M (s\<lparr>mem := x\<rparr>)" by (rule mem_up_write [OF assms(1)]) (use x(2) assms(2) in metis)
    then have "mem_up U K ?y k M (s\<lparr>mem := x\<rparr>)" by (rule mem_up_less) (use x(2) d(11) in simp)
    moreover have "load32 ?y (slot p i) = f i" if "i < 1024" for i
      using load32_slot_cong [OF al that, of ?y x] x(1) [OF that] by simp
    ultimately show "Q () (s\<lparr>mem := x\<rparr>)" by (rule assms(3)) simp_all
  qed
qed

lemma wp_mem_free:
  assumes "mem_up U (insert p K) m k M s" "p \<notin> K" "\<And>t. mem_up U K m k M t \<Longrightarrow> Q 0 t"
  shows "wp (pmem_free p) Q s"
proof -
  note d = mem_upD [OF assms(1)]
  have "p \<in> used_pages s" using d(9) by simp
  from wp_free_ahead [OF d(4) this] show ?thesis
  proof (rule wp_mono)
    fix r :: u32 and t
    assume r: "r = 0 \<and> released {p} k s t"
    then obtain x where x: "t = s\<lparr>mem := x\<rparr>" by (auto simp: released_def)
    have t: "ahead k t" "used_pages t = used_pages s - {p}" "pmem_pages t = pmem_pages s" "\<And>a. page_of a \<in> pmem_pages s \<Longrightarrow> x a = mem s a"
      using r by (auto simp: released_def x)
    have sub: "K \<subseteq> pmem_pages s" using d(9) pm.used_pages [OF d(15)] by blast
    have "b_addr (std_buf i s) \<notin> {p}" if "is_init (std_buf i s)" for i using that d(10,12) by (cases i) auto
    then have st: "stdio_ok t" by (rule released_stdio [OF conjunct2 [OF r] d(1)])
    have "mem t a = m a" if "page_of a \<in> K" for a using t(4) [of a] d(11) [of a] sub that by (auto simp: x)
    then have "mem_up U K m k M t"
      using d st t(1-3) assms(2) by (simp add: mem_up_def) (auto simp: x boot_ok_def)
    then show "Q r t" using assms(3) r by simp
  qed
qed

lemma overwrite_nth:
  assumes "start + length x \<le> length D" "i < length x"
  shows "overwrite start x D ! (start + i) = x ! i"
  using assms by (simp add: overwrite_def nth_append)

lemma wp_compare_pages:
  assumes "rd_up U n K m k M s" "w \<in> K" "r \<in> K" "\<And>i. i < 1024 \<Longrightarrow> load32 m (slot r i) = load32 m (slot w i)" "\<And>t. rd_up U n K m k M t \<Longrightarrow> Q () t"
  shows "wp (kfor [0..<1024] (\<lambda>i. kbind (kget (\<lambda>s. (load32 (mem s) (slot r i), load32 (mem s) (slot w i)))) (\<lambda>(r, w).
       if r \<noteq> w then kseq (printf (cstr ''%d : %d = %d'') [ArgInt (of_nat i), ArgInt r, ArgInt w]) (panic ''test failed!'')
       else kret ()))) Q s"
proof -
  note d = rd_upD [OF assms(1)]
  have al: "4096 dvd unat p" if "p \<in> K" for p using pm.pages_aligned [OF d(16)] pm.used_pages [OF d(16)] d(9) that by blast
  have eq: "load32 (mem s) (slot r i) = load32 (mem s) (slot w i)" if "i < 1024" for i
    using load32_slot_cong [OF al [OF assms(2)] that, of "mem s" m] load32_slot_cong [OF al [OF assms(3)] that, of "mem s" m]
      d(12) assms(2-4) that by simp
  have "wp (kfor [0..<1024] (\<lambda>i. kbind (kget (\<lambda>s. (load32 (mem s) (slot r i), load32 (mem s) (slot w i)))) (\<lambda>(r, w).
       if r \<noteq> w then kseq (printf (cstr ''%d : %d = %d'') [ArgInt (of_nat i), ArgInt r, ArgInt w]) (panic ''test failed!'')
       else kret ()))) (\<lambda>_ t. t = s) s"
    by (rule wp_kfor_upt) (use eq in \<open>simp_all add: wp_def kernel_defs\<close>)
  then show ?thesis by (rule wp_mono) (use assms(1,5) in simp)
qed

lemma load32_bytes_eq:
  assumes "\<And>i. i < 4096 \<Longrightarrow> x (r + of_nat i) = x (w + of_nat i)" "i < 1024"
  shows "load32 x (slot r i) = load32 x (slot w i)"
proof -
  have "x (slot r i + of_nat j) = x (slot w i + of_nat j)" if "j < 4" for j
    using assms(1) [of "4 * i + j"] assms(2) that by (simp add: slot_def add.assoc)
  from this [of 0] this [of 1] this [of 2] this [of 3] show ?thesis by (simp add: load32_def)
qed

lemma wp_io_check: "Q () s \<Longrightarrow> wp (ramdisk_io_check message 0) Q s"
  by (simp add: ramdisk_io_check_def)

lemma wp_roundtrip_test:
  assumes "rd_up U 2 K m k M s" "w \<in> K" "r \<in> K" "w \<noteq> r" "\<And>x t. mem_up U K x k M t \<Longrightarrow> (\<And>a. page_of a \<noteq> r \<Longrightarrow> x a = m a) \<Longrightarrow> wp f Q t"
  shows "wp (kbind (ramdisk_write (4096 div 2) (Mem w) 4096) (\<lambda>result.
     kseq (ramdisk_io_check ''ramdisk_write threw error code: %d\<newline>'' result)
    (kbind (ramdisk_read (4096 div 2) (Mem r) 4096) (\<lambda>(result, _).
     kseq (ramdisk_io_check ''ramdisk_read threw error code: %d\<newline>'' result)
    (kseq (kfor [0..<1024] (\<lambda>i.
       kbind (kget (\<lambda>s. (load32 (mem s) (slot r i), load32 (mem s) (slot w i)))) (\<lambda>(r, w).
       if r \<noteq> w then kseq (printf (cstr ''%d : %d = %d'') [ArgInt (of_nat i), ArgInt r, ArgInt w]) (panic ''test failed!'')
       else kret ())))
    (kseq (printf (cstr ''\<newline>'') [])
    (kseq ramdisk_destroy f))))))) Q s"
proof -
  note d = rd_upD [OF assms(1)]
  have al: "4096 dvd unat w" using pm.pages_aligned [OF d(16)] pm.used_pages [OF d(16)] d(9) assms(2) by blast
  have sizes: "unat (4096 div 2 :: u32) = 2048" "unat (4096 :: u32) = 4096" by (simp_all add: unat_div_distrib)
  let ?d = "map (\<lambda>i. m (w + of_nat i)) [0..<unat (4096 :: u32)]"
  have got: "load32 x (slot r i) = load32 x (slot w i)"
    if "rd_up U 2 K m k M t" "disk t = overwrite (unat (4096 div 2 :: u32)) ?d (disk s)"
      "\<And>i. i < unat (4096 :: u32) \<Longrightarrow> x (r + of_nat i) = disk t ! (unat (4096 div 2 :: u32) + i)" "\<And>a. page_of a \<noteq> r \<Longrightarrow> x a = m a" "i < 1024" for x t i
  proof (rule load32_bytes_eq [OF _ that(5)])
    fix i :: nat
    assume i: "i < 4096"
    have "x (r + of_nat i) = disk t ! (2048 + i)" using that(3) [of i] i sizes by simp
    also have "\<dots> = m (w + of_nat i)"
      using overwrite_nth [of 2048 ?d "disk s" i] that(2) i sizes d(2) by simp
    also have "\<dots> = x (w + of_nat i)" using that(4) page_offset(2) [OF al i] assms(4) by simp
    finally show "x (r + of_nat i) = x (w + of_nat i)" .
  qed
  show ?thesis
    unfolding wp_kbind wp_kseq
    apply (rule wp_write_page [OF assms(1,2)], simp add: sizes, simp add: sizes)
    apply (rule wp_io_check)
    apply (rule wp_read_page, assumption, rule assms(3), simp add: sizes, simp add: sizes)
    subgoal premises p for t x u
      unfolding prod.case wp_kseq
      apply (rule wp_io_check)
      apply (rule wp_compare_pages [OF p(3) assms(2,3)], rule got [OF p(1,2,5,6)], assumption, assumption, assumption)
      apply (rule wp_rd_print, assumption, simp)
      apply (erule wp_rd_destroy)
      by (erule assms(5), rule p(6))
    done
qed

lemma wp_mem_ramdisk_tests:
  assumes "mem_up U K m (35 + k) M s" "\<And>t. mem_up U K m k M t \<Longrightarrow> Q () t"
  shows "wp ramdisk_run_tests Q s"
proof -
  have sizes: "unat (4096 * 2 :: u32) = 4096 * 2" "unat (4096 div 2 :: u32) = 2048" "unat (4096 :: u32) = 4096" by (simp_all add: unat_div_distrib)
  show ?thesis
    unfolding ramdisk_run_tests_def wp_kseq wp_kbind
    apply (rule wp_mem_alloc [where k = "34 + k"], use assms(1) in simp)
    subgoal premises w for w t1
      apply (rule wp_mem_fill [OF w(2)], simp)
      subgoal premises fw for x1 t2
        apply (rule wp_mem_alloc [where k = "33 + k"], use fw(1) in simp)
        subgoal premises r for r t3
          apply (rule wp_mem_fill [OF r(2)], simp)
          subgoal premises fr for x2 t4
          proof -
            have set: "insert r (insert w K) = insert w (insert r K)" and ne: "w \<noteq> r" using r(1) by auto
            have fin: "wp (kbind (pmem_free w) (\<lambda>_. kbind (pmem_free r) (\<lambda>_. printf (cstr ''ramdisk: finished self-tests\<newline>'') []))) Q u"
              if u: "mem_up U (insert r (insert w K)) x k M u" "\<And>a. page_of a \<noteq> r \<Longrightarrow> x a = x2 a" for x u
            proof -
              have same: "x a = m a" if "page_of a \<in> K" for a
              proof -
                have "page_of a \<noteq> r" "page_of a \<noteq> w" using that r(1) w(1) by auto
                then show ?thesis using that u(2) [of a] fr(3) [of a] r(3) [of a] fw(3) [of a] w(3) [of a] by simp
              qed
              have ret: "Q () v" if v: "mem_up U K x k M v" for v
                by (rule assms(2), rule mem_up_less [OF v]) (use same mem_upD(11) [OF v] in simp)
              show ?thesis
                unfolding wp_kbind
                apply (rule wp_mem_free [OF u(1) [unfolded set]], use r(1) w(1) in blast)
                apply (erule wp_mem_free, use r(1) in blast)
                by (erule wp_mem_print, simp, rule ret)
            qed
            show ?thesis
              apply (rule wp_mem_print [OF fr(1)], simp)
              apply (rule wp_mem_print, assumption, simp)
              apply (rule wp_create_test [where n = 5 and k = "27 + k"], simp, simp, simp, simp, simp)
              apply (rule wp_mem_print, assumption, simp)
              apply (rule wp_create_test [where n = 20 and k = "6 + k"], simp, simp, simp, simp, simp)
              apply (rule wp_mem_print, assumption, simp)
              apply (rule wp_rd_init [where n = 2 and k = "3 + k"], simp, rule sizes, simp, simp)
              apply (rule wp_write_page, assumption, simp, simp add: sizes, simp add: sizes)
              apply (rule wp_io_check)
              apply (erule wp_rd_destroy)
              apply (rule wp_mem_print, assumption, simp)
              apply (rule wp_rd_init [where n = 2 and k = k], simp add: numeral_3_eq_3, rule sizes, simp, simp)
              by (rule wp_roundtrip_test [unfolded wp_kbind wp_kseq, where w = w and r = r], assumption, simp, simp, rule ne)
                (rule fin, assumption, blast)
          qed
          done
        done
      done
    done
qed

end
