(* ===== verification/Boot_Fat16.thy ===== *)
theory Boot_Fat16
  imports Boot_Ramdisk Shell_Info
begin

text \<open>
  The self-tests of the file system pass on a machine that has just mapped its memory: they make a
  file system, write two files, read the first one back and give back all the pages of the disk. The test
  takes the length of what it read as that of a string, so it needs a zero byte behind the file; it passes
  because the disk was zero before.
\<close>

lemma rd_up_fat16: "rd_up U 1024 K m k M s \<Longrightarrow> fat16_ok s"
proof -
  assume r: "rd_up U 1024 K m k M s"
  note d = rd_upD [OF r]
  have "b_addr (std_buf i s) \<notin> disk_pages s" if "is_init (std_buf i s)" for i
    using that d(10,13) by (cases i) auto
  then show ?thesis using d by (simp add: fat16_ok_def)
qed

lemma rd_up_same:
  assumes "rd_up U n K m k M s" "fs_same s t" "fat16_ok t"
  shows "rd_up U n K m k M t"
proof -
  note d = rd_upD [OF assms(1)]
  obtain v l x b where t: "t = s\<lparr>vidmem := v, io_log := l, mem := x, std_output_buf := b\<rparr>"
    using assms(2) unfolding fs_same_def by blast
  have e: "b_addr (std_output_buf t) = b_addr (std_output_buf s)" "disk_table t = disk_table s" "used_pages t = used_pages s"
    "pmem_pages t = pmem_pages s"
    "\<And>a. page_of a \<noteq> b_addr (std_output_buf s) \<Longrightarrow> page_of a \<notin> set (disk_table s) \<Longrightarrow> mem t a = mem s a"
    using assms(2) by (simp_all add: fs_same_def)
  have pages: "disk_pages t = disk_pages s" unfolding disk_pages_def e(2) by (simp add: t)
  have tab: "set (disk_table s) \<subseteq> disk_pages s" by (auto simp: disk_pages_def)
  have used: "b_addr (std_output_buf s) \<in> used_pages s" "set (disk_table s) \<subseteq> used_pages s" using d(9) tab by auto
  have "ahead k t"
  proof (rule ahead_same [OF d(6)])
    show "pmem_ok t" using stdio_okD(1) [OF fat16_okD(2) [OF assms(3)]] .
    show "mem t a = mem s a" if "page_of a \<in> frontier s" for a
      using that aheadD(3) [OF d(6)] used e(5) [of a] by (metis disjoint_iff subsetD)
  qed (simp_all add: e(3), simp_all add: t frontier_def entry_addr_def [abs_def] pmem_blocks_def)
  moreover have "mem t a = m a" if "page_of a \<in> K" for a
  proof -
    have "page_of a \<noteq> b_addr (std_output_buf s)" "page_of a \<notin> set (disk_table s)" using that d(10,11) tab by auto
    then show ?thesis using e(5) d(12) [OF that] by simp
  qed
  ultimately show ?thesis
    using d fat16_okD(1-3) [OF assms(3)] unfolding rd_up_def e(1,3,4) pages by (simp add: t boot_ok_def disk_blocks_def)
qed

text \<open>The file system of the tests, with the files it holds.\<close>

definition fs_up :: "nat \<Rightarrow> directory \<Rightarrow> u32 set \<Rightarrow> memory \<Rightarrow> nat \<Rightarrow> 'y \<Rightarrow> ('y fat16_state_scheme) \<Rightarrow> bool" where
  "fs_up U F K m k M s \<longleftrightarrow> rd_up U 1024 K m k M s \<and> dir_rel s F"

lemma fs_up_frame:
  assumes "fs_up U F K m k M s" "console_frame s t"
  shows "fs_up U F K m k M t"
  using assms rd_up_frame [of U 1024 K m k M s t] dir_rel_same [of s F t] rd_up_fat16 [of U K m k M t] by (simp add: fs_up_def)

lemma fs_up_same: "fs_up U F K m k M s \<Longrightarrow> fs_same s t \<Longrightarrow> dir_rel t G \<Longrightarrow> fs_up U G K m k M t"
  using rd_up_same [of U 1024 K m k M s t] by (simp add: fs_up_def dir_rel_def)

lemma wp_fs_up_print:
  assumes "fs_up U F K m k M s" "render format args \<noteq> None" "\<And>t. fs_up U F K m k M t \<Longrightarrow> Q () t"
  shows "wp (printf (cstr format) args) Q s"
proof -
  have "console_ok s" using assms(1) rd_upD(15) [of U 1024 K m k M s] by (simp add: fs_up_def)
  then show ?thesis by (rule wp_printf_frame [OF _ assms(2)]) (rule assms(3), rule fs_up_frame [OF assms(1)])
qed

lemma zero_disk:
  assumes "ramdisk_ok s" "\<And>a. page_of a \<in> set (disk_table s) \<Longrightarrow> mem s a = 0"
  shows "zeroed 0 (length (disk s)) (disk s)"
  using assms(2) disk_addr_page(2) [OF assms(1)] by (simp add: zeroed_def disk_def)

lemma wp_up_format:
  assumes "rd_up U 1024 K m k M s" "\<And>a. page_of a \<in> set (disk_table s) \<Longrightarrow> mem s a = 0"
  shows "wp ramdisk_fat16_format (\<lambda>_ t. fs_up U [] K m k M t \<and> zeroed 49664 212480 (disk t)) s"
proof -
  note ok = rd_up_fat16 [OF assms(1)]
  have len: "length (ramdisk_fat16_bootrecord s) = 512" using rd_upD(8) [OF assms(1)] by (simp add: boot_ok_def)
  have z: "zeroed 49664 212480 (disk s)"
    using zero_disk [OF rd_upD(1) [OF assms(1)]] assms(2) fat16_okD(5) [OF ok] by (simp add: zeroed_def)
  obtain t where t: "ramdisk_fat16_format s = Ok () t" "fat16_ok t" "fs_same s t" "formatted (disk t)"
    using wp_format [OF ok len] by (auto elim: wpE)
  have "zeroed 49664 212480 (disk t)" using wp_format_zeroed [OF ok len z] t(1) by (auto elim: wpE)
  then show ?thesis
    using t rd_up_same [OF assms(1) t(3,2)] formatted_dir [OF t(4) fat16_okD(5) [OF t(2)]]
    by (intro wpI) (simp_all add: fs_up_def dir_rel_def)
qed

lemma wp_up_fat16_init:
  assumes "mem_up U K m (1025 + k) M s" "\<And>t. fs_up U [] K m k M t \<Longrightarrow> zeroed 49664 212480 (disk t) \<Longrightarrow> Q () t"
  shows "wp ramdisk_fat16_init Q s"
proof -
  have magic: "\<not> (ramdisk_fat16_bootrecord s ! 510 \<noteq> 0x55 \<or> ramdisk_fat16_bootrecord s ! 511 \<noteq> 0xAA)"
    using mem_upD(6) [OF assms(1)] by (simp add: boot_ok_def)
  have fin: "wp (ramdisk_read 512 (Local (take 2 (raw_entry t))) 2) (\<lambda>a. wp (case a of (_, first_cluster) \<Rightarrow>
      printf (cstr ''ramdisk_fat16_init: First Cluster Values: %x \<newline>'')
        [ArgInt (push_bit 8 (ucast (local_bytes first_cluster ! 1)) OR ucast (local_bytes first_cluster ! 0))]) Q) t"
    if t: "fs_up U [] K m k M t" "zeroed 49664 212480 (disk t)" for t
  proof (rule wpI)
    have ok: "fat16_ok t" using t(1) by (simp add: fs_up_def dir_rel_def)
    show "ramdisk_read 512 (Local (take 2 (raw_entry t))) 2 t = Ok (0, Local (slice 512 2 (disk t))) t"
      using fs_read [OF ok, of 512 2 "take 2 (raw_entry t)"] by simp
    have "Q () u" if u: "fat16_ok u" "fs_same t u" "disk u = disk t" for u
      using t u fs_up_same [OF t(1) u(2)] dir_rel_same [of t "[]" u] by (intro assms(2)) (simp_all add: fs_up_def)
    then show "wp (case (0 :: u32, Local (slice 512 2 (disk t))) of (_, first_cluster) \<Rightarrow>
      printf (cstr ''ramdisk_fat16_init: First Cluster Values: %x \<newline>'')
        [ArgInt (push_bit 8 (ucast (local_bytes first_cluster ! 1)) OR ucast (local_bytes first_cluster ! 0))]) Q t"
      by (auto intro: wp_fs_print [OF ok])
  qed
  show ?thesis
    unfolding ramdisk_fat16_init_def wp_kbind wp_kget wp_kseq wp_if if_not_P [OF magic] wp_kret
    apply (rule wp_mem_print [OF assms(1)], simp)
    apply (rule wp_mem_print, assumption, simp)
    apply (rule wp_rd_init [where n = 1024 and k = k], simp, simp, simp, simp)
    apply (rule wp_mono, erule wp_up_format, assumption)
    by (rule fin) simp_all
qed

section \<open>The tests\<close>

lemma zeroed_cluster:
  assumes "zeroed 49664 212480 D" "262144 \<le> length D" "c < 415"
  shows "cluster_data D c = replicate 512 0"
  using assms by (simp add: cluster_data_def zeroed_slice)

lemma wp_up_write:
  assumes "fs_up U F K m k M s" "unat n \<le> 512" "unat n \<le> length d" "length F < 31" "dir_lookup f F = None"
    and "\<And>t. fs_up U (F @ [(ramdisk_fat16_filename_to_native f, take (unat n) d)]) K m k M t \<Longrightarrow> Q 0 t"
  shows "wp (ramdisk_fat16_file_write f (Local d) n) Q s"
proof (rule wp_mono [OF wp_dir_write [OF _ assms(2-5)]])
  show "dir_rel s F" using assms(1) by (simp add: fs_up_def)
qed (use assms(6) fs_up_same [OF assms(1)] in blast)

lemma wp_up_write_padded:
  assumes "fs_up U [] K m k M s" "zeroed 49664 212480 (disk s)" "unat n \<le> 512" "unat n \<le> length d"
    and "\<And>t. fs_up U [(ramdisk_fat16_filename_to_native f, take (unat n) d @ replicate (512 - unat n) 0)] K m k M t \<Longrightarrow> Q 0 t"
  shows "wp (ramdisk_fat16_file_write f (Local d) n) Q s"
proof -
  have s: "dir_rel s []" "262144 \<le> length (disk s)" using assms(1) fat16_okD(5) [of s] by (simp_all add: fs_up_def dir_rel_def)
  have none: "dir_lookup f [] = None" by (simp add: dir_lookup_def)
  have "free_cluster s < 415" using dir_can_write(2) [OF s(1) _ none] by (simp add: free_clusters_def)
  note z = zeroed_cluster [OF assms(2) s(2) this]
  show ?thesis
    by (rule wp_mono [OF wp_dir_write_padded [OF s(1) assms(3,4) _ none z]])
      (use assms(5) fs_up_same [OF assms(1)] in \<open>simp, force\<close>)
qed

lemma wp_up_exists:
  assumes "fs_up U F K m k M s" "dir_lookup f F \<noteq> None" "\<And>e. e \<noteq> 0 \<Longrightarrow> Q e s"
  shows "wp (ramdisk_fat16_file_exists f) Q s"
proof -
  have d: "fat16_ok s" "dir_disk (disk s) F" using assms(1) by (simp_all add: fs_up_def dir_rel_def)
  let ?e = "first_or_zero (root_match f (disk s)) [1..<32]"
  obtain m d where "dir_lookup f F = Some (m, d)" using assms(2) by auto
  from dir_find [OF d(2) this] have "?e \<noteq> 0" by (metis nat.distinct(1))
  moreover from this have "?e < 32" using first_or_zero_range [of "root_match f (disk s)" "[1..<32]"] by auto
  ultimately have "unat (of_nat ?e :: u32) \<noteq> 0" using unat_of_nat_u32 [of ?e] by linarith
  then have "(of_nat ?e :: u32) \<noteq> 0" by (metis unat_0)
  then show ?thesis by (intro wp_file_exists [OF d(1)] assms(3))
qed

lemma wp_up_read:
  assumes "fs_up U F K m k M s" "dir_lookup f F = Some (a, d)" "512 \<le> length buf"
    and "\<And>b t. fs_up U F K m k M t \<Longrightarrow> take (length d) (local_bytes b) = d \<Longrightarrow> Q (0, b) t"
  shows "wp (ramdisk_fat16_file_read f (Local buf) 0) Q s"
proof (rule wp_mono [OF wp_dir_read [OF _ assms(2,3)]])
  show "dir_rel s F" using assms(1) by (simp add: fs_up_def)
qed (use assms(4) fs_up_same [OF assms(1)] in \<open>auto split: prod.splits\<close>)

lemma test_check_passes:
  assumes "0 \<notin> set x" "take (Suc (length x)) b = x @ [0]" "Q () s"
  shows "wp (fat16_test_check (x @ [0]) b f g) Q s"
proof -
  obtain r where b: "b = x @ 0 # r" using append_take_drop_id [of "Suc (length x)" b] unfolding assms(2) by (metis append_assoc append_Cons append_Nil)
  have "c_string (x @ 0 # r) = x" for r :: bytes using assms(1) by (induction x) (auto simp: c_string_def)
  then have "strlen (x @ 0 # r) = Some (length x)" for r :: bytes by (simp add: strlen_Some)
  moreover have "memcmp (x @ [0]) b (length x) = Some 0" unfolding b by (induction x) auto
  ultimately show ?thesis using assms(3) by (simp add: fat16_test_check_def b wp_kseq wp_kret)
qed

lemma wp_mem_fat16_tests:
  assumes "mem_up U K m (1025 + k) M s" "\<And>t. mem_up U K m k M t \<Longrightarrow> Q () t"
  shows "wp ramdisk_fat16_run_tests Q s"
proof -
  define n1 n2 :: bytes where "n1 = cstr ''rawr.txt'' @ [0]" and "n2 = cstr ''dragon.txt'' @ [0]"
  define c1 c2 :: bytes where "c1 = cstr ''rawr is the'' @ [9] @ cstr '' name of this file''" and "c2 = cstr ''see rawr.txt for more information''"
  have texts: "cstr ''rawr is the'' @ [9] @ cstr '' name of this file'' @ [0] = c1 @ [0]" "cstr ''see rawr.txt for more information'' @ [0] = c2 @ [0]"
    "cstr ''rawr.txt'' @ [0] = n1" "cstr ''dragon.txt'' @ [0] = n2"
    by (simp_all add: n1_def n2_def c1_def c2_def)
  have len: "length c1 = 30" "length c2 = 33" "0 \<notin> set c1" unfolding c1_def c2_def by code_simp+
  then have sizes: "length (c1 @ [0]) - 1 = 30" "length (c2 @ [0]) - 1 = 33" by simp_all
  define e1 e2 where "e1 = (ramdisk_fat16_filename_to_native n1, c1 @ replicate 482 0)" and "e2 = (ramdisk_fat16_filename_to_native n2, c2)"
  have names: "ramdisk_fat16_filename_to_native n1 = cstr ''rawr    txt''" "ramdisk_fat16_filename_to_native n2 = cstr ''dragon  txt''"
    unfolding n1_def n2_def by code_simp+
  have ans: "\<not> answers (cstr ''dragon  txt'') (cstr ''rawr    txt'')" by code_simp
  have self: "answers f f" for f by (simp add: answers_def)
  have look: "dir_lookup n2 [e1] = None" "dir_lookup n2 [e1, e2] \<noteq> None" "dir_lookup n1 [e1, e2] = Some e1"
    by (simp_all only: dir_lookup_def names e1_def e2_def) (simp_all add: ans self)
  then have rd: "dir_lookup n1 [e1, e2] = Some (ramdisk_fat16_filename_to_native n1, c1 @ replicate 482 0)" unfolding e1_def by simp
  have fin: "wp (fat16_test_check (c1 @ [0]) (local_bytes b) f g) (\<lambda>_. wp (kseq ramdisk_fat16_list_info
      (kseq ramdisk_fat16_destroy (printf (cstr ''Done running ramdisk.fat16 tests...\<newline>'') []))) Q) t"
    if t: "fs_up U [e1, e2] K m k M t" "take (length (c1 @ replicate 482 0)) (local_bytes b) = c1 @ replicate 482 0" for b t f g
  proof (rule test_check_passes [OF len(3)])
    have "take (Suc (length c1)) (take (length (c1 @ replicate 482 0)) (local_bytes b)) = c1 @ [0]"
      unfolding t(2) by simp
    then show "take (Suc (length c1)) (local_bytes b) = c1 @ [0]" by simp
    have ok: "fat16_ok t" using t(1) by (simp add: fs_up_def dir_rel_def)
    show "wp (kseq ramdisk_fat16_list_info
      (kseq ramdisk_fat16_destroy (printf (cstr ''Done running ramdisk.fat16 tests...\<newline>'') []))) Q t"
      unfolding wp_kseq ramdisk_fat16_destroy_def
      apply (rule wp_mono [OF quietD [OF quiet_list_info [OF ok]]])
      apply (drule fs_up_frame [OF t(1)])
      apply (rule wp_rd_destroy [where U = U and n = 1024 and K = K and m = m and k = k and M = M], simp add: fs_up_def)
      by (rule wp_mem_print, assumption, simp, rule assms(2))
  qed
  show ?thesis
    unfolding ramdisk_fat16_run_tests_def Let_def texts sizes wp_kseq wp_kbind
    apply (rule wp_mem_print [OF assms(1)], simp)
    apply (rule wp_up_fat16_init, assumption)
    apply (rule wp_up_write_padded, assumption, assumption, simp, simp add: len)
    apply (rule wp_up_write [where U = U and F = "[e1]"], simp add: e1_def len, simp, simp add: len, simp, rule look(1))
    apply (rule wp_up_exists [where U = U and F = "[e1, e2]"], simp add: e2_def len, rule look(2))
    apply (simp add: wp_kret)
    apply (rule wp_fs_up_print [where U = U and F = "[e1, e2]"], simp add: e2_def len, simp)
    apply (rule wp_up_read [OF _ rd], assumption, simp)
    apply (simp only: prod.case wp_kseq)
    apply (rule wp_fs_up_print, assumption, simp)
    by (rule fin [unfolded wp_kseq], assumption, assumption)
qed

end
