(* ===== verification/Boot_Early.thy ===== *)
theory Boot_Early
  imports System Boot_Memory
begin

text \<open>
  The kernel before it has memory to allocate: it prints to the screen and the serial port only, and
  an interrupt that comes in changes nothing but the tick count. From there to the first message
  after the allocator is set up, which takes a page for the output buffer.
\<close>

section \<open>Before there is memory\<close>

text \<open>
  The machine as the loader leaves it, up to what the early phase changes: its memory, the memory map
  it was handed and the number of timer ticks so far.
\<close>

definition early :: "memory \<Rightarrow> multiboot_info option \<Rightarrow> u32 \<Rightarrow> nat \<Rightarrow> 'z kernel_state_scheme \<Rightarrow> bool" where
  "early m mbd kernel_end n s \<longleftrightarrow> serial_responsive (hw_byte s) PORT_COM1 \<and> \<not> pmem_initialized s \<and> pmem_curr_alloc_record s = 0
     \<and> pmem_mbd s = mbd \<and> pmem_kernel_reserved_end_addr s = kernel_end \<and> mem s = m
     \<and> (\<forall>i. \<not> is_init (std_buf i s) \<and> \<not> is_initializing (std_buf i s) \<and> head_ptr (std_buf i s) = 0 \<and> tail_ptr (std_buf i s) = 0
          \<and> (autoflush_to_screen (std_buf i s) \<longleftrightarrow> i = StdOutput))
     \<and> ramdisk_block_size s = 0 \<and> ramdisk_block_pointers s = 0 \<and> boot_ok s \<and> mlfq_rel s no_processes \<and> blank_table (processes s) 0
     \<and> command_buffer_ptr s = 0 \<and> length (command_buffer s) = 1024 \<and> length (working_buffer s) = 1024 \<and> unat (pit_interrupt_count s) = n"

lemma std_buf_fields:
  "std_buf i (s\<lparr>hw_byte := h\<rparr>) = std_buf i s" "std_buf i (s\<lparr>int_enabled := e\<rparr>) = std_buf i s" "std_buf i (s\<lparr>is_serial_connected := c\<rparr>) = std_buf i s"
  "std_buf i (t\<lparr>idt_start := d\<rparr>) = std_buf i t" "std_buf i (u\<lparr>pit_hz := z\<rparr>) = std_buf i u" "std_buf i (u\<lparr>pit_interrupt_count := n\<rparr>) = std_buf i u"
  "std_buf i (u\<lparr>idtr := r\<rparr>) = std_buf i u" "std_buf i (u\<lparr>interrupt_num_as_str := x\<rparr>) = std_buf i u"
  "std_buf i (v\<lparr>pmem_mbd := y\<rparr>) = std_buf i v" "std_buf i (v\<lparr>pmem_kernel_reserved_end_addr := k\<rparr>) = std_buf i v"
  by (cases i; simp)+

lemma early_fields [simp]:
  "early m mbd k n (s\<lparr>vidmem := v\<rparr>) = early m mbd k n s" "early m mbd k n (s\<lparr>io_log := l\<rparr>) = early m mbd k n s"
  "early m mbd k n (s\<lparr>int_enabled := e\<rparr>) = early m mbd k n s" "early m mbd k n (s\<lparr>is_serial_connected := c\<rparr>) = early m mbd k n s"
  "early m mbd k n (s\<lparr>idt_start := d\<rparr>) = early m mbd k n s" "early m mbd k n (s\<lparr>pit_hz := z\<rparr>) = early m mbd k n s"
  "early m mbd k n (s\<lparr>idtr := r\<rparr>) = early m mbd k n s" "early m mbd k n (s\<lparr>interrupt_num_as_str := x\<rparr>) = early m mbd k n s"
  by (simp_all add: early_def std_buf_fields boot_ok_def mlfq_rel_def queues_rel_def cong: disj_cong)

lemma early_device: "early m mbd k n s \<Longrightarrow> serial_responsive h PORT_COM1 \<Longrightarrow> early m mbd k n (s\<lparr>hw_byte := h\<rparr>)"
  by (simp add: early_def std_buf_fields boot_ok_def mlfq_rel_def queues_rel_def)

lemma early_count: "early m mbd k n s \<Longrightarrow> early m mbd k (unat c) (s\<lparr>pit_interrupt_count := c\<rparr>)"
  by (simp add: early_def std_buf_fields boot_ok_def mlfq_rel_def queues_rel_def)

lemma wp_early_print:
  assumes "early m mbd k n s" "render format args \<noteq> None" "\<And>t. early m mbd k n t \<Longrightarrow> Q () t"
  shows "wp (printf (cstr format) args) Q s"
proof (rule wp_printf_early [OF _ _ assms(2)])
  show "Q () (s\<lparr>vidmem := v, io_log := l\<rparr>)" for v l by (rule assms(3)) (simp add: assms(1))
qed (use assms(1) in \<open>simp_all add: early_def\<close>)

text \<open>With nothing buffered and no process, an update of the kernel does nothing.\<close>

lemma early_update:
  assumes "early m mbd k n s"
  shows "kernel_update s = Ok () s"
proof -
  have b: "\<not> is_init (std_buf i s)" for i using assms by (simp add: early_def)
  have pop: "io_buffer_pop i s = Ok 0 s" for i using b [of i] by (simp add: io_buffer_pop_eq)
  have flush: "stdlib_update s = Ok () s"
    by (simp add: stdlib_update_def stdlib_flushstdio_def io_buffer_flush_to_screen_def kbind_def kget_def kret_def pop)
  have four: "(4096 :: nat) = Suc 4095" by simp
  have "stdlib_pop_stdio_input_char s = Ok 0 s"
    using assms by (simp add: stdlib_pop_stdio_input_char_def pmem_isinit_def kbind_def kget_def kret_def early_def)
  then have shell: "shell_update s = Ok () s" unfolding shell_update_def four shell_loop.simps by (simp add: kbind_def kret_def)
  have cur: "current_process s = None" and len: "length (proc_priority_list s) = 3"
    and heads: "proc_priority_list s ! 0 = None" "proc_priority_list s ! 1 = None" "proc_priority_list s ! 2 = None"
    using assms by (auto simp: early_def mlfq_rel_def queues_rel_def no_processes_def less_3)
  have "proc_priority_list s = [None, None, None]" using three_levels [OF len] unfolding heads .
  then have "first_head s = None" by (simp add: first_head_def)
  with cur have "sched_update s = Ok () s" by (simp add: sched_update_def kbind_def kget_def kmod_def)
  then show ?thesis using flush shell by (simp add: kernel_update_def kseq_Ok)
qed

section \<open>Interrupts before there is memory\<close>

lemma wp_early_interrupt:
  fixes s :: "'z kernel_state_scheme"
  assumes "early m mbd k n s"
    and "\<And>t :: 'z kernel_state_scheme. early m mbd k n t \<Longrightarrow> hw_byte t = hw_byte s \<Longrightarrow> pit_interrupt_count t = pit_interrupt_count s \<Longrightarrow>
      wp (dispatch_interrupt cr2 i) (\<lambda>_. early m mbd k n') t"
  shows "wp (common_interrupt_handler cr2 i) (\<lambda>_. early m mbd k n') s"
  unfolding common_interrupt_handler_def store_interrupt_number_def wp_kbind wp_kseq wp_kget wp_kmod
  by (rule wp_mono [OF assms(2)]) (simp_all add: assms(1))

lemma wp_early_update: "early m mbd k n s \<Longrightarrow> Q () s \<Longrightarrow> wp kernel_update Q s"
  by (rule wpI, erule early_update)

abbreviation "ticks events \<equiv> length (filter (\<lambda>e. e = event.Tick) events)"

lemma wp_early_tick:
  assumes "early m mbd k n s" "Suc n < 2147483648"
  shows "wp (deliver event.Tick) (\<lambda>_. early m mbd k (Suc n)) s"
  unfolding deliver.simps
proof (rule wp_early_interrupt [OF assms(1)])
  fix t
  assume t: "early m mbd k n t"
  then have n: "unat (pit_interrupt_count t) = n" by (simp add: early_def)
  have "pit_interrupt_count t \<noteq> 0x7FFFFFFF" using n assms(2) by auto
  moreover have "unat (pit_interrupt_count t + 1) = Suc n" using n assms(2) by (simp add: word_facts)
  ultimately show "wp (dispatch_interrupt 0 0x20) (\<lambda>_. early m mbd k (Suc n)) t"
    using early_count [OF t, of "pit_interrupt_count t + 1"]
    by (auto simp: dispatch_simps pit_interrupt_handler_def wp_kbind wp_kseq wp_kget wp_kmod intro!: wp_early_update)
qed

lemma wp_early_key:
  assumes "early m mbd k n s"
  shows "wp (deliver (Key c)) (\<lambda>_. early m mbd k n) s"
  unfolding deliver.simps press_key_def wp_kseq wp_kmod
proof (rule wp_early_interrupt)
  show "early m mbd k n (s\<lparr>hw_byte := \<lambda>l p. if p = KBD_DATA_PORT then c else hw_byte s l p\<rparr>)"
    using serial_key_hw [of c "hw_byte s"] assms by (intro early_device) (simp_all add: key_hw_def early_def)
  fix t
  assume t: "early m mbd k n t"
  have put: "wp (stdlib_put_stdio_input_char x) (\<lambda>_. wp kernel_update (\<lambda>_. early m mbd k n)) u" if "early m mbd k n u" for x u
  proof -
    have "\<not> pmem_initialized u" using that by (simp add: early_def)
    then show ?thesis using wp_early_update [OF that] that by (simp add: stdlib_put_stdio_input_char_def pmem_isinit_def wp_kbind wp_kret)
  qed
  show "wp (dispatch_interrupt 0 0x21) (\<lambda>_. early m mbd k n) t"
    unfolding dispatch_simps keyboard_interrupt_handler_def pic_acknowledge_def wp_kseq wp_kbind
    using t by (auto simp: Let_def wp_kret intro!: put wp_early_update)
qed

lemma wp_early_events:
  assumes "early m mbd k n s" "n + ticks events < 2147483648"
  shows "wp (run_ops deliver events) (\<lambda>_. early m mbd k (n + ticks events)) s"
  using assms
proof (induction events arbitrary: n s)
  case Nil
  then show ?case by (simp add: wp_kret)
next
  case (Cons e events)
  show ?case
    unfolding run_ops.simps wp_kseq
  proof (cases e)
    case Tick
    then show "wp (deliver e) (\<lambda>_. wp (run_ops deliver events) (\<lambda>_. early m mbd k (n + ticks (e # events)))) s"
      using wp_early_tick [OF Cons.prems(1)] Cons.prems(2) Cons.IH [of "Suc n"] by (auto intro: wp_mono simp del: deliver.simps)
  next
    case (Key c)
    then show "wp (deliver e) (\<lambda>_. wp (run_ops deliver events) (\<lambda>_. early m mbd k (n + ticks (e # events)))) s"
      using wp_early_key [OF Cons.prems(1), of c] Cons.prems(2) Cons.IH [of n] by (auto intro: wp_mono simp del: deliver.simps)
  next
    case Syscall
    have "wp (deliver Syscall) (\<lambda>_. early m mbd k n) s"
      unfolding deliver.simps by (rule wp_early_interrupt [OF Cons.prems(1)]) (auto simp: dispatch_simps intro: wp_early_update)
    then show "wp (deliver e) (\<lambda>_. wp (run_ops deliver events) (\<lambda>_. early m mbd k (n + ticks (e # events)))) s"
      using Syscall Cons.prems(2) Cons.IH [of n] by (auto intro: wp_mono simp del: deliver.simps)
  qed
qed

section \<open>The devices\<close>

lemma wp_early_serial:
  assumes "early m mbd k n s" "is_serial_connected s = 0" "\<And>l. hw_byte s (Out_b PORT_COM1 0xAE # l) PORT_COM1 = 0xAE"
    and "\<And>t. early m mbd k n t \<Longrightarrow> Q SERIAL_SUCCESS t"
  shows "wp (serial_init PORT_COM1) Q s"
  unfolding serial_init_def using assms(1-3) by (auto simp: wp_kbind wp_kseq wp_kret Let_def intro!: assms(4))

lemma wp_early_idt:
  assumes "early m mbd k n s" "\<And>t. early m mbd k n t \<Longrightarrow> Q () t"
  shows "wp (load_and_enable_interrupts a isr) Q s"
proof -
  have gate: "wp (setup_gate isr i) (\<lambda>_. early m mbd k n) t" if "early m mbd k n t" "i < 52" for t i
  proof -
    have isr: "isr_addr isr i = Some (isr i)" using that(2) by (simp add: isr_addr_def)
    show ?thesis
      unfolding setup_gate_def isr option.case wp_kseq wp_kbind wp_kmod wp_kget
      apply (rule wp_early_print [OF that(1)], simp)
      by (rule wp_early_print [where m = m and mbd = mbd and k = k and n = n]) (simp_all add: upd_gate_def)
  qed
  show ?thesis
    unfolding load_and_enable_interrupts_def setup_idt_def wp_kseq wp_kmod
    apply (rule wp_early_print [OF assms(1)], simp)
    apply (rule wp_mono [OF wp_kfor_upt [where I = "\<lambda>_. early m mbd k n"]], simp, assumption)
    by (auto intro!: gate assms(2))
qed

lemma wp_early_test_idt:
  assumes "early m mbd k n s" "\<And>t. early m mbd k n t \<Longrightarrow> Q () t"
  shows "wp (test_run_idt (\<lambda>n. common_interrupt_handler 0 (unat n))) Q s"
proof -
  have int: "wp (common_interrupt_handler 0 i) R t" if "early m mbd k n t" "i = 1 \<or> i = 3" "\<And>u. early m mbd k n u \<Longrightarrow> R () u" for t i R
  proof (rule wp_mono [OF wp_early_interrupt [OF that(1)]])
    show "wp (dispatch_interrupt 0 i) (\<lambda>_. early m mbd k n) u" if "early m mbd k n u" for u
      using \<open>i = 1 \<or> i = 3\<close> unfolding dispatch_interrupt_def if_P [OF \<open>i = 1 \<or> i = 3\<close>] wp_kbind wp_kget
      by (intro wp_early_print [OF that]) simp_all
  qed (use that(3) in simp)
  show ?thesis
    unfolding test_run_idt_def wp_kseq
    apply (rule wp_early_print [OF assms(1)], simp)
    apply (erule int, simp)
    apply (erule int, simp)
    by (erule wp_early_print, simp, rule assms(2))
qed

lemma wp_early_pic:
  assumes "early m mbd k n s" "\<And>t. early m mbd k n t \<Longrightarrow> Q () t"
  shows "wp pic_remap Q s" "wp pic_set_interrupt_masks Q s" "wp (pit_initialize x) Q s"
  unfolding pic_remap_def pic_set_interrupt_masks_def pit_initialize_def wp_kseq
  using assms(1) by (auto intro!: assms(2))

lemma wp_early_timer:
  assumes "early m mbd k 0 s" "0 < ticks events" "ticks events < 2147483648" "\<And>t. early m mbd k (ticks events) t \<Longrightarrow> Q () t"
  shows "wp (pit_run_tests (run_ops deliver events) pit_interrupt_count) Q s"
proof -
  have waste: "wp (kfor [0..<Suc 20000] (\<lambda>i. kbind (kret (factorial (of_nat i))) (\<lambda>_.
       if i * 10 mod 20000 = 0
       then printf (cstr ''Wasting Time... %d/%d\<newline>'') [ArgInt (of_nat (i * 10 div 20000)), ArgInt 10]
       else kret ()))) R t" if "early m mbd k 0 t" "\<And>u. early m mbd k 0 u \<Longrightarrow> R () u" for t R
  proof (rule wp_mono [OF wp_kfor_upt [where I = "\<lambda>_. early m mbd k 0"]])
    show "wp (kbind (kret (factorial (of_nat i))) (\<lambda>_. if i * 10 mod 20000 = 0
       then printf (cstr ''Wasting Time... %d/%d\<newline>'') [ArgInt (of_nat (i * 10 div 20000)), ArgInt 10]
       else kret ())) (\<lambda>_. early m mbd k 0) u" if "early m mbd k 0 u" for i u
      unfolding wp_kbind wp_kret wp_if using that by (auto intro!: wp_early_print [OF that])
  qed (use that in simp_all)
  show ?thesis
    unfolding pit_run_tests_def wp_kseq
    apply (rule wp_early_print [OF assms(1)], simp)
    apply (erule waste)
    apply (rule wp_mono, erule wp_early_events, use assms(3) in simp)
    subgoal premises t for _ _ _ u
    proof -
      have u: "early m mbd k (ticks events) u" using t by simp
      then have "unat (pit_interrupt_count u) = ticks events" unfolding early_def by blast
      then have "pit_interrupt_count u \<noteq> 0" using assms(2) by (metis less_irrefl unat_0)
      then show ?thesis
        unfolding wp_kbind wp_kget wp_kseq
        apply (simp add: wp_kret)
        apply (rule wp_early_print [OF u], simp)
        by (erule wp_early_print, simp, rule assms(4))
    qed
    done
qed

section \<open>The first message with memory\<close>

text \<open>The allocator works, no page is in use yet, and the output buffer has no page.\<close>

definition unbuffered :: "nat \<Rightarrow> nat \<Rightarrow> 'y \<Rightarrow> ('y fat16_state_scheme) \<Rightarrow> bool" where
  "unbuffered U k M s \<longleftrightarrow> stdio_ok s \<and> \<not> is_init (std_output_buf s) \<and> \<not> is_init (std_input_buf s) \<and> serial_responsive (hw_byte s) PORT_COM1
     \<and> ahead (Suc k) s \<and> pmem_initialized s \<and> 0 \<notin> pmem_pages s \<and> card (pmem_pages s) = U \<and> used_pages s = {} \<and> boot_ok s \<and> ramdisk_block_size s = 0 \<and> ramdisk_block_pointers s = 0
     \<and> fat16_state.more s = M"

lemma unbuffered_init:
  assumes "unbuffered U k M s"
  shows "wp (io_buffer_init StdOutput) (\<lambda>_. mem_up U {} m k M) s"
proof -
  have s: "stdio_ok s" "\<not> is_init (std_output_buf s)" "\<not> is_init (std_input_buf s)" "serial_responsive (hw_byte s) PORT_COM1" "ahead (Suc k) s"
    "0 \<notin> pmem_pages s" "used_pages s = {}" "boot_ok s" "ramdisk_block_size s = 0" "ramdisk_block_pointers s = 0" "fat16_state.more s = M" "card (pmem_pages s) = U"
    using assms by (simp_all add: unbuffered_def)
  have out: "\<not> is_initializing (std_output_buf s)" "head_ptr (std_output_buf s) = 0" "tail_ptr (std_output_buf s) = 0" "autoflush_to_screen (std_output_buf s)"
    "\<not> is_initializing (std_input_buf s)" "head_ptr (std_input_buf s) = 0" "tail_ptr (std_input_buf s) = 0" "\<not> autoflush_to_screen (std_input_buf s)"
    using s(1-3) by (simp_all add: stdio_ok_def buf_ok_def Let_def)
  have same: "ahead j (upd_buf i f u) = ahead j u" for j i f and u :: "'a fat16_state_scheme"
  proof -
    have "frontier (upd_buf i f u) = frontier u" "pmem_curr_alloc_record (upd_buf i f u) = pmem_curr_alloc_record u" "pmem_blocks (upd_buf i f u) = pmem_blocks u"
      by (cases i; simp add: frontier_def entry_addr_def [abs_def] pmem_blocks_def)+
    then show ?thesis by (simp add: ahead_def del: upd_buf.simps)
  qed
  have fin: "mem_up U {} m k M (t\<lparr>std_output_buf := (std_output_buf t)\<lparr>b_addr := p, b_size := 4096, is_init := True, is_initializing := False\<rparr>\<rparr>)" (is "mem_up U _ _ _ _ ?u")
    if t: "took {p} (upd_buf StdOutput (\<lambda>b. b\<lparr>is_initializing := True\<rparr>) s) t" "ahead k t" for p t
  proof -
    note d = tookD [OF t(1), unfolded upd_buf_fields]
    obtain c x where e: "t = s\<lparr>std_output_buf := (std_output_buf s)\<lparr>is_initializing := True\<rparr>, pmem_curr_alloc_record := c, mem := x\<rparr>"
      using d(5) unfolding pmem_same_def by (metis upd_buf.simps(2))
    have u: "pmem_ok ?u" "used_pages ?u = {p}" "pmem_pages ?u = pmem_pages s" "ahead k ?u"
      using upd_buf_fields(5-7) [of StdOutput "\<lambda>_. std_output_buf ?u" t] same [of k StdOutput "\<lambda>_. std_output_buf ?u" t] d(1-3) t(2) s(7) by simp_all
    have p: "4096 dvd unat p" using pm.pages_aligned [OF stdio_okD(1) [OF s(1)]] d(4) by blast
    have "stdio_ok ?u"
      using u(1,2) p s(3) out by (simp add: stdio_ok_def buf_ok_def Let_def buf_ready_def buf_contents_def ring_len_def e)
    then show ?thesis
      using u s by (simp add: mem_up_def) (simp add: e boot_ok_def)
  qed
  show ?thesis
    unfolding io_buffer_init_def wp_kbind wp_kget wp_kseq wp_kmod std_buf.simps if_not_P [OF s(2)] if_not_P [OF out(1)]
    apply (rule wp_alloc_ahead [where k = k])
     apply (subst same, rule s(5))
    by (drule fin, assumption) simp
qed

lemma wp_first_char:
  assumes "unbuffered U k M s" "c \<noteq> 0" "\<And>t. mem_up U {} m k M t \<Longrightarrow> Q () t"
  shows "wp (std_print_char c) Q s"
proof -
  have s: "serial_responsive (hw_byte s) PORT_COM1" "pmem_initialized s" "\<not> is_initializing (std_output_buf s)"
    using assms(1) by (auto simp: unbuffered_def stdio_ok_def buf_ok_def Let_def)
  show ?thesis
    unfolding std_print_char_def wp_kseq
  proof (rule wp_serial_write [OF s(1)])
    fix l
    have u: "unbuffered U k M (s\<lparr>io_log := l\<rparr>)"
      using assms(1) by (simp add: unbuffered_def boot_ok_def ahead_def frontier_def entry_addr_def [abs_def] pmem_blocks_def)
    have "wp (io_buffer_place StdOutput [c, 0]) Q (s\<lparr>io_log := l\<rparr>)"
      unfolding io_buffer_place_def wp_kseq
    proof (rule wp_mono [OF unbuffered_init [OF u]])
      fix x t
      assume t: "mem_up U {} m k M t"
      show "wp (io_buffer_place_loop StdOutput [c, 0]) Q t"
        by (rule wp_mono [OF wp_place_out_loop [OF mem_upD(1,2) [OF t]]]) (simp add: printed_def assms(3) mem_up_frame [OF t])
    qed
    then show "wp (kbind pmem_isinit (\<lambda>init. kbind (kget (\<lambda>s. is_initializing (std_output_buf s))) (\<lambda>initializing.
       if init \<and> \<not> initializing then io_buffer_place StdOutput [c, 0x0] else vga_print_screen_char c DEFAULT_TEXT_COLOR))) Q (s\<lparr>io_log := l\<rparr>)"
      using s by (simp add: wp_kbind pmem_isinit_def)
  qed
qed

lemma wp_first_print:
  assumes "unbuffered U k M s" "c \<noteq> CHR 0x00" "c \<noteq> CHR ''%''" "render format args \<noteq> None" "\<And>t. mem_up U {} m k M t \<Longrightarrow> Q () t"
  shows "wp (printf (cstr (c # format)) args) Q s"
proof -
  have "(of_char c :: u8) \<noteq> 0" "(of_char c :: u8) \<noteq> 37" using assms(2,3) of_char_u8_special(1,2) by simp_all
  then show ?thesis
    by (simp add: cstr_def wp_kseq)
      (rule wp_first_char [OF assms(1)], assumption, rule wp_mem_print [unfolded cstr_def, OF _ assms(4)], assumption, rule assms(5))
qed

end
