(* ===== verification/Boot_Main.thy ===== *)
theory Boot_Main
  imports Boot_Late Boot_Fat16 Boot_Early
begin

text \<open>
  The whole start of the kernel, from the entry point the loader jumps to up to the shell that waits
  for keys, and what it does from then on.
\<close>

section \<open>Setting up memory\<close>

text \<open>
  The memory map yields a region with enough pages for the page tables, the self-tests and the disk,
  and that region holds only zeros.
\<close>

definition memory_fits :: "multiboot_info \<Rightarrow> u32 \<Rightarrow> memory \<Rightarrow> nat \<Rightarrow> nat \<Rightarrow> bool" where
  "memory_fits mbd kernel_end m start stop \<longleftrightarrow> kernel_end \<noteq> 0 \<and> drop_bit 6 (mbi_flags mbd) AND 1 \<noteq> 0
     \<and> 24 * mmap_count (mbi_mmap_length mbd) < 2147483648
     \<and> (case largest_region (memory_map m mbd) of (addr, len) \<Rightarrow> start = max (unat addr) (unat kernel_end) \<and> stop = unat addr + unat len)
     \<and> 0x100000 \<le> start \<and> stop < 4294967296 \<and> 2088 \<le> page_count start stop
     \<and> (\<forall>a. start \<le> unat a \<longrightarrow> unat a < stop \<longrightarrow> m a = 0)"

text \<open>What the early phase leaves above the file system.\<close>

definition at_rest :: "nat \<Rightarrow> 'z kernel_state_scheme \<Rightarrow> bool" where
  "at_rest n s \<longleftrightarrow> mlfq_rel s no_processes \<and> blank_table (processes s) 0 \<and> command_buffer_ptr s = 0
     \<and> length (command_buffer s) = 1024 \<and> length (working_buffer s) = 1024 \<and> unat (pit_interrupt_count s) = n"

lemma at_rest_above:
  fixes s t :: "'z kernel_state_scheme"
  assumes "vmem_state.more t = vmem_state.more s"
  shows "at_rest n t = at_rest n s"
  using assms by (cases s; cases t; simp add: at_rest_def mlfq_rel_def queues_rel_def)

lemma page_count_room:
  assumes "2088 \<le> page_count start stop"
  shows "start + (stop - start) div 4096 + 4096 + 65535 \<le> stop" "start \<le> stop"
proof -
  define f where "f = (start + (stop - start) div 4096 + 4096) div 4096 * 4096"
  have "start + (stop - start) div 4096 < f"
    unfolding f_def by (simp add: dividend_less_div_times)
  moreover have "2088 * 4096 \<le> stop - f"
    using assms by (simp add: page_count_def f_def less_eq_div_iff_mult_less_eq)
  ultimately show "start + (stop - start) div 4096 + 4096 + 65535 \<le> stop" "start \<le> stop" by linarith+
qed

lemma wp_early_pmem:
  fixes s :: "'z kernel_state_scheme"
  assumes "early m (Some mbd) kernel_end n s" "memory_fits mbd kernel_end m start stop"
    and "\<And>t. unbuffered (page_count start stop) 2085 (fat16_state.more t) t \<Longrightarrow> at_rest n t \<Longrightarrow> Q () (t :: 'z kernel_state_scheme)"
  shows "wp pmem_initialize Q s"
proof -
  obtain addr len where al: "largest_region (memory_map m mbd) = (addr, len)" by fastforce
  define r where "r = largest_region (memory_map (mem s) mbd)"
  define q where "q = region_above (pmem_kernel_reserved_end_addr s) r"
  have s: "serial_responsive (hw_byte s) PORT_COM1" "\<not> pmem_initialized s" "pmem_curr_alloc_record s = 0" "pmem_mbd s = Some mbd"
    "pmem_kernel_reserved_end_addr s = kernel_end" "mem s = m" using assms(1) by (simp_all add: early_def)
  have f: "kernel_end \<noteq> 0" "drop_bit 6 (mbi_flags mbd) AND 1 \<noteq> 0" "24 * mmap_count (mbi_mmap_length mbd) < 2147483648"
    "start = max (unat addr) (unat kernel_end)" "stop = unat addr + unat len" "0x100000 \<le> start" "stop < 4294967296"
    "2088 \<le> page_count start stop" "\<And>a. start \<le> unat a \<Longrightarrow> unat a < stop \<Longrightarrow> m a = 0"
    using assms(2) unfolding memory_fits_def al prod.case by blast+
  note room = page_count_room [OF f(8)]
  have rr: "r = (addr, len)" by (simp add: r_def al s(6))
  have r: "unat (fst r) + unat (snd r) < 4294967296" "unat kernel_end \<le> unat (fst r) + unat (snd r)"
    using f(4,5,7) room(2) by (simp_all add: rr)
  have q: "start = unat (fst q)" "stop = unat (fst q) + unat (snd q)"
    using unat_region_above(1,2) [OF r] f(4,5) by (simp_all add: q_def rr s(5))
  have "wp pmem_initialize (\<lambda>_ t. \<exists>v l. t = pmem_set_up q (s\<lparr>vidmem := v, io_log := l\<rparr>)) s"
    using s f unat_region_above(3) [OF r] pmem_set_up_ok(4) [OF q f(7) room(1), of s] q(1)
    by (intro wp_pmem_initialize [OF _ _ _ _ _ _ r_def _ q_def]) (simp_all add: word_le_nat_alt)
  then show ?thesis
  proof (rule wp_mono)
    fix x t
    assume "\<exists>v l. t = pmem_set_up q (s\<lparr>vidmem := v, io_log := l\<rparr>)"
    then obtain v l where t: "t = pmem_set_up q (s\<lparr>vidmem := v, io_log := l\<rparr>)" by blast
    have rec: "pmem_curr_alloc_record (s\<lparr>vidmem := v, io_log := l\<rparr>) = 0" using s(3) by simp
    note u = pmem_set_up_ok [OF q f(7) room(1) rec, folded t]
    have used: "used_pages t = {}" using u(2) by (simp add: used_pages_def)
    have card: "card (pmem_pages t) = page_count start stop" using card_free_pages [OF u(1)] u(2,6) used by simp
    have zero: "mem t a = 0" if "page_of a \<in> pmem_pages t" for a
    proof -
      have "start \<le> unat a \<and> unat a < stop" using u(5) [OF that] unat_page_of [of a] by (simp add: algebra_simps) linarith
      moreover have "unat (snd q div 4096) \<le> 4294967296" using div_le_dividend [of "unat (snd q)" 4096] q(2) f(7) by (simp add: unat_div_distrib)
      ultimately show ?thesis using f(9) [of a] s(6) by (simp add: t pmem_set_up_def pmem_zero_records_eq)
    qed
    have "frontier t \<subseteq> pmem_pages t" by (auto simp: frontier_def pmem_pages_def)
    then have "ahead 2086 t"
      using u(1,6) used zero f(8) by (auto simp: ahead_def) (simp add: t pmem_set_up_def s(3))
    moreover have "0 \<notin> pmem_pages t" using u(5) [of 0] f(6) by auto
    moreover have "std_buf i t = std_buf i s" for i by (cases i) (simp_all add: t pmem_set_up_def)
    moreover from this have "stdio_ok t" using u(1) assms(1) by (intro stdio_okI) (simp_all add: early_def buf_ok_def)
    moreover have "\<not> is_init (std_output_buf s)" "\<not> is_init (std_input_buf s)" "boot_ok s" "ramdisk_block_size s = 0" "ramdisk_block_pointers s = 0"
      using assms(1) std_buf.simps [of s] unfolding early_def by metis+
    ultimately have un: "unbuffered (page_count start stop) 2085 (fat16_state.more t) t"
      using s(1) used card unfolding unbuffered_def by simp (simp add: t pmem_set_up_def boot_ok_def)
    have "at_rest n t" using assms(1) by (simp add: at_rest_def early_def t pmem_set_up_def mlfq_rel_def queues_rel_def)
    then show "Q x t" using assms(3) [OF un] by simp
  qed
qed

lemma wp_first_pmem_tests:
  assumes "unbuffered U k M s" "16 \<le> k" "\<And>t. mem_up U {} m k M t \<Longrightarrow> Q () t"
  shows "wp pmem_run_tests Q s"
  unfolding pmem_run_tests_def wp_kseq
proof (rule wp_first_print [OF assms(1)])
  fix t
  assume t: "mem_up U {} m k M t"
  have "16 < pmem_blocks t" using aheadD(2) [OF mem_upD(4) [OF t]] assms(2) by simp
  then have r: "record_testable t" using mem_upD(1,14) [OF t] by (simp add: record_testable_def)
  show "wp (pmem_test_record 0) (\<lambda>_. wp (pmem_test_record 5) (\<lambda>_. wp (pmem_test_record 16)
      (\<lambda>_. wp (printf (cstr ''pmem: Testing Record lookups Passed.\<newline>'') []) Q))) t"
    apply (rule wp_record_test [OF r console_frame_refl], simp)
    apply (rule wp_record_test, assumption, assumption, simp)
    apply (rule wp_record_test, assumption, assumption, simp)
    by (rule wp_testable_print, assumption, assumption, simp) (rule assms(3) [OF mem_up_frame [OF t]])
qed simp_all

section \<open>From the self-tests to the file system\<close>

lemma up_disk_ready:
  fixes s :: "'z kernel_state_scheme"
  assumes "mem_up U K m k M s" "at_rest n s" "card K = 1025" "2088 \<le> U"
  shows "disk_ready K m (paging s) (U - 1026) (shell_state.more s) s"
proof -
  note d = mem_upD [OF assms(1)]
  have "finite K" using assms(3) by (metis card.infinite zero_neq_numeral)
  then have "card (used_pages s) = 1026" using d(9,10) assms(3) by simp
  then have free: "card (pmem_pages s - used_pages s) = U - 1026"
    using d(16) pm.used_pages [OF d(15)] by (simp add: card_Diff_subset finite_subset pmem_pages_def)
  have "p \<in> used_pages s \<and> p \<noteq> b_addr (std_output_buf s) \<and> (\<forall>a. page_of a = p \<longrightarrow> mem s a = m a)" if "p \<in> K" for p
    using d(9,10,11) that by auto
  then show ?thesis
    using d assms(2,4) free by (simp add: disk_ready_def fat16_ready_def at_rest_def)
qed

text \<open>The pages of the tables and the registers of the processor that map every address to itself.\<close>

definition mapping :: "u32 set \<Rightarrow> memory \<Rightarrow> u32 \<times> u32 \<times> u32 \<Rightarrow> bool" where
  "mapping K m r = (case r of (dir, base, control) \<Rightarrow> dir \<noteq> 0 \<and> 4096 dvd unat dir \<and> base = dir \<and> bit control 31
     \<and> (\<exists>T. K = insert dir (set T) \<and> identity_upto 1024 m dir T))"

lemma mapping_mapped:
  assumes "mapping K m (paging s)" "holds K m s" "fat16_ok s"
  shows "identity_mapped s"
proof -
  obtain T where T: "K = insert (vmem_page_directory s) (set T)" "identity_upto 1024 m (vmem_page_directory s) T"
    and c: "vmem_page_directory s \<noteq> 0" "4096 dvd unat (vmem_page_directory s)" "cr3 s = vmem_page_directory s" "bit (cr0 s) 31"
    using assms(1) by (auto simp: mapping_def paging_def)
  have same: "mem s a = m a" if "page_of a \<in> K" for a using assms(2) that by (simp add: holds_def)
  have "identity_upto 1024 (mem s) (vmem_page_directory s) T" by (rule identity_cong [OF T(2) order_refl c(2)]) (simp_all add: same T(1))
  moreover have "b_addr (std_output_buf s) \<notin> K"
    using assms(2) fat16_okD(3) [OF assms(3)] unfolding holds_def private_page_def by (metis std_buf.simps(2))
  ultimately show ?thesis using c T(1) fat16_okD(4) [OF assms(3)] by (auto simp: identity_mapped_def tables_mapped_def)
qed

lemma mapped_up_mapping:
  assumes "mapped_up U K T k M s" "\<And>a. page_of a \<in> K \<Longrightarrow> m a = mem s a"
  shows "mapping K m (paging s)"
proof -
  note d = mapped_upD [OF assms(1)]
  have t: "vmem_page_directory s \<noteq> 0" "4096 dvd unat (vmem_page_directory s)" "identity_upto 1024 (mem s) (vmem_page_directory s) T"
    using d(3) by (simp_all add: tables_mapped_def)
  have "identity_upto 1024 m (vmem_page_directory s) T" by (rule identity_cong [OF t(3) order_refl t(2)]) (simp_all add: assms(2) d(4))
  then show ?thesis using t d(2,4) by (auto simp: mapping_def paging_def identity_mapped_def)
qed

section \<open>Initialisation\<close>

text \<open>
  The state in which the kernel has finished its initialisation: memory is mapped to itself, the test
  program is on the disk, and of the pages 1026 hold the page tables and the output buffer and 1026 the
  disk and the process table.
\<close>

definition initialised :: "nat \<Rightarrow> nat \<Rightarrow> 'z kernel_state_scheme \<Rightarrow> bool" where
  "initialised U n s \<longleftrightarrow> (\<exists>K m r. mapping K m r \<and> sys_rel K m r s (start_system starting_files (U - 2052) False n)) \<and> stream StdInput s = []
     \<and> command_buffer_ptr s = 0 \<and> unat (pit_interrupt_count s) = n"

lemma wp_mapped_late:
  fixes s t :: "'z kernel_state_scheme"
  assumes "mapped_up U K T k N t" "at_rest n t" "2088 \<le> U" "mem_up U K (mem t) j (fat16_state.more t) s"
    and Q: "\<And>u :: 'z kernel_state_scheme. initialised U n u \<Longrightarrow> Q () u"
  shows "wp (late_boot a b c) Q s"
proof -
  have more: "fat16_state.more s = fat16_state.more t" by (rule mem_upD(13) [OF assms(4)])
  have same: "paging s = paging t" "vmem_state.more s = vmem_state.more t"
    using above_boot(1) [OF more] more by (simp_all, cases s, cases t, simp)
  have rest: "at_rest n s" using at_rest_above [OF same(2)] assms(2) by simp
  have map: "mapping K (mem t) (paging s)" unfolding same(1) by (rule mapped_up_mapping [OF assms(1)]) simp
  show ?thesis
  proof (rule wp_late_boot [OF up_disk_ready [OF assms(4) rest mapped_upD(5) [OF assms(1)] assms(3)], of n])
    fix w :: "'z kernel_state_scheme"
    assume w: "sys_rel K (mem t) (paging s) w (start_system starting_files (U - 1026 - 1026) False n)" "stream StdInput w = []"
      "command_buffer_ptr w = 0" "shell_state.more w = shell_state.more s"
    have "pit_interrupt_count w = pit_interrupt_count s" using w(4) by (cases w, cases s, simp)
    moreover have "unat (pit_interrupt_count s) = n" using rest by (simp add: at_rest_def)
    moreover have "U - 1026 - 1026 = U - 2052" by simp
    ultimately have "initialised U n w" using map w unfolding initialised_def by metis
    then show "Q () w" by (rule Q)
  qed (use assms(3) in simp)
qed

lemma wp_map_and_test:
  fixes s :: "'z kernel_state_scheme"
  assumes "at_rest n s" "mem_up U {} x 2085 M s" "2088 \<le> U" "\<And>t :: 'z kernel_state_scheme. initialised U n t \<Longrightarrow> Q () t"
  shows "wp (kseq vmem_init (kseq vmem_run_tests (kseq ramdisk_run_tests (kseq ramdisk_fat16_run_tests (late_boot a b c))))) Q s"
proof -
  have up: "mem_up U {} x (1025 + 1060) (fat16_state.more s) s" using assms(2) mem_upD(13) [OF assms(2)] by simp
  show ?thesis
    unfolding wp_kseq [of vmem_init]
  proof (rule wp_mono [OF wp_mem_vmem_init [OF up]])
    fix y and v :: "'z kernel_state_scheme"
    assume "\<exists>K T. mapped_up U K T 1060 (vmem_state.more s) v"
    then obtain K T where v: "mapped_up U K T 1060 (vmem_state.more s) v" by blast
    show "wp (kseq vmem_run_tests (kseq ramdisk_run_tests (kseq ramdisk_fat16_run_tests (late_boot a b c)))) Q v"
      unfolding wp_kseq [of vmem_run_tests] wp_kseq [of ramdisk_run_tests] wp_kseq [of ramdisk_fat16_run_tests]
    proof (rule wp_mem_vmem_tests [OF v])
      fix w :: "'z kernel_state_scheme"
      assume w: "mapped_up U K T 1060 (vmem_state.more s) w"
      have rest: "at_rest n w" using at_rest_above [OF mapped_upD(6) [OF w]] assms(1) by simp
      have "mem_up U K (mem w) (35 + (1025 + 0)) (fat16_state.more w) w" using mapped_upD(1) [OF w] by simp
      then show "wp ramdisk_run_tests (\<lambda>_. wp ramdisk_fat16_run_tests (\<lambda>_. wp (late_boot a b c) Q)) w"
        by (rule wp_mem_ramdisk_tests) (rule wp_mem_fat16_tests, assumption, rule wp_mapped_late [OF w rest assms(3)], assumption, rule assms(4))
    qed
  qed
qed

lemma wp_kernel_init:
  fixes s :: "'z kernel_state_scheme"
  assumes "early m (Some mbd) kernel_end 0 s" "is_serial_connected s = 0" "\<And>l. hw_byte s (Out_b PORT_COM1 0xAE # l) PORT_COM1 = 0xAE"
    and fits: "memory_fits mbd kernel_end m start stop" and busy: "0 < ticks (env_busy env)" "ticks (env_busy env) < 2147483648"
    and Q: "\<And>t :: 'z kernel_state_scheme. initialised (page_count start stop) (ticks (env_busy env)) t \<Longrightarrow> Q () t"
  shows "wp (kernel_init env) Q s"
proof -
  have U: "2088 \<le> page_count start stop" using fits by (simp add: memory_fits_def)
  have map: "wp (kseq vmem_init (kseq vmem_run_tests (kseq ramdisk_run_tests (kseq ramdisk_fat16_run_tests (late_boot a b c))))) Q u"
    if u: "at_rest (ticks (env_busy env)) t" "mem_up (page_count start stop) {} x 2085 (fat16_state.more t) u" for x a b c and t u :: "'z kernel_state_scheme"
  proof (rule wp_map_and_test [OF _ u(2) U])
    have "vmem_state.more u = vmem_state.more t" using mem_upD(13) [OF u(2)] by (cases u, cases t, simp)
    then show "at_rest (ticks (env_busy env)) u" using at_rest_above u(1) by blast
  qed (rule Q)
  show ?thesis
    unfolding kernel_init_def wp_kbind wp_if
    apply (rule wp_early_serial [OF assms(1-3)], simp)
    unfolding wp_kseq
    apply (rule wp_early_print, assumption, simp)
    apply (rule wp_early_idt, assumption)
    apply (rule wp_early_test_idt, assumption)
    apply (rule wp_early_pic(1), assumption)
    apply (rule wp_early_pic(2), assumption)
    apply (rule wp_early_pic(3), assumption)
    apply (rule wp_early_timer [OF _ busy], assumption)
    apply (rule wp_early_pmem [OF _ fits], assumption)
    apply (rule wp_first_pmem_tests, assumption, simp)
    by (rule map [unfolded wp_kseq wp_kbind])
qed

section \<open>The kernel\<close>

text \<open>The machine when the loader has put the kernel in memory: its variables have their initial values, and the serial port echoes.\<close>

definition loaded :: "'z kernel_state_scheme \<Rightarrow> bool" where
  "loaded s \<longleftrightarrow> early (mem s) (pmem_mbd s) (pmem_kernel_reserved_end_addr s) 0 s \<and> is_serial_connected s = 0
     \<and> (\<forall>l. hw_byte s (Out_b PORT_COM1 0xAE # l) PORT_COM1 = 0xAE)"

text \<open>All of \<open>kernel_main\<close> but the endless loop of the user code at its end.\<close>

definition kernel_session :: "boot_env \<Rightarrow> multiboot_info option \<Rightarrow> u32 \<Rightarrow> u32 \<Rightarrow> ('z kernel_state_scheme, unit) kM" where
  "kernel_session env mbd magic kernel_memory_end =
     kseq (printf (cstr ''kernel memory end is: %x\<newline>'') [ArgInt kernel_memory_end])
    (kseq (if magic \<noteq> MULTIBOOT_BOOTLOADER_MAGIC then
             kseq (printf (cstr ''magic number is %x'') [ArgInt magic]) (panic ''invalid magic number!'')
           else kret ())
    (kseq (pmem_set_mbd mbd kernel_memory_end)
    (kseq (kernel_init env)
    (kseq shell_init
    (kseq stdlib_flushstdio
    (kseq (set_kernel_stack (env_esp env))
          (run_ops deliver (Syscall # env_events env))))))))"

lemma kernel_main_session:
  "kernel_main env mbd magic kernel_end = kseq (kernel_session env mbd magic kernel_end) (kseq khang (panic ''shouldn't reach here?''))"
  by (simp add: kernel_main_def kernel_session_def enter_usermode_def kseq_def kbind_assoc)

lemma early_set_mbd:
  "early m x y n s \<Longrightarrow> early m mbd k n (s\<lparr>pmem_mbd := mbd, pmem_kernel_reserved_end_addr := k\<rparr>)"
  by (simp add: early_def std_buf_fields boot_ok_def mlfq_rel_def queues_rel_def)

lemma wp_rel_print:
  assumes "kernel_rel K m r s A" "render format args \<noteq> None" "\<And>t. kernel_rel K m r t A \<Longrightarrow> Q () t"
  shows "wp (printf (cstr format) args) Q s"
proof (rule wp_printf_frame [OF _ assms(2)])
  note ok = kernel_relD(2) [OF assms(1)]
  show "console_ok s" by (rule fat16_okD(4) [OF ok])
  fix t
  assume "console_frame s t"
  from shell_frame [OF ok this] show "Q () t" by (intro assms(3) kernel_rel_same [OF assms(1)])
qed

lemma kernel_rel_stack:
  assumes "kernel_rel K m r s A"
  shows "kernel_rel K m r (s\<lparr>TSS := x\<rparr>) A"
proof -
  let ?t = "s\<lparr>TSS := x\<rparr>"
  have f: "fat16_state.truncate ?t = fat16_state.truncate s" "stdio_state.truncate ?t = stdio_state.truncate s"
    by (simp_all add: fat16_state.truncate_def stdio_state.truncate_def)
  have "shell_same s ?t"
    using fat16_cong [OF f(1)] stdio_cong [OF f(2)] by (simp add: shell_same_def kept_def paging_def mlfq_rel_def queues_rel_def)
  then show ?thesis
    using fat16_cong(1) [OF f(1)] stdio_cong(6) [OF f(2)] kernel_relD(2) [OF assms]
    by (intro kernel_rel_same [OF assms]) simp_all
qed

lemma initialised_rel:
  assumes "initialised U n s"
  obtains K m r where "mapping K m r" "kernel_rel K m r s (start_system starting_files (U - 2052) False n)"
  using assms that by (auto simp: initialised_def kernel_rel_def pending_def start_system_def)

text \<open>Once initialised, the kernel prompts for a command and serves the events that come in.\<close>

lemma wp_shell_session:
  assumes "kernel_rel K m r s A" "admissible event_allowed system_step events A"
  shows "wp (kseq shell_init (kseq stdlib_flushstdio (kseq (set_kernel_stack esp) (run_ops deliver events))))
    (\<lambda>_ t. kernel_rel K m r t (fold system_step events A)) s"
proof -
  have flush: "wp stdlib_flushstdio Q t" if t: "kernel_rel K m r t A" "\<And>u. kernel_rel K m r u A \<Longrightarrow> Q () u" for t Q
  proof (rule wp_flushstdio)
    note ok = kernel_relD(2) [OF t(1)]
    show "stdio_ok t" "is_init (std_output_buf t)" by (rule fat16_okD [OF ok])+
    fix u
    assume "console_frame t u"
    from shell_frame [OF ok this] show "Q () u" by (intro t(2) kernel_rel_same [OF t(1)])
  qed
  show ?thesis
    unfolding shell_init_def shell_print_prefix_def set_kernel_stack_def wp_kseq wp_kmod
    apply (rule wp_rel_print [OF assms(1)], simp)
    apply (rule wp_rel_print, assumption, simp)
    apply (rule wp_rel_print, assumption, simp)
    apply (erule flush)
    by (rule kernel.run_simulates [OF kernel_rel_stack assms(2)])
qed

lemma wp_kernel_session:
  fixes s :: "'z kernel_state_scheme"
  assumes "loaded s" "memory_fits mbd kernel_end (mem s) start stop" "0 < ticks (env_busy env)" "ticks (env_busy env) < 2147483648"
    and A: "A = start_system starting_files (page_count start stop - 2052) False (ticks (env_busy env))"
    and adm: "admissible event_allowed system_step (Syscall # env_events env) A"
  shows "wp (kernel_session env (Some mbd) 0x2BADB002 kernel_end)
    (\<lambda>_ t. \<exists>K m r. mapping K m r \<and> kernel_rel K m r t (fold system_step (Syscall # env_events env) A)) s"
proof -
  have e: "early (mem s) (pmem_mbd s) (pmem_kernel_reserved_end_addr s) 0 s" "is_serial_connected s = 0"
    "\<And>l. hw_byte s (Out_b PORT_COM1 0xAE # l) PORT_COM1 = 0xAE" using assms(1) unfolding loaded_def by blast+
  have serve: "wp (kseq shell_init (kseq stdlib_flushstdio (kseq (set_kernel_stack (env_esp env)) (run_ops deliver (Syscall # env_events env)))))
    (\<lambda>_ t. \<exists>K m r. mapping K m r \<and> kernel_rel K m r t (fold system_step (Syscall # env_events env) A)) t"
    if i: "initialised (page_count start stop) (ticks (env_busy env)) t" for t :: "'z kernel_state_scheme"
  proof -
    obtain K m r where k: "mapping K m r" "kernel_rel K m r t A" using initialised_rel [OF i] unfolding A by blast
    show ?thesis by (rule wp_mono [OF wp_shell_session [OF k(2) adm]]) (use k(1) in blast)
  qed
  have init: "wp (kernel_init env) (\<lambda>_. wp (kseq shell_init (kseq stdlib_flushstdio (kseq (set_kernel_stack (env_esp env))
        (run_ops deliver (Syscall # env_events env)))))
      (\<lambda>_ t. \<exists>K m r. mapping K m r \<and> kernel_rel K m r t (fold system_step (Syscall # env_events env) A)))
      (s\<lparr>vidmem := v, io_log := l, pmem_mbd := Some mbd, pmem_kernel_reserved_end_addr := kernel_end\<rparr>)" for v l
  proof -
    have "early (mem s) (Some mbd) kernel_end 0 (s\<lparr>vidmem := v, io_log := l, pmem_mbd := Some mbd, pmem_kernel_reserved_end_addr := kernel_end\<rparr>)"
      using e(1) by (intro early_set_mbd) simp
    then show ?thesis using e(2,3) by (intro wp_kernel_init [OF _ _ _ assms(2-4)] serve) simp_all
  qed
  have magic: "\<not> (0x2BADB002 :: u32) \<noteq> MULTIBOOT_BOOTLOADER_MAGIC" by simp
  have s: "serial_responsive (hw_byte s) PORT_COM1" "\<not> pmem_initialized s" using e(1) by (simp_all add: early_def)
  show ?thesis
    unfolding kernel_session_def if_not_P [OF magic] pmem_set_mbd_def wp_kseq [of "printf _ _"] wp_kseq [of "kret _"] wp_kseq [of "kmod _"]
      wp_kseq [of "kernel_init _"] wp_kmod wp_kret
    by (rule wp_printf_early [OF s]) (simp, rule init)
qed

text \<open>A machine with 16 megabytes of memory from the first megabyte on, of which the kernel takes the first.\<close>

definition loaded_machine :: kernel_state where
  "loaded_machine = kernel_machine\<lparr>mem := boot_memory 0x100000 0x1000000, hw_byte := (\<lambda>_ p. if p = PORT_COM1 then 0xAE else 0x20),
     is_serial_connected := 0, pmem_initialized := False, pmem_curr_alloc_record := 0,
     std_input_buf := \<lparr>is_initializing = False, is_init = False, b_addr = 0, head_ptr = 0, tail_ptr = 0, b_size = 0, autoflush_to_screen = False\<rparr>,
     std_output_buf := \<lparr>is_initializing = False, is_init = False, b_addr = 0, head_ptr = 0, tail_ptr = 0, b_size = 0, autoflush_to_screen = True\<rparr>\<rparr>"

definition session_env :: boot_env where
  "session_env = \<lparr>env_idt_info = 0, env_isr = (\<lambda>_. 0), env_ecx = 0, env_busy = [event.Tick], env_TSS = 0, env_local = 0, env_gdt_tss = 0,
     env_esp = 0, env_events = [Key 0x26, event.Tick]\<rparr>"

lemma loaded_machine_loaded: "loaded loaded_machine"
proof -
  have r: "serial_responsive (hw_byte loaded_machine) PORT_COM1" by (simp add: serial_responsive_def loaded_machine_def)
  have m: "boot_ok kernel_machine" "ramdisk_block_size kernel_machine = 0" "ramdisk_block_pointers kernel_machine = 0"
    using kernel_machine_facts(1) by (simp_all add: fat16_ready_def)
  have b: "\<not> is_init (std_buf i loaded_machine) \<and> \<not> is_initializing (std_buf i loaded_machine) \<and> head_ptr (std_buf i loaded_machine) = 0
      \<and> tail_ptr (std_buf i loaded_machine) = 0 \<and> (autoflush_to_screen (std_buf i loaded_machine) \<longleftrightarrow> i = StdOutput)" for i
    by (cases i) (simp_all add: loaded_machine_def)
  have c: "pit_interrupt_count kernel_machine = 0" by (simp add: kernel_machine_def shell_state.extend_def)
  have f: "mlfq_rel loaded_machine no_processes = mlfq_rel kernel_machine no_processes" "boot_ok loaded_machine = boot_ok kernel_machine"
    by (simp_all add: loaded_machine_def mlfq_rel_def queues_rel_def boot_ok_def)
  show ?thesis
    unfolding loaded_def early_def using r b f m c kernel_machine_facts by simp (simp add: loaded_machine_def)
qed

lemma loaded_machine_fits: "memory_fits boot_mbd 0x200000 (mem loaded_machine) 0x200000 0x1100000"
proof -
  have "largest_region (memory_map (mem (boot_state 0x100000 0x1000000 0)) boot_mbd) = (0x100000, 0x1000000)" by (simp add: boot_state_region)
  then have region: "largest_region (memory_map (boot_memory 0x100000 0x1000000) boot_mbd) = (0x100000, 0x1000000)" by (simp add: boot_state_def)
  have zero: "boot_memory 0x100000 0x1000000 a = 0" if "0x200000 \<le> unat a" for a
  proof -
    have "a \<noteq> 0x9004" "a \<noteq> 0x9005" "a \<noteq> 0x9006" "a \<noteq> 0x9007" "a \<noteq> 0x900C" "a \<noteq> 0x900D" "a \<noteq> 0x900E" "a \<noteq> 0x900F"
      "a \<noteq> 0x9014" "a \<noteq> 0x9015" "a \<noteq> 0x9016" "a \<noteq> 0x9017" using that by auto
    then show ?thesis by (simp add: boot_memory_def store32_def)
  qed
  show ?thesis
    using region zero by (simp add: memory_fits_def loaded_machine_def boot_state_fields boot_mbd_def mmap_count_def page_count_def)
qed

section \<open>Properties\<close>

text \<open>C1: the kernel boots and then runs as specified. Loaded by a Multiboot loader on a machine whose serial port
  responds, whose memory map has a large enough region of zeros and whose timer ticks during its test, the
  kernel passes all its self-tests, maps memory to itself, makes its file system with the test program on
  it and comes to the shell; from there every admissible sequence of events changes the kernel as it changes
  the abstract system, with memory still mapped to itself. \<open>kernel_main\<close> is this session followed by the user
  code that spins: it neither panics nor returns.\<close>

theorem kernel_boots_and_runs:
  fixes s :: "'z kernel_state_scheme"
  assumes "loaded s" "memory_fits mbd kernel_end (mem s) start stop" "0 < ticks (env_busy env)" "ticks (env_busy env) < 2147483648"
    and "A = start_system starting_files (page_count start stop - 2052) False (ticks (env_busy env))"
    and "admissible event_allowed system_step (Syscall # env_events env) A"
  shows "wp (kernel_session env (Some mbd) 0x2BADB002 kernel_end) (\<lambda>_ t. identity_mapped t
      \<and> (\<exists>K m r. kernel_rel K m r t (fold system_step (Syscall # env_events env) A))) s
    \<and> kernel_main env (Some mbd) 0x2BADB002 kernel_end s
        = kseq (kernel_session env (Some mbd) 0x2BADB002 kernel_end) (kseq khang (panic ''shouldn't reach here?'')) s
    \<and> kernel_main env (Some mbd) 0x2BADB002 kernel_end s = Hang"
proof (intro conjI)
  show run: "wp (kernel_session env (Some mbd) 0x2BADB002 kernel_end) (\<lambda>_ t. identity_mapped t
      \<and> (\<exists>K m r. kernel_rel K m r t (fold system_step (Syscall # env_events env) A))) s"
  proof (rule wp_mono [OF wp_kernel_session [OF assms]])
    fix x t
    assume "\<exists>K m r. mapping K m r \<and> kernel_rel K m r t (fold system_step (Syscall # env_events env) A)"
    then obtain K m r where k: "mapping K m r" "kernel_rel K m r t (fold system_step (Syscall # env_events env) A)" by blast
    have "sys_rel K m r t (fold system_step (Syscall # env_events env) A)" using k(2) by (simp add: kernel_rel_def)
    note d = sys_relD [OF this]
    show "identity_mapped t \<and> (\<exists>K m r. kernel_rel K m r t (fold system_step (Syscall # env_events env) A))"
      using mapping_mapped [OF _ d(10,2)] k d(11) by blast
  qed
  from run obtain t where "kernel_session env (Some mbd) 0x2BADB002 kernel_end s = Ok () t" by (auto elim: wpE)
  then show "kernel_main env (Some mbd) 0x2BADB002 kernel_end s = Hang"
    unfolding kernel_main_session by (simp add: kseq_Ok) (simp add: kseq_def kbind_def khang_def)
qed (simp add: kernel_main_session)

theorem kernel_boots_and_runs_witness:
  "wp (kernel_session session_env (Some boot_mbd) 0x2BADB002 0x200000) (\<lambda>_ t. identity_mapped t
      \<and> (\<exists>K m r. kernel_rel K m r t \<lparr>sys_line = cstr ''l'', sys_files = starting_files, sys_procs = idle_only, sys_sched = no_processes,
            sys_pages = 1786, sys_input = True, sys_ticks = 2\<rparr>)) loaded_machine
    \<and> kernel_main session_env (Some boot_mbd) 0x2BADB002 0x200000 loaded_machine = Hang"
proof -
  let ?A = "start_system starting_files (page_count 0x200000 0x1100000 - 2052) False (ticks (env_busy session_env))"
  have pages: "page_count 0x200000 0x1100000 = 3839" by (simp add: page_count_def)
  have key: "key_byte 0x26 = 0x6C" by code_simp
  have upd: "mlfq_update no_processes = no_processes" by (simp add: mlfq_update_def no_processes_def top_process_def)
  note step = session_env_def start_system_def pages key type_allowed_def type_char_def shell_allowed_def shell_char_def input_ready_def schedule_def upd
    cstr_def
  have adm: "admissible event_allowed system_step (Syscall # env_events session_env) ?A" by (simp add: step)
  have res: "fold system_step (Syscall # env_events session_env) ?A = \<lparr>sys_line = cstr ''l'', sys_files = starting_files, sys_procs = idle_only,
      sys_sched = no_processes, sys_pages = 1786, sys_input = True, sys_ticks = 2\<rparr>" by (simp add: step)
  have busy: "0 < ticks (env_busy session_env)" "ticks (env_busy session_env) < 2147483648" by (simp_all add: session_env_def)
  from kernel_boots_and_runs [OF loaded_machine_loaded loaded_machine_fits busy refl adm] show ?thesis unfolding res by blast
qed

end
