(* ===== verification/Spec2Isabelle.thy ===== *)
theory Spec2Isabelle
  imports Boot_Main
begin

text \<open>
  \<^bold>\<open>A verification development for the Koiz-OS kernel.\<close>

  Koiz-OS is a 32-bit x86 kernel in C with some assembly. \<open>kernel_main\<close> brings up the serial port,
  interrupts, the timer, a page allocator, identity paging, a ramdisk with a FAT16 file system, a slab
  allocator, a process table and a scheduler; then it enters user mode, where only interrupts run the
  kernel: the timer, the keyboard and the system call each end in \<open>kernel_update\<close>, which flushes the
  output, lets the shell read the input and makes one step of the scheduler.

  \<^bold>\<open>The model.\<close> Every C function is a definition of the same name. Code is a computation \<open>kM\<close> over a
  record of the machine and the static variables; it ends in \<open>Ok\<close> with a value and a state, in
  \<open>Panicked\<close> with the message, in \<open>Hang\<close>, or in \<open>Undefined\<close> for an access outside an array. Integers
  are words of the width the source gives them. Memory is a function from 32-bit addresses to bytes,
  video memory one from offsets; ports answer with an arbitrary function of the port history, which the
  state records. The record grows by one extension for each component, so that every lemma holds for
  all later states. \<open>wp\<close> is total correctness: a statement with \<open>wp\<close> says that the code returns.

  \<^item> \<open>Prelude\<close>, \<open>Machine\<close>: computations, weakest preconditions, loops; memory, pages, ports
    (\<open>drivers/io/basic_io.c\<close>).
  \<^item> \<open>Vga\<close> (\<open>drivers/video/vga.c\<close>), \<open>Serial\<close> (\<open>drivers/serial/serial.c\<close>): the text screen with its
    scrolling and cursor; the serial port, whose busy waits end when the hardware is responsive.
  \<^item> \<open>Page_Spec\<close>, \<open>Pmem\<close>, \<open>Pmem_Mgr\<close> (\<open>drivers/memory/pmem.c\<close>): the locale of a page allocator; the
    search for a page as a next-fit search, that pages are fresh, freed and kept apart; the scan of the
    memory map.
  \<^item> \<open>Fifo_Spec\<close>, \<open>Stdio\<close>, \<open>Stdlib\<close> (\<open>libc/stdio.c\<close>, \<open>libc/stdlib.c\<close>): the locale of a bounded queue;
    ring buffers as queues of characters; \<open>printf\<close> against a reference that renders the format.
  \<^item> \<open>CString\<close> (\<open>libc/string.c\<close>): the routines on strings and memory, on arrays of known length.
  \<^item> \<open>Malloc\<close> (\<open>libc/malloc.c\<close>): the locale of a heap of sized blocks and the slabs that implement
    it. Where blocks lie is part of the invariant, and with it that their addresses are one block too high.
  \<^item> \<open>Block_Spec\<close>, \<open>Ramdisk\<close> (\<open>drivers/ramdisk/ramdisk.c\<close>): the locale of a byte-addressed device and the
    disk spread over pages that implements it.
  \<^item> \<open>Fat16\<close>, \<open>Fat16_Files\<close>, \<open>Fat16_Dir\<close>, \<open>Fs\<close> (\<open>fs/ramdisk_fat16.c\<close>, \<open>fs/fs.c\<close>): sectors, the cluster
    table, the directory; formatting, writing and reading files, and where they go wrong; the disk as
    an abstract list of named files, each of which survives the writing of the others.
  \<^item> \<open>Vmem\<close> (\<open>drivers/memory/vmem.c\<close>, \<open>pagedir.asm\<close>): the page tables, the processor's walk of them, the
    identity map.
  \<^item> \<open>Process\<close>, \<open>Sim_Spec\<close>, \<open>Sched\<close>, \<open>Exec\<close> (\<open>drivers/process/\<close>): the process table; the locale of a
    simulation between code and an abstract machine; the scheduler's linked lists as a multi-level
    feedback queue; the loading of programs.
  \<^item> \<open>Pic\<close>, \<open>Keyboard\<close>, \<open>Idt\<close>, \<open>Tss\<close> (\<open>drivers/irq/\<close>, \<open>drivers/input/\<close>, \<open>drivers/tss/\<close>,
    \<open>drivers/syscall/\<close>): the programming of the interrupt controllers against a model of the chip, the
    keyboard against the US layout, the interrupt table, the task segment.
  \<^item> \<open>Shell\<close>, \<open>Shell_Info\<close> (\<open>shell/\<close>): the command line, its splitting into words and the nine commands; that
    the commands that report only print.
  \<^item> \<open>Selftests\<close> (\<open>tests/\<close>): the tests the kernel runs when it boots.
  \<^item> \<open>Kernel\<close> (\<open>kernel_main.c\<close>, \<open>pit.asm\<close>, \<open>interrupt_handler.asm\<close>, \<open>usermode.asm\<close>): the timer, the
    dispatch of interrupts, boot and update, and where they stop.
  \<^item> \<open>System\<close>: the interrupt handlers simulate an abstract system of the line typed so far, the files, the
    programs started, the feedback queue, the free pages and the tick count. The relation keeps the
    program of every process in a page of its own and leaves the private pages of others alone.
  \<^item> \<open>Boot_Early\<close>, \<open>Boot_Memory\<close>, \<open>Boot_Ramdisk\<close>, \<open>Boot_Fat16\<close>, \<open>Boot_Late\<close>, \<open>Boot_Main\<close>: the start of the
    kernel in its phases. Before there is memory an interrupt only counts; the first message after the
    allocator is set up takes a page; the self-tests of paging, the ramdisk and the file system pass and give
    back what they took; the file system is made, and the process table. \<open>Boot_Main\<close> puts the phases
    together: \<open>kernel_main\<close> comes to the shell in the first state of the abstract system and from there on
    follows it.

  \<^bold>\<open>Interfaces.\<close> The locales \<open>page_source\<close>, \<open>page_allocator\<close>, \<open>fifo\<close>, \<open>heap\<close>, \<open>block_device\<close> and
  \<open>simulation\<close> state what a component promises to its clients; each is interpreted on the code's own
  definitions, \<open>simulation\<close> for the scheduler, for the file system and for the whole kernel.

  \<^bold>\<open>Loops and fuel.\<close> Counting loops are folds over their indices. The loops that empty a ring buffer have
  as much fuel as the buffer has cells and one more; running out is \<open>Hang\<close>, and the theorems show that it
  does not happen. The shell's loop has fuel 4096 for the 4095 characters its input can hold. The search
  for a page has fuel for one round of the records. Waiting for the serial port is a \<open>while\<close> that is
  \<open>None\<close> when the port never becomes ready.

  \<^bold>\<open>Boundary.\<close> Interrupt handlers run with interrupts disabled, so a handler is one step; an interrupt
  that arrives inside C code outside a handler is modelled only at the timer test, which waits for one.
  Addresses chosen by the linker and the contents of uninitialised stack bytes are parameters or part of
  the state. The boot theorem assumes what a loader and an emulator provide: the variables have their initial
  values, the serial port echoes, the region of memory that the allocator takes holds zeros and has at least
  2088 pages, and the timer ticks while its test waits. The zeros matter for the test of the file system only.
  The refinement of the whole kernel covers every command but \<open>read\<close>, whose buffer lies
  behind the page the slab allocator takes for it, as \<open>Malloc\<close> shows, so that what it overwrites depends on
  the allocation history.

  \<^bold>\<open>Not modelled.\<close> The Multiboot header, the segment table and the switch to it (\<open>boot/\<close>) run before the
  first C function and have no state the kernel uses. The user program is machine code that the kernel
  stores but never executes. \<open>old_code/\<close> is an earlier kernel that is not compiled. Caches, the
  translation buffer and the timing of devices are outside the model.
\<close>

end
